(* ===== verification/Prelude.thy ===== *)
theory Prelude
  imports Main "HOL-Library.Word" "HOL-Library.Signed_Division" "HOL-Library.Multiset"
begin

text \<open>
  The shared base of the development: how the C++ code's failures, its raw memory and its
  fixed-width integers are represented, and the generic facts about them that the component
  theories rest on.

  \<^item> A C++ call that can abort, throw or run into undefined behaviour returns a value of
    \<open>failure + 'a\<close>; \<open>andthen\<close> sequences such calls the way statements are sequenced.
  \<^item> A \<open>std::span\<close>, \<open>std::vector\<close> or page buffer is a list of bytes; \<open>mem_read\<close> and
    \<open>mem_write\<close> are \<open>memcpy\<close> from and to it.
  \<^item> \<open>word_bytes\<close> and \<open>bytes_word\<close> are the in-memory representation of an unsigned integer
    on a little-endian machine, which is what \<open>memcpy\<close> of an integer writes and reads.
\<close>

unbundle bit_operations_syntax

named_theorems outcome_simps \<open>sequencing of calls that may fail\<close>
named_theorems mem_simps \<open>reads over writes of raw memory\<close>

section \<open>Failures\<close>

text \<open>
  The ways a call ends other than by returning: a failed \<open>YADB_ASSERT\<close> (the debug build's
  \<open>std::abort\<close>), the exceptions the code throws, and behaviour the language leaves undefined
  (an access outside its buffer, reading an empty \<open>std::optional\<close>); \<open>Blocked\<close> is a call that waits for
  another thread in the state it is called in, \<open>NoReturn\<close> a loop that never ends. Message texts are
  left out.
\<close>

datatype failure = AssertionFailed | RuntimeError | InvalidArgument | LengthError | BadAlloc | Undefined | Blocked | NoReturn

type_synonym 'a outcome = "failure + 'a"

definition andthen :: "'e + 'a \<Rightarrow> ('a \<Rightarrow> 'e + 'b) \<Rightarrow> 'e + 'b" where
  "andthen m f = (case m of Inl e \<Rightarrow> Inl e | Inr x \<Rightarrow> f x)"

definition YADB_ASSERT :: "bool \<Rightarrow> unit outcome" where
  "YADB_ASSERT condition = (if condition then Inr () else Inl AssertionFailed)"

text \<open>Running a fallible body over the elements of a container, in order.\<close>

primrec for_each :: "('a \<Rightarrow> 's \<Rightarrow> 'e + 's) \<Rightarrow> 'a list \<Rightarrow> 's \<Rightarrow> 'e + 's" where
  "for_each f [] s = Inr s"
| "for_each f (x # xs) s = andthen (f x s) (for_each f xs)"

section \<open>Raw memory\<close>

type_synonym byte = "8 word"

definition mem_read :: "nat \<Rightarrow> nat \<Rightarrow> 'a list \<Rightarrow> 'a list" where
  "mem_read off n m = take n (drop off m)"

definition mem_write :: "nat \<Rightarrow> 'a list \<Rightarrow> 'a list \<Rightarrow> 'a list" where
  "mem_write off bs m = take off m @ bs @ drop (off + length bs) m"

section \<open>Little-endian integers\<close>

definition word_bytes :: "nat \<Rightarrow> 'a::len word \<Rightarrow> byte list" where
  "word_bytes n w = map (\<lambda>i. ucast (drop_bit (8 * i) w)) [0..<n]"

primrec bytes_word :: "byte list \<Rightarrow> 'a::len word" where
  "bytes_word [] = 0"
| "bytes_word (b # bs) = ucast b OR push_bit 8 (bytes_word bs)"

section \<open>Lemmas: sequencing\<close>

lemma andthen_simps [simp, outcome_simps]:
  "andthen (Inl e) f = Inl e"
  "andthen (Inr x) f = f x"
  by (simp_all add: andthen_def)

lemma andthen_eq_Inr [outcome_simps]:
  "andthen m f = Inr y \<longleftrightarrow> (\<exists>x. m = Inr x \<and> f x = Inr y)"
  by (cases m) simp_all

lemma andthen_eq_Inl:
  "andthen m f = Inl e \<longleftrightarrow> m = Inl e \<or> (\<exists>x. m = Inr x \<and> f x = Inl e)"
  by (cases m) simp_all

lemma andthen_assoc: "andthen (andthen m f) g = andthen m (\<lambda>x. andthen (f x) g)"
  by (cases m) simp_all

lemma andthen_cong [fundef_cong]:
  "m = m' \<Longrightarrow> (\<And>x. m' = Inr x \<Longrightarrow> f x = f' x) \<Longrightarrow> andthen m f = andthen m' f'"
  by (cases m') simp_all

lemma YADB_ASSERT_simps [simp, outcome_simps]:
  "YADB_ASSERT True = Inr ()"
  "YADB_ASSERT False = Inl AssertionFailed"
  by (simp_all add: YADB_ASSERT_def)

lemma YADB_ASSERT_eq_Inr [outcome_simps]: "YADB_ASSERT c = Inr u \<longleftrightarrow> c"
  by (simp add: YADB_ASSERT_def)

lemma for_each_append:
  "for_each f (xs @ ys) s = andthen (for_each f xs s) (for_each f ys)"
  by (induction xs arbitrary: s) (auto simp: andthen_def split: sum.splits)

lemma for_each_invariant:
  assumes "for_each f xs s = Inr s'" and "I s"
    and "\<And>x s s'. x \<in> set xs \<Longrightarrow> I s \<Longrightarrow> f x s = Inr s' \<Longrightarrow> I s'"
  shows "I s'"
  using assms
proof (induction xs arbitrary: s)
  case (Cons x xs)
  then show ?case by (auto simp: andthen_eq_Inr)
qed simp

section \<open>Lemmas: reads over writes\<close>

lemma length_mem_read [simp]: "length (mem_read off n m) = min n (length m - off)"
  by (simp add: mem_read_def)

lemma length_mem_write [simp]:
  "off + length bs \<le> length m \<Longrightarrow> length (mem_write off bs m) = length m"
  by (simp add: mem_write_def)

lemma nth_mem_write:
  assumes "off + length bs \<le> length m" and "i < length m"
  shows "mem_write off bs m ! i = (if off \<le> i \<and> i < off + length bs then bs ! (i - off) else m ! i)"
  using assms by (auto simp: mem_write_def nth_append)

lemma nth_mem_read: "off + n \<le> length m \<Longrightarrow> i < n \<Longrightarrow> mem_read off n m ! i = m ! (off + i)"
  by (simp add: mem_read_def)

lemma mem_read_write_same [mem_simps]:
  "off + length bs \<le> length m \<Longrightarrow> n = length bs \<Longrightarrow> mem_read off n (mem_write off bs m) = bs"
  by (simp add: mem_read_def mem_write_def)

lemma mem_read_write_other [mem_simps]:
  assumes "off + length bs \<le> length m" and "off' + n \<le> off \<or> off + length bs \<le> off'"
  shows "mem_read off' n (mem_write off bs m) = mem_read off' n m"
proof (rule nth_equalityI)
  show "length (mem_read off' n (mem_write off bs m)) = length (mem_read off' n m)"
    using assms by simp
next
  fix i assume "i < length (mem_read off' n (mem_write off bs m))"
  then have i: "i < n" "off' + i < length m" using assms by auto
  then show "mem_read off' n (mem_write off bs m) ! i = mem_read off' n m ! i"
    using assms by (auto simp: mem_read_def nth_mem_write)
qed

lemma mem_read_write_within:
  assumes "off + length bs \<le> length m" and "off \<le> off'" and "off' + n \<le> off + length bs"
  shows "mem_read off' n (mem_write off bs m) = mem_read (off' - off) n bs"
  using assms by (intro nth_equalityI) (auto simp: mem_read_def nth_mem_write)

lemma mem_read_0 [simp]: "mem_read off 0 m = []"
  by (simp add: mem_read_def)

lemma mem_write_Nil [simp]: "mem_write off [] m = m"
  by (simp add: mem_write_def)

section \<open>Lemmas: integers in memory\<close>

lemma unat_less_8: "unat (w :: 8 word) < 256"
  and unat_less_16: "unat (x :: 16 word) < 65536"
  and unat_less_32: "unat (y :: 32 word) < 4294967296"
  and unat_less_64: "unat (z :: 64 word) < 18446744073709551616"
  using unsigned_less [of w] unsigned_less [of x] unsigned_less [of y] unsigned_less [of z]
  by simp_all

lemmas unat_bounds = unat_less_8 unat_less_16 unat_less_32 unat_less_64

lemma unat_of_nat_16: "n < 65536 \<Longrightarrow> unat (of_nat n :: 16 word) = n"
  and unat_of_nat_32: "n < 4294967296 \<Longrightarrow> unat (of_nat n :: 32 word) = n"
  and unat_of_nat_64: "n < 18446744073709551616 \<Longrightarrow> unat (of_nat n :: 64 word) = n"
  by (simp_all add: unsigned_of_nat take_bit_nat_eq_self)

lemma sint_of_small_nat:
  assumes "k < 2 ^ 31"
  shows "sint (of_nat k :: 32 word) = int k"
  using assms by (simp add: signed_of_nat signed_take_bit_int_eq_self)

lemma sint_unat:
  assumes "unat (w :: 32 word) < 2 ^ 31"
  shows "sint w = int (unat w)"
  using sint_of_small_nat [OF assms] by simp

lemma unat_ucast_up:
  assumes "LENGTH('a::len) \<le> LENGTH('b::len)"
  shows "unat (ucast (w :: 'a word) :: 'b word) = unat w"
proof -
  have "unat w < 2 ^ LENGTH('b)"
    using unsigned_less [of w] assms by (meson less_le_trans one_le_numeral power_increasing)
  then show ?thesis by (simp add: unsigned_ucast_eq take_bit_nat_eq_self)
qed

lemma length_word_bytes [simp]: "length (word_bytes n w) = n"
  by (simp add: word_bytes_def)

lemma bit_bytes_word:
  "bit (bytes_word bs :: 'a::len word) i \<longleftrightarrow>
     i < LENGTH('a) \<and> i div 8 < length bs \<and> bit (bs ! (i div 8)) (i mod 8)"
proof (induction bs arbitrary: i)
  case Nil
  then show ?case by simp
next
  case (Cons b bs)
  show ?case
  proof (cases "i < 8")
    case True
    then show ?thesis
      by (auto simp: bit_or_iff bit_push_bit_iff bit_unsigned_iff)
  next
    case False
    then have "i div 8 = Suc ((i - 8) div 8)" and "i mod 8 = (i - 8) mod 8"
      by (simp_all add: le_div_geq le_mod_geq)
    moreover have "\<not> bit b i"
      using False by (auto dest: bit_imp_le_length)
    ultimately show ?thesis
      using False Cons.IH [of "i - 8"]
      by (auto simp: bit_or_iff bit_push_bit_iff bit_unsigned_iff)
  qed
qed

theorem bytes_word_bytes [simp]:
  assumes "LENGTH('a::len) \<le> 8 * n"
  shows "bytes_word (word_bytes n (w :: 'a word)) = w"
proof (rule bit_word_eqI)
  fix i assume i: "i < LENGTH('a)"
  then have "i div 8 < n" using assms by auto
  then show "bit (bytes_word (word_bytes n w) :: 'a word) i = bit w i"
    using i by (auto simp: bit_bytes_word word_bytes_def bit_unsigned_iff bit_drop_bit_eq)
qed

theorem word_bytes_word [simp]:
  assumes "LENGTH('a::len) = 8 * length bs"
  shows "word_bytes (length bs) (bytes_word bs :: 'a word) = bs"
proof (rule nth_equalityI)
  fix i assume "i < length (word_bytes (length bs) (bytes_word bs :: 'a word))"
  then have i: "i < length bs" by simp
  show "word_bytes (length bs) (bytes_word bs :: 'a word) ! i = bs ! i"
  proof (rule bit_word_eqI)
    fix k assume "k < LENGTH(8)"
    then have k: "k < 8" by simp
    then have "(8 * i + k) div 8 = i" and "(8 * i + k) mod 8 = k" and "8 * i + k < 8 * length bs"
      using i by auto
    then show "bit (word_bytes (length bs) (bytes_word bs :: 'a word) ! i) k = bit (bs ! i) k"
      using i k assms by (simp add: word_bytes_def bit_unsigned_iff bit_drop_bit_eq bit_bytes_word)
  qed
qed simp

lemma bytes_word_inject:
  assumes "LENGTH('a::len) = 8 * length bs" and "length cs = length bs"
    and "(bytes_word bs :: 'a word) = bytes_word cs"
  shows "bs = cs"
  using assms word_bytes_word [of bs, where 'a = 'a] word_bytes_word [of cs, where 'a = 'a] by metis

end
