(* ===== verification/Storage_Types.thy ===== *)
theory Storage_Types
  imports Prelude
begin

text \<open>
  The identifiers and constants of the on-disk storage layer (\<open>include/storage/on_disk/types.h\<close>
  and \<open>constants.h\<close>): file, page, slot and row ids at their C++ widths, the packing of a page id
  and a slot id into a row id, and the reserved values.
\<close>

section \<open>Ids and constants\<close>

type_synonym file_id_t = "32 word"
type_synonym page_id_t = "32 word"
type_synonym slot_id_t = "16 word"
type_synonym offset_t = "16 word"
type_synonym row_id_t = "64 word"
type_synonym size_t = "64 word"

definition PAGE_SIZE :: nat where "PAGE_SIZE = 4096"

definition INVALID_FILE_ID :: file_id_t where "INVALID_FILE_ID = - 1"
definition DISK_TABLE_MAPPING_FILE_ID :: file_id_t where "DISK_TABLE_MAPPING_FILE_ID = 0"
definition NULL_PAGE_ID :: page_id_t where "NULL_PAGE_ID = - 1"
definition ROOT_PAGE_ID :: page_id_t where "ROOT_PAGE_ID = 0"
definition MAX_FILE_ID_RETRIES :: nat where "MAX_FILE_ID_RETRIES = 10"

definition IsReservedFileId :: "file_id_t \<Rightarrow> bool" where
  "IsReservedFileId file_id \<longleftrightarrow> file_id = DISK_TABLE_MAPPING_FILE_ID"

text \<open>A page of a file, ordered as the defaulted \<open>operator<=>\<close> orders it.\<close>

datatype file_page_id_t = FilePageId (fp_file_id: file_id_t) (fp_page_id: page_id_t)

instantiation file_page_id_t :: linorder
begin

definition less_eq_file_page_id_t :: "file_page_id_t \<Rightarrow> file_page_id_t \<Rightarrow> bool" where
  "less_eq_file_page_id_t a b \<longleftrightarrow> fp_file_id a < fp_file_id b \<or>
     fp_file_id a = fp_file_id b \<and> fp_page_id a \<le> fp_page_id b"

definition less_file_page_id_t :: "file_page_id_t \<Rightarrow> file_page_id_t \<Rightarrow> bool" where
  "less_file_page_id_t a b \<longleftrightarrow> fp_file_id a < fp_file_id b \<or>
     fp_file_id a = fp_file_id b \<and> fp_page_id a < fp_page_id b"

instance
  by standard
    (auto simp: less_eq_file_page_id_t_def less_file_page_id_t_def intro: file_page_id_t.expand)

end

section \<open>Row ids\<close>

definition MakeRowId :: "page_id_t \<Rightarrow> slot_id_t \<Rightarrow> row_id_t" where
  "MakeRowId page_id slot_id = (push_bit 16 (ucast page_id) OR ucast slot_id)"

definition GetPageIdFromRowId :: "row_id_t \<Rightarrow> page_id_t" where
  "GetPageIdFromRowId row_id = ucast (drop_bit 16 row_id)"

definition GetSlotIdFromRowId :: "row_id_t \<Rightarrow> slot_id_t" where
  "GetSlotIdFromRowId row_id = ucast (row_id AND 0xFFFF)"

section \<open>Lemmas\<close>

lemma GetPageIdFromRowId_MakeRowId [simp]: "GetPageIdFromRowId (MakeRowId p s) = p"
  unfolding GetPageIdFromRowId_def MakeRowId_def
  by (rule bit_word_eqI)
    (auto simp: bit_simps dest: bit_imp_le_length)

lemma GetSlotIdFromRowId_MakeRowId [simp]: "GetSlotIdFromRowId (MakeRowId p s) = s"
proof (rule bit_word_eqI)
  fix n assume "n < LENGTH(16)"
  then have n: "n < 16" by simp
  have "bit (0xFFFF :: 64 word) n"
    using n bit_mask_iff [of 16 n, where 'a = "64 word"] by (simp add: mask_eq_exp_minus_1)
  then show "bit (GetSlotIdFromRowId (MakeRowId p s)) n = bit s n"
    unfolding GetSlotIdFromRowId_def MakeRowId_def
    using n by (simp add: bit_simps)
qed

lemma MakeRowId_inject [simp]: "MakeRowId p s = MakeRowId p' s' \<longleftrightarrow> p = p' \<and> s = s'"
  by (metis GetPageIdFromRowId_MakeRowId GetSlotIdFromRowId_MakeRowId)

lemma unat_MakeRowId: "unat (MakeRowId p s) = unat p * 65536 + unat s"
proof -
  have d: "push_bit 16 (ucast p) AND (ucast s :: 64 word) = 0"
    by (rule bit_word_eqI) (auto simp: bit_simps dest: bit_imp_le_length)
  note p = unat_less_32 [of p] and s = unat_less_16 [of s]
  have "MakeRowId p s = push_bit 16 (ucast p) + ucast s"
    unfolding MakeRowId_def using d by (simp add: disjunctive_add_eq_or)
  moreover have "unat (push_bit 16 (ucast p) :: 64 word) = unat p * 65536"
    using p by (simp add: push_bit_eq_mult unat_word_ariths unat_ucast_up)
  moreover have "unat (ucast s :: 64 word) = unat s"
    by (simp add: unat_ucast_up)
  ultimately show ?thesis
    using p s by (simp add: unat_word_ariths)
qed

end
