(* ===== verification/Page_Format.thy ===== *)
theory Page_Format
  imports Storage_Types
begin

text \<open>
  The slotted page (\<open>page_format.h\<close>, \<open>page_format.cpp\<close>) and its checksum (\<open>checksum.cpp\<close>) at the
  level of bytes: a page is the list of its 4096 bytes, every getter and setter is the \<open>memcpy\<close>
  the code performs at the offset it computes, and every operation is composed of them as in the
  code. Slot accessors carry the code's assertion on the slot id; a \<open>memcpy\<close> or \<open>subspan\<close> that would
  leave the page is undefined behaviour. This theory holds the definitions; \<open>Page_Layout\<close> and
  \<open>Page_Vacuum\<close> hold what is proved about them.
\<close>

type_synonym FullPage = "byte list"

section \<open>Layout constants\<close>

text \<open>A page type is the byte stored in the header, as for an \<open>enum class : uint8_t\<close>.\<close>

type_synonym PageType = "8 word"

definition PageType_Data :: PageType where "PageType_Data = 0"
definition PageType_BPTreeInner :: PageType where "PageType_BPTreeInner = 1"
definition PageType_BPTreeLeaf :: PageType where "PageType_BPTreeLeaf = 2"

definition CHECKSUM :: nat where "CHECKSUM = 0"
definition PAGE_TYPE :: nat where "PAGE_TYPE = CHECKSUM + 8"
definition NUM_TUPLES :: nat where "NUM_TUPLES = PAGE_TYPE + 1"
definition FREE_START :: nat where "FREE_START = NUM_TUPLES + 2"
definition FREE_END :: nat where "FREE_END = FREE_START + 2"
definition Header_SIZE :: nat where "Header_SIZE = FREE_END + 2"

definition SlotEntry_DELETED :: nat where "SlotEntry_DELETED = 0"
definition SlotEntry_OFFSET :: nat where "SlotEntry_OFFSET = SlotEntry_DELETED + 1"
definition SlotEntry_TUPLE_SIZE :: nat where "SlotEntry_TUPLE_SIZE = SlotEntry_OFFSET + 2"
definition SlotEntry_SIZE :: nat where "SlotEntry_SIZE = SlotEntry_TUPLE_SIZE + 2"

section \<open>Page header\<close>

definition GetPageType :: "FullPage \<Rightarrow> PageType" where
  "GetPageType page = bytes_word (mem_read PAGE_TYPE 1 page)"

definition GetNumTuples :: "FullPage \<Rightarrow> 16 word" where
  "GetNumTuples page = bytes_word (mem_read NUM_TUPLES 2 page)"

definition GetChecksum :: "FullPage \<Rightarrow> 64 word" where
  "GetChecksum page = bytes_word (mem_read CHECKSUM 8 page)"

definition GetStartFreeSpace :: "FullPage \<Rightarrow> offset_t" where
  "GetStartFreeSpace page = bytes_word (mem_read FREE_START 2 page)"

definition GetEndFreeSpace :: "FullPage \<Rightarrow> offset_t" where
  "GetEndFreeSpace page = bytes_word (mem_read FREE_END 2 page)"

definition GetFreeSpaceSize :: "FullPage \<Rightarrow> offset_t" where
  "GetFreeSpaceSize page = GetEndFreeSpace page - GetStartFreeSpace page"

definition SetPageType :: "FullPage \<Rightarrow> PageType \<Rightarrow> FullPage" where
  "SetPageType page page_type = mem_write PAGE_TYPE (word_bytes 1 page_type) page"

definition SetNumTuples :: "FullPage \<Rightarrow> 16 word \<Rightarrow> FullPage" where
  "SetNumTuples page num_tuples = mem_write NUM_TUPLES (word_bytes 2 num_tuples) page"

definition SetChecksum :: "FullPage \<Rightarrow> 64 word \<Rightarrow> FullPage" where
  "SetChecksum page checksum = mem_write CHECKSUM (word_bytes 8 checksum) page"

definition SetStartFreeSpace :: "FullPage \<Rightarrow> offset_t \<Rightarrow> FullPage" where
  "SetStartFreeSpace page offset = mem_write FREE_START (word_bytes 2 offset) page"

definition SetEndFreeSpace :: "FullPage \<Rightarrow> offset_t \<Rightarrow> FullPage" where
  "SetEndFreeSpace page offset = mem_write FREE_END (word_bytes 2 offset) page"

definition InitPage :: "FullPage \<Rightarrow> PageType \<Rightarrow> FullPage" where
  "InitPage page page_type =
     (let page = SetPageType page page_type;
          page = SetNumTuples page 0;
          page = SetStartFreeSpace page (of_nat Header_SIZE)
      in SetEndFreeSpace page (of_nat PAGE_SIZE))"

section \<open>Checksum\<close>

text \<open>The loop of \<open>checksum64\<close> over the page's eight-byte chunks, from byte \<open>i\<close> on.\<close>

function checksum64_from :: "nat \<Rightarrow> FullPage \<Rightarrow> 64 word \<Rightarrow> 64 word" where
  "checksum64_from i page res =
     (if i < length page
      then let chunk = bytes_word (mem_read i 8 page) in checksum64_from (i + 8) page (res XOR chunk)
      else res)"
  by pat_completeness auto
termination
  by (relation "measure (\<lambda>(i, page, res). length page - i)") auto

declare checksum64_from.simps [simp del]

definition checksum64 :: "FullPage \<Rightarrow> 64 word" where
  "checksum64 page = checksum64_from 0 page 0"

definition ValidChecksum :: "FullPage \<Rightarrow> bool" where
  "ValidChecksum page \<longleftrightarrow> checksum64 page = 0"

definition UpdateChecksum :: "FullPage \<Rightarrow> FullPage" where
  "UpdateChecksum page =
     (let page = SetChecksum page 0; new_checksum = checksum64 page
      in SetChecksum page new_checksum)"

section \<open>Slot directory accessors\<close>

text \<open>
  \<open>memcpy\<close> from and to an offset that is not a constant of the header: undefined outside the page.
\<close>

definition load :: "nat \<Rightarrow> nat \<Rightarrow> FullPage \<Rightarrow> byte list outcome" where
  "load off n page = (if off + n \<le> length page then Inr (mem_read off n page) else Inl Undefined)"

definition store :: "nat \<Rightarrow> byte list \<Rightarrow> FullPage \<Rightarrow> FullPage outcome" where
  "store off bs page =
     (if off + length bs \<le> length page then Inr (mem_write off bs page) else Inl Undefined)"

text \<open>
  \<open>static_cast<offset_t>(Header::SIZE + slot_id * SlotEntry::SIZE + field)\<close>: the sum is an \<open>int\<close>,
  the cast keeps its low 16 bits.
\<close>

definition slot_field :: "slot_id_t \<Rightarrow> nat \<Rightarrow> nat" where
  "slot_field slot_id field =
     unat (of_nat (Header_SIZE + unat slot_id * SlotEntry_SIZE + field) :: offset_t)"

text \<open>
  \<open>static_cast<uint16_t>((GetStartFreeSpace(page) - Header::SIZE) / SlotEntry::SIZE)\<close>: signed
  \<open>int\<close> arithmetic, truncating division, then the low 16 bits.
\<close>

definition GetPageCapacity :: "FullPage \<Rightarrow> 16 word" where
  "GetPageCapacity page =
     word_of_int ((int (unat (GetStartFreeSpace page)) - int Header_SIZE) sdiv int SlotEntry_SIZE)"

definition IsSlotDeleted :: "FullPage \<Rightarrow> slot_id_t \<Rightarrow> bool outcome" where
  "IsSlotDeleted page slot_id =
     andthen (YADB_ASSERT (slot_id < GetPageCapacity page)) (\<lambda>_.
     andthen (load (slot_field slot_id SlotEntry_DELETED) 1 page) (\<lambda>deleted.
     Inr ((bytes_word deleted :: 8 word) > 0)))"

definition GetSlotOffset :: "FullPage \<Rightarrow> slot_id_t \<Rightarrow> offset_t outcome" where
  "GetSlotOffset page slot_id =
     andthen (YADB_ASSERT (slot_id < GetPageCapacity page)) (\<lambda>_.
     andthen (load (slot_field slot_id SlotEntry_OFFSET) 2 page) (\<lambda>offset.
     Inr (bytes_word offset)))"

definition GetSlotSize :: "FullPage \<Rightarrow> slot_id_t \<Rightarrow> 16 word outcome" where
  "GetSlotSize page slot_id =
     andthen (YADB_ASSERT (slot_id < GetPageCapacity page)) (\<lambda>_.
     andthen (load (slot_field slot_id SlotEntry_TUPLE_SIZE) 2 page) (\<lambda>slot_size.
     Inr (bytes_word slot_size)))"

definition SetSlotDeleted :: "FullPage \<Rightarrow> slot_id_t \<Rightarrow> bool \<Rightarrow> FullPage outcome" where
  "SetSlotDeleted page slot_id deleted =
     andthen (YADB_ASSERT (slot_id < GetPageCapacity page)) (\<lambda>_.
     let value = (if deleted then 1 else 0) :: 8 word
     in store (slot_field slot_id SlotEntry_DELETED) (word_bytes 1 value) page)"

definition SetSlotOffset :: "FullPage \<Rightarrow> slot_id_t \<Rightarrow> offset_t \<Rightarrow> FullPage outcome" where
  "SetSlotOffset page slot_id offset =
     andthen (YADB_ASSERT (slot_id < GetPageCapacity page)) (\<lambda>_.
     store (slot_field slot_id SlotEntry_OFFSET) (word_bytes 2 offset) page)"

definition SetSlotSize :: "FullPage \<Rightarrow> slot_id_t \<Rightarrow> 16 word \<Rightarrow> FullPage outcome" where
  "SetSlotSize page slot_id sz =
     andthen (YADB_ASSERT (slot_id < GetPageCapacity page)) (\<lambda>_.
     store (slot_field slot_id SlotEntry_TUPLE_SIZE) (word_bytes 2 sz) page)"

section \<open>Records\<close>

text \<open>A span into the page is its offset and its length; \<open>subspan\<close> must stay inside the page.\<close>

type_synonym span = "nat \<times> nat"

definition record_span :: "FullPage \<Rightarrow> slot_id_t \<Rightarrow> span outcome" where
  "record_span page slot_id =
     andthen (YADB_ASSERT (slot_id < GetPageCapacity page)) (\<lambda>_.
     andthen (IsSlotDeleted page slot_id) (\<lambda>deleted.
     andthen (YADB_ASSERT (\<not> deleted)) (\<lambda>_.
     andthen (GetSlotOffset page slot_id) (\<lambda>offset.
     andthen (GetSlotSize page slot_id) (\<lambda>sz.
     if unat offset + unat sz \<le> length page then Inr (unat offset, unat sz)
     else Inl Undefined)))))"

definition ReadRecord :: "FullPage \<Rightarrow> slot_id_t \<Rightarrow> byte list outcome" where
  "ReadRecord page slot_id =
     andthen (record_span page slot_id) (\<lambda>(off, n). Inr (mem_read off n page))"

definition WriteRecord :: "FullPage \<Rightarrow> slot_id_t \<Rightarrow> span outcome" where
  "WriteRecord page slot_id = record_span page slot_id"

text \<open>\<open>std::copy\<close> of a row into the span that \<open>WriteRecord\<close> returned.\<close>

definition copy_to_span :: "byte list \<Rightarrow> span \<Rightarrow> FullPage \<Rightarrow> FullPage outcome" where
  "copy_to_span row sp page =
     (if length row \<le> snd sp then store (fst sp) row page else Inl Undefined)"

section \<open>Allocating and deleting slots\<close>

text \<open>\<open>SlotEntry::SIZE + size\<close> and \<open>GetEndFreeSpace(page) - size\<close> are \<open>size_t\<close> arithmetic.\<close>

definition AllocateSlot :: "FullPage \<Rightarrow> size_t \<Rightarrow> (slot_id_t option \<times> FullPage) outcome" where
  "AllocateSlot page sz =
     (if of_nat SlotEntry_SIZE + sz > ucast (GetFreeSpaceSize page) then Inr (None, page)
      else
        let record_offset = ucast (ucast (GetEndFreeSpace page) - sz) :: offset_t;
            page = SetEndFreeSpace page record_offset;
            new_slot_id = word_of_int
              ((int (unat (GetStartFreeSpace page)) - int Header_SIZE) sdiv int SlotEntry_SIZE);
            page = SetStartFreeSpace page (GetStartFreeSpace page + of_nat SlotEntry_SIZE)
        in andthen (SetSlotDeleted page new_slot_id False) (\<lambda>page.
           andthen (SetSlotOffset page new_slot_id record_offset) (\<lambda>page.
           andthen (SetSlotSize page new_slot_id (ucast sz)) (\<lambda>page.
           Inr (Some new_slot_id, SetNumTuples page (GetNumTuples page + 1))))))"

text \<open>
  The loop of \<open>AllocateSlotOrReuseSlot\<close> from \<open>slot\<close> on. It ends because a slot id below the
  capacity is below 65535, so incrementing it does not wrap around.
\<close>

lemma slot_step_measure:
  "(slot :: slot_id_t) < c \<Longrightarrow> 65536 - unat (slot + 1) < 65536 - unat slot"
  using unat_less_16 [of c] by (simp add: word_less_nat_alt unat_word_ariths)

function reuse_from :: "slot_id_t \<Rightarrow> FullPage \<Rightarrow> size_t \<Rightarrow> (slot_id_t option \<times> FullPage) outcome" where
  "reuse_from slot page sz =
     (if slot < GetPageCapacity page then
        andthen (IsSlotDeleted page slot) (\<lambda>deleted.
        if \<not> deleted then reuse_from (slot + 1) page sz
        else
          andthen (GetSlotSize page slot) (\<lambda>slot_size.
          if sz > ucast slot_size \<and> sz > ucast (GetFreeSpaceSize page)
          then reuse_from (slot + 1) page sz
          else
            andthen
              (if sz > ucast slot_size then
                 let record_offset = ucast (ucast (GetEndFreeSpace page) - sz) :: offset_t;
                     page = SetEndFreeSpace page record_offset
                 in SetSlotOffset page slot record_offset
               else Inr page) (\<lambda>page.
            andthen (SetSlotDeleted page slot False) (\<lambda>page.
            andthen (SetSlotSize page slot (ucast sz)) (\<lambda>page.
            Inr (Some slot, SetNumTuples page (GetNumTuples page + 1)))))))
      else AllocateSlot page sz)"
  by pat_completeness auto
termination
  by (relation "measure (\<lambda>(slot, page, sz). 65536 - unat slot)") (simp_all add: slot_step_measure)

declare reuse_from.simps [simp del]

definition AllocateSlotOrReuseSlot ::
    "FullPage \<Rightarrow> size_t \<Rightarrow> (slot_id_t option \<times> FullPage) outcome" where
  "AllocateSlotOrReuseSlot page sz = reuse_from 0 page sz"

definition DeleteSlot :: "FullPage \<Rightarrow> slot_id_t \<Rightarrow> FullPage outcome" where
  "DeleteSlot page slot_id =
     (let page = SetNumTuples page (GetNumTuples page - 1)
      in SetSlotDeleted page slot_id True)"

section \<open>Vacuuming\<close>

text \<open>
  The local \<open>SlotEntry\<close> of \<open>VacuumPage\<close>, and its priority queue: a bag of entries whose \<open>top\<close> is
  an entry with the greatest offset (among equal offsets, the one pushed first).
\<close>

record SlotEntry =
  se_slot_id :: slot_id_t
  se_offset :: offset_t
  se_size :: "16 word"

fun pq_pop :: "SlotEntry list \<Rightarrow> (SlotEntry \<times> SlotEntry list) option" where
  "pq_pop [] = None"
| "pq_pop (e # es) =
     (case pq_pop es of
        None \<Rightarrow> Some (e, [])
      | Some (m, rest) \<Rightarrow> if se_offset e < se_offset m then Some (m, e # rest) else Some (e, m # rest))"

lemma pq_pop_None [simp]: "pq_pop pq = None \<longleftrightarrow> pq = []"
  by (cases pq) (auto split: option.splits if_splits)

lemma pq_pop_mset: "pq_pop pq = Some (e, rest) \<Longrightarrow> mset pq = add_mset e (mset rest)"
  by (induction pq arbitrary: e rest) (auto split: option.splits if_splits)

text \<open>The first loop: deleted slots lose their space, live ones are queued.\<close>

function vacuum_collect ::
    "slot_id_t \<Rightarrow> FullPage \<Rightarrow> SlotEntry list \<Rightarrow> (FullPage \<times> SlotEntry list) outcome" where
  "vacuum_collect slot_id page pq =
     (if slot_id < GetPageCapacity page then
        andthen (GetSlotOffset page slot_id) (\<lambda>offset.
        andthen (GetSlotSize page slot_id) (\<lambda>sz.
        andthen (IsSlotDeleted page slot_id) (\<lambda>deleted.
        if deleted then
          andthen (SetSlotSize page slot_id 0) (\<lambda>page. vacuum_collect (slot_id + 1) page pq)
        else
          vacuum_collect (slot_id + 1) page (pq @ [\<lparr>se_slot_id = slot_id, se_offset = offset, se_size = sz\<rparr>]))))
      else Inr (page, pq))"
  by pat_completeness auto
termination
  by (relation "measure (\<lambda>(slot_id, page, pq). 65536 - unat slot_id)") (simp_all add: slot_step_measure)

declare vacuum_collect.simps [simp del]

text \<open>The second loop: the records move to the end of the page, greatest offset first.\<close>

function vacuum_move :: "SlotEntry list \<Rightarrow> offset_t \<Rightarrow> FullPage \<Rightarrow> FullPage outcome" where
  "vacuum_move pq freespace_end page =
     (case pq_pop pq of
        None \<Rightarrow> Inr (SetEndFreeSpace page freespace_end)
      | Some (slot_entry, pq) \<Rightarrow>
          let freespace_end = freespace_end - se_size slot_entry
          in andthen (load (unat (se_offset slot_entry)) (unat (se_size slot_entry)) page) (\<lambda>bytes.
             andthen (store (unat freespace_end) bytes page) (\<lambda>page.
             andthen (SetSlotOffset page (se_slot_id slot_entry) freespace_end) (\<lambda>page.
             vacuum_move pq freespace_end page))))"
  by pat_completeness auto
termination
proof (relation "measure (\<lambda>(pq, freespace_end, page). length pq)")
  fix pq rest :: "SlotEntry list" and e and x :: "SlotEntry \<times> SlotEntry list"
  assume "pq_pop pq = Some x" and "(e, rest) = x"
  then have "mset pq = add_mset e (mset rest)" by (auto dest: pq_pop_mset)
  then have "length pq = Suc (length rest)" by (metis size_add_mset size_mset)
  then show "((rest, fe, page'), pq, freespace_end, page)
      \<in> measure (\<lambda>(pq, freespace_end, page). length pq)" for fe page' freespace_end page
    by simp
qed simp

declare vacuum_move.simps [simp del]

definition VacuumPage :: "FullPage \<Rightarrow> FullPage outcome" where
  "VacuumPage page =
     andthen (vacuum_collect 0 page []) (\<lambda>(page, pq). vacuum_move pq (of_nat PAGE_SIZE) page)"

end
