(* ===== verification/Page_Layout.thy ===== *)
theory Page_Layout
  imports Page_Format
begin

text \<open>
  The slotted page as a data structure. The views below read the header and the slot directory as
  numbers; \<open>page_ok\<close> is the well-formedness invariant of a page whose records end at byte \<open>limit\<close>;
  \<open>page_records\<close> is the abstract page, the list of its slots' records with \<open>None\<close> for a deleted
  slot. The lemmas show that the byte-level operations of \<open>Page_Format\<close> never fail on a well-formed
  page, keep it well-formed and act on \<open>page_records\<close> as append, update and delete.
\<close>

named_theorems page_simps \<open>views of a page after a write to it\<close>

section \<open>Views and invariant\<close>

definition free_start :: "FullPage \<Rightarrow> nat" where
  "free_start page = unat (GetStartFreeSpace page)"

definition free_end :: "FullPage \<Rightarrow> nat" where
  "free_end page = unat (GetEndFreeSpace page)"

definition num_slots :: "FullPage \<Rightarrow> nat" where
  "num_slots page = (free_start page - 15) div 5"

definition slot_del :: "FullPage \<Rightarrow> nat \<Rightarrow> bool" where
  "slot_del page i \<longleftrightarrow> (bytes_word (mem_read (15 + 5 * i) 1 page) :: 8 word) > 0"

definition slot_off :: "FullPage \<Rightarrow> nat \<Rightarrow> nat" where
  "slot_off page i = unat (bytes_word (mem_read (16 + 5 * i) 2 page) :: 16 word)"

definition slot_sz :: "FullPage \<Rightarrow> nat \<Rightarrow> nat" where
  "slot_sz page i = unat (bytes_word (mem_read (18 + 5 * i) 2 page) :: 16 word)"

definition record_at :: "FullPage \<Rightarrow> nat \<Rightarrow> byte list" where
  "record_at page i = mem_read (slot_off page i) (slot_sz page i) page"

definition page_records :: "FullPage \<Rightarrow> byte list option list" where
  "page_records page =
     map (\<lambda>i. if slot_del page i then None else Some (record_at page i)) [0..<num_slots page]"

definition live_slots :: "FullPage \<Rightarrow> nat set" where
  "live_slots page = {i. i < num_slots page \<and> \<not> slot_del page i}"

definition directory_ok :: "FullPage \<Rightarrow> bool" where
  "directory_ok page \<longleftrightarrow> length page = 4096 \<and> free_start page = 15 + 5 * num_slots page \<and>
     free_start page \<le> 4096"

definition extent_ok :: "nat \<Rightarrow> FullPage \<Rightarrow> nat \<Rightarrow> bool" where
  "extent_ok limit page i \<longleftrightarrow> slot_off page i + slot_sz page i \<le> limit \<and>
     (slot_sz page i = 0 \<or> free_end page \<le> slot_off page i)"

definition apart :: "FullPage \<Rightarrow> nat \<Rightarrow> nat \<Rightarrow> bool" where
  "apart page i j \<longleftrightarrow> slot_sz page i = 0 \<or> slot_sz page j = 0 \<or>
     slot_off page i + slot_sz page i \<le> slot_off page j \<or>
     slot_off page j + slot_sz page j \<le> slot_off page i"

definition page_ok :: "nat \<Rightarrow> FullPage \<Rightarrow> bool" where
  "page_ok limit page \<longleftrightarrow> directory_ok page \<and> limit \<le> 4096 \<and>
     free_start page \<le> free_end page \<and> free_end page \<le> limit \<and>
     (\<forall>i < num_slots page. extent_ok limit page i) \<and>
     (\<forall>i < num_slots page. \<forall>j < num_slots page. i \<noteq> j \<longrightarrow> apart page i j) \<and>
     unat (GetNumTuples page) = card (live_slots page)"

text \<open>The writes the slot setters perform, without their checks.\<close>

definition put_del :: "FullPage \<Rightarrow> nat \<Rightarrow> bool \<Rightarrow> FullPage" where
  "put_del page i deleted =
     mem_write (15 + 5 * i) (word_bytes 1 (if deleted then 1 else 0 :: 8 word)) page"

definition put_off :: "FullPage \<Rightarrow> nat \<Rightarrow> offset_t \<Rightarrow> FullPage" where
  "put_off page i offset = mem_write (16 + 5 * i) (word_bytes 2 offset) page"

definition put_sz :: "FullPage \<Rightarrow> nat \<Rightarrow> 16 word \<Rightarrow> FullPage" where
  "put_sz page i sz = mem_write (18 + 5 * i) (word_bytes 2 sz) page"

lemmas layout_consts = PAGE_SIZE_def CHECKSUM_def PAGE_TYPE_def NUM_TUPLES_def FREE_START_def
  FREE_END_def Header_SIZE_def SlotEntry_DELETED_def SlotEntry_OFFSET_def SlotEntry_TUPLE_SIZE_def
  SlotEntry_SIZE_def

lemmas header_defs = GetPageType_def GetNumTuples_def GetChecksum_def GetStartFreeSpace_def
  GetEndFreeSpace_def SetPageType_def SetNumTuples_def SetChecksum_def SetStartFreeSpace_def
  SetEndFreeSpace_def

lemmas slot_defs = slot_del_def slot_off_def slot_sz_def put_del_def put_off_def put_sz_def

section \<open>Views after writes\<close>

lemma header_write_length [page_simps]:
  assumes "length page = 4096"
  shows "length (SetPageType page t) = 4096"
    and "length (SetNumTuples page n) = 4096"
    and "length (SetChecksum page c) = 4096"
    and "length (SetStartFreeSpace page a) = 4096"
    and "length (SetEndFreeSpace page b) = 4096"
  using assms by (simp_all add: header_defs layout_consts)

lemma slot_write_length [page_simps]:
  assumes "length page = 4096" and "20 + 5 * i \<le> 4096"
  shows "length (put_del page i d) = 4096"
    and "length (put_off page i a) = 4096"
    and "length (put_sz page i s) = 4096"
  using assms by (simp_all add: slot_defs)

lemma header_views [page_simps]:
  assumes "length page = 4096"
  shows "GetPageType (SetPageType page t) = t"
    and "GetNumTuples (SetPageType page t) = GetNumTuples page"
    and "GetStartFreeSpace (SetPageType page t) = GetStartFreeSpace page"
    and "GetEndFreeSpace (SetPageType page t) = GetEndFreeSpace page"
    and "GetNumTuples (SetNumTuples page n) = n"
    and "GetPageType (SetNumTuples page n) = GetPageType page"
    and "GetStartFreeSpace (SetNumTuples page n) = GetStartFreeSpace page"
    and "GetEndFreeSpace (SetNumTuples page n) = GetEndFreeSpace page"
    and "GetStartFreeSpace (SetStartFreeSpace page a) = a"
    and "GetPageType (SetStartFreeSpace page a) = GetPageType page"
    and "GetNumTuples (SetStartFreeSpace page a) = GetNumTuples page"
    and "GetEndFreeSpace (SetStartFreeSpace page a) = GetEndFreeSpace page"
    and "GetEndFreeSpace (SetEndFreeSpace page b) = b"
    and "GetPageType (SetEndFreeSpace page b) = GetPageType page"
    and "GetNumTuples (SetEndFreeSpace page b) = GetNumTuples page"
    and "GetStartFreeSpace (SetEndFreeSpace page b) = GetStartFreeSpace page"
  using assms by (simp_all add: header_defs layout_consts mem_simps)

lemma header_frame:
  assumes "length page = 4096" and "15 \<le> off"
  shows "mem_read off n (SetPageType page t) = mem_read off n page"
    and "mem_read off n (SetNumTuples page k) = mem_read off n page"
    and "mem_read off n (SetStartFreeSpace page a) = mem_read off n page"
    and "mem_read off n (SetEndFreeSpace page b) = mem_read off n page"
  using assms by (simp_all add: header_defs layout_consts mem_simps)

lemma slot_frame:
  assumes "length page = 4096" and "20 + 5 * i \<le> off" and "20 + 5 * i \<le> 4096"
  shows "mem_read off n (put_del page i d) = mem_read off n page"
    and "mem_read off n (put_off page i a) = mem_read off n page"
    and "mem_read off n (put_sz page i s) = mem_read off n page"
  using assms by (simp_all add: slot_defs mem_simps)

lemma slot_views_header [page_simps]:
  assumes "length page = 4096"
  shows "slot_del (SetNumTuples page n) i = slot_del page i"
    and "slot_off (SetNumTuples page n) i = slot_off page i"
    and "slot_sz (SetNumTuples page n) i = slot_sz page i"
    and "slot_del (SetStartFreeSpace page a) i = slot_del page i"
    and "slot_off (SetStartFreeSpace page a) i = slot_off page i"
    and "slot_sz (SetStartFreeSpace page a) i = slot_sz page i"
    and "slot_del (SetEndFreeSpace page b) i = slot_del page i"
    and "slot_off (SetEndFreeSpace page b) i = slot_off page i"
    and "slot_sz (SetEndFreeSpace page b) i = slot_sz page i"
  using assms by (simp_all add: slot_defs header_frame)

lemma header_views_slot [page_simps]:
  assumes "length page = 4096" and "20 + 5 * i \<le> 4096"
  shows "GetNumTuples (put_del page i d) = GetNumTuples page"
    and "GetStartFreeSpace (put_del page i d) = GetStartFreeSpace page"
    and "GetEndFreeSpace (put_del page i d) = GetEndFreeSpace page"
    and "GetNumTuples (put_off page i a) = GetNumTuples page"
    and "GetStartFreeSpace (put_off page i a) = GetStartFreeSpace page"
    and "GetEndFreeSpace (put_off page i a) = GetEndFreeSpace page"
    and "GetNumTuples (put_sz page i s) = GetNumTuples page"
    and "GetStartFreeSpace (put_sz page i s) = GetStartFreeSpace page"
    and "GetEndFreeSpace (put_sz page i s) = GetEndFreeSpace page"
  using assms by (simp_all add: header_defs slot_defs layout_consts mem_simps)

lemma slot_addr_apart:
  "(j :: nat) \<noteq> i \<Longrightarrow> a + m \<le> 5 \<Longrightarrow> b + n \<le> 5 \<Longrightarrow>
     15 + 5 * j + a + m \<le> 15 + 5 * i + b \<or> 15 + 5 * i + b + n \<le> 15 + 5 * j + a"
  by linarith

lemma slot_read_write_other:
  assumes "length page = 4096" and "20 + 5 * i \<le> 4096" and "j \<noteq> i"
    and "a + m \<le> 5" and "b + length bs \<le> 5"
  shows "mem_read (15 + a + 5 * j) m (mem_write (15 + b + 5 * i) bs page) = mem_read (15 + a + 5 * j) m page"
  using assms by (intro mem_read_write_other) linarith+

lemma slot_views_slot [page_simps]:
  assumes "length page = 4096" and "20 + 5 * i \<le> 4096"
  shows "slot_del (put_del page i d) j = (if j = i then d else slot_del page j)"
    and "slot_off (put_del page i d) j = slot_off page j"
    and "slot_sz (put_del page i d) j = slot_sz page j"
    and "slot_del (put_off page i a) j = slot_del page j"
    and "slot_off (put_off page i a) j = (if j = i then unat a else slot_off page j)"
    and "slot_sz (put_off page i a) j = slot_sz page j"
    and "slot_del (put_sz page i s) j = slot_del page j"
    and "slot_off (put_sz page i s) j = slot_off page j"
    and "slot_sz (put_sz page i s) j = (if j = i then unat s else slot_sz page j)"
proof -
  note other = slot_read_write_other [OF assms]
  show "slot_del (put_del page i d) j = (if j = i then d else slot_del page j)"
    using assms other [of j 0 1 0] by (auto simp: slot_defs mem_simps)
  show "slot_off (put_del page i d) j = slot_off page j"
    using assms other [of j 1 2 0] by (cases "j = i") (auto simp: slot_defs mem_simps)
  show "slot_sz (put_del page i d) j = slot_sz page j"
    using assms other [of j 3 2 0] by (cases "j = i") (auto simp: slot_defs mem_simps)
  show "slot_del (put_off page i a) j = slot_del page j"
    using assms other [of j 0 1 1] by (cases "j = i") (auto simp: slot_defs mem_simps)
  show "slot_off (put_off page i a) j = (if j = i then unat a else slot_off page j)"
    using assms other [of j 1 2 1] by (auto simp: slot_defs mem_simps)
  show "slot_sz (put_off page i a) j = slot_sz page j"
    using assms other [of j 3 2 1] by (cases "j = i") (auto simp: slot_defs mem_simps)
  show "slot_del (put_sz page i s) j = slot_del page j"
    using assms other [of j 0 1 3] by (cases "j = i") (auto simp: slot_defs mem_simps)
  show "slot_off (put_sz page i s) j = slot_off page j"
    using assms other [of j 1 2 3] by (cases "j = i") (auto simp: slot_defs mem_simps)
  show "slot_sz (put_sz page i s) j = (if j = i then unat s else slot_sz page j)"
    using assms other [of j 3 2 3] by (auto simp: slot_defs mem_simps)
qed

text \<open>A write to the record area leaves the header and the directory alone.\<close>

lemma views_data_write [page_simps]:
  assumes "length page = 4096" and "off + length bs \<le> 4096" and "15 \<le> off"
  shows "length (mem_write off bs page) = 4096"
    and "GetNumTuples (mem_write off bs page) = GetNumTuples page"
    and "GetStartFreeSpace (mem_write off bs page) = GetStartFreeSpace page"
    and "GetEndFreeSpace (mem_write off bs page) = GetEndFreeSpace page"
    and "20 + 5 * j \<le> off \<Longrightarrow> slot_del (mem_write off bs page) j = slot_del page j"
    and "20 + 5 * j \<le> off \<Longrightarrow> slot_off (mem_write off bs page) j = slot_off page j"
    and "20 + 5 * j \<le> off \<Longrightarrow> slot_sz (mem_write off bs page) j = slot_sz page j"
  using assms by (simp_all add: header_defs slot_defs layout_consts mem_simps)

section \<open>Slot accessors on a well-formed directory\<close>

lemma directory_okD:
  assumes "directory_ok page"
  shows "length page = 4096" and "free_start page = 15 + 5 * num_slots page"
    and "15 + 5 * num_slots page \<le> 4096"
    and "i < num_slots page \<Longrightarrow> 20 + 5 * i \<le> 4096"
  using assms by (auto simp: directory_ok_def)

lemma sdiv_nat: "(int a - int b) sdiv int c = int ((a - b) div c)" if "b \<le> a"
  using that by (simp add: signed_divide_int_def zdiv_int of_nat_diff sgn_if)

lemma GetPageCapacity_eq:
  assumes "15 \<le> free_start page"
  shows "GetPageCapacity page = of_nat (num_slots page)"
    and "unat (GetPageCapacity page) = num_slots page"
proof -
  show c: "GetPageCapacity page = of_nat (num_slots page)"
    using assms sdiv_nat [of 15 "free_start page" 5]
    by (simp add: GetPageCapacity_def layout_consts num_slots_def free_start_def)
  have "num_slots page < 65536"
    using unat_less_16 [of "GetStartFreeSpace page"] by (simp add: num_slots_def free_start_def)
  then show "unat (GetPageCapacity page) = num_slots page"
    unfolding c by (simp add: unat_of_nat_16)
qed

lemma slot_less_capacity:
  "directory_ok page \<Longrightarrow> slot < GetPageCapacity page \<longleftrightarrow> unat slot < num_slots page"
  using GetPageCapacity_eq(2) [of page] by (simp add: word_less_nat_alt directory_ok_def)

lemma slot_field_eq:
  assumes "directory_ok page" and "unat slot < num_slots page" and "field \<le> 4"
  shows "slot_field slot field = 15 + field + 5 * unat slot"
proof -
  have "Header_SIZE + unat slot * SlotEntry_SIZE + field < 65536"
    using assms by (simp add: layout_consts directory_ok_def)
  then have "slot_field slot field = Header_SIZE + unat slot * SlotEntry_SIZE + field"
    unfolding slot_field_def by (rule unat_of_nat_16)
  then show ?thesis by (simp add: layout_consts)
qed

lemma slot_getters:
  assumes "directory_ok page" and "unat slot < num_slots page"
  shows "IsSlotDeleted page slot = Inr (slot_del page (unat slot))"
    and "GetSlotOffset page slot = Inr (of_nat (slot_off page (unat slot)))"
    and "GetSlotSize page slot = Inr (of_nat (slot_sz page (unat slot)))"
  using assms directory_okD [OF assms(1)]
  by (simp_all add: IsSlotDeleted_def GetSlotOffset_def GetSlotSize_def slot_less_capacity load_def
      slot_field_eq SlotEntry_DELETED_def SlotEntry_OFFSET_def SlotEntry_TUPLE_SIZE_def slot_defs)

lemma slot_setters:
  assumes "directory_ok page" and "unat slot < num_slots page"
  shows "SetSlotDeleted page slot d = Inr (put_del page (unat slot) d)"
    and "SetSlotOffset page slot a = Inr (put_off page (unat slot) a)"
    and "SetSlotSize page slot s = Inr (put_sz page (unat slot) s)"
  using assms directory_okD [OF assms(1)]
  by (simp_all add: SetSlotDeleted_def SetSlotOffset_def SetSlotSize_def slot_less_capacity store_def
      slot_field_eq SlotEntry_DELETED_def SlotEntry_OFFSET_def SlotEntry_TUPLE_SIZE_def slot_defs)

lemma slot_out_of_range:
  assumes "directory_ok page" and "num_slots page \<le> unat slot"
  shows "IsSlotDeleted page slot = Inl AssertionFailed"
    and "GetSlotOffset page slot = Inl AssertionFailed"
    and "GetSlotSize page slot = Inl AssertionFailed"
    and "ReadRecord page slot = Inl AssertionFailed"
    and "SetSlotDeleted page slot d = Inl AssertionFailed"
  using assms
  by (simp_all add: IsSlotDeleted_def GetSlotOffset_def GetSlotSize_def ReadRecord_def
      record_span_def SetSlotDeleted_def slot_less_capacity)

lemma slot_sz_less: "slot_sz page i < 65536" and slot_off_less: "slot_off page i < 65536"
  by (simp_all add: slot_sz_def slot_off_def unat_less_16)

text \<open>The views the free-space pointers determine.\<close>

lemma free_views [page_simps]:
  assumes "length page = 4096"
  shows "free_start (SetNumTuples page n) = free_start page"
    and "free_end (SetNumTuples page n) = free_end page"
    and "free_start (SetEndFreeSpace page b) = free_start page"
    and "free_end (SetEndFreeSpace page b) = unat b"
    and "free_start (SetStartFreeSpace page a) = unat a"
    and "free_end (SetStartFreeSpace page a) = free_end page"
    and "num_slots (SetNumTuples page n) = num_slots page"
    and "num_slots (SetEndFreeSpace page b) = num_slots page"
    and "num_slots (SetStartFreeSpace page a) = (unat a - 15) div 5"
  using assms by (simp_all add: free_start_def free_end_def num_slots_def page_simps)

lemma free_views_slot [page_simps]:
  assumes "length page = 4096" and "20 + 5 * i \<le> 4096"
  shows "free_start (put_del page i d) = free_start page"
    and "free_end (put_del page i d) = free_end page"
    and "num_slots (put_del page i d) = num_slots page"
    and "free_start (put_off page i a) = free_start page"
    and "free_end (put_off page i a) = free_end page"
    and "num_slots (put_off page i a) = num_slots page"
    and "free_start (put_sz page i s) = free_start page"
    and "free_end (put_sz page i s) = free_end page"
    and "num_slots (put_sz page i s) = num_slots page"
  using assms by (simp_all add: free_start_def free_end_def num_slots_def page_simps)

lemma free_views_data [page_simps]:
  assumes "length page = 4096" and "off + length bs \<le> 4096" and "15 \<le> off"
  shows "free_start (mem_write off bs page) = free_start page"
    and "free_end (mem_write off bs page) = free_end page"
    and "num_slots (mem_write off bs page) = num_slots page"
  using assms by (simp_all add: free_start_def free_end_def num_slots_def page_simps)

lemma directory_ok_writes [page_simps]:
  assumes "directory_ok page"
  shows "directory_ok (SetNumTuples page n)"
    and "directory_ok (SetEndFreeSpace page b)"
    and "i < num_slots page \<Longrightarrow> directory_ok (put_del page i d)"
    and "i < num_slots page \<Longrightarrow> directory_ok (put_off page i a)"
    and "i < num_slots page \<Longrightarrow> directory_ok (put_sz page i s)"
    and "15 \<le> off \<Longrightarrow> off + length bs \<le> 4096 \<Longrightarrow> directory_ok (mem_write off bs page)"
  using assms directory_okD [OF assms] unfolding directory_ok_def by (simp_all add: page_simps)

section \<open>Well-formed pages\<close>

lemma page_okD:
  assumes "page_ok limit page"
  shows "directory_ok page" and "limit \<le> 4096" and "free_start page \<le> free_end page"
    and "free_end page \<le> limit"
    and "i < num_slots page \<Longrightarrow> extent_ok limit page i"
    and "i < num_slots page \<Longrightarrow> j < num_slots page \<Longrightarrow> i \<noteq> j \<Longrightarrow> apart page i j"
    and "unat (GetNumTuples page) = card (live_slots page)"
  using assms by (auto simp: page_ok_def)

lemma length_page_records [simp]: "length (page_records page) = num_slots page"
  by (simp add: page_records_def)

lemma nth_page_records:
  "i < num_slots page \<Longrightarrow>
     page_records page ! i = (if slot_del page i then None else Some (record_at page i))"
  by (simp add: page_records_def)

lemma card_live_slots: "card (live_slots page) \<le> num_slots page"
  using card_mono [of "{..<num_slots page}" "live_slots page"] by (auto simp: live_slots_def)

lemma finite_live_slots [simp]: "finite (live_slots page)"
  by (simp add: live_slots_def)

text \<open>A record keeps its bytes under any write outside its extent.\<close>

lemma record_at_eq:
  assumes "slot_off page' i = slot_off page i" and "slot_sz page' i = slot_sz page i"
    and "slot_sz page i = 0 \<or> mem_read (slot_off page i) (slot_sz page i) page' =
      mem_read (slot_off page i) (slot_sz page i) page"
  shows "record_at page' i = record_at page i"
  using assms by (auto simp: record_at_def)

lemma record_span_live:
  assumes "page_ok limit page" and "unat slot < num_slots page" and "\<not> slot_del page (unat slot)"
  shows "record_span page slot = Inr (slot_off page (unat slot), slot_sz page (unat slot))"
  using assms page_okD(1,2) [OF assms(1)] page_okD(5) [OF assms(1,2)] slot_sz_less slot_off_less
  by (simp add: record_span_def slot_less_capacity slot_getters extent_ok_def directory_okD
      unat_of_nat_16)

lemma ReadRecord_live:
  assumes "page_ok limit page" and "unat slot < num_slots page" and "\<not> slot_del page (unat slot)"
  shows "ReadRecord page slot = Inr (record_at page (unat slot))"
  using record_span_live [OF assms] by (simp add: ReadRecord_def record_at_def)

lemma ReadRecord_deleted:
  assumes "directory_ok page" and "unat slot < num_slots page" and "slot_del page (unat slot)"
  shows "ReadRecord page slot = Inl AssertionFailed"
  using assms by (simp add: ReadRecord_def record_span_def slot_less_capacity slot_getters)

section \<open>Initialising a page\<close>

lemma InitPage_views:
  assumes "length page = 4096"
  shows "length (InitPage page t) = 4096" and "GetPageType (InitPage page t) = t"
    and "GetNumTuples (InitPage page t) = 0"
    and "GetStartFreeSpace (InitPage page t) = 15" and "GetEndFreeSpace (InitPage page t) = 4096"
  using assms by (simp_all add: InitPage_def Let_def page_simps layout_consts)

lemma page_ok_InitPage:
  assumes "length page = 4096"
  shows "page_ok 4096 (InitPage page t)" and "num_slots (InitPage page t) = 0"
    and "page_records (InitPage page t) = []"
  using InitPage_views [OF assms, of t]
  by (simp_all add: page_ok_def directory_ok_def live_slots_def page_records_def num_slots_def
      free_start_def free_end_def)

section \<open>Writing a record\<close>

definition write_record :: "FullPage \<Rightarrow> slot_id_t \<Rightarrow> byte list \<Rightarrow> FullPage outcome" where
  "write_record page slot row = andthen (WriteRecord page slot) (\<lambda>sp. copy_to_span row sp page)"

lemma page_ok_data_write:
  assumes ok: "page_ok limit page" and i: "i < num_slots page" and len: "length row = slot_sz page i"
  defines "page' \<equiv> mem_write (slot_off page i) row page"
  shows "slot_off page i + length row \<le> length page" and "page_ok limit page'"
    and "page_records page' =
      (page_records page)[i := (if slot_del page i then None else Some row)]"
    and "free_end page' = free_end page" and "num_slots page' = num_slots page"
    and "GetNumTuples page' = GetNumTuples page"
proof -
  note d = page_okD(1) [OF ok] and dd = directory_okD [OF page_okD(1) [OF ok]]
  have e: "extent_ok limit page i" by (rule page_okD(5) [OF ok i])
  show bound: "slot_off page i + length row \<le> length page"
    using e len page_okD(2) [OF ok] dd(1) by (simp add: extent_ok_def)
  have same: "free_end page' = free_end page \<and> free_start page' = free_start page \<and>
      num_slots page' = num_slots page \<and> GetNumTuples page' = GetNumTuples page \<and>
      length page' = 4096 \<and>
      (\<forall>j < num_slots page. slot_del page' j = slot_del page j \<and> slot_off page' j = slot_off page j \<and>
         slot_sz page' j = slot_sz page j)"
  proof (cases "row = []")
    case False
    then have "free_end page \<le> slot_off page i" using e len by (auto simp: extent_ok_def)
    then have "15 + 5 * num_slots page \<le> slot_off page i" using page_okD(3) [OF ok] dd(2) by simp
    then show ?thesis using dd bound unfolding page'_def by (auto simp: page_simps)
  qed (use dd in \<open>simp add: page'_def\<close>)
  then show "free_end page' = free_end page" and n: "num_slots page' = num_slots page"
    and "GetNumTuples page' = GetNumTuples page" by simp_all
  have live: "live_slots page' = live_slots page" using same by (auto simp: live_slots_def)
  show "page_ok limit page'"
    using ok same live by (auto simp: page_ok_def directory_ok_def extent_ok_def apart_def)
  have rec: "record_at page' j = (if j = i then row else record_at page j)"
    if "j < num_slots page" for j
  proof (cases "j = i")
    case True
    then show ?thesis
      using same i bound len by (simp add: record_at_def page'_def mem_simps)
  next
    case False
    have "slot_sz page j = 0 \<or> mem_read (slot_off page j) (slot_sz page j) page' =
        mem_read (slot_off page j) (slot_sz page j) page"
    proof (cases "row = []")
      case False
      then have "slot_sz page i \<noteq> 0" using len by (metis length_0_conv)
      then show ?thesis
        using page_okD(6) [OF ok that i \<open>j \<noteq> i\<close>] bound len
        unfolding page'_def apart_def by (auto intro!: mem_read_write_other)
    qed (simp add: page'_def)
    then show ?thesis using record_at_eq [of page' j page] same that False by auto
  qed
  show "page_records page' = (page_records page)[i := (if slot_del page i then None else Some row)]"
    using i n same rec by (intro nth_equalityI) (auto simp: nth_page_records nth_list_update)
qed

lemma write_record_live:
  assumes "page_ok limit page" and "unat slot < num_slots page" and "\<not> slot_del page (unat slot)"
    and "length row = slot_sz page (unat slot)"
  shows "write_record page slot row = Inr (mem_write (slot_off page (unat slot)) row page)"
  using record_span_live [OF assms(1-3)] page_ok_data_write(1) [OF assms(1,2,4)] assms(4)
  by (simp add: write_record_def WriteRecord_def copy_to_span_def store_def)

section \<open>Giving a slot new space\<close>

text \<open>
  What allocation does to the directory, whether it appends a slot (\<open>i\<close> is the number of slots) or
  reuses one: slot \<open>i\<close> becomes live with \<open>n\<close> bytes taken from the end of the free space, and
  nothing else changes. Both allocation paths establish these views.
\<close>

definition takes_space :: "FullPage \<Rightarrow> nat \<Rightarrow> nat \<Rightarrow> FullPage \<Rightarrow> bool" where
  "takes_space page i n page' \<longleftrightarrow>
     length page' = 4096 \<and> num_slots page' = max (num_slots page) (Suc i) \<and>
     free_start page' = 15 + 5 * num_slots page' \<and>
     free_start page' \<le> free_end page' \<and> free_end page' = free_end page - n \<and> n \<le> free_end page \<and>
     GetNumTuples page' = GetNumTuples page + 1 \<and>
     (\<forall>j. slot_del page' j = (j \<noteq> i \<and> slot_del page j)) \<and>
     (\<forall>j. slot_off page' j = (if j = i then free_end page - n else slot_off page j)) \<and>
     (\<forall>j. slot_sz page' j = (if j = i then n else slot_sz page j)) \<and>
     (\<forall>off m. free_end page \<le> off \<longrightarrow> mem_read off m page' = mem_read off m page)"

text \<open>The same, with the space the deleted slot already has.\<close>

definition reuses_space :: "FullPage \<Rightarrow> nat \<Rightarrow> nat \<Rightarrow> FullPage \<Rightarrow> bool" where
  "reuses_space page i n page' \<longleftrightarrow>
     length page' = 4096 \<and> num_slots page' = num_slots page \<and>
     free_start page' = free_start page \<and> free_end page' = free_end page \<and>
     GetNumTuples page' = GetNumTuples page + 1 \<and> n \<le> slot_sz page i \<and>
     (\<forall>j. slot_del page' j = (j \<noteq> i \<and> slot_del page j)) \<and>
     (\<forall>j. slot_off page' j = slot_off page j) \<and>
     (\<forall>j. slot_sz page' j = (if j = i then n else slot_sz page j)) \<and>
     (\<forall>off m. free_end page \<le> off \<longrightarrow> mem_read off m page' = mem_read off m page)"

lemma page_ok_allocated:
  assumes ok: "page_ok limit page"
    and i: "i = num_slots page \<or> i < num_slots page \<and> slot_del page i"
    and sp: "takes_space page i n page' \<or> i < num_slots page \<and> reuses_space page i n page'"
  shows "page_ok limit page'" and "length (page_records page') = max (num_slots page) (Suc i)"
    and "j < num_slots page \<Longrightarrow> j \<noteq> i \<Longrightarrow> page_records page' ! j = page_records page ! j"
    and "slot_sz page' i = n" and "\<not> slot_del page' i"
proof -
  note d = directory_okD [OF page_okD(1) [OF ok]] and bounds = page_okD(2-4) [OF ok]
  show ns: "length (page_records page') = max (num_slots page) (Suc i)"
    using sp by (auto simp: takes_space_def reuses_space_def)
  show "slot_sz page' i = n" and "\<not> slot_del page' i"
    using sp by (auto simp: takes_space_def reuses_space_def)
  have live: "live_slots page' = insert i (live_slots page)" and "i \<notin> live_slots page"
    using sp i by (auto simp: takes_space_def reuses_space_def live_slots_def)
  then have "card (live_slots page') = Suc (card (live_slots page))" by simp
  moreover have "card (live_slots page) \<le> 817" using card_live_slots [of page] d(3) by simp
  ultimately have num: "unat (GetNumTuples page') = card (live_slots page')"
    using sp page_okD(7) [OF ok]
    by (auto simp: takes_space_def reuses_space_def unat_word_ariths)
  have ext: "extent_ok limit page j" if "j < num_slots page" for j by (rule page_okD(5) [OF ok that])
  have fe: "free_end page' \<le> free_end page"
    and sz': "slot_sz page' j = (if j = i then n else slot_sz page j)"
    and off': "j \<noteq> i \<Longrightarrow> slot_off page' j = slot_off page j" for j
    using sp by (auto simp: takes_space_def reuses_space_def)
  have new: "slot_off page' i = free_end page' \<and> free_end page' + n = free_end page \<or>
      i < num_slots page \<and> slot_off page' i = slot_off page i \<and> n \<le> slot_sz page i \<and>
      free_end page' = free_end page"
    using sp by (auto simp: takes_space_def reuses_space_def)
  have old: "j < num_slots page" if "j < num_slots page'" "j \<noteq> i" for j
    using that ns i by (auto simp: max_def split: if_splits)
  have ext': "extent_ok limit page' j" if j: "j < num_slots page'" for j
  proof (cases "j = i")
    case True
    then show ?thesis using new ext [of i] bounds sz' by (auto simp: extent_ok_def)
  next
    case False
    then show ?thesis using ext [OF old [OF j False]] sz' off' fe by (auto simp: extent_ok_def)
  qed
  have apt_i: "apart page' i k" if k: "k < num_slots page'" "k \<noteq> i" for k
    using new
  proof
    assume "slot_off page' i = free_end page' \<and> free_end page' + n = free_end page"
    then show ?thesis using ext [OF old [OF k]] sz' off' k(2) by (auto simp: apart_def extent_ok_def)
  next
    assume *: "i < num_slots page \<and> slot_off page' i = slot_off page i \<and> n \<le> slot_sz page i \<and>
      free_end page' = free_end page"
    then have "apart page i k" using page_okD(6) [OF ok _ old [OF k]] k(2) by auto
    then show ?thesis using * sz' off' k(2) by (auto simp: apart_def)
  qed
  have apt': "apart page' j k" if jk: "j < num_slots page'" "k < num_slots page'" "j \<noteq> k" for j k
  proof (cases "j = i \<or> k = i")
    case True
    then show ?thesis using apt_i [of j] apt_i [of k] jk by (auto simp: apart_def)
  next
    case False
    then show ?thesis
      using page_okD(6) [OF ok old old, of j k] jk sz' off' by (auto simp: apart_def)
  qed
  show "page_ok limit page'"
    using sp num ext' apt' bounds d
    by (auto simp: page_ok_def directory_ok_def takes_space_def reuses_space_def)
  show "page_records page' ! j = page_records page ! j" if "j < num_slots page" "j \<noteq> i"
    using sp that ext [OF that(1)] ns record_at_eq [of page' j page]
    by (auto simp: nth_page_records takes_space_def reuses_space_def extent_ok_def)
qed

section \<open>Allocating a slot\<close>

lemma unat_GetFreeSpaceSize:
  assumes "free_start page \<le> free_end page"
  shows "unat (GetFreeSpaceSize page) = free_end page - free_start page"
  using assms by (simp add: GetFreeSpaceSize_def free_start_def free_end_def unat_sub word_le_nat_alt)

lemma record_offset_eq:
  assumes "unat (n :: size_t) \<le> free_end page"
  shows "ucast (ucast (GetEndFreeSpace page) - n) = (of_nat (free_end page - unat n) :: offset_t)"
proof -
  have "n \<le> ucast (GetEndFreeSpace page)"
    using assms by (simp add: word_le_nat_alt unat_ucast_up free_end_def)
  then have "unat (ucast (GetEndFreeSpace page) - n) = free_end page - unat n"
    by (simp add: unat_sub unat_ucast_up free_end_def)
  then show ?thesis by (metis of_nat_unat)
qed

lemma free_end_less: "free_end page < 65536"
  by (simp add: free_end_def unat_less_16)

lemma AllocateSlot_fits:
  assumes ok: "page_ok limit page" and fit: "unat sz + 5 \<le> free_end page - free_start page"
  shows "\<exists>page'. AllocateSlot page sz = Inr (Some (of_nat (num_slots page)), page') \<and>
    takes_space page (num_slots page) (unat sz) page'"
proof -
  note d = directory_okD [OF page_okD(1) [OF ok]] and b = page_okD(2-4) [OF ok]
  let ?k = "num_slots page" and ?n = "unat sz"
  let ?ro = "of_nat (free_end page - ?n) :: offset_t"
  have ro: "unat ?ro = free_end page - ?n"
    using free_end_less [of page] by (simp add: unat_of_nat_16)
  have k: "unat (of_nat ?k :: 16 word) = ?k" using d(3) by (simp add: unat_of_nat_16)
  have start: "unat (GetStartFreeSpace page + 5) = 20 + 5 * ?k"
    using d(2,3) by (simp add: unat_word_ariths free_start_def)
  have "unat (5 + sz) = 5 + ?n" using fit free_end_less [of page] by (simp add: unat_word_ariths)
  then have guard: "\<not> 5 + sz > ucast (GetFreeSpaceSize page)"
    using fit b by (simp add: word_less_nat_alt unat_ucast_up unat_GetFreeSpaceSize)
  define p2 where "p2 = SetStartFreeSpace (SetEndFreeSpace page ?ro) (GetStartFreeSpace page + 5)"
  have p2: "directory_ok p2" "num_slots p2 = Suc ?k"
    using d b fit start by (auto simp: p2_def directory_ok_def page_simps)
  define p3 where "p3 = put_sz (put_off (put_del p2 ?k False) ?k ?ro) ?k (ucast sz)"
  have n16: "unat (ucast sz :: 16 word) = ?n"
    using fit free_end_less [of page] by (simp add: unsigned_ucast_eq take_bit_nat_eq_self)
  have slot: "word_of_int ((int (unat (GetStartFreeSpace (SetEndFreeSpace page ?ro))) - int Header_SIZE)
      sdiv int SlotEntry_SIZE) = (of_nat ?k :: 16 word)"
    using GetPageCapacity_eq(1) [of page] d by (simp add: GetPageCapacity_def page_simps)
  have p2k: "length p2 = 4096" "20 + 5 * ?k \<le> 4096" "?k < num_slots p2"
    using directory_okD(1,4) [OF p2(1)] p2(2) by auto
  have set: "SetSlotDeleted p2 (of_nat ?k) False = Inr (put_del p2 ?k False)"
    "SetSlotOffset (put_del p2 ?k False) (of_nat ?k) ?ro = Inr (put_off (put_del p2 ?k False) ?k ?ro)"
    "SetSlotSize (put_off (put_del p2 ?k False) ?k ?ro) (of_nat ?k) (ucast sz) = Inr p3"
    using k p2 p2k by (simp_all add: slot_setters page_simps p3_def)
  have "AllocateSlot page sz = Inr (Some (of_nat ?k), SetNumTuples p3 (GetNumTuples p3 + 1))"
    using guard slot set record_offset_eq [of sz page] fit d(1) p2_def
    by (simp add: AllocateSlot_def Let_def page_simps layout_consts)
  moreover have "takes_space page ?k ?n (SetNumTuples p3 (GetNumTuples p3 + 1))"
    unfolding takes_space_def
    using d(1,2) p2 p2k ro n16 fit start b
    by (auto simp: p3_def page_simps p2_def slot_frame header_frame)
  ultimately show ?thesis by blast
qed

lemma AllocateSlot_full:
  assumes "page_ok limit page" and "free_end page - free_start page < unat sz + 5"
    and "unat sz + 5 < 2 ^ 64"
  shows "AllocateSlot page sz = Inr (None, page)"
proof -
  have "unat (5 + sz) = 5 + unat sz" using assms(3) by (simp add: unat_word_ariths)
  then have "5 + sz > ucast (GetFreeSpaceSize page)"
    using assms(2) page_okD(3) [OF assms(1)]
    by (simp add: word_less_nat_alt unat_ucast_up unat_GetFreeSpaceSize)
  then show ?thesis by (simp add: AllocateSlot_def layout_consts)
qed

section \<open>Reusing a deleted slot\<close>

lemma reuse_slot_grow:
  assumes ok: "page_ok limit page" and i: "unat slot < num_slots page"
    and fit: "unat sz \<le> free_end page - free_start page"
  defines "ro \<equiv> of_nat (free_end page - unat sz) :: offset_t"
  defines "p3 \<equiv> put_sz (put_del (put_off (SetEndFreeSpace page ro) (unat slot) ro) (unat slot) False)
    (unat slot) (ucast sz)"
  shows "SetSlotOffset (SetEndFreeSpace page ro) slot ro =
      Inr (put_off (SetEndFreeSpace page ro) (unat slot) ro)"
    and "takes_space page (unat slot) (unat sz) (SetNumTuples p3 (GetNumTuples p3 + 1))"
proof -
  note d = directory_okD [OF page_okD(1) [OF ok]] and b = page_okD(2-4) [OF ok]
  have ro: "unat ro = free_end page - unat sz"
    using free_end_less [of page] by (simp add: ro_def unat_of_nat_16)
  have n16: "unat (ucast sz :: 16 word) = unat sz"
    using fit free_end_less [of page] by (simp add: unsigned_ucast_eq take_bit_nat_eq_self)
  show "SetSlotOffset (SetEndFreeSpace page ro) slot ro =
      Inr (put_off (SetEndFreeSpace page ro) (unat slot) ro)"
    using d(1) i page_okD(1) [OF ok] by (simp add: slot_setters page_simps)
  show "takes_space page (unat slot) (unat sz) (SetNumTuples p3 (GetNumTuples p3 + 1))"
    unfolding takes_space_def
    using d(1,2) d(4) [OF i] i ro n16 fit b
    by (auto simp: p3_def page_simps slot_frame header_frame max_def)
qed

lemma reuse_slot_fits:
  assumes ok: "page_ok limit page" and i: "unat slot < num_slots page"
    and fit: "unat sz \<le> slot_sz page (unat slot)"
  defines "p3 \<equiv> put_sz (put_del page (unat slot) False) (unat slot) (ucast sz)"
  shows "reuses_space page (unat slot) (unat sz) (SetNumTuples p3 (GetNumTuples p3 + 1))"
proof -
  note d = directory_okD [OF page_okD(1) [OF ok]] and b = page_okD(2-4) [OF ok]
  have n16: "unat (ucast sz :: 16 word) = unat sz"
    using fit slot_sz_less [of page "unat slot"] by (simp add: unsigned_ucast_eq take_bit_nat_eq_self)
  show ?thesis
    unfolding reuses_space_def
    using d(1,2) d(4) [OF i] i n16 fit b
    by (auto simp: p3_def page_simps slot_frame header_frame)
qed

text \<open>What a call of either allocator returns on a well-formed page.\<close>

definition alloc_result :: "FullPage \<Rightarrow> nat \<Rightarrow> (slot_id_t option \<times> FullPage) \<Rightarrow> bool" where
  "alloc_result page n = (\<lambda>(r, page').
     case r of
       None \<Rightarrow> page' = page \<and> free_end page - free_start page < n + 5
     | Some s \<Rightarrow>
         unat s = num_slots page \<and> takes_space page (unat s) n page' \<or>
         unat s < num_slots page \<and> slot_del page (unat s) \<and>
           (takes_space page (unat s) n page' \<or> reuses_space page (unat s) n page'))"

lemma AllocateSlot_result:
  assumes ok: "page_ok limit page" and small: "unat sz + 5 < 2 ^ 64"
  shows "\<exists>r. AllocateSlot page sz = Inr r \<and> alloc_result page (unat sz) r"
proof (cases "unat sz + 5 \<le> free_end page - free_start page")
  case True
  have "unat (of_nat (num_slots page) :: 16 word) = num_slots page"
    using directory_okD(3) [OF page_okD(1) [OF ok]] by (simp add: unat_of_nat_16)
  then show ?thesis using AllocateSlot_fits [OF ok True] by (auto simp: alloc_result_def)
next
  case False
  then show ?thesis using AllocateSlot_full [OF ok _ small] by (auto simp: alloc_result_def)
qed

lemma reuse_from_result:
  assumes "page_ok limit page" and "unat sz + 5 < 2 ^ 64"
  shows "\<exists>r. reuse_from slot page sz = Inr r \<and> alloc_result page (unat sz) r"
  using assms
proof (induction slot page sz rule: reuse_from.induct)
  case (1 slot page sz)
  note ok = "1.prems"(1) and small = "1.prems"(2)
  note dir = page_okD(1) [OF ok] and fs = unat_GetFreeSpaceSize [OF page_okD(3) [OF ok]]
  show ?case
  proof (cases "slot < GetPageCapacity page")
    case False
    then show ?thesis using AllocateSlot_result [OF ok small] by (simp add: reuse_from.simps)
  next
    case True
    then have i: "unat slot < num_slots page" using dir by (simp add: slot_less_capacity)
    note get = slot_getters [OF dir i]
    have sz: "unat (of_nat (slot_sz page (unat slot)) :: 16 word) = slot_sz page (unat slot)"
      by (simp add: unat_of_nat_16 slot_sz_less)
    have grow: "sz > ucast (of_nat (slot_sz page (unat slot)) :: 16 word) \<longleftrightarrow>
        unat sz > slot_sz page (unat slot)"
      and space: "sz > ucast (GetFreeSpaceSize page) \<longleftrightarrow> unat sz > free_end page - free_start page"
      using sz fs by (simp_all add: word_less_nat_alt unat_ucast_up)
    consider "\<not> slot_del page (unat slot)"
      | "slot_del page (unat slot)" "unat sz > slot_sz page (unat slot)"
        "unat sz > free_end page - free_start page"
      | "slot_del page (unat slot)" "unat sz > slot_sz page (unat slot)"
        "unat sz \<le> free_end page - free_start page"
      | "slot_del page (unat slot)" "unat sz \<le> slot_sz page (unat slot)"
      by linarith
    then show ?thesis
    proof cases
      case 1
      then show ?thesis
        using "1.IH"(1) [OF True get(1)] True get ok small by (simp add: reuse_from.simps [of slot])
    next
      case 2
      then show ?thesis
        using "1.IH"(2) [OF True get(1) _ get(3)] True get ok small grow space
        by (simp add: reuse_from.simps [of slot])
    next
      case 3
      show ?thesis
        using 3 True get grow space reuse_slot_grow [OF ok i 3(3)] i dir
          record_offset_eq [of sz page] directory_okD [OF dir]
        by (simp add: reuse_from.simps [of slot] alloc_result_def slot_setters page_simps Let_def)
    next
      case 4
      then show ?thesis
        using True get grow space reuse_slot_fits [OF ok i 4(2)] i dir directory_okD [OF dir]
        by (simp add: reuse_from.simps [of slot] alloc_result_def slot_setters page_simps)
    qed
  qed
qed

section \<open>Deleting a slot\<close>

lemma DeleteSlot_in_range:
  assumes "directory_ok page" and "unat slot < num_slots page"
  shows "DeleteSlot page slot =
    Inr (put_del (SetNumTuples page (GetNumTuples page - 1)) (unat slot) True)"
  using assms directory_okD [OF assms(1)] by (simp add: DeleteSlot_def slot_setters page_simps)

lemma DeleteSlot_live:
  assumes ok: "page_ok limit page" and i: "unat slot < num_slots page"
    and live: "\<not> slot_del page (unat slot)"
  shows "\<exists>page'. DeleteSlot page slot = Inr page' \<and> page_ok limit page' \<and>
    page_records page' = (page_records page)[unat slot := None] \<and> free_end page' = free_end page \<and>
    unat (GetNumTuples page') + 1 = unat (GetNumTuples page)"
proof -
  note dir = page_okD(1) [OF ok] and d = directory_okD [OF page_okD(1) [OF ok]]
  define page' where "page' = put_del (SetNumTuples page (GetNumTuples page - 1)) (unat slot) True"
  have views: "length page' = 4096" "free_start page' = free_start page" "free_end page' = free_end page"
    "num_slots page' = num_slots page" "GetNumTuples page' = GetNumTuples page - 1"
    "slot_del page' j = (j = unat slot \<or> slot_del page j)" "slot_off page' j = slot_off page j"
    "slot_sz page' j = slot_sz page j" for j
    using d(1) d(4) [OF i] by (simp_all add: page'_def page_simps)
  have "live_slots page' = live_slots page - {unat slot}" and mem: "unat slot \<in> live_slots page"
    using views i live by (auto simp: live_slots_def)
  then have card: "card (live_slots page') + 1 = card (live_slots page)"
    using card_Suc_Diff1 [of "live_slots page" "unat slot"] by simp
  then have num: "unat (GetNumTuples page') + 1 = unat (GetNumTuples page)"
    using page_okD(7) [OF ok] views(5) by (simp add: unat_sub word_le_nat_alt)
  have ok': "page_ok limit page'"
    using ok views num card by (auto simp: page_ok_def directory_ok_def extent_ok_def apart_def)
  have rec: "record_at page' j = record_at page j" if "j < num_slots page" for j
  proof (rule record_at_eq)
    have "free_end page \<le> slot_off page j \<or> slot_sz page j = 0"
      using page_okD(5) [OF ok that] by (auto simp: extent_ok_def)
    moreover have "20 + 5 * unat slot \<le> free_end page" using page_okD(3) [OF ok] d(2) i by simp
    ultimately show "slot_sz page j = 0 \<or> mem_read (slot_off page j) (slot_sz page j) page' =
        mem_read (slot_off page j) (slot_sz page j) page"
      using d(1) d(4) [OF i] by (auto simp: page'_def slot_frame header_frame page_simps)
  qed (simp_all add: views)
  have "page_records page' = (page_records page)[unat slot := None]"
    using views rec i by (intro nth_equalityI) (auto simp: nth_page_records nth_list_update)
  then show ?thesis
    using DeleteSlot_in_range [OF dir i] ok' views(3) num by (auto simp: page'_def)
qed

section \<open>Storing a record\<close>

text \<open>Allocation followed by the copy of a row of the allocated size into the slot.\<close>

lemma alloc_then_write:
  assumes ok: "page_ok limit page" and res: "alloc_result page (length row) (Some s, page')"
  shows "\<exists>page''. write_record page' s row = Inr page'' \<and> page_ok limit page'' \<and>
    page_records page'' =
      (if unat s = num_slots page then page_records page @ [Some row]
       else (page_records page)[unat s := Some row]) \<and>
    free_end page'' = free_end page' \<and> GetNumTuples page'' = GetNumTuples page + 1"
proof -
  let ?i = "unat s"
  have i: "?i = num_slots page \<or> ?i < num_slots page \<and> slot_del page ?i"
    and sp: "takes_space page ?i (length row) page' \<or>
      ?i < num_slots page \<and> reuses_space page ?i (length row) page'"
    using res by (auto simp: alloc_result_def)
  note a = page_ok_allocated [OF ok i sp]
  have i': "?i < num_slots page'" using a(2) by simp
  note w = page_ok_data_write [OF a(1) i' a(4) [symmetric]]
  have num: "GetNumTuples page' = GetNumTuples page + 1"
    using sp by (auto simp: takes_space_def reuses_space_def)
  have nth: "(page_records page')[?i := Some row] =
      (if ?i = num_slots page then page_records page @ [Some row]
       else (page_records page)[?i := Some row])"
    using a(2,3) i by (intro nth_equalityI) (auto simp: nth_list_update nth_append max_def split: if_splits)
  show ?thesis
    using write_record_live [OF a(1) i' a(5) a(4) [symmetric]] w a(5) nth num by auto
qed

section \<open>Claims\<close>

text \<open>A concrete page for the witnesses: a zeroed buffer after \<open>InitPage\<close>.\<close>

abbreviation empty_page :: FullPage where
  "empty_page \<equiv> InitPage (replicate 4096 0) PageType_Data"

lemma empty_page_ok:
  "page_ok 4096 empty_page" "num_slots empty_page = 0" "page_records empty_page = []"
  "free_start empty_page = 15" "free_end empty_page = 4096"
  "unat (GetFreeSpaceSize empty_page) = 4081"
  using page_ok_InitPage [of "replicate 4096 0"] InitPage_views [of "replicate 4096 0"]
  by (simp_all add: free_start_def free_end_def GetFreeSpaceSize_def)

lemma store_record_fits:
  assumes ok: "page_ok limit page" and fit: "length row + 5 \<le> free_end page - free_start page"
  shows "\<exists>slot page' page''. AllocateSlot page (of_nat (length row)) = Inr (Some slot, page') \<and>
    unat slot = num_slots page \<and>
    write_record page' slot row = Inr page'' \<and> page_ok limit page'' \<and>
    page_records page'' = page_records page @ [Some row] \<and>
    GetNumTuples page'' = GetNumTuples page + 1 \<and>
    free_end page'' - free_start page'' = free_end page - free_start page - (length row + 5)"
proof -
  have n: "unat (of_nat (length row) :: size_t) = length row"
    using fit free_end_less [of page] by (simp add: unat_of_nat_64)
  obtain page' where al: "AllocateSlot page (of_nat (length row)) = Inr (Some (of_nat (num_slots page)), page')"
    and ts: "takes_space page (num_slots page) (length row) page'"
    using AllocateSlot_fits [OF ok, of "of_nat (length row)"] fit n by auto
  have k: "unat (of_nat (num_slots page) :: 16 word) = num_slots page"
    using directory_okD(3) [OF page_okD(1) [OF ok]] by (simp add: unat_of_nat_16)
  have "alloc_result page (length row) (Some (of_nat (num_slots page)), page')"
    using ts k by (simp add: alloc_result_def)
  from alloc_then_write [OF ok this] obtain page'' where w:
    "write_record page' (of_nat (num_slots page)) row = Inr page''" "page_ok limit page''"
    "page_records page'' = page_records page @ [Some row]" "free_end page'' = free_end page'"
    "GetNumTuples page'' = GetNumTuples page + 1"
    using k by auto
  have "num_slots page'' = Suc (num_slots page)"
    using arg_cong [OF w(3), of length] by simp
  then have "free_start page'' = free_start page + 5"
    using directory_okD(2) [OF page_okD(1) [OF ok]] directory_okD(2) [OF page_okD(1) [OF w(2)]] by simp
  then have "free_end page'' - free_start page'' = free_end page - free_start page - (length row + 5)"
    using w(4) ts by (simp add: takes_space_def)
  then show ?thesis using al k w by blast
qed

text \<open>
  C18: on a well-formed page \<open>ReadRecord\<close> returns exactly the record the slot directory describes,
  and stops at an assertion for a slot that is deleted or out of range; it never reads outside the
  page.
\<close>

theorem ReadRecord_correct:
  assumes "page_ok limit page"
  shows "ReadRecord page slot =
    (case (if unat slot < length (page_records page) then page_records page ! unat slot else None) of
       Some row \<Rightarrow> Inr row
     | None \<Rightarrow> Inl AssertionFailed)"
  using ReadRecord_live [OF assms, of slot] ReadRecord_deleted [OF page_okD(1) [OF assms], of slot]
    slot_out_of_range(4) [OF page_okD(1) [OF assms], of slot]
  by (auto simp: nth_page_records)

theorem ReadRecord_correct_witness: "ReadRecord empty_page 0 = Inl AssertionFailed"
  using ReadRecord_correct [OF empty_page_ok(1), of 0] by (simp add: empty_page_ok)

text \<open>
  C11: storing a row. When the row and a slot entry fit into the free space, \<open>AllocateSlot\<close>, \<open>WriteRecord\<close>
  and the copy succeed, the new slot is the next one, every other record keeps its bytes, the tuple
  count grows by one, the free space shrinks by the row and its entry, and the page stays well
  formed; when it does not fit, \<open>AllocateSlot\<close> returns nothing and leaves the page as it is.
\<close>

theorem AllocateSlot_correct:
  assumes "page_ok limit page" and "length row + 5 < 2 ^ 64"
  shows "if length row + 5 \<le> unat (GetFreeSpaceSize page)
    then \<exists>slot page' page''. AllocateSlot page (of_nat (length row)) = Inr (Some slot, page') \<and>
      unat slot = length (page_records page) \<and> write_record page' slot row = Inr page'' \<and>
      page_ok limit page'' \<and> page_records page'' = page_records page @ [Some row] \<and>
      GetNumTuples page'' = GetNumTuples page + 1 \<and>
      unat (GetFreeSpaceSize page'') = unat (GetFreeSpaceSize page) - (length row + 5)
    else AllocateSlot page (of_nat (length row)) = Inr (None, page)"
proof (cases "length row + 5 \<le> unat (GetFreeSpaceSize page)")
  case True
  note fs = unat_GetFreeSpaceSize [OF page_okD(3)]
  show ?thesis
    using True store_record_fits [OF assms(1), of row] fs [OF assms(1)] fs by fastforce
next
  case False
  have "unat (of_nat (length row) :: size_t) = length row"
    using assms(2) by (simp add: unat_of_nat_64)
  with False show ?thesis
    using AllocateSlot_full [OF assms(1), of "of_nat (length row)"] assms(2)
      unat_GetFreeSpaceSize [OF page_okD(3) [OF assms(1)]] by simp
qed

theorem AllocateSlot_correct_witness:
  "\<exists>slot page' page''. AllocateSlot empty_page (of_nat (length [1, 2, 3 :: byte])) = Inr (Some slot, page') \<and>
     write_record page' slot [1, 2, 3] = Inr page'' \<and> page_records page'' = [Some [1, 2, 3]]"
  using AllocateSlot_correct [OF empty_page_ok(1), of "[1, 2, 3]"]
  by (auto simp: empty_page_ok)



text \<open>
  Deleting a live slot removes its record and nothing else: the other slots keep their ids and
  bytes, the tuple count drops by one and the page stays well formed.
\<close>

lemma DeleteSlot_correct:
  assumes "page_ok limit page" and "unat slot < length (page_records page)"
    and "page_records page ! unat slot \<noteq> None"
  shows "\<exists>page'. DeleteSlot page slot = Inr page' \<and> page_ok limit page' \<and>
    page_records page' = (page_records page)[unat slot := None] \<and>
    unat (GetNumTuples page') + 1 = unat (GetNumTuples page)"
  using DeleteSlot_live [OF assms(1), of slot] assms(2,3)
  by (auto simp: nth_page_records split: if_splits)

end
