(* ===== verification/Page_Checksum.thy ===== *)
theory Page_Checksum
  imports Page_Layout
begin

text \<open>
  The page checksum (\<open>checksum64\<close>, \<open>UpdateChecksum\<close>, \<open>ValidChecksum\<close>): the checksum is the parity
  of the page's eight-byte words, so an updated page is valid and a page that differs from a valid
  one in exactly one word is not.
\<close>

section \<open>The checksum as a sum over words\<close>

lemma checksum64_from_acc: "checksum64_from i page (a XOR b) = a XOR checksum64_from i page b"
proof (induction i page b rule: checksum64_from.induct)
  case (1 i page b)
  then show ?case
    by (simp add: checksum64_from.simps [of i page] Let_def xor.assoc)
qed

lemma checksum64_from_step:
  assumes "i < length page"
  shows "checksum64_from i page 0 = bytes_word (mem_read i 8 page) XOR checksum64_from (i + 8) page 0"
  using assms checksum64_from_acc [of "i + 8" page "bytes_word (mem_read i 8 page)" 0]
  by (simp add: checksum64_from.simps [of i page] Let_def)

text \<open>Replacing the word at \<open>k\<close> changes the checksum by the difference of the two words.\<close>

lemma checksum64_from_after:
  assumes "k + length bs \<le> length page" and "k + length bs \<le> i"
  shows "checksum64_from i (mem_write k bs page) r = checksum64_from i page r"
  using assms
proof (induction i page r rule: checksum64_from.induct)
  case (1 i page r)
  then show ?case
    by (cases "i < length page")
      (simp_all add: checksum64_from.simps [of i] Let_def mem_simps)
qed

lemma checksum64_from_replace:
  assumes len: "length page = 8 * m" and bs: "length bs = 8" and k: "i \<le> k" "k < m"
  shows "checksum64_from (8 * i) (mem_write (8 * k) bs page) 0 =
    checksum64_from (8 * i) page 0 XOR bytes_word (mem_read (8 * k) 8 page) XOR bytes_word bs"
  using k(1)
proof (induction "k - i" arbitrary: i)
  case 0
  then have i: "i = k" by simp
  have fits: "8 * k + length bs \<le> length page" using k len bs by simp
  have "checksum64_from (8 * k) (mem_write (8 * k) bs page) 0 =
      bytes_word bs XOR checksum64_from (8 * k + 8) page 0"
    using fits bs k len checksum64_from_after [OF fits, of "8 * k + 8" 0]
    by (simp add: checksum64_from_step mem_simps)
  moreover have "checksum64_from (8 * k) page 0 =
      bytes_word (mem_read (8 * k) 8 page) XOR checksum64_from (8 * k + 8) page 0"
    using fits bs by (simp add: checksum64_from_step)
  ultimately show ?case
    unfolding i by (simp add: xor.assoc xor.commute xor.left_commute)
next
  case (Suc n)
  then have i: "i < k" and n: "n = k - Suc i" by simp_all
  have fits: "8 * k + length bs \<le> length page" using k len bs by simp
  have same: "mem_read (8 * i) 8 (mem_write (8 * k) bs page) = mem_read (8 * i) 8 page"
    using fits i bs by (intro mem_read_write_other) auto
  have step: "checksum64_from (8 * i) q 0 =
      bytes_word (mem_read (8 * i) 8 q) XOR checksum64_from (8 * Suc i) q 0"
    if "length q = length page" for q
    using that i k len checksum64_from_step [of "8 * i" q] by (simp add: add.commute)
  show ?case
    using Suc.hyps(1) [OF n] i step [of page] step [of "mem_write (8 * k) bs page"] fits same
    by (simp add: xor.assoc)
qed

lemma checksum64_replace:
  assumes "length page = 8 * m" and "length bs = 8" and "k < m"
  shows "checksum64 (mem_write (8 * k) bs page) =
    checksum64 page XOR bytes_word (mem_read (8 * k) 8 page) XOR bytes_word bs"
  using checksum64_from_replace [OF assms(1,2), of 0 k] assms(3) by (simp add: checksum64_def)

lemma mem_write_write:
  assumes "length bs = length cs" and "off + length bs \<le> length m"
  shows "mem_write off bs (mem_write off cs m) = mem_write off bs m"
  using assms by (simp add: mem_write_def)

lemma xor_zero_eq: "(a :: 64 word) XOR b = 0 \<Longrightarrow> b = a"
proof -
  assume "a XOR b = 0"
  then have "a XOR (a XOR b) = a XOR 0" by simp
  then show "b = a" by (simp flip: xor.assoc)
qed

lemma UpdateChecksum_facts:
  assumes "length page = PAGE_SIZE"
  shows "ValidChecksum (UpdateChecksum page)" and "length (UpdateChecksum page) = PAGE_SIZE"
    and "mem_read 8 (PAGE_SIZE - 8) (UpdateChecksum page) = mem_read 8 (PAGE_SIZE - 8) page"
    and "GetChecksum (UpdateChecksum page) = checksum64 (SetChecksum page 0)"
proof -
  have len: "length page = 8 * 512" using assms by (simp add: PAGE_SIZE_def)
  define p0 where "p0 = SetChecksum page 0"
  have p0: "length p0 = 8 * 512" "mem_read 0 8 p0 = word_bytes 8 (0 :: 64 word)"
    using len by (simp_all add: p0_def SetChecksum_def CHECKSUM_def mem_simps)
  have upd: "UpdateChecksum page = mem_write (8 * 0) (word_bytes 8 (checksum64 p0)) p0"
    by (simp add: UpdateChecksum_def Let_def SetChecksum_def CHECKSUM_def p0_def)
  have "checksum64 (UpdateChecksum page) = checksum64 p0 XOR 0 XOR checksum64 p0"
    using checksum64_replace [OF p0(1), of "word_bytes 8 (checksum64 p0)" 0] p0(2)
    by (simp add: upd)
  then show "ValidChecksum (UpdateChecksum page)"
    by (simp add: ValidChecksum_def)
  show "length (UpdateChecksum page) = PAGE_SIZE"
    "mem_read 8 (PAGE_SIZE - 8) (UpdateChecksum page) = mem_read 8 (PAGE_SIZE - 8) page"
    "GetChecksum (UpdateChecksum page) = checksum64 (SetChecksum page 0)"
    using len p0(1)
    by (simp_all add: upd p0_def GetChecksum_def SetChecksum_def CHECKSUM_def
        PAGE_SIZE_def mem_simps)
qed

section \<open>Claims\<close>

text \<open>
  C12: \<open>UpdateChecksum\<close> makes the page's checksum valid, changes only the eight checksum bytes of
  the header, and leaves the stored checksum equal to the parity of the rest of the page.
\<close>

theorem UpdateChecksum_valid:
  assumes "length page = PAGE_SIZE"
  shows "ValidChecksum (UpdateChecksum page) \<and> length (UpdateChecksum page) = PAGE_SIZE \<and>
    mem_read 8 (PAGE_SIZE - 8) (UpdateChecksum page) = mem_read 8 (PAGE_SIZE - 8) page \<and>
    GetChecksum (UpdateChecksum page) = checksum64 (SetChecksum page 0)"
  using UpdateChecksum_facts [OF assms] by simp

theorem UpdateChecksum_valid_witness:
  "ValidChecksum (UpdateChecksum (replicate PAGE_SIZE 7)) \<and>
   length (UpdateChecksum (replicate PAGE_SIZE 7)) = PAGE_SIZE"
  using UpdateChecksum_valid [of "replicate PAGE_SIZE 7"] by simp

text \<open>
  C21: corruption of any one eight-byte word of a page with a valid checksum is detected: whatever
  other eight bytes are found in its place, \<open>ValidChecksum\<close> fails.
\<close>

theorem ValidChecksum_detects_word_corruption:
  assumes "length page = PAGE_SIZE" and "ValidChecksum page" and "k < PAGE_SIZE div 8"
    and "length bs = 8" and "bs \<noteq> mem_read (8 * k) 8 page"
  shows "\<not> ValidChecksum (mem_write (8 * k) bs page)"
proof
  assume "ValidChecksum (mem_write (8 * k) bs page)"
  then have "(bytes_word (mem_read (8 * k) 8 page) :: 64 word) XOR bytes_word bs = 0"
    using checksum64_replace [of page 512 bs k] assms
    by (simp add: ValidChecksum_def PAGE_SIZE_def)
  then have "(bytes_word bs :: 64 word) = bytes_word (mem_read (8 * k) 8 page)"
    by (rule xor_zero_eq)
  then have "bs = mem_read (8 * k) 8 page"
    using assms by (intro bytes_word_inject) (simp_all add: PAGE_SIZE_def)
  with assms(5) show False ..
qed

theorem ValidChecksum_detects_word_corruption_witness:
  "\<not> ValidChecksum (mem_write (8 * 3) [1, 0, 0, 0, 0, 0, 0, 0] (UpdateChecksum (replicate PAGE_SIZE 0)))"
proof (rule ValidChecksum_detects_word_corruption)
  let ?p = "replicate PAGE_SIZE (0 :: byte)"
  have u: "mem_read 8 4088 (UpdateChecksum ?p) = mem_read 8 4088 ?p"
    using UpdateChecksum_facts(3) [of ?p] by (simp add: PAGE_SIZE_def)
  have "mem_read (8 * 3) 8 (UpdateChecksum ?p) = mem_read 16 8 (mem_read 8 4088 (UpdateChecksum ?p))"
    by (simp add: mem_read_def drop_take min_def)
  also have "\<dots> = replicate 8 0"
    unfolding u by (simp add: mem_read_def PAGE_SIZE_def)
  finally show "[1, 0, 0, 0, 0, 0, 0, 0] \<noteq> mem_read (8 * 3) 8 (UpdateChecksum ?p)"
    by (simp add: numeral_eq_Suc)
qed (simp_all add: UpdateChecksum_facts PAGE_SIZE_def)

end
