(* ===== verification/Codec.thy ===== *)
theory Codec
  imports Prelude
begin

text \<open>
  The contract between the value types and the row layer, the \<open>Serializable\<close> concept of
  \<open>datatypes.h\<close> with the laws its users rely on: a stored value is read back from the front of any
  buffer that starts with its encoding, a decoder accepts nothing else, and the encoded size can be
  told from the encoding alone, which is what lets a reader walk a row of variable-length values.
\<close>

locale tagged_codec =
  fixes enc :: "'v \<Rightarrow> 'b list" and tag :: "'v \<Rightarrow> 't" and ok :: "'v \<Rightarrow> bool"
    and dec :: "'t \<Rightarrow> 'b list \<Rightarrow> 'e + 'v" and size_at :: "'t \<Rightarrow> 'b list \<Rightarrow> 'e + nat"
  assumes dec_enc: "ok v \<Longrightarrow> dec (tag v) (enc v @ rest) = Inr v"
    and dec_sound: "dec t bs = Inr v \<Longrightarrow> ok v \<and> tag v = t \<and> (\<exists>rest. bs = enc v @ rest)"
    and size_enc: "ok v \<Longrightarrow> size_at (tag v) (enc v @ rest) = Inr (length (enc v))"
begin

lemma enc_prefix_free:
  assumes "ok v" and "ok w" and "tag v = tag w" and "enc v @ r = enc w @ r'"
  shows "v = w" and "r = r'"
proof -
  show "v = w" using dec_enc [OF assms(1), of r] dec_enc [OF assms(2), of r'] assms(3,4) by (metis Inr_inject)
  then show "r = r'" using assms(4) by simp
qed

lemma row_inject:
  assumes "list_all ok vs" and "list_all ok ws" and "map tag vs = map tag ws"
    and "concat (map enc vs) = concat (map enc ws)"
  shows "vs = ws"
  using assms
proof (induction vs arbitrary: ws)
  case (Cons v vs)
  then obtain w ws' where ws: "ws = w # ws'" "tag v = tag w" "map tag vs = map tag ws'" by auto
  show ?case
    using Cons.IH [of ws'] Cons.prems ws
      enc_prefix_free [of v w "concat (map enc vs)" "concat (map enc ws')"]
    by simp
qed simp

text \<open>
  The walk of a reader over the first \<open>i\<close> values of a row ends at the encoding of the next one and
  never leaves the row on the way.
\<close>

lemma walk_from:
  assumes "list_all ok vs" and "data = pre @ concat (map enc vs) @ post"
  shows "for_each (\<lambda>t off. if length data < off then Inl e else andthen (size_at t (drop off data)) (\<lambda>n. Inr (off + n))) (map tag vs) (length pre) =
    Inr (length pre + length (concat (map enc vs)))"
  using assms
proof (induction vs arbitrary: pre)
  case (Cons v vs)
  have "size_at (tag v) (drop (length pre) data) = Inr (length (enc v))"
    using Cons.prems size_enc [of v] by simp
  moreover have "data = (pre @ enc v) @ concat (map enc vs) @ post" using Cons.prems by simp
  from Cons.IH [OF _ this] have "for_each (\<lambda>t off. if length data < off then Inl e else andthen (size_at t (drop off data)) (\<lambda>n. Inr (off + n)))
      (map tag vs) (length pre + length (enc v)) =
      Inr (length pre + length (enc v) + length (concat (map enc vs)))"
    using Cons.prems(1) by simp
  moreover have "\<not> length data < length pre" using Cons.prems(2) by simp
  ultimately show ?case by (simp add: add.assoc)
qed simp

lemma walk:
  assumes "list_all ok vs" and "i \<le> length vs"
  shows "for_each (\<lambda>t off. if length (concat (map enc vs)) < off then Inl e
        else andthen (size_at t (drop off (concat (map enc vs)))) (\<lambda>n. Inr (off + n)))
      (take i (map tag vs)) 0 = Inr (length (concat (map enc (take i vs))))"
proof -
  have "concat (map enc vs) = [] @ concat (map enc (take i vs)) @ concat (map enc (drop i vs))"
    by (simp flip: concat_append map_append)
  moreover have "list_all ok (take i vs)"
    using assms(1) by (auto simp: list_all_iff dest: in_set_takeD)
  ultimately show ?thesis using walk_from [of "take i vs" "concat (map enc vs)" "[]"] by (simp add: take_map)
qed

lemma row_split:
  assumes "i < length vs"
  shows "drop (length (concat (map enc (take i vs)))) (concat (map enc vs)) =
    enc (vs ! i) @ concat (map enc (drop (Suc i) vs))"
proof -
  have "concat (map enc vs) = concat (map enc (take i vs)) @ concat (map enc (drop i vs))"
    by (simp flip: concat_append map_append)
  then show ?thesis using assms by (simp add: Cons_nth_drop_Suc [symmetric])
qed

lemma dec_nth:
  assumes "list_all ok vs" and "i < length vs"
  shows "dec (tag (vs ! i)) (drop (length (concat (map enc (take i vs)))) (concat (map enc vs))) = Inr (vs ! i)"
    and "size_at (tag (vs ! i)) (drop (length (concat (map enc (take i vs)))) (concat (map enc vs))) =
      Inr (length (enc (vs ! i)))"
  using assms dec_enc size_enc by (simp_all add: row_split list_all_length)

end

end
