(* ===== verification/Datatypes.thy ===== *)
theory Datatypes
  imports Codec
begin

text \<open>
  The value types of the database (\<open>datatypes.h\<close>, \<open>datatypes.cpp\<close>): the variant \<open>Value\<close> and its type
  ids, the byte encoding of each type, its textual form, and the run-time dispatch on a type id.

  Integers keep their C++ width; a signed integer is the word read with \<open>sint\<close>. A \<open>double\<close> is its
  64-bit representation: the byte codec only copies it. Its text conversions, \<open>std::from_chars\<close> and
  \<open>std::format\<close> at type \<open>double\<close>, are the parameter \<open>f64_text\<close> of the operations that need them. A
  \<open>std::string\<close> is a list of 8-bit characters. Sizes of in-memory objects are natural numbers: no sum
  of them reaches \<open>2^64\<close>. A \<open>TypeError\<close> is a value (\<open>std::unexpected\<close>); its constructors are the reasons
  the messages give.
\<close>

section \<open>Values and type ids\<close>

type_synonym TypeId = "8 word"

datatype Value = I32 "32 word" | String string | U32 "32 word" | I64 "64 word" | F64 "64 word"

text \<open>The alternatives of the variant, as the compile-time types the templates are instantiated at.\<close>

datatype DataType = I32_type | String_type | U32_type | I64_type | F64_type

datatype TypeError = NotEnoughBytes | NotEnoughSpace | StringTooLong | OutOfRange | NotValid | InvalidTypeId

definition alternatives :: "DataType list" where
  "alternatives = [I32_type, String_type, U32_type, I64_type, F64_type]"

definition IsValidTypeId :: "int \<Rightarrow> bool" where
  "IsValidTypeId i \<longleftrightarrow> i \<ge> 0 \<and> i < int (length alternatives)"

primrec type_id :: "DataType \<Rightarrow> TypeId" where
  "type_id I32_type = 0"
| "type_id String_type = 1"
| "type_id U32_type = 2"
| "type_id I64_type = 3"
| "type_id F64_type = 4"

primrec TypeOf :: "Value \<Rightarrow> TypeId" where
  "TypeOf (I32 _) = 0"
| "TypeOf (String _) = 1"
| "TypeOf (U32 _) = 2"
| "TypeOf (I64 _) = 3"
| "TypeOf (F64 _) = 4"

definition dispatch_type :: "TypeId \<Rightarrow> (DataType \<Rightarrow> 'a) \<Rightarrow> 'a outcome" where
  "dispatch_type i f =
     andthen (YADB_ASSERT (IsValidTypeId (uint i))) (\<lambda>_. Inr (f (alternatives ! unat i)))"

primrec type_str :: "DataType \<Rightarrow> string" where
  "type_str I32_type = ''I32''"
| "type_str String_type = ''String''"
| "type_str U32_type = ''U32''"
| "type_str I64_type = ''I64''"
| "type_str F64_type = ''F64''"

definition TypeName :: "TypeId \<Rightarrow> string" where
  "TypeName i =
     (if \<not> IsValidTypeId (uint i) then ''<invalid type>''
      else case dispatch_type i type_str of Inr s \<Rightarrow> s | Inl _ \<Rightarrow> ''<invalid type>'')"

section \<open>Byte encoding\<close>

definition char_byte :: "char \<Rightarrow> byte" where "char_byte c = of_nat (of_char c)"
definition byte_char :: "byte \<Rightarrow> char" where "byte_char b = char_of (unat b)"

definition FixedFromBytes :: "byte list \<Rightarrow> TypeError + 'a::len word" where
  "FixedFromBytes buffer =
     (if length buffer < LENGTH('a) div 8 then Inl NotEnoughBytes
      else Inr (bytes_word (mem_read 0 (LENGTH('a) div 8) buffer)))"

definition FixedToBytes :: "'a::len word \<Rightarrow> byte list \<Rightarrow> TypeError + byte list" where
  "FixedToBytes v buffer =
     (if length buffer < LENGTH('a) div 8 then Inl NotEnoughSpace
      else Inr (mem_write 0 (word_bytes (LENGTH('a) div 8) v) buffer))"

definition String_serialized_size_at :: "byte list \<Rightarrow> TypeError + nat" where
  "String_serialized_size_at buffer =
     (if length buffer < 2 then Inl NotEnoughBytes
      else Inr (2 + unat (bytes_word (mem_read 0 2 buffer) :: 16 word)))"

definition String_from_bytes :: "byte list \<Rightarrow> TypeError + string" where
  "String_from_bytes buffer =
     andthen (String_serialized_size_at buffer) (\<lambda>sz.
     if length buffer < sz then Inl NotEnoughBytes
     else Inr (map byte_char (mem_read 2 (sz - 2) buffer)))"

definition String_to_bytes :: "string \<Rightarrow> byte list \<Rightarrow> TypeError + byte list" where
  "String_to_bytes s buffer =
     (if length s > 65535 then Inl StringTooLong
      else if length buffer < 2 + length s then Inl NotEnoughSpace
      else
        let buffer = mem_write 0 (word_bytes 2 (of_nat (length s) :: 16 word)) buffer
        in Inr (mem_write 2 (map char_byte s) buffer))"

text \<open>The members \<open>from_bytes\<close>, \<open>to_bytes\<close> and \<open>serialized_size\<close>, by alternative.\<close>

primrec from_bytes :: "DataType \<Rightarrow> byte list \<Rightarrow> TypeError + Value" where
  "from_bytes I32_type buffer = andthen (FixedFromBytes buffer) (\<lambda>v. Inr (I32 v))"
| "from_bytes String_type buffer = andthen (String_from_bytes buffer) (\<lambda>v. Inr (String v))"
| "from_bytes U32_type buffer = andthen (FixedFromBytes buffer) (\<lambda>v. Inr (U32 v))"
| "from_bytes I64_type buffer = andthen (FixedFromBytes buffer) (\<lambda>v. Inr (I64 v))"
| "from_bytes F64_type buffer = andthen (FixedFromBytes buffer) (\<lambda>v. Inr (F64 v))"

primrec to_bytes :: "Value \<Rightarrow> byte list \<Rightarrow> TypeError + byte list" where
  "to_bytes (I32 v) buffer = FixedToBytes v buffer"
| "to_bytes (String v) buffer = String_to_bytes v buffer"
| "to_bytes (U32 v) buffer = FixedToBytes v buffer"
| "to_bytes (I64 v) buffer = FixedToBytes v buffer"
| "to_bytes (F64 v) buffer = FixedToBytes v buffer"

primrec serialized_size :: "Value \<Rightarrow> nat" where
  "serialized_size (I32 v) = 4"
| "serialized_size (String v) = 2 + length v"
| "serialized_size (U32 v) = 4"
| "serialized_size (I64 v) = 8"
| "serialized_size (F64 v) = 8"

primrec serialized_size_at :: "DataType \<Rightarrow> byte list \<Rightarrow> TypeError + nat" where
  "serialized_size_at I32_type buffer = Inr 4"
| "serialized_size_at String_type buffer = String_serialized_size_at buffer"
| "serialized_size_at U32_type buffer = Inr 4"
| "serialized_size_at I64_type buffer = Inr 8"
| "serialized_size_at F64_type buffer = Inr 8"

section \<open>Text\<close>

definition is_digit :: "char \<Rightarrow> bool" where
  "is_digit c \<longleftrightarrow> 48 \<le> (of_char c :: nat) \<and> (of_char c :: nat) \<le> 57"

definition digit_value :: "char \<Rightarrow> nat" where "digit_value c = of_char c - 48"
definition digit_char :: "nat \<Rightarrow> char" where "digit_char n = char_of (48 + n)"

definition digits_value :: "string \<Rightarrow> nat" where
  "digits_value ds = foldl (\<lambda>acc c. 10 * acc + digit_value c) 0 ds"

text \<open>
  \<open>std::from_chars\<close> at an integer type with range \<open>lo..hi\<close>: the longest match of an optional minus
  sign (signed types only) and digits; the result is the error code or the value, and the rest of
  the text after the match (all of it when nothing matches).
\<close>

datatype errc = invalid_argument | result_out_of_range

definition from_chars_int :: "bool \<Rightarrow> int \<Rightarrow> int \<Rightarrow> string \<Rightarrow> (errc + int) \<times> string" where
  "from_chars_int is_signed lo hi text =
     (let neg = is_signed \<and> text \<noteq> [] \<and> hd text = CHR ''-'';
          body = (if neg then tl text else text);
          ds = takeWhile is_digit body
      in if ds = [] then (Inl invalid_argument, text)
         else
           let n = int (digits_value ds); v = (if neg then - n else n)
           in (if lo \<le> v \<and> v \<le> hi then Inr v else Inl result_out_of_range, dropWhile is_digit body))"

record f64_text =
  f64_from_chars :: "string \<Rightarrow> (errc + 64 word) \<times> string"
  f64_format :: "64 word \<Rightarrow> string"

definition NumberFromString :: "((errc + 'a) \<times> string) \<Rightarrow> TypeError + 'a" where
  "NumberFromString parsed =
     (case parsed of
        (Inl result_out_of_range, _) \<Rightarrow> Inl OutOfRange
      | (Inl invalid_argument, _) \<Rightarrow> Inl NotValid
      | (Inr v, rest) \<Rightarrow> if rest \<noteq> [] then Inl NotValid else Inr v)"

definition String_from_string :: "string \<Rightarrow> TypeError + string" where
  "String_from_string str_repr = (if length str_repr > 65535 then Inl StringTooLong else Inr str_repr)"

primrec from_string :: "f64_text \<Rightarrow> DataType \<Rightarrow> string \<Rightarrow> TypeError + Value" where
  "from_string fmt I32_type s =
     andthen (NumberFromString (from_chars_int True (- (2 ^ 31)) (2 ^ 31 - 1) s)) (\<lambda>v. Inr (I32 (word_of_int v)))"
| "from_string fmt String_type s = andthen (String_from_string s) (\<lambda>v. Inr (String v))"
| "from_string fmt U32_type s =
     andthen (NumberFromString (from_chars_int False 0 (2 ^ 32 - 1) s)) (\<lambda>v. Inr (U32 (word_of_int v)))"
| "from_string fmt I64_type s =
     andthen (NumberFromString (from_chars_int True (- (2 ^ 63)) (2 ^ 63 - 1) s)) (\<lambda>v. Inr (I64 (word_of_int v)))"
| "from_string fmt F64_type s =
     andthen (NumberFromString (f64_from_chars fmt s)) (\<lambda>v. Inr (F64 v))"

fun nat_to_string :: "nat \<Rightarrow> string" where
  "nat_to_string n = (if n < 10 then [digit_char n] else nat_to_string (n div 10) @ [digit_char (n mod 10)])"

declare nat_to_string.simps [simp del]

definition int_to_string :: "int \<Rightarrow> string" where
  "int_to_string i = (if i < 0 then CHR ''-'' # nat_to_string (nat (- i)) else nat_to_string (nat i))"

primrec ToString :: "f64_text \<Rightarrow> Value \<Rightarrow> string" where
  "ToString fmt (I32 v) = int_to_string (sint v)"
| "ToString fmt (String v) = v"
| "ToString fmt (U32 v) = int_to_string (uint v)"
| "ToString fmt (I64 v) = int_to_string (sint v)"
| "ToString fmt (F64 v) = f64_format fmt v"

text \<open>\<open>std::tolower\<close> of the C locale.\<close>

definition tolower :: "char \<Rightarrow> nat" where
  "tolower c = (let n = of_char c in if 65 \<le> n \<and> n \<le> 90 then n + 32 else n)"

definition EqualsIgnoreCase :: "string \<Rightarrow> string \<Rightarrow> bool" where
  "EqualsIgnoreCase a b \<longleftrightarrow> map tolower a = map tolower b"

definition aliases :: "(string \<times> TypeId) list" where
  "aliases = [(''INTEGER'', type_id I32_type), (''INT'', type_id I32_type), (''BIGINT'', type_id I64_type),
     (''DOUBLE'', type_id F64_type), (''TEXT'', type_id String_type)]"

definition TypeFromName :: "string \<Rightarrow> TypeId option" where
  "TypeFromName name =
     (case List.find (\<lambda>i. EqualsIgnoreCase name (TypeName i)) (map of_nat [0..<length alternatives]) of
        Some i \<Rightarrow> Some i
      | None \<Rightarrow> map_option snd (List.find (\<lambda>(alias, i). EqualsIgnoreCase name alias) aliases))"

definition ValueFromString :: "f64_text \<Rightarrow> TypeId \<Rightarrow> string \<Rightarrow> TypeError + Value" where
  "ValueFromString fmt i str_repr =
     (if \<not> IsValidTypeId (uint i) then Inl InvalidTypeId
      else case dispatch_type i (\<lambda>t. from_string fmt t str_repr) of Inr r \<Rightarrow> r | Inl _ \<Rightarrow> Inl InvalidTypeId)"

section \<open>The encoding of a value\<close>

primrec encode :: "Value \<Rightarrow> byte list" where
  "encode (I32 v) = word_bytes 4 v"
| "encode (String v) = word_bytes 2 (of_nat (length v) :: 16 word) @ map char_byte v"
| "encode (U32 v) = word_bytes 4 v"
| "encode (I64 v) = word_bytes 8 v"
| "encode (F64 v) = word_bytes 8 v"

primrec alternative_of :: "Value \<Rightarrow> DataType" where
  "alternative_of (I32 _) = I32_type"
| "alternative_of (String _) = String_type"
| "alternative_of (U32 _) = U32_type"
| "alternative_of (I64 _) = I64_type"
| "alternative_of (F64 _) = F64_type"

text \<open>The values a row can hold: all but strings longer than the 16-bit length prefix can say.\<close>

fun storable :: "Value \<Rightarrow> bool" where
  "storable (String s) \<longleftrightarrow> length s \<le> 65535"
| "storable _ \<longleftrightarrow> True"

lemma length_encode [simp]: "length (encode v) = serialized_size v"
  by (cases v) simp_all

lemma char_byte_inverse [simp]: "byte_char (char_byte c) = c" "char_byte (byte_char b) = b"
proof -
  have "(of_char c :: nat) < 256" by simp
  then show "byte_char (char_byte c) = c"
    by (simp add: byte_char_def char_byte_def unsigned_of_nat take_bit_nat_eq_self)
  have "(of_char (char_of (unat b)) :: nat) = unat b" using unat_less_8 [of b] by simp
  then show "char_byte (byte_char b) = b" by (simp add: byte_char_def char_byte_def)
qed

lemma map_char_byte_inverse [simp]: "map (byte_char \<circ> char_byte) s = s" "map (char_byte \<circ> byte_char) bs = bs"
  by (simp_all add: comp_def)

lemma mem_write_front: "mem_write 0 bs buffer = bs @ drop (length bs) buffer"
  by (simp add: mem_write_def)

lemma FixedToBytes_eq:
  "FixedToBytes (v :: 'a::len word) buffer =
     (if length buffer < LENGTH('a) div 8 then Inl NotEnoughSpace
      else Inr (word_bytes (LENGTH('a) div 8) v @ drop (LENGTH('a) div 8) buffer))"
  by (simp add: FixedToBytes_def mem_write_front)

lemma to_bytes_eq:
  "to_bytes v buffer =
     (if \<not> storable v then Inl StringTooLong
      else if length buffer < serialized_size v then Inl NotEnoughSpace
      else Inr (encode v @ drop (serialized_size v) buffer))"
proof (cases v)
  case (String s)
  then show ?thesis
    by (auto simp: String_to_bytes_def mem_write_def Let_def)
qed (simp_all add: FixedToBytes_eq)

lemma FixedFromBytes_front:
  assumes "LENGTH('a::len) = 8 * n"
  shows "FixedFromBytes (word_bytes n (v :: 'a word) @ rest) = Inr v"
  using assms by (simp add: FixedFromBytes_def mem_read_def)

lemma FixedFromBytes_Inr:
  assumes "FixedFromBytes buffer = Inr (v :: 'a::len word)" and "LENGTH('a) = 8 * n"
  shows "buffer = word_bytes n v @ drop n buffer"
proof -
  have "v = bytes_word (take n buffer)" and n: "n \<le> length buffer"
    using assms by (auto simp: FixedFromBytes_def mem_read_def split: if_splits)
  then have "word_bytes n v = take n buffer"
    using word_bytes_word [of "take n buffer", where 'a = 'a] assms(2) by simp
  then show ?thesis by (simp add: append_take_drop_id)
qed

lemma String_front:
  assumes "length s \<le> 65535"
  shows "String_serialized_size_at (encode (String s) @ rest) = Inr (2 + length s)"
    and "String_from_bytes (encode (String s) @ rest) = Inr s"
proof -
  have n: "unat (of_nat (length s) :: 16 word) = length s" using assms by (simp add: unat_of_nat_16)
  show sz: "String_serialized_size_at (encode (String s) @ rest) = Inr (2 + length s)"
    using n by (simp add: String_serialized_size_at_def mem_read_def)
  show "String_from_bytes (encode (String s) @ rest) = Inr s"
    unfolding String_from_bytes_def sz using n by (simp add: mem_read_def)
qed

lemma String_from_bytes_Inr:
  assumes "String_from_bytes buffer = Inr s"
  shows "length s \<le> 65535" and "\<exists>rest. buffer = encode (String s) @ rest"
proof -
  let ?n = "bytes_word (take 2 buffer) :: 16 word"
  have len: "2 + unat ?n \<le> length buffer" and s: "s = map byte_char (take (unat ?n) (drop 2 buffer))"
    using assms
    by (auto simp: String_from_bytes_def String_serialized_size_at_def mem_read_def split: if_splits)
  then have ls: "length s = unat ?n" by simp
  then show "length s \<le> 65535" using unat_less_16 [of ?n] by simp
  have "word_bytes 2 ?n = take 2 buffer"
    using word_bytes_word [of "take 2 buffer", where 'a = 16] len by simp
  moreover have "map char_byte s = take (unat ?n) (drop 2 buffer)" by (simp add: s)
  ultimately have "encode (String s) = take (2 + unat ?n) buffer"
    unfolding take_add using ls by simp
  then show "\<exists>rest. buffer = encode (String s) @ rest" by (metis append_take_drop_id)
qed

lemma from_bytes_encode:
  assumes "storable v"
  shows "from_bytes (alternative_of v) (encode v @ rest) = Inr v"
    and "serialized_size_at (alternative_of v) (encode v @ rest) = Inr (serialized_size v)"
  using assms by (cases v; simp add: FixedFromBytes_front String_front [simplified])+

lemma from_bytes_sound:
  assumes "from_bytes t buffer = Inr v"
  shows "storable v \<and> alternative_of v = t \<and> (\<exists>rest. buffer = encode v @ rest)"
proof (cases t)
  case String_type
  then obtain s where s: "v = String s" "String_from_bytes buffer = Inr s"
    using assms by (auto simp: andthen_eq_Inr)
  then show ?thesis using String_from_bytes_Inr [OF s(2)] String_type by simp
qed (use assms FixedFromBytes_Inr [of buffer, where n = 4 and 'a = 32]
    FixedFromBytes_Inr [of buffer, where n = 8 and 'a = 64] in \<open>fastforce simp: andthen_eq_Inr\<close>)+

interpretation value_codec: tagged_codec encode alternative_of storable from_bytes serialized_size_at
  by unfold_locales (auto simp: from_bytes_encode from_bytes_sound dest: from_bytes_sound)

section \<open>Numbers as text\<close>

lemma digit_char_simps [simp]:
  assumes "n < 10"
  shows "is_digit (digit_char n)" and "digit_value (digit_char n) = n"
  using assms by (simp_all add: is_digit_def digit_char_def digit_value_def)

lemma minus_not_digit [simp]: "\<not> is_digit CHR ''-''"
  by (simp add: is_digit_def)

lemma digits_value_append: "digits_value (ds @ [d]) = 10 * digits_value ds + digit_value d"
  by (simp add: digits_value_def)

lemma nat_to_string_props:
  "nat_to_string n \<noteq> [] \<and> list_all is_digit (nat_to_string n) \<and> digits_value (nat_to_string n) = n"
proof (induction n rule: nat_to_string.induct)
  case (1 n)
  then show ?case
    by (subst (1 2 3) nat_to_string.simps) (auto simp: digits_value_append, simp add: digits_value_def)
qed

lemma takeWhile_all: "list_all P xs \<Longrightarrow> takeWhile P xs = xs" "list_all P xs \<Longrightarrow> dropWhile P xs = []"
  by (simp_all add: list_all_iff takeWhile_eq_all_conv dropWhile_eq_Nil_conv)

text \<open>What text denotes an integer: digits, after a minus sign where the type is signed.\<close>

definition int_text :: "bool \<Rightarrow> string \<Rightarrow> int option" where
  "int_text is_signed s =
     (if is_signed \<and> s \<noteq> [] \<and> hd s = CHR ''-''
      then if tl s \<noteq> [] \<and> list_all is_digit (tl s) then Some (- int (digits_value (tl s))) else None
      else if s \<noteq> [] \<and> list_all is_digit s then Some (int (digits_value s)) else None)"

lemma int_text_int_to_string:
  assumes "is_signed \<or> 0 \<le> i"
  shows "int_text is_signed (int_to_string i) = Some i"
proof -
  have "hd (nat_to_string n) \<noteq> CHR ''-''" for n
    using nat_to_string_props [of n] by (cases "nat_to_string n") auto
  then show ?thesis
    using assms nat_to_string_props by (auto simp: int_text_def int_to_string_def)
qed

lemma NumberFromString_int:
  "NumberFromString (from_chars_int is_signed lo hi s) = Inr i \<longleftrightarrow>
     int_text is_signed s = Some i \<and> lo \<le> i \<and> i \<le> hi"
  (is "?l \<longleftrightarrow> ?r")
proof -
  define neg where "neg \<longleftrightarrow> is_signed \<and> s \<noteq> [] \<and> hd s = CHR ''-''"
  define body where "body = (if neg then tl s else s)"
  define ds where "ds = takeWhile is_digit body"
  have d: "ds = [] \<or> dropWhile is_digit body \<noteq> [] \<longleftrightarrow> body = [] \<or> \<not> list_all is_digit body"
    using takeWhile_dropWhile_id [of is_digit body]
    by (auto simp: ds_def list_all_iff takeWhile_eq_Nil_iff dropWhile_eq_Nil_conv hd_in_set)
  have all: "list_all is_digit body \<Longrightarrow> ds = body" by (simp add: ds_def takeWhile_all)
  have fc: "from_chars_int is_signed lo hi s =
      (if ds = [] then (Inl invalid_argument, s)
       else (if lo \<le> (if neg then - int (digits_value ds) else int (digits_value ds)) \<and>
                (if neg then - int (digits_value ds) else int (digits_value ds)) \<le> hi
             then Inr (if neg then - int (digits_value ds) else int (digits_value ds))
             else Inl result_out_of_range, dropWhile is_digit body))"
    unfolding from_chars_int_def Let_def neg_def [symmetric] body_def [symmetric] ds_def [symmetric] by simp
  have it: "int_text is_signed s =
      (if body \<noteq> [] \<and> list_all is_digit body
       then Some (if neg then - int (digits_value body) else int (digits_value body)) else None)"
    by (auto simp: int_text_def neg_def body_def)
  show ?thesis
    unfolding fc it using d all by (auto simp: NumberFromString_def split: if_splits)
qed

lemma dispatch_valid: "IsValidTypeId (uint i) \<Longrightarrow> dispatch_type i f = Inr (f (alternatives ! unat i))"
  by (simp add: dispatch_type_def)

lemma TypeOf_dispatch [simp]:
  "IsValidTypeId (uint (TypeOf v))" "alternatives ! unat (TypeOf v) = alternative_of v"
  "type_id (alternative_of v) = TypeOf v"
  by (cases v; simp add: IsValidTypeId_def alternatives_def)+

lemma ValueFromString_type [simp]: "ValueFromString fmt (type_id t) s = from_string fmt t s"
  by (cases t) (simp_all add: ValueFromString_def dispatch_valid IsValidTypeId_def alternatives_def)

lemmas ValueFromString_ids [simp] = ValueFromString_type [of _ I32_type, simplified type_id.simps]
  ValueFromString_type [of _ String_type, simplified type_id.simps]
  ValueFromString_type [of _ U32_type, simplified type_id.simps]
  ValueFromString_type [of _ I64_type, simplified type_id.simps]
  ValueFromString_type [of _ F64_type, simplified type_id.simps]

lemma sint_range: "- (2 ^ 31) \<le> sint (v :: 32 word)" "sint v \<le> 2 ^ 31 - 1"
    "- (2 ^ 63) \<le> sint (w :: 64 word)" "sint w \<le> 2 ^ 63 - 1"
    "0 \<le> uint v" "uint v \<le> 2 ^ 32 - 1"
  using sint_range_size [of v] sint_range_size [of w] uint_range_size [of v]
  by (simp_all add: word_size)

section \<open>Names of types\<close>

lemma TypeName_eq: "map TypeName [0, 1, 2, 3, 4] = [''I32'', ''String'', ''U32'', ''I64'', ''F64'']"
  by (simp add: TypeName_def IsValidTypeId_def alternatives_def dispatch_type_def)

lemma type_ids_eq: "map of_nat [0..<length alternatives] = [0, 1, 2, 3, 4 :: TypeId]"
  by (simp add: alternatives_def upt_rec)

section \<open>Claims\<close>

text \<open>
  C24: the byte codec of the value types. Every value but an over-long string is written to any
  buffer of at least its serialized size, without touching the bytes behind it, and is read back
  from there whatever follows it; a value too large for the buffer, or a string of more than 65535
  characters, is refused; and reading accepts only buffers that start with the encoding of the value
  it returns.
\<close>

theorem value_codec_roundtrip:
  "(if storable v \<and> serialized_size v \<le> length buffer
    then \<exists>buffer'. to_bytes v buffer = Inr buffer' \<and> length buffer' = length buffer \<and>
      drop (serialized_size v) buffer' = drop (serialized_size v) buffer \<and>
      from_bytes (alternative_of v) buffer' = Inr v \<and>
      serialized_size_at (alternative_of v) buffer' = Inr (serialized_size v)
    else \<exists>e. to_bytes v buffer = Inl e) \<and>
   (from_bytes t bs = Inr w \<longleftrightarrow>
      storable w \<and> alternative_of w = t \<and> to_bytes w bs = Inr bs)"
proof -
  have "from_bytes t bs = Inr w \<longleftrightarrow> storable w \<and> alternative_of w = t \<and> to_bytes w bs = Inr bs"
  proof
    assume "from_bytes t bs = Inr w"
    from from_bytes_sound [OF this] show "storable w \<and> alternative_of w = t \<and> to_bytes w bs = Inr bs"
      by (auto simp: to_bytes_eq)
  next
    assume a: "storable w \<and> alternative_of w = t \<and> to_bytes w bs = Inr bs"
    then have "bs = encode w @ drop (serialized_size w) bs"
      by (simp add: to_bytes_eq split: if_splits)
    with a show "from_bytes t bs = Inr w" using from_bytes_encode(1) [of w] by metis
  qed
  then show ?thesis by (auto simp: to_bytes_eq from_bytes_encode)
qed

text \<open>
  C25: printing a value and parsing the text at the value's type gives the value back, for every
  string a row can hold and every integer, and for every \<open>double\<close> whose text \<open>std::from_chars\<close> reads
  back, as the standard library promises of the shortest representation \<open>std::format\<close> prints.
\<close>

theorem value_text_roundtrip:
  assumes "storable v" and "\<And>x. v = F64 x \<Longrightarrow> f64_from_chars fmt (f64_format fmt x) = (Inr x, [])"
  shows "ValueFromString fmt (TypeOf v) (ToString fmt v) = Inr v"
proof (cases v)
  case (I32 x)
  have "NumberFromString (from_chars_int True (- (2 ^ 31)) (2 ^ 31 - 1) (int_to_string (sint x))) = Inr (sint x)"
    unfolding NumberFromString_int using sint_range by (simp add: int_text_int_to_string)
  then show ?thesis using I32 by simp
next
  case (U32 x)
  have "NumberFromString (from_chars_int False 0 (2 ^ 32 - 1) (int_to_string (uint x))) = Inr (uint x)"
    unfolding NumberFromString_int using sint_range(5,6) [of x] by (simp add: int_text_int_to_string)
  then show ?thesis using U32 by simp
next
  case (I64 x)
  have "NumberFromString (from_chars_int True (- (2 ^ 63)) (2 ^ 63 - 1) (int_to_string (sint x))) = Inr (sint x)"
    unfolding NumberFromString_int using sint_range by (simp add: int_text_int_to_string)
  then show ?thesis using I64 by simp
qed (use assms in \<open>simp_all add: String_from_string_def NumberFromString_def\<close>)

theorem value_text_roundtrip_witness:
  "let fmt = \<lparr>f64_from_chars = (\<lambda>s. if s = ''1.5'' then (Inr 0x3FF8000000000000, []) else (Inl invalid_argument, s)),
        f64_format = (\<lambda>_. ''1.5'')\<rparr>
   in ValueFromString fmt (TypeOf (F64 0x3FF8000000000000)) (ToString fmt (F64 0x3FF8000000000000)) =
        Inr (F64 0x3FF8000000000000) \<and>
      ValueFromString fmt (TypeOf (I32 (- 7))) (ToString fmt (I32 (- 7))) = Inr (I32 (- 7))"
  unfolding Let_def by (intro conjI; rule value_text_roundtrip) simp_all


text \<open>
  Type names. \<open>TypeFromName\<close> finds every type under its own name and ignores case, the SQL
  aliases name the types they should, and every id it returns is a valid type id.
\<close>

lemma TypeFromName_correct:
  "(\<forall>t. TypeFromName (TypeName (type_id t)) = Some (type_id t)) \<and>
   (EqualsIgnoreCase a b \<longrightarrow> TypeFromName a = TypeFromName b) \<and>
   (TypeFromName a = Some i \<longrightarrow> IsValidTypeId (uint i)) \<and>
   map TypeFromName [''INTEGER'', ''int'', ''BigInt'', ''DOUBLE'', ''text''] =
     map (Some \<circ> type_id) [I32_type, I32_type, I64_type, F64_type, String_type]"
proof (intro conjI impI allI)
  show "TypeFromName (TypeName (type_id t)) = Some (type_id t)" for t
    using TypeName_eq by (cases t)
      (simp_all add: TypeFromName_def type_ids_eq EqualsIgnoreCase_def tolower_def)
  show "TypeFromName a = TypeFromName b" if "EqualsIgnoreCase a b"
  proof -
    have "EqualsIgnoreCase a = EqualsIgnoreCase b" using that by (auto simp: EqualsIgnoreCase_def)
    then show ?thesis unfolding TypeFromName_def by (simp only:)
  qed
  show "IsValidTypeId (uint i)" if "TypeFromName a = Some i"
    using that
    by (auto simp: TypeFromName_def type_ids_eq aliases_def IsValidTypeId_def alternatives_def
        split: option.splits if_splits)
  show "map TypeFromName [''INTEGER'', ''int'', ''BigInt'', ''DOUBLE'', ''text''] =
     map (Some \<circ> type_id) [I32_type, I32_type, I64_type, F64_type, String_type]"
    using TypeName_eq
    by (simp add: TypeFromName_def type_ids_eq EqualsIgnoreCase_def tolower_def aliases_def)
qed

end
