(* ===== verification/Page_Dump.thy ===== *)
theory Page_Dump
  imports Page_Format Datatypes
begin

text \<open>
  \<open>PrintPage\<close> (\<open>page_format.cpp\<close>): the text it writes to the console, the header fields of a page and a
  dump of its bytes, sixteen to a line. The page type is a \<open>uint8_t\<close>, which the stream prints as the
  character of that code.
\<close>

section \<open>The dump\<close>

definition hex_digit :: "nat \<Rightarrow> char" where
  "hex_digit n = ''0123456789abcdef'' ! n"

fun to_hex :: "nat \<Rightarrow> string" where
  "to_hex n = (if n < 16 then [hex_digit n] else to_hex (n div 16) @ [hex_digit (n mod 16)])"

declare to_hex.simps [simp del]

text \<open>\<open>setw\<close> with the fill character \<open>0\<close>.\<close>

definition zero_filled :: "nat \<Rightarrow> string \<Rightarrow> string" where
  "zero_filled w s = replicate (w - length s) CHR ''0'' @ s"

definition printable :: "byte \<Rightarrow> char" where
  "printable b = (if 32 \<le> unat b \<and> unat b \<le> 126 then byte_char b else CHR ''.'')"

definition dump_line :: "FullPage \<Rightarrow> nat \<Rightarrow> string" where
  "dump_line page i = zero_filled 6 (to_hex i) @ ''  '' @
     concat (map (\<lambda>j. if i + j < length page then zero_filled 2 (to_hex (unat (page ! (i + j)))) @ '' '' else ''   '') [0..<16]) @
     '' |'' @ map (\<lambda>j. printable (page ! (i + j))) (filter (\<lambda>j. i + j < length page) [0..<16]) @ ''|'' @ [char_of (10 :: nat)]"

definition PrintPage :: "FullPage \<Rightarrow> string" where
  "PrintPage page =
     ''Page type: '' @ [byte_char (GetPageType page), char_of (10 :: nat)] @
     ''Number of slots: '' @ nat_to_string (unat (GetNumTuples page)) @ [char_of (10 :: nat)] @
     ''Free space start: '' @ nat_to_string (unat (GetStartFreeSpace page)) @ [char_of (10 :: nat)] @
     ''Free space end: '' @ nat_to_string (unat (GetEndFreeSpace page)) @ [char_of (10 :: nat)] @
     ''Checksum: '' @ nat_to_string (unat (GetChecksum page)) @ [char_of (10 :: nat), char_of (10 :: nat)] @
     concat (map (dump_line page) (filter (\<lambda>i. i mod 16 = 0) [0..<length page]))"

section \<open>Its shape\<close>

lemma to_hex_byte: "n < 256 \<Longrightarrow> length (zero_filled 2 (to_hex n)) = 2"
  by (subst to_hex.simps, cases "n < 16") (simp_all add: zero_filled_def to_hex.simps [of "n div 16"] div_less_iff_less_mult)

lemma to_hex_length: "n < 16 ^ k \<Longrightarrow> 0 < k \<Longrightarrow> length (to_hex n) \<le> k"
proof (induction n arbitrary: k rule: to_hex.induct)
  case (1 n)
  show ?case
  proof (cases "n < 16")
    case False
    then obtain k' where k: "k = Suc k'" "0 < k'" using "1.prems" by (cases k; cases "k - 1") auto
    then have "n div 16 < 16 ^ k'" using "1.prems"(1) by (simp add: div_less_iff_less_mult mult.commute)
    then show ?thesis using "1.IH" [OF False] k False by (subst to_hex.simps) simp
  qed (use "1.prems" in \<open>simp add: to_hex.simps\<close>)
qed

text \<open>Every full line has the same width, so the columns of the dump line up.\<close>

lemma dump_line_length:
  assumes "i + 16 \<le> length page" and "i < 16 ^ 6"
  shows "length (dump_line page i) = 76"
proof -
  have "length (zero_filled 6 (to_hex i)) = 6" using to_hex_length [OF assms(2)] by (simp add: zero_filled_def)
  moreover have "(\<Sum>j\<leftarrow>[0..<16]. length (if i + j < length page then zero_filled 2 (to_hex (unat (page ! (i + j)))) @ '' '' else ''   '')) =
      (\<Sum>j\<leftarrow>[0..<16]. 3)"
    using to_hex_byte [OF unat_less_8] by (intro arg_cong [where f = sum_list] map_cong) simp_all
  moreover have "filter (\<lambda>j. i + j < length page) [0..<16] = [0..<16]" using assms(1) by (intro filter_True) auto
  ultimately show ?thesis by (simp add: dump_line_def length_concat comp_def sum_list_triv)
qed

end
