(* ===== verification/Page_Store.thy ===== *)
theory Page_Store
  imports Page_Format
begin

text \<open>
  The contract of a store of pages, as the buffer manager relies on it of the disk manager and the
  tables rely on it of the buffer manager: in an environment without faults reading returns the page
  and changes no page, writing replaces one page and no other. \<open>pages\<close> is the abstract state, a map
  from page ids to contents.
\<close>

locale page_store =
  fixes able :: "'env \<Rightarrow> bool" and inv :: "'s \<Rightarrow> bool" and pages :: "'s \<Rightarrow> file_page_id_t \<rightharpoonup> FullPage"
    and get :: "'env \<Rightarrow> 's \<Rightarrow> file_page_id_t \<Rightarrow> FullPage \<Rightarrow> (('e option \<times> FullPage) \<times> 's) outcome"
    and put :: "'env \<Rightarrow> 's \<Rightarrow> file_page_id_t \<Rightarrow> FullPage \<Rightarrow> ('e option \<times> 's) outcome"
  assumes page_length: "inv s \<Longrightarrow> pages s fp = Some pg \<Longrightarrow> length pg = 4096"
    and get_page: "inv s \<Longrightarrow> able env \<Longrightarrow> pages s fp = Some pg \<Longrightarrow> length buf = 4096 \<Longrightarrow>
      \<exists>s'. get env s fp buf = Inr ((None, pg), s') \<and> inv s' \<and> pages s' = pages s"
    and put_page: "inv s \<Longrightarrow> able env \<Longrightarrow> pages s fp \<noteq> None \<Longrightarrow> length pg = 4096 \<Longrightarrow>
      \<exists>s'. put env s fp pg = Inr (None, s') \<and> inv s' \<and> pages s' = (pages s)(fp \<mapsto> pg)"
begin

lemma get_after_put:
  assumes "inv s" and "able env" and "pages s fp \<noteq> None" and "length pg = 4096" and "length buf = 4096"
  shows "\<exists>s'. put env s fp pg = Inr (None, s') \<and> inv s' \<and> pages s' = (pages s)(fp \<mapsto> pg) \<and>
    (\<exists>s''. get env s' fp buf = Inr ((None, pg), s'') \<and> inv s'' \<and> pages s'' = (pages s)(fp \<mapsto> pg))"
proof -
  obtain s' where w: "put env s fp pg = Inr (None, s')" "inv s'" "pages s' = (pages s)(fp \<mapsto> pg)"
    using put_page [OF assms(1-4)] by blast
  moreover have "pages s' fp = Some pg" using w(3) by simp
  ultimately show ?thesis using get_page [OF w(2) assms(2) _ assms(5)] by fastforce
qed

text \<open>Writing a list of pages, ignoring the error values, as a flush of everything does.\<close>

lemma put_all:
  assumes "inv s" and "able env" and "\<forall>(fp, pg) \<in> set ws. pages s fp \<noteq> None \<and> length pg = 4096"
  shows "\<exists>s'. for_each (\<lambda>(fp, pg) s. andthen (put env s fp pg) (\<lambda>(_, s). Inr s)) ws s = Inr s' \<and> inv s' \<and>
    pages s' = pages s ++ map_of (rev ws)"
  using assms
proof (induction ws arbitrary: s)
  case (Cons w ws)
  obtain fp pg where w: "w = (fp, pg)" by force
  obtain s1 where s1: "put env s fp pg = Inr (None, s1)" "inv s1" "pages s1 = (pages s)(fp \<mapsto> pg)"
    using put_page [of s env fp pg] Cons.prems w by auto
  have "\<forall>(fp, pg) \<in> set ws. pages s1 fp \<noteq> None \<and> length pg = 4096"
    using Cons.prems(3) s1(3) by auto
  from Cons.IH [OF s1(2) assms(2) this] obtain s' where
    "for_each (\<lambda>(fp, pg) s. andthen (put env s fp pg) (\<lambda>(_, s). Inr s)) ws s1 = Inr s'" "inv s'"
    "pages s' = pages s1 ++ map_of (rev ws)" by blast
  then show ?case using w s1 by simp
qed simp

end

end
