(* ===== verification/Disk_Manager.thy ===== *)
theory Disk_Manager
  imports Page_Store Datatypes
begin

text \<open>
  The disk manager (\<open>disk_manager.h\<close>, \<open>disk_manager.cpp\<close>): files of pages in the working directory,
  opened on first use and kept open, with the list of pages of each file that are free.

  The file system is part of the state, a map from paths to contents. What the operating system
  decides is the argument \<open>env\<close> of every call: whether a file can be opened, created, resized or
  removed, how many bytes of a page transfer succeed, which ids the random generator draws (they may
  differ from call to call, so they depend on the files there are) and which element of an \<open>unordered_set\<close> is its first. A stream that failed once stays failed, as \<open>fstream\<close>
  does. Each operation runs under the manager's mutexes, so it is one step.
\<close>

section \<open>State\<close>

record io_env =
  io_open :: bool
  io_create :: bool
  io_remove :: bool
  io_resize :: bool
  io_written :: nat
  io_read :: nat
  io_random :: "(file_id_t \<Rightarrow> bool) \<Rightarrow> nat \<Rightarrow> file_id_t"
  io_pick :: nat
  io_message :: string

text \<open>The error classes, with the ids and the reason they are made from, and the text they give.\<close>

datatype disk_error = CreateFileError file_id_t string | AllocatePageError file_id_t string
  | PageReadError file_page_id_t string | PageWriteError file_page_id_t string | DeletePageError file_page_id_t string
  | OpenFileError file_id_t string | DeleteFileError file_id_t string

definition file_text :: "string \<Rightarrow> file_id_t \<Rightarrow> string \<Rightarrow> string" where
  "file_text failed_to file_id reason = ''failed to '' @ failed_to @ nat_to_string (unat file_id) @ '': '' @ reason"

definition page_text :: "string \<Rightarrow> file_page_id_t \<Rightarrow> string \<Rightarrow> string" where
  "page_text failed_to fp_id reason = ''failed to '' @ failed_to @ '' page '' @ nat_to_string (unat (fp_page_id fp_id)) @
     '' in file '' @ nat_to_string (unat (fp_file_id fp_id)) @ '': '' @ reason"

primrec what :: "disk_error \<Rightarrow> string" where
  "what (CreateFileError file_id reason) = file_text ''create file '' file_id reason"
| "what (AllocatePageError file_id reason) = file_text ''allocate page in file '' file_id reason"
| "what (PageReadError fp_id reason) = page_text ''read'' fp_id reason"
| "what (PageWriteError fp_id reason) = page_text ''write'' fp_id reason"
| "what (DeletePageError fp_id reason) = page_text ''delete'' fp_id reason"
| "what (OpenFileError file_id reason) = file_text ''open file '' file_id reason"
| "what (DeleteFileError file_id reason) = file_text ''delete file '' file_id reason"

record DatabaseFile =
  df_path :: string
  df_good :: bool
  free_pages :: "page_id_t list"

record DiskManager =
  fs :: "string \<rightharpoonup> byte list"
  id_map_m :: "file_id_t \<rightharpoonup> DatabaseFile"

section \<open>Operations\<close>

definition GetFilePath :: "file_id_t \<Rightarrow> string" where
  "GetFilePath file_id = nat_to_string (unat file_id) @ ''.yadb''"

text \<open>\<open>page_id * PAGE_SIZE\<close> is a product of two \<open>uint32_t\<close>, so it wraps before it becomes a \<open>size_t\<close>.\<close>

definition GetOffset :: "page_id_t \<Rightarrow> nat" where
  "GetOffset page_id = unat (page_id * of_nat PAGE_SIZE :: 32 word)"

definition GetFileHandle ::
    "io_env \<Rightarrow> DiskManager \<Rightarrow> file_id_t \<Rightarrow> (disk_error + DatabaseFile) \<times> DiskManager" where
  "GetFileHandle env d file_id =
     (case id_map_m d file_id of
        Some db_file \<Rightarrow> (Inr db_file, d)
      | None \<Rightarrow>
          let file_path = GetFilePath file_id
          in if fs d file_path = None \<or> \<not> io_open env then (Inl (OpenFileError file_id ''failed to open file stream''), d)
             else
               let db_file = \<lparr>df_path = file_path, df_good = True, free_pages = []\<rparr>
               in (Inr db_file, d\<lparr>id_map_m := (id_map_m d)(file_id \<mapsto> db_file)\<rparr>))"

text \<open>\<open>file_size\<close> throws when the file is gone.\<close>

definition PageCapacity :: "DiskManager \<Rightarrow> DatabaseFile \<Rightarrow> nat outcome" where
  "PageCapacity d db_file =
     (case fs d (df_path db_file) of
        None \<Rightarrow> Inl RuntimeError
      | Some content \<Rightarrow> Inr (length content div PAGE_SIZE))"

definition file_content :: "DiskManager \<Rightarrow> DatabaseFile \<Rightarrow> byte list" where
  "file_content d db_file = (case fs d (df_path db_file) of None \<Rightarrow> [] | Some content \<Rightarrow> content)"

definition set_handle :: "file_id_t \<Rightarrow> DatabaseFile \<Rightarrow> DiskManager \<Rightarrow> DiskManager" where
  "set_handle file_id db_file d = d\<lparr>id_map_m := (id_map_m d)(file_id \<mapsto> db_file)\<rparr>"

definition WritePage ::
    "io_env \<Rightarrow> DiskManager \<Rightarrow> file_page_id_t \<Rightarrow> FullPage \<Rightarrow> (disk_error option \<times> DiskManager) outcome" where
  "WritePage env d fp_id page =
     (case GetFileHandle env d (fp_file_id fp_id) of
        (Inl e, d) \<Rightarrow> Inr (Some e, d)
      | (Inr db_file, d) \<Rightarrow>
          andthen (PageCapacity d db_file) (\<lambda>capacity.
          andthen (YADB_ASSERT (unat (fp_page_id fp_id) < capacity \<and> fp_page_id fp_id \<notin> set (free_pages db_file))) (\<lambda>_.
          let offset = GetOffset (fp_page_id fp_id);
              bytes = (if df_good db_file then take (io_written env) page else []);
              good = (df_good db_file \<and> length bytes = length page);
              d = d\<lparr>fs := (fs d)(df_path db_file \<mapsto> mem_write offset bytes (file_content d db_file))\<rparr>;
              d = set_handle (fp_file_id fp_id) (db_file\<lparr>df_good := good\<rparr>) d
          in Inr (if good then None else Some (PageWriteError fp_id ''stream failure''), d))))"

definition ReadPage :: "io_env \<Rightarrow> DiskManager \<Rightarrow> file_page_id_t \<Rightarrow> FullPage \<Rightarrow>
    ((disk_error option \<times> FullPage) \<times> DiskManager) outcome" where
  "ReadPage env d fp_id page =
     (case GetFileHandle env d (fp_file_id fp_id) of
        (Inl e, d) \<Rightarrow> Inr ((Some e, page), d)
      | (Inr db_file, d) \<Rightarrow>
          andthen (PageCapacity d db_file) (\<lambda>capacity.
          andthen (YADB_ASSERT (unat (fp_page_id fp_id) < capacity \<and> fp_page_id fp_id \<notin> set (free_pages db_file))) (\<lambda>_.
          let offset = GetOffset (fp_page_id fp_id);
              bytes = (if df_good db_file
                then mem_read offset (min (io_read env) (length page)) (file_content d db_file) else []);
              good = (df_good db_file \<and> length bytes = length page);
              d = set_handle (fp_file_id fp_id) (db_file\<lparr>df_good := good\<rparr>) d
          in Inr ((if good then None else Some (PageReadError fp_id ''stream failure''), mem_write 0 bytes page), d))))"

definition DeletePage ::
    "io_env \<Rightarrow> DiskManager \<Rightarrow> file_page_id_t \<Rightarrow> (disk_error option \<times> DiskManager) outcome" where
  "DeletePage env d fp_id =
     (case GetFileHandle env d (fp_file_id fp_id) of
        (Inl e, d) \<Rightarrow> Inr (Some e, d)
      | (Inr db_file, d) \<Rightarrow>
          andthen (PageCapacity d db_file) (\<lambda>capacity.
          andthen (YADB_ASSERT (unat (fp_page_id fp_id) < capacity \<and> fp_page_id fp_id \<notin> set (free_pages db_file))) (\<lambda>_.
          Inr (None, set_handle (fp_file_id fp_id)
            (db_file\<lparr>free_pages := List.insert (fp_page_id fp_id) (free_pages db_file)\<rparr>) d))))"

definition FileExists :: "DiskManager \<Rightarrow> file_id_t \<Rightarrow> bool" where
  "FileExists d file_id \<longleftrightarrow> fs d (GetFilePath file_id) \<noteq> None"

text \<open>The loop of \<open>CreateFile()\<close> from the \<open>i\<close>-th draw on.\<close>

function create_retry :: "io_env \<Rightarrow> DiskManager \<Rightarrow> nat \<Rightarrow> (disk_error + file_id_t) \<times> DiskManager" where
  "create_retry env d i =
     (if i < MAX_FILE_ID_RETRIES then
        let file_id = io_random env (FileExists d) i
        in if IsReservedFileId file_id then create_retry env d (i + 1)
           else if fs d (GetFilePath file_id) = None then
             if \<not> io_create env then (Inl (CreateFileError file_id ''failed to create file stream''), d)
             else (Inr file_id, d\<lparr>fs := (fs d)(GetFilePath file_id \<mapsto> [])\<rparr>)
           else create_retry env d (i + 1)
      else (Inl (CreateFileError INVALID_FILE_ID ''exhausted retries generating unique file id''), d))"
  by pat_completeness auto
termination
  by (relation "measure (\<lambda>(env, d, i). MAX_FILE_ID_RETRIES - i)") auto

declare create_retry.simps [simp del]

definition CreateFile :: "io_env \<Rightarrow> DiskManager \<Rightarrow> (disk_error + file_id_t) \<times> DiskManager" where
  "CreateFile env d = create_retry env d 0"

definition CreateFileWithId :: "io_env \<Rightarrow> DiskManager \<Rightarrow> file_id_t \<Rightarrow> disk_error option \<times> DiskManager" where
  "CreateFileWithId env d file_id =
     (let file_path = GetFilePath file_id
      in if fs d file_path \<noteq> None then (Some (CreateFileError file_id ''file already exists''), d)
         else if \<not> io_create env then (Some (CreateFileError file_id ''failed to create file stream''), d)
         else (None, d\<lparr>fs := (fs d)(file_path \<mapsto> [])\<rparr>))"

definition DeleteFile :: "io_env \<Rightarrow> DiskManager \<Rightarrow> file_id_t \<Rightarrow> disk_error option \<times> DiskManager" where
  "DeleteFile env d file_id =
     (let d = d\<lparr>id_map_m := (id_map_m d)(file_id := None)\<rparr>
      in if \<not> io_remove env then (Some (DeleteFileError file_id (io_message env)), d)
         else (None, d\<lparr>fs := (fs d)(GetFilePath file_id := None)\<rparr>))"

text \<open>
  The loop that frees the new pages: \<open>i\<close> is a \<open>uint32_t\<close>, the bound a \<open>size_t\<close>. Incrementing the largest
  id wraps to zero, which is below the bound again, and the loop then never ends.
\<close>

function fill_free :: "page_id_t \<Rightarrow> nat \<Rightarrow> page_id_t list \<Rightarrow> page_id_t list outcome" where
  "fill_free i new_capacity free =
     (if unat i < new_capacity then
        if i = - 1 then Inl NoReturn else fill_free (i + 1) new_capacity (List.insert i free)
      else Inr free)"
  by pat_completeness auto
termination
proof (relation "measure (\<lambda>(i, c, free). 2 ^ 32 - unat i)")
  fix i :: page_id_t and c free free'
  assume "i \<noteq> - 1"
  then have "1 + i \<noteq> 0" by (simp add: add_eq_0_iff)
  then have "unat (i + 1) = Suc (unat i)" by (simp add: unatSuc add.commute)
  moreover have "unat i < 2 ^ 32" using unat_less_32 [of i] by simp
  ultimately show "((i + 1, c, free'), i, c, free) \<in> measure (\<lambda>(i, c, free). 2 ^ 32 - unat i)" by simp
qed simp

declare fill_free.simps [simp del]

text \<open>\<open>resize_file\<close>: cut off or fill with zero bytes.\<close>

definition resize_content :: "nat \<Rightarrow> byte list \<Rightarrow> byte list" where
  "resize_content n content = take n content @ replicate (n - length content) 0"

definition AllocatePage ::
    "io_env \<Rightarrow> DiskManager \<Rightarrow> file_id_t \<Rightarrow> ((disk_error + page_id_t) \<times> DiskManager) outcome" where
  "AllocatePage env d file_id =
     (case GetFileHandle env d file_id of
        (Inl e, d) \<Rightarrow> Inr (Inl e, d)
      | (Inr db_file, d) \<Rightarrow>
          (case free_pages db_file of
             [] \<Rightarrow>
               (case fs d (df_path db_file) of
                  None \<Rightarrow> Inr (Inl (AllocatePageError file_id (io_message env)), d)
                | Some content \<Rightarrow>
                    let current_capacity = length content div PAGE_SIZE;
                        page_id = of_nat current_capacity :: page_id_t;
                        new_capacity = (if current_capacity = 0 then 1 else current_capacity * 2)
                    in if \<not> io_resize env then Inr (Inl (AllocatePageError file_id (io_message env)), d)
                       else
                         let d = d\<lparr>fs := (fs d)(df_path db_file \<mapsto> resize_content (new_capacity * PAGE_SIZE) content)\<rparr>
                         in andthen (fill_free (page_id + 1) new_capacity []) (\<lambda>free.
                            Inr (Inr page_id, set_handle file_id (db_file\<lparr>free_pages := free\<rparr>) d)))
           | free \<Rightarrow>
               let page_id = free ! (io_pick env mod length free)
               in Inr (Inr page_id, set_handle file_id (db_file\<lparr>free_pages := remove1 page_id free\<rparr>) d)))"

section \<open>The pages on disk\<close>

text \<open>
  \<open>disk_pages\<close> is the abstract state: the contents of every allocated page. \<open>disk_ok\<close> is the manager's
  invariant; it asks that no stream has failed and that no file has more than \<open>2^20\<close> pages, up to
  which the offset computation is exact.
\<close>

definition free_of :: "DiskManager \<Rightarrow> file_id_t \<Rightarrow> page_id_t set" where
  "free_of d file_id = (case id_map_m d file_id of None \<Rightarrow> {} | Some db_file \<Rightarrow> set (free_pages db_file))"

definition disk_pages :: "DiskManager \<Rightarrow> file_page_id_t \<rightharpoonup> FullPage" where
  "disk_pages d fp =
     (case fs d (GetFilePath (fp_file_id fp)) of
        None \<Rightarrow> None
      | Some content \<Rightarrow>
          if unat (fp_page_id fp) < length content div 4096 \<and> fp_page_id fp \<notin> free_of d (fp_file_id fp)
          then Some (mem_read (4096 * unat (fp_page_id fp)) 4096 content) else None)"

definition handle_ok :: "DiskManager \<Rightarrow> file_id_t \<Rightarrow> DatabaseFile \<Rightarrow> bool" where
  "handle_ok d file_id f \<longleftrightarrow> df_path f = GetFilePath file_id \<and> df_good f \<and> distinct (free_pages f) \<and>
     (\<exists>content. fs d (df_path f) = Some content \<and>
        (\<forall>p \<in> set (free_pages f). unat p < length content div 4096))"

definition disk_ok :: "DiskManager \<Rightarrow> bool" where
  "disk_ok d \<longleftrightarrow> (\<forall>i f. id_map_m d i = Some f \<longrightarrow> handle_ok d i f) \<and>
     (\<forall>i content. fs d (GetFilePath i) = Some content \<longrightarrow> length content \<le> 2 ^ 20 * 4096)"

definition no_fault :: "io_env \<Rightarrow> bool" where
  "no_fault env \<longleftrightarrow> io_open env \<and> io_create env \<and> io_remove env \<and> io_resize env \<and>
     4096 \<le> io_written env \<and> 4096 \<le> io_read env"

definition DiskManager_init :: "(string \<rightharpoonup> byte list) \<Rightarrow> DiskManager" where
  "DiskManager_init files = \<lparr>fs = files, id_map_m = Map.empty\<rparr>"

lemma GetFilePath_inject [simp]: "GetFilePath i = GetFilePath j \<longleftrightarrow> i = j"
proof
  assume "GetFilePath i = GetFilePath j"
  then have "digits_value (nat_to_string (unat i)) = digits_value (nat_to_string (unat j))"
    by (simp add: GetFilePath_def)
  then show "i = j" using nat_to_string_props by (simp add: word_unat_eq_iff)
qed simp

lemma GetOffset_exact: "unat p < 2 ^ 20 \<Longrightarrow> GetOffset p = 4096 * unat p"
  by (simp add: GetOffset_def PAGE_SIZE_def unat_word_ariths)

lemma handle_ok_id_map [simp]: "handle_ok (d\<lparr>id_map_m := m\<rparr>) = handle_ok d"
  by (simp add: handle_ok_def fun_eq_iff)

lemma handle_ok_content:
  assumes "handle_ok d i f" and "fs d path = Some content" and "length content \<le> length content'"
  shows "handle_ok (d\<lparr>fs := (fs d)(path \<mapsto> content')\<rparr>) i f"
proof -
  have "length content div 4096 \<le> length content' div 4096" using assms(3) by (rule div_le_mono)
  then show ?thesis using assms(1,2) by (fastforce simp: handle_ok_def)
qed

lemma disk_okD: "disk_ok d \<Longrightarrow> id_map_m d i = Some f \<Longrightarrow> handle_ok d i f"
  by (simp add: disk_ok_def)

lemma keep_good: "df_good f \<Longrightarrow> f\<lparr>df_good := True\<rparr> = f"
  by simp

text \<open>Opening a file changes no page.\<close>

lemma GetFileHandle_ok:
  assumes ok: "disk_ok d" and ex: "fs d (GetFilePath i) = Some content" and env: "no_fault env"
  shows "\<exists>f d'. GetFileHandle env d i = (Inr f, d') \<and> disk_ok d' \<and> id_map_m d' i = Some f \<and>
    handle_ok d' i f \<and> fs d' = fs d \<and> disk_pages d' = disk_pages d \<and> set (free_pages f) = free_of d i"
proof (cases "id_map_m d i")
  case (Some f)
  then show ?thesis using ok by (auto simp: GetFileHandle_def disk_ok_def free_of_def)
next
  case None
  let ?f = "\<lparr>df_path = GetFilePath i, df_good = True, free_pages = []\<rparr>"
  let ?d = "d\<lparr>id_map_m := (id_map_m d)(i \<mapsto> ?f)\<rparr>"
  have "GetFileHandle env d i = (Inr ?f, ?d)"
    using None ex env by (simp add: GetFileHandle_def no_fault_def Let_def)
  moreover have h: "handle_ok d i ?f" using ex by (simp add: handle_ok_def)
  moreover from this have "disk_ok ?d" using ok by (auto simp: disk_ok_def)
  moreover have "disk_pages ?d = disk_pages d"
    using None by (auto simp: disk_pages_def free_of_def fun_eq_iff split: option.splits)
  ultimately show ?thesis using None by (auto simp: free_of_def)
qed

lemma disk_pages_SomeD:
  assumes "disk_pages d fp = Some pg"
  obtains content where "fs d (GetFilePath (fp_file_id fp)) = Some content"
    and "unat (fp_page_id fp) < length content div 4096" and "fp_page_id fp \<notin> free_of d (fp_file_id fp)"
    and "pg = mem_read (4096 * unat (fp_page_id fp)) 4096 content"
  using assms by (auto simp: disk_pages_def split: option.splits if_splits)

text \<open>Page access to an opened file.\<close>

lemma page_access:
  assumes ok: "disk_ok d" and pg: "disk_pages d fp = Some pg" and env: "no_fault env"
  obtains f d' content where "GetFileHandle env d (fp_file_id fp) = (Inr f, d')" "disk_ok d'"
    "handle_ok d' (fp_file_id fp) f" "id_map_m d' (fp_file_id fp) = Some f" "disk_pages d' = disk_pages d"
    "fs d' (df_path f) = Some content" "unat (fp_page_id fp) < length content div 4096"
    "fp_page_id fp \<notin> set (free_pages f)" "GetOffset (fp_page_id fp) = 4096 * unat (fp_page_id fp)"
    "4096 * unat (fp_page_id fp) + 4096 \<le> length content"
    "pg = mem_read (4096 * unat (fp_page_id fp)) 4096 content"
proof -
  from pg obtain content where c: "fs d (GetFilePath (fp_file_id fp)) = Some content"
    "unat (fp_page_id fp) < length content div 4096" "fp_page_id fp \<notin> free_of d (fp_file_id fp)"
    "pg = mem_read (4096 * unat (fp_page_id fp)) 4096 content" by (rule disk_pages_SomeD)
  obtain f d' where h: "GetFileHandle env d (fp_file_id fp) = (Inr f, d')" "disk_ok d'"
    "id_map_m d' (fp_file_id fp) = Some f" "handle_ok d' (fp_file_id fp) f" "fs d' = fs d"
    "disk_pages d' = disk_pages d" "set (free_pages f) = free_of d (fp_file_id fp)"
    using GetFileHandle_ok [OF ok c(1) env] by blast
  have "length content \<le> 2 ^ 20 * 4096" using ok c(1) by (auto simp: disk_ok_def)
  then have "unat (fp_page_id fp) < 2 ^ 20" and fit: "4096 * unat (fp_page_id fp) + 4096 \<le> length content"
    using c(2) by auto
  then have off: "GetOffset (fp_page_id fp) = 4096 * unat (fp_page_id fp)" by (simp only: GetOffset_exact)
  have "fs d' (df_path f) = Some content" using h(4,5) c(1) by (simp add: handle_ok_def)
  then show thesis
    using c(2,3) h(7) by (intro that [OF h(1,2,4,3,6) _ _ _ off fit c(4)]) simp_all
qed

lemma ReadPage_ok:
  assumes ok: "disk_ok d" and pg: "disk_pages d fp = Some pg" and env: "no_fault env" and buf: "length buf = 4096"
  shows "\<exists>d'. ReadPage env d fp buf = Inr ((None, pg), d') \<and> disk_ok d' \<and> disk_pages d' = disk_pages d"
proof -
  obtain f d' content where a: "GetFileHandle env d (fp_file_id fp) = (Inr f, d')" "disk_ok d'"
    "handle_ok d' (fp_file_id fp) f" "id_map_m d' (fp_file_id fp) = Some f" "disk_pages d' = disk_pages d"
    "fs d' (df_path f) = Some content" "unat (fp_page_id fp) < length content div 4096"
    "fp_page_id fp \<notin> set (free_pages f)" "GetOffset (fp_page_id fp) = 4096 * unat (fp_page_id fp)"
    "4096 * unat (fp_page_id fp) + 4096 \<le> length content"
    "pg = mem_read (4096 * unat (fp_page_id fp)) 4096 content"
    using page_access [OF ok pg env] by blast
  have g: "df_good f" and len: "length pg = 4096" using a(3,10,11) by (simp_all add: handle_ok_def)
  have "d'\<lparr>id_map_m := (id_map_m d')(fp_file_id fp \<mapsto> f)\<rparr> = d'" using a(4) by (simp add: map_upd_triv)
  moreover have "min (io_read env) 4096 = 4096" using env by (simp add: no_fault_def)
  moreover have "mem_write 0 pg buf = pg" using len buf by (simp add: mem_write_def)
  ultimately have "ReadPage env d fp buf = Inr ((None, pg), d')"
    using a g len buf
    by (simp add: ReadPage_def PageCapacity_def PAGE_SIZE_def file_content_def set_handle_def Let_def
        keep_good [OF g])
  then show ?thesis using a by blast
qed

lemma mem_read_page_other:
  assumes "length bs = 4096" and "4096 * i + 4096 \<le> length m" and "i \<noteq> j"
  shows "mem_read (4096 * j) 4096 (mem_write (4096 * i) bs m) = mem_read (4096 * j) 4096 m"
  using assms by (intro mem_read_write_other) linarith+

lemma WritePage_ok:
  assumes ok: "disk_ok d" and pg: "disk_pages d fp \<noteq> None" and env: "no_fault env" and new: "length page = 4096"
  shows "\<exists>d'. WritePage env d fp page = Inr (None, d') \<and> disk_ok d' \<and> disk_pages d' = (disk_pages d)(fp \<mapsto> page)"
proof -
  obtain pg where "disk_pages d fp = Some pg" using pg by blast
  then obtain f d' content where a: "GetFileHandle env d (fp_file_id fp) = (Inr f, d')" "disk_ok d'"
    "handle_ok d' (fp_file_id fp) f" "id_map_m d' (fp_file_id fp) = Some f" "disk_pages d' = disk_pages d"
    "fs d' (df_path f) = Some content" "unat (fp_page_id fp) < length content div 4096"
    "fp_page_id fp \<notin> set (free_pages f)" "GetOffset (fp_page_id fp) = 4096 * unat (fp_page_id fp)"
    "4096 * unat (fp_page_id fp) + 4096 \<le> length content"
    using page_access [OF ok _ env] by blast
  let ?off = "4096 * unat (fp_page_id fp)"
  let ?c = "mem_write ?off page content"
  let ?d = "d'\<lparr>fs := (fs d')(df_path f \<mapsto> ?c)\<rparr>"
  have g: "df_good f" and path: "df_path f = GetFilePath (fp_file_id fp)" using a(3) by (simp_all add: handle_ok_def)
  have len: "length ?c = length content" using a(10) new by simp
  have "take (io_written env) page = page" using env new by (simp add: no_fault_def)
  moreover have "?d\<lparr>id_map_m := (id_map_m ?d)(fp_file_id fp \<mapsto> f)\<rparr> = ?d" using a(4) by (simp add: map_upd_triv)
  ultimately have w: "WritePage env d fp page = Inr (None, ?d)"
    using a g new
    by (simp add: WritePage_def PageCapacity_def PAGE_SIZE_def file_content_def set_handle_def Let_def
        keep_good [OF g])
  have "handle_ok ?d j h" if "id_map_m d' j = Some h" for j h
    using handle_ok_content [OF disk_okD [OF a(2) that] a(6)] len by simp
  moreover have "length content \<le> 2 ^ 20 * 4096" using a(2,6) path by (simp add: disk_ok_def)
  then have "length c \<le> 2 ^ 20 * 4096" if "fs ?d (GetFilePath j) = Some c" for j c
    using that a(2) len unfolding disk_ok_def by (auto split: if_splits)
  ultimately have ok': "disk_ok ?d" by (simp add: disk_ok_def)
  have "disk_pages ?d q = ((disk_pages d)(fp \<mapsto> page)) q" for q
  proof (cases "fp_file_id q = fp_file_id fp")
    case True
    then have "q = fp \<longleftrightarrow> unat (fp_page_id q) = unat (fp_page_id fp)"
      by (metis file_page_id_t.expand word_unat_eq_iff)
    then show ?thesis
      using True a path new len unfolding a(5) [symmetric]
      by (auto simp: disk_pages_def free_of_def mem_simps mem_read_page_other)
  next
    case False
    then show ?thesis unfolding a(5) [symmetric] by (auto simp: disk_pages_def free_of_def path split: option.splits)
  qed
  then show ?thesis using w ok' by blast
qed

text \<open>The disk manager is a page store, in every environment without faults.\<close>

definition lucky_env :: io_env where
  "lucky_env = \<lparr>io_open = True, io_create = True, io_remove = True, io_resize = True,
     io_written = 4096, io_read = 4096, io_random = (\<lambda>_. of_nat), io_pick = 0, io_message = []\<rparr>"

lemma no_fault_lucky [simp]: "no_fault lucky_env"
  by (simp add: no_fault_def lucky_env_def)

lemma disk_page_length:
  assumes "disk_pages d fp = Some pg"
  shows "length pg = 4096"
proof -
  from assms obtain content where "unat (fp_page_id fp) < length content div 4096"
    "pg = mem_read (4096 * unat (fp_page_id fp)) 4096 content" by (rule disk_pages_SomeD)
  then show ?thesis by simp
qed

interpretation disk: page_store no_fault disk_ok disk_pages ReadPage WritePage
  by unfold_locales (blast intro: disk_page_length ReadPage_ok WritePage_ok)+

section \<open>Allocating and deleting pages and files\<close>

lemma fill_free_result:
  assumes "c < 2 ^ 32" and "distinct free"
  shows "\<exists>free'. fill_free i c free = Inr free' \<and> distinct free' \<and>
    set free' = set free \<union> {p. unat i \<le> unat p \<and> unat p < c}"
  using assms
proof (induction i c free rule: fill_free.induct)
  case (1 i c free)
  show ?case
  proof (cases "unat i < c")
    case True
    have max: "i \<noteq> - 1"
    proof
      assume "i = - 1"
      then have "unat i = 2 ^ 32 - 1" by (simp add: unsigned_minus_1_eq_mask mask_eq_exp_minus_1)
      then show False using True "1.prems"(1) by simp
    qed
    then have "1 + i \<noteq> 0" by (simp add: add_eq_0_iff)
    then have s: "unat (i + 1) = Suc (unat i)" by (simp add: unatSuc add.commute)
    have "{p. unat i \<le> unat p \<and> unat p < c} = insert i {p. unat (i + 1) \<le> unat p \<and> unat p < c}"
      using True by (auto simp: s word_unat_eq_iff)
    then show ?thesis
      using "1.IH" [OF True max "1.prems"(1)] "1.prems"(2) True max
      by (subst fill_free.simps) auto
  next
    case False
    then have "{p. unat i \<le> unat p \<and> unat p < c} = {}" by auto
    then show ?thesis using False "1.prems"(2) by (subst fill_free.simps) auto
  qed
qed

lemma disk_pages_set_handle:
  assumes "id_map_m d i = Some f" and "df_path f = GetFilePath i"
  shows "disk_pages (set_handle i (f\<lparr>free_pages := free\<rparr>) d) fp =
    (if fp_file_id fp = i then
       case fs d (GetFilePath i) of
         None \<Rightarrow> None
       | Some content \<Rightarrow>
           if unat (fp_page_id fp) < length content div 4096 \<and> fp_page_id fp \<notin> set free
           then Some (mem_read (4096 * unat (fp_page_id fp)) 4096 content) else None
     else disk_pages d fp)"
  by (auto simp: disk_pages_def free_of_def set_handle_def split: option.splits)

lemma disk_ok_set_handle:
  assumes "disk_ok d" and "handle_ok d i f"
  shows "disk_ok (set_handle i f d)"
  using assms by (auto simp: disk_ok_def set_handle_def)

lemma fp_eq_iff: "fp = FilePageId i p \<longleftrightarrow> fp_file_id fp = i \<and> fp_page_id fp = p"
  by (cases fp) auto

lemma AllocatePage_reuse:
  assumes ok: "disk_ok d" and h: "GetFileHandle env d i = (Inr f, d')" "disk_ok d'" "id_map_m d' i = Some f"
      "disk_pages d' = disk_pages d"
    and free: "free_pages f \<noteq> []"
  shows "\<exists>p d'' pg. AllocatePage env d i = Inr (Inr p, d'') \<and> disk_ok d'' \<and>
    disk_pages d (FilePageId i p) = None \<and> disk_pages d'' = (disk_pages d)(FilePageId i p \<mapsto> pg)"
proof -
  let ?p = "free_pages f ! (io_pick env mod length (free_pages f))"
  let ?d = "set_handle i (f\<lparr>free_pages := remove1 ?p (free_pages f)\<rparr>) d'"
  have hk: "handle_ok d' i f" using h(2,3) by (rule disk_okD)
  have mem: "?p \<in> set (free_pages f)" using free by simp
  obtain content where c: "fs d' (GetFilePath i) = Some content"
    and b: "\<forall>p \<in> set (free_pages f). unat p < length content div 4096"
    and path: "df_path f = GetFilePath i" and dist: "distinct (free_pages f)"
    using hk by (auto simp: handle_ok_def)
  have al: "AllocatePage env d i = Inr (Inr ?p, ?d)"
    using h(1) free by (simp add: AllocatePage_def Let_def split: list.splits)
  have "handle_ok d' i (f\<lparr>free_pages := remove1 ?p (free_pages f)\<rparr>)"
    using hk by (auto simp: handle_ok_def)
  then have ok': "disk_ok ?d" using h(2) by (intro disk_ok_set_handle)
  have none: "disk_pages d (FilePageId i ?p) = None"
    using mem h(3) c unfolding h(4) [symmetric] by (simp add: disk_pages_def free_of_def)
  have "disk_pages ?d fp = ((disk_pages d)(FilePageId i ?p \<mapsto> mem_read (4096 * unat ?p) 4096 content)) fp" for fp
    unfolding disk_pages_set_handle [OF h(3) path] h(4) [symmetric]
    using mem b c dist h(3) by (auto simp: disk_pages_def free_of_def fp_eq_iff)
  then show ?thesis using al ok' none by blast
qed

lemma resize_grow:
  assumes "length content div 4096 = n" and "m = (if n = 0 then 1 else n * 2)"
  shows "resize_content (m * 4096) content = content @ replicate (m * 4096 - length content) 0"
    and "length (resize_content (m * 4096) content) = m * 4096" and "length content \<le> m * 4096"
proof -
  have "length content < (n + 1) * 4096" using assms(1) by (simp add: div_less_iff_less_mult [symmetric])
  also have "\<dots> \<le> m * 4096" using assms(2) by auto
  finally show le: "length content \<le> m * 4096" by simp
  then show "resize_content (m * 4096) content = content @ replicate (m * 4096 - length content) 0"
    and "length (resize_content (m * 4096) content) = m * 4096"
    by (simp_all add: resize_content_def)
qed

lemma mem_read_append: "off + n \<le> length m \<Longrightarrow> mem_read off n (m @ m') = mem_read off n m"
  by (simp add: mem_read_def)

lemma AllocatePage_grow:
  assumes ok: "disk_ok d" and h: "GetFileHandle env d i = (Inr f, d')" "disk_ok d'" "id_map_m d' i = Some f"
      "disk_pages d' = disk_pages d"
    and c: "fs d' (GetFilePath i) = Some content" and small: "length content \<le> 2 ^ 19 * 4096"
    and env: "no_fault env" and free: "free_pages f = []"
  shows "\<exists>p d'' pg. AllocatePage env d i = Inr (Inr p, d'') \<and> disk_ok d'' \<and>
    disk_pages d (FilePageId i p) = None \<and> disk_pages d'' = (disk_pages d)(FilePageId i p \<mapsto> pg)"
proof -
  define n where "n = length content div 4096"
  define m where "m = (if n = 0 then 1 else n * 2)"
  let ?p = "of_nat n :: page_id_t" and ?c = "resize_content (m * 4096) content"
  let ?d1 = "d'\<lparr>fs := (fs d')(GetFilePath i \<mapsto> ?c)\<rparr>"
  have n: "n \<le> 2 ^ 19" using small by (simp add: n_def)
  then have m: "m \<le> 2 ^ 20" "n < m" by (auto simp: m_def)
  have p: "unat ?p = n" using n by (simp add: unat_of_nat_32)
  have p1: "unat (?p + 1) = n + 1" using n p by (simp add: unat_word_ariths)
  note rs = resize_grow [OF n_def [symmetric] m_def]
  have path: "df_path f = GetFilePath i" using disk_okD [OF h(2,3)] by (simp add: handle_ok_def)
  obtain free' where ff: "fill_free (?p + 1) m [] = Inr free'" "distinct free'"
    "set free' = {q. n + 1 \<le> unat q \<and> unat q < m}"
    using fill_free_result [of m "[]" "?p + 1"] m p1 by auto
  let ?d = "set_handle i (f\<lparr>free_pages := free'\<rparr>) ?d1"
  have al: "AllocatePage env d i = Inr (Inr ?p, ?d)"
    using h(1) free c env ff(1) path
    by (simp add: AllocatePage_def Let_def no_fault_def PAGE_SIZE_def n_def [symmetric] m_def [symmetric])
  have "handle_ok ?d1 j g" if "id_map_m d' j = Some g" for j g
    using handle_ok_content [OF disk_okD [OF h(2) that] c] rs by simp
  moreover have "length x \<le> 2 ^ 20 * 4096" if "fs ?d1 (GetFilePath j) = Some x" for j x
    using that h(2) rs(2) m(1) by (auto simp: disk_ok_def split: if_splits)
  ultimately have ok1: "disk_ok ?d1" by (simp add: disk_ok_def)
  have "handle_ok ?d1 i (f\<lparr>free_pages := free'\<rparr>)"
    using path disk_okD [OF h(2,3)] ff(2,3) rs(2) by (auto simp: handle_ok_def)
  then have ok': "disk_ok ?d" using ok1 by (intro disk_ok_set_handle)
  have none: "disk_pages d (FilePageId i ?p) = None"
    using c p unfolding h(4) [symmetric] by (simp add: disk_pages_def n_def)
  have i1: "id_map_m ?d1 i = Some f" using h(3) by simp
  have "disk_pages ?d fp = ((disk_pages d)(FilePageId i ?p \<mapsto> mem_read (4096 * n) 4096 ?c)) fp" for fp
  proof (cases "fp_file_id fp = i")
    case True
    let ?q = "fp_page_id fp"
    have e: "fp = FilePageId i ?p \<longleftrightarrow> unat ?q = n" using True p by (auto simp: fp_eq_iff word_unat_eq_iff)
    have old: "disk_pages d fp = (if unat ?q < n then Some (mem_read (4096 * unat ?q) 4096 content) else None)"
      using True c free h(3) unfolding h(4) [symmetric] by (simp add: disk_pages_def free_of_def n_def)
    have keep: "mem_read (4096 * unat ?q) 4096 ?c = mem_read (4096 * unat ?q) 4096 content" if "unat ?q < n"
      using that unfolding rs(1) n_def by (intro mem_read_append) simp
    have "disk_pages ?d fp = (if unat ?q \<le> n then Some (mem_read (4096 * unat ?q) 4096 ?c) else None)"
      unfolding disk_pages_set_handle [OF i1 path] using True rs(2) m(2) ff(3) by auto
    then show ?thesis using e old keep by auto
  next
    case False
    then show ?thesis
      unfolding disk_pages_set_handle [OF i1 path] h(4) [symmetric]
      by (auto simp: disk_pages_def free_of_def fp_eq_iff split: option.splits)
  qed
  then show ?thesis using al ok' none by blast
qed

lemma AllocatePage_ok:
  assumes ok: "disk_ok d" and ex: "fs d (GetFilePath i) = Some content" and small: "length content \<le> 2 ^ 19 * 4096"
    and env: "no_fault env"
  shows "\<exists>p d' pg. AllocatePage env d i = Inr (Inr p, d') \<and> disk_ok d' \<and>
    disk_pages d (FilePageId i p) = None \<and> disk_pages d' = (disk_pages d)(FilePageId i p \<mapsto> pg)"
proof -
  obtain f d' where h: "GetFileHandle env d i = (Inr f, d')" "disk_ok d'" "id_map_m d' i = Some f"
    "fs d' = fs d" "disk_pages d' = disk_pages d"
    using GetFileHandle_ok [OF ok ex env] by blast
  show ?thesis
    using AllocatePage_reuse [OF ok h(1,2,3,5)] AllocatePage_grow [OF ok h(1,2,3,5) _ small env] ex h(4)
    by (cases "free_pages f = []") auto
qed

lemma create_retry_fresh:
  "create_retry env d i = (Inr file_id, d') \<Longrightarrow>
     \<not> IsReservedFileId file_id \<and> fs d (GetFilePath file_id) = None \<and>
     d' = d\<lparr>fs := (fs d)(GetFilePath file_id \<mapsto> [])\<rparr>"
proof (induction env d i rule: create_retry.induct)
  case (1 env d i)
  show ?case using "1.prems" "1.IH" by (subst (asm) create_retry.simps) (auto simp: Let_def simp del: fun_upd_apply split: if_splits)
qed

text \<open>Which id is drawn depends on the files there are and on nothing else of the state.\<close>

lemma create_retry_cong:
  "FileExists d' = FileExists d \<Longrightarrow> fst (create_retry env d' i) = fst (create_retry env d i)"
proof (induction env d i rule: create_retry.induct)
  case (1 env d i)
  have e: "fs d' (GetFilePath f) = None \<longleftrightarrow> fs d (GetFilePath f) = None" for f
    using fun_cong [OF "1.prems", of f] unfolding FileExists_def by blast
  show ?case
    using "1.IH" "1.prems" by (subst (1 2) create_retry.simps) (simp add: Let_def e)
qed

lemma DeleteFile_ok:
  assumes ok: "disk_ok d" and env: "no_fault env"
  shows "\<exists>d'. DeleteFile env d i = (None, d') \<and> disk_ok d' \<and>
    (\<forall>fp. disk_pages d' fp = (if fp_file_id fp = i then None else disk_pages d fp))"
proof -
  let ?d = "d\<lparr>id_map_m := (id_map_m d)(i := None), fs := (fs d)(GetFilePath i := None)\<rparr>"
  have "DeleteFile env d i = (None, ?d)" using env by (simp add: DeleteFile_def no_fault_def)
  moreover have "handle_ok ?d j f" if "id_map_m ?d j = Some f" for j f
    using that disk_okD [OF ok, of j f] by (auto simp: handle_ok_def split: if_splits)
  then have "disk_ok ?d" using ok by (auto simp: disk_ok_def)
  moreover have "disk_pages ?d fp = (if fp_file_id fp = i then None else disk_pages d fp)" for fp
    by (auto simp: disk_pages_def free_of_def split: option.splits)
  ultimately show ?thesis by blast
qed

lemma disk_ok_init:
  assumes "\<And>i content. files (GetFilePath i) = Some content \<Longrightarrow> length content \<le> 2 ^ 20 * 4096"
  shows "disk_ok (DiskManager_init files)"
  using assms by (simp add: disk_ok_def DiskManager_init_def)

section \<open>Claims\<close>

text \<open>
  C31: writing a page and reading it back. On a well-formed disk state without I/O faults, \<open>WritePage\<close>
  to an allocated page succeeds and changes exactly that page, and \<open>ReadPage\<close> of any allocated page
  returns its contents and changes none, so a read after a write returns what was written.
\<close>

theorem disk_read_write:
  assumes "disk_ok d" and "no_fault env" and "disk_pages d fp = Some old"
    and "length page = 4096" and "length buf = 4096"
  shows "(\<exists>d'. ReadPage env d fp buf = Inr ((None, old), d') \<and> disk_ok d' \<and> disk_pages d' = disk_pages d) \<and>
    (\<exists>d'. WritePage env d fp page = Inr (None, d') \<and> disk_ok d' \<and>
       disk_pages d' = (disk_pages d)(fp \<mapsto> page) \<and>
       (\<exists>d''. ReadPage env d' fp buf = Inr ((None, page), d'')))"
  using disk.get_page [OF assms(1,2,3,5)] disk.get_after_put [OF assms(1,2) _ assms(4,5), of fp] assms(3)
  by blast

lemma one_page_disk:
  "disk_ok (DiskManager_init [GetFilePath 7 \<mapsto> replicate 4096 b])"
  "disk_pages (DiskManager_init [GetFilePath 7 \<mapsto> replicate 4096 b]) (FilePageId 7 0) = Some (replicate 4096 b)"
  by (auto simp: disk_ok_def DiskManager_init_def disk_pages_def free_of_def mem_read_def split: if_splits)

theorem disk_read_write_witness:
  "\<exists>d'. WritePage lucky_env (DiskManager_init [GetFilePath 7 \<mapsto> replicate 4096 0]) (FilePageId 7 0)
      (replicate 4096 1) = Inr (None, d') \<and>
    (\<exists>d''. ReadPage lucky_env d' (FilePageId 7 0) (replicate 4096 0) = Inr ((None, replicate 4096 1), d''))"
  using disk_read_write [OF one_page_disk(1) no_fault_lucky one_page_disk(2), of "replicate 4096 1" "replicate 4096 0"]
  by fastforce

text \<open>
  C32: \<open>AllocatePage\<close> hands out a page that was not allocated before, whether it comes from the free
  list or from doubling the file, and keeps the contents of every other page of every file.
\<close>

theorem AllocatePage_fresh:
  assumes "disk_ok d" and "no_fault env" and "fs d (GetFilePath file_id) = Some content"
    and "length content \<le> 2 ^ 19 * 4096"
  shows "\<exists>p d'. AllocatePage env d file_id = Inr (Inr p, d') \<and> disk_ok d' \<and>
    disk_pages d (FilePageId file_id p) = None \<and> disk_pages d' (FilePageId file_id p) \<noteq> None \<and>
    (\<forall>fp. fp \<noteq> FilePageId file_id p \<longrightarrow> disk_pages d' fp = disk_pages d fp)"
proof -
  obtain p d' pg where "AllocatePage env d file_id = Inr (Inr p, d')" "disk_ok d'"
    "disk_pages d (FilePageId file_id p) = None" "disk_pages d' = (disk_pages d)(FilePageId file_id p \<mapsto> pg)"
    using AllocatePage_ok [OF assms(1,3,4,2)] by blast
  then show ?thesis by auto
qed

theorem AllocatePage_fresh_witness:
  "\<exists>p d'. AllocatePage lucky_env (DiskManager_init [GetFilePath 7 \<mapsto> replicate 4096 0]) 7 = Inr (Inr p, d') \<and>
     disk_pages d' (FilePageId 7 0) = Some (replicate 4096 0) \<and> p \<noteq> 0"
proof -
  let ?d = "DiskManager_init [GetFilePath 7 \<mapsto> replicate 4096 (0 :: byte)]"
  have "fs ?d (GetFilePath 7) = Some (replicate 4096 0)" by (simp add: DiskManager_init_def)
  from AllocatePage_fresh [OF one_page_disk(1) no_fault_lucky this] obtain p d' where
    "AllocatePage lucky_env ?d 7 = Inr (Inr p, d')" "disk_pages ?d (FilePageId 7 p) = None"
    "\<forall>fp. fp \<noteq> FilePageId 7 p \<longrightarrow> disk_pages d' fp = disk_pages ?d fp" by auto
  moreover from this have "p \<noteq> 0" using one_page_disk(2) [of 0] by auto
  ultimately show ?thesis using one_page_disk(2) [of 0] by auto
qed

text \<open>
  C33: beyond \<open>2^20\<close> pages the offset computation wraps around, so two pages of one file share their
  bytes: after a successful write of page \<open>p\<close>, reading page \<open>p + 2^20\<close> of the same file returns what was
  written to \<open>p\<close>.
\<close>

theorem page_offset_aliases:
  assumes "id_map_m d file_id = Some f" and "df_good f" and "free_pages f = []"
    and "fs d (df_path f) = Some content" and "unat p + 2 ^ 20 < length content div 4096"
    and "unat p < 2 ^ 20" and "no_fault env" and "length page = 4096" and "length buf = 4096"
  shows "\<exists>d' d''. WritePage env d (FilePageId file_id p) page = Inr (None, d') \<and>
    ReadPage env d' (FilePageId file_id (p + 2 ^ 20)) buf = Inr ((None, page), d'')"
proof -
  let ?off = "4096 * unat p"
  have q: "unat (p + 2 ^ 20) = unat p + 2 ^ 20" using assms(6) by (simp add: unat_word_ariths)
  have off: "GetOffset p = ?off" using assms(6) by (rule GetOffset_exact)
  have "GetOffset (p + 2 ^ 20) = (unat p + 2 ^ 20) * 4096 mod 2 ^ 32"
    by (simp add: GetOffset_def PAGE_SIZE_def unat_word_ariths mod_mult_right_eq mod_mult_left_eq)
  also have "\<dots> = ?off" using assms(6) by (simp add: add_mult_distrib)
  finally have off2: "GetOffset (p + 2 ^ 20) = ?off" .
  have fit: "?off + 4096 \<le> length content" using assms(5) by linarith
  let ?c = "mem_write ?off page content"
  let ?d = "d\<lparr>fs := (fs d)(df_path f \<mapsto> ?c), id_map_m := (id_map_m d)(file_id \<mapsto> f)\<rparr>"
  have len: "length ?c = length content" using fit assms(8) by simp
  have wr: "take (io_written env) page = page" and rd: "min (io_read env) 4096 = 4096"
    using assms(7,8) by (simp_all add: no_fault_def)
  have w: "WritePage env d (FilePageId file_id p) page = Inr (None, ?d)"
    using assms off wr
    by (simp add: WritePage_def GetFileHandle_def PageCapacity_def PAGE_SIZE_def file_content_def
        set_handle_def Let_def keep_good)
  have rb: "mem_read ?off 4096 ?c = page" using fit assms(8) by (simp add: mem_simps)
  have "mem_write 0 page buf = page" using assms(8,9) by (simp add: mem_write_def)
  then have "ReadPage env ?d (FilePageId file_id (p + 2 ^ 20)) buf =
      Inr ((None, page), set_handle file_id (f\<lparr>df_good := True\<rparr>) ?d)"
    using assms(2,3,5,8,9) off2 q len rd rb
    by (simp add: ReadPage_def GetFileHandle_def PageCapacity_def PAGE_SIZE_def file_content_def Let_def)
  with w show ?thesis by blast
qed

theorem page_offset_aliases_witness:
  "\<exists>d d' d''. WritePage lucky_env d (FilePageId 7 1) (replicate 4096 1) = Inr (None, d') \<and>
     ReadPage lucky_env d' (FilePageId 7 (1 + 2 ^ 20)) (replicate 4096 0) = Inr ((None, replicate 4096 1), d'')"
proof -
  let ?f = "\<lparr>df_path = ''7.yadb'', df_good = True, free_pages = []\<rparr>"
  let ?d = "\<lparr>fs = [''7.yadb'' \<mapsto> replicate (4096 * 2 ^ 21) 0], id_map_m = [7 \<mapsto> ?f]\<rparr>"
  have "\<exists>d' d''. WritePage lucky_env ?d (FilePageId 7 1) (replicate 4096 1) = Inr (None, d') \<and>
      ReadPage lucky_env d' (FilePageId 7 (1 + 2 ^ 20)) (replicate 4096 0) = Inr ((None, replicate 4096 1), d'')"
    by (rule page_offset_aliases [where f = ?f and content = "replicate (4096 * 2 ^ 21) 0"])
      (simp_all only: length_replicate no_fault_lucky, simp_all)
  then show ?thesis by blast
qed

end
