(* ===== verification/LRU_K_Replacer.thy ===== *)
theory LRU_K_Replacer
  imports Storage_Types
begin

text \<open>
  The replacement policy of the buffer pool (\<open>lru_k_replacer.h\<close>, \<open>lru_k_replacer.cpp\<close>). The
  \<open>unordered_map\<close> of frames is an association list in the order in which iteration visits it; no
  property depends on that order except where it says so. The counters are \<open>size_t\<close> and wrap around.
  \<open>replacer_m()\<close> value-initialises the object, so \<open>k_m\<close> and \<open>evictable_count_m\<close> start at zero.
\<close>

type_synonym frame_id_t = "32 word"

section \<open>State and operations\<close>

record LRUFrameHistory =
  fh_history :: "size_t list"
  fh_is_evictable :: bool

definition new_history :: LRUFrameHistory where
  "new_history = \<lparr>fh_history = [], fh_is_evictable = True\<rparr>"

record LRUKReplacer =
  lru_frames :: "(frame_id_t \<times> LRUFrameHistory) list"
  current_timestamp_m :: size_t
  k_m :: size_t
  evictable_count_m :: size_t

definition LRUKReplacer_init :: LRUKReplacer where
  "LRUKReplacer_init = \<lparr>lru_frames = [], current_timestamp_m = 0, k_m = 0, evictable_count_m = 0\<rparr>"

definition contains_frame :: "LRUKReplacer \<Rightarrow> frame_id_t \<Rightarrow> bool" where
  "contains_frame r frame_id \<longleftrightarrow> frame_id \<in> fst ` set (lru_frames r)"

text \<open>Assignment to the entry of a frame that is in the map.\<close>

definition update_frame ::
    "frame_id_t \<Rightarrow> (LRUFrameHistory \<Rightarrow> LRUFrameHistory) \<Rightarrow> LRUKReplacer \<Rightarrow> LRUKReplacer" where
  "update_frame frame_id f r =
     r\<lparr>lru_frames := map (\<lambda>(i, fr). (i, if i = frame_id then f fr else fr)) (lru_frames r)\<rparr>"

definition RegisterFrame :: "LRUKReplacer \<Rightarrow> frame_id_t \<Rightarrow> LRUKReplacer" where
  "RegisterFrame r frame_id =
     (let r = (if contains_frame r frame_id then r
               else r\<lparr>lru_frames := lru_frames r @ [(frame_id, new_history)]\<rparr>)
      in r\<lparr>evictable_count_m := evictable_count_m r + 1\<rparr>)"

text \<open>The loop of \<open>EvictFrame\<close>; \<open>fs\<close> is the whole map, in which the candidate is looked up.\<close>

fun evict_scan :: "size_t \<Rightarrow> (frame_id_t \<rightharpoonup> LRUFrameHistory) \<Rightarrow> frame_id_t option \<Rightarrow> bool \<Rightarrow>
    (frame_id_t \<times> LRUFrameHistory) list \<Rightarrow> frame_id_t option" where
  "evict_scan k fs to_remove found_short_history [] = to_remove"
| "evict_scan k fs to_remove found_short_history ((frame_id, frame) # rest) =
     (if \<not> fh_is_evictable frame then evict_scan k fs to_remove found_short_history rest
      else if fh_history frame = [] then Some frame_id
      else
        let current_is_short = of_nat (length (fh_history frame)) < k
        in case to_remove of
             None \<Rightarrow> evict_scan k fs (Some frame_id) current_is_short rest
           | Some c \<Rightarrow>
               let candidate = (case fs c of Some fr \<Rightarrow> fr | None \<Rightarrow> new_history)
               in if current_is_short \<and> \<not> found_short_history then evict_scan k fs (Some frame_id) True rest
                  else if current_is_short = found_short_history \<and>
                      (current_is_short \<and> hd (fh_history frame) < hd (fh_history candidate) \<or>
                       \<not> current_is_short \<and> last (fh_history frame) < last (fh_history candidate))
                  then evict_scan k fs (Some frame_id) found_short_history rest
                  else evict_scan k fs to_remove found_short_history rest)"

definition EvictFrame :: "LRUKReplacer \<Rightarrow> frame_id_t option \<times> LRUKReplacer" where
  "EvictFrame r =
     (case evict_scan (k_m r) (map_of (lru_frames r)) None False (lru_frames r) of
        None \<Rightarrow> (None, r)
      | Some frame_id \<Rightarrow> (Some frame_id, update_frame frame_id (\<lambda>fr. fr\<lparr>fh_history := []\<rparr>) r))"

definition RecordAccess :: "LRUKReplacer \<Rightarrow> frame_id_t \<Rightarrow> LRUKReplacer" where
  "RecordAccess r frame_id =
     (if \<not> contains_frame r frame_id then r
      else
        let r = update_frame frame_id (\<lambda>fr.
              let h = fh_history fr @ [current_timestamp_m r]
              in fr\<lparr>fh_history := (if of_nat (length h) > k_m r then tl h else h)\<rparr>) r
        in r\<lparr>current_timestamp_m := current_timestamp_m r + 1\<rparr>)"

definition SetEvictable :: "LRUKReplacer \<Rightarrow> frame_id_t \<Rightarrow> bool \<Rightarrow> LRUKReplacer" where
  "SetEvictable r frame_id evictable =
     (if \<not> contains_frame r frame_id then r
      else
        let r = r\<lparr>evictable_count_m := (if evictable then evictable_count_m r + 1 else evictable_count_m r - 1)\<rparr>
        in update_frame frame_id (\<lambda>fr. fr\<lparr>fh_is_evictable := evictable\<rparr>) r)"

definition GetEvictableCount :: "LRUKReplacer \<Rightarrow> size_t" where
  "GetEvictableCount r = evictable_count_m r"

section \<open>The frame table\<close>

text \<open>The invariant of the map: one entry per frame id.\<close>

definition lru_ok :: "LRUKReplacer \<Rightarrow> bool" where
  "lru_ok r \<longleftrightarrow> distinct (map fst (lru_frames r))"

definition frame_history :: "LRUKReplacer \<Rightarrow> frame_id_t \<Rightarrow> LRUFrameHistory option" where
  "frame_history r = map_of (lru_frames r)"

definition evictable :: "LRUKReplacer \<Rightarrow> frame_id_t \<Rightarrow> bool" where
  "evictable r i \<longleftrightarrow> (\<exists>fr. frame_history r i = Some fr \<and> fh_is_evictable fr)"

lemma map_of_update:
  "map_of (map (\<lambda>(i, fr). (i, if i = j then f fr else fr)) xs) i =
     (if i = j then map_option f (map_of xs i) else map_of xs i)"
  by (induction xs) auto

lemma update_frame_simps [simp]:
  "frame_history (update_frame j f r) i = (if i = j then map_option f (frame_history r i) else frame_history r i)"
  "k_m (update_frame j f r) = k_m r" "evictable_count_m (update_frame j f r) = evictable_count_m r"
  "current_timestamp_m (update_frame j f r) = current_timestamp_m r"
  "lru_ok (update_frame j f r) = lru_ok r"
  by (simp_all add: update_frame_def frame_history_def map_of_update lru_ok_def comp_def case_prod_beta)

lemma frame_history_upd [simp]:
  "frame_history (r\<lparr>evictable_count_m := c\<rparr>) = frame_history r"
  "frame_history (r\<lparr>current_timestamp_m := t\<rparr>) = frame_history r"
  "lru_ok (r\<lparr>evictable_count_m := c\<rparr>) = lru_ok r" "lru_ok (r\<lparr>current_timestamp_m := t\<rparr>) = lru_ok r"
  by (simp_all add: frame_history_def lru_ok_def)

lemma contains_frame_eq: "contains_frame r i \<longleftrightarrow> frame_history r i \<noteq> None"
  by (simp add: contains_frame_def frame_history_def map_of_eq_None_iff)

lemma evictable_update_frame:
  "evictable (update_frame j f r) i \<longleftrightarrow>
     (if i = j then \<exists>fr. frame_history r i = Some fr \<and> fh_is_evictable (f fr) else evictable r i)"
  by (auto simp: evictable_def)

lemma evictable_upd [simp]:
  "evictable (r\<lparr>evictable_count_m := c\<rparr>) = evictable r" "evictable (r\<lparr>current_timestamp_m := t\<rparr>) = evictable r"
  by (simp_all add: evictable_def fun_eq_iff)

lemma frame_history_RegisterFrame:
  "frame_history (RegisterFrame r j) =
     (if frame_history r j = None then (frame_history r)(j \<mapsto> new_history) else frame_history r)"
  "lru_ok r \<Longrightarrow> lru_ok (RegisterFrame r j)" "k_m (RegisterFrame r j) = k_m r"
proof -
  show "frame_history (RegisterFrame r j) =
     (if frame_history r j = None then (frame_history r)(j \<mapsto> new_history) else frame_history r)"
  proof (cases "contains_frame r j")
    case False
    then have "map_of (lru_frames r) j = None" by (simp add: contains_frame_eq frame_history_def)
    then have "map_of (lru_frames r @ [(j, new_history)]) = (map_of (lru_frames r))(j \<mapsto> new_history)"
      by (auto simp: map_add_def fun_eq_iff split: option.splits)
    then show ?thesis using False by (simp add: RegisterFrame_def frame_history_def contains_frame_eq)
  qed (auto simp: RegisterFrame_def contains_frame_eq)
  show "lru_ok (RegisterFrame r j)" if "lru_ok r"
    using that by (auto simp: RegisterFrame_def lru_ok_def contains_frame_def Let_def)
  show "k_m (RegisterFrame r j) = k_m r" by (simp add: RegisterFrame_def Let_def)
qed

lemma evictable_RecordAccess:
  "evictable (RecordAccess r j) i = evictable r i"
  "(frame_history (RecordAccess r j) i = None) = (frame_history r i = None)"
  "lru_ok r \<Longrightarrow> lru_ok (RecordAccess r j)" "k_m (RecordAccess r j) = k_m r"
  by (auto simp: RecordAccess_def evictable_update_frame Let_def) (simp_all add: evictable_def)

lemma evictable_SetEvictable:
  "evictable (SetEvictable r j b) i \<longleftrightarrow> (if i = j then b \<and> frame_history r i \<noteq> None else evictable r i)"
  "(frame_history (SetEvictable r j b) i = None) = (frame_history r i = None)"
  "lru_ok r \<Longrightarrow> lru_ok (SetEvictable r j b)" "k_m (SetEvictable r j b) = k_m r"
  by (auto simp: SetEvictable_def evictable_update_frame Let_def contains_frame_eq) (simp_all add: evictable_def)

lemma evictable_clear:
  "evictable (update_frame j (\<lambda>fr. fr\<lparr>fh_history := []\<rparr>) r) i = evictable r i"
  by (simp add: evictable_update_frame) (auto simp: evictable_def)

section \<open>Choice of the victim\<close>

definition preferred :: "size_t \<Rightarrow> LRUFrameHistory \<Rightarrow> LRUFrameHistory \<Rightarrow> bool" where
  "preferred k f g \<longleftrightarrow>
     (let short = (\<lambda>h. of_nat (length (fh_history h)) < k)
      in fh_history g \<noteq> [] \<and>
         (fh_history f = [] \<or> short f \<and> \<not> short g \<or>
          short f = short g \<and>
            (if short f then hd (fh_history f) < hd (fh_history g) else last (fh_history f) < last (fh_history g))))"

definition best :: "size_t \<Rightarrow> (frame_id_t \<times> LRUFrameHistory) list \<Rightarrow> LRUFrameHistory \<Rightarrow> bool" where
  "best k xs f \<longleftrightarrow> (\<forall>(i, g) \<in> set xs. fh_is_evictable g \<longrightarrow> \<not> preferred k g f)"

definition victim_ok :: "size_t \<Rightarrow> (frame_id_t \<times> LRUFrameHistory) list \<Rightarrow> frame_id_t option \<Rightarrow> bool" where
  "victim_ok k xs r \<longleftrightarrow>
     (case r of
        None \<Rightarrow> \<forall>(i, g) \<in> set xs. \<not> fh_is_evictable g
      | Some c \<Rightarrow> \<exists>f. (c, f) \<in> set xs \<and> fh_is_evictable f \<and> best k xs f)"

lemma preferred_trans:
  "\<not> preferred k x y \<Longrightarrow> preferred k z y \<Longrightarrow> \<not> preferred k x z"
  unfolding preferred_def Let_def by (auto split: if_splits)

lemma evict_scan_correct:
  assumes "distinct (map fst (pre @ rest))" and "fs = map_of (pre @ rest)"
    and "case to_remove of
        None \<Rightarrow> \<forall>(i, g) \<in> set pre. \<not> fh_is_evictable g
      | Some c \<Rightarrow> \<exists>f. (c, f) \<in> set pre \<and> fh_is_evictable f \<and> fh_history f \<noteq> [] \<and> best k pre f \<and>
          short = (of_nat (length (fh_history f)) < k)"
    and "\<forall>(i, g) \<in> set pre. fh_is_evictable g \<longrightarrow> fh_history g \<noteq> []"
  shows "victim_ok k (pre @ rest) (evict_scan k fs to_remove short rest)"
  using assms
proof (induction rest arbitrary: pre to_remove short)
  case Nil
  then show ?case by (auto simp: victim_ok_def split: option.splits)
next
  case (Cons x rest)
  obtain i g where x: "x = (i, g)" by force
  have d: "distinct (map fst ((pre @ [x]) @ rest))" and fs: "fs = map_of ((pre @ [x]) @ rest)"
    using Cons.prems(1,2) by simp_all
  note IH = Cons.IH [OF d fs]
  consider (skip) "\<not> fh_is_evictable g" | (unused) "fh_is_evictable g" "fh_history g = []"
    | (first) "fh_is_evictable g" "fh_history g \<noteq> []" "to_remove = None"
    | (cmp) c where "fh_is_evictable g" "fh_history g \<noteq> []" "to_remove = Some c" by blast
  then show ?case
  proof cases
    case skip
    have "victim_ok k ((pre @ [x]) @ rest) (evict_scan k fs to_remove short rest)"
      using Cons.prems(3,4) skip x by (intro IH) (auto simp: best_def split: option.splits)
    then show ?thesis using skip x by simp
  next
    case unused
    then show ?thesis using x by (auto simp: victim_ok_def best_def preferred_def)
  next
    case first
    let ?s = "of_nat (length (fh_history g)) < k"
    have "victim_ok k ((pre @ [x]) @ rest) (evict_scan k fs (Some i) ?s rest)"
      using Cons.prems(3,4) first x
      by (intro IH) (auto simp: best_def preferred_def Let_def)
    then show ?thesis using first x by (simp add: Let_def)
  next
    case cmp
    then obtain f where f: "(c, f) \<in> set pre" "fh_is_evictable f" "fh_history f \<noteq> []" "best k pre f"
      "short = (of_nat (length (fh_history f)) < k)"
      using Cons.prems(3) by auto
    have fc: "fs c = Some f"
      using f(1) Cons.prems(1,2) by (auto intro!: map_of_is_SomeI)
    show ?thesis
    proof (cases "preferred k g f")
      case True
      then have "best k (pre @ [x]) g"
        using f(4) preferred_trans [of k _ f g] x by (auto simp: best_def preferred_def Let_def)
      then have "victim_ok k ((pre @ [x]) @ rest) (evict_scan k fs (Some i) (of_nat (length (fh_history g)) < k) rest)"
        using cmp x Cons.prems(4) by (intro IH) auto
      moreover have "evict_scan k fs to_remove short (x # rest) =
          evict_scan k fs (Some i) (of_nat (length (fh_history g)) < k) rest"
        using True cmp x fc f(5) by (auto simp: preferred_def Let_def split: if_splits)
      ultimately show ?thesis by simp
    next
      case False
      then have "best k (pre @ [x]) f" using f(4) x by (auto simp: best_def)
      then have "victim_ok k ((pre @ [x]) @ rest) (evict_scan k fs (Some c) short rest)"
        using f cmp x Cons.prems(4) by (intro IH) auto
      moreover have "evict_scan k fs to_remove short (x # rest) = evict_scan k fs (Some c) short rest"
        using False cmp x fc f(3,5) by (auto simp: preferred_def Let_def split: if_splits)
      ultimately show ?thesis by simp
    qed
  qed
qed

lemma EvictFrame_result:
  assumes "lru_ok r"
  shows "case EvictFrame r of
      (None, r') \<Rightarrow> r' = r \<and> (\<forall>i. \<not> evictable r i)
    | (Some i, r') \<Rightarrow> evictable r i \<and> r' = update_frame i (\<lambda>fr. fr\<lparr>fh_history := []\<rparr>) r \<and>
        (\<forall>j f g. frame_history r i = Some f \<and> frame_history r j = Some g \<and> fh_is_evictable g \<longrightarrow>
           \<not> preferred (k_m r) g f)"
proof -
  have v: "victim_ok (k_m r) (lru_frames r)
      (evict_scan (k_m r) (map_of (lru_frames r)) None False (lru_frames r))"
    using evict_scan_correct [where pre = "[]" and rest = "lru_frames r"] assms by (simp add: lru_ok_def)
  have mem: "(i, f) \<in> set (lru_frames r) \<longleftrightarrow> frame_history r i = Some f" for i f
    using assms by (simp add: lru_ok_def frame_history_def)
  show ?thesis
  proof (cases "evict_scan (k_m r) (map_of (lru_frames r)) None False (lru_frames r)")
    case None
    then show ?thesis using v mem by (auto simp: EvictFrame_def victim_ok_def evictable_def)
  next
    case (Some i)
    then obtain f where "frame_history r i = Some f" "fh_is_evictable f" "best (k_m r) (lru_frames r) f"
      using v mem by (auto simp: victim_ok_def)
    then show ?thesis using Some mem by (auto simp: EvictFrame_def evictable_def best_def)
  qed
qed

text \<open>With \<open>k_m = 0\<close> every history stays empty, and the first evictable frame of the map is taken.\<close>

definition untracked :: "LRUKReplacer \<Rightarrow> bool" where
  "untracked r \<longleftrightarrow> k_m r = 0 \<and> (\<forall>(i, fr) \<in> set (lru_frames r). fh_history fr = [])"

lemma untracked_step:
  assumes "untracked r"
  shows "untracked (RegisterFrame r i)" "untracked (RecordAccess r i)" "untracked (SetEvictable r i b)"
    "untracked (snd (EvictFrame r))"
  using assms
  by (auto simp: untracked_def RegisterFrame_def RecordAccess_def SetEvictable_def EvictFrame_def
      update_frame_def new_history_def Let_def word_gt_0 split: option.splits)

lemma evict_scan_untracked:
  "\<forall>(i, fr) \<in> set xs. fh_history fr = [] \<Longrightarrow>
     evict_scan k fs to_remove short xs =
       (case List.find (\<lambda>(i, fr). fh_is_evictable fr) xs of Some (i, fr) \<Rightarrow> Some i | None \<Rightarrow> to_remove)"
  by (induction xs) auto

section \<open>Claims\<close>

text \<open>
  C29: \<open>EvictFrame\<close> returns a frame exactly when one is evictable. The frame is evictable, no other
  evictable frame comes before it in the order the code implements (frames without history, then
  those with fewer than \<open>k\<close> accesses by their oldest recorded access, then the others by their latest
  access), and only its own history changes.
\<close>

theorem EvictFrame_correct:
  assumes "lru_ok r"
  shows "case EvictFrame r of
      (None, r') \<Rightarrow> r' = r \<and> (\<forall>i. \<not> evictable r i)
    | (Some i, r') \<Rightarrow> evictable r i \<and> lru_ok r' \<and>
        (\<forall>j f g. frame_history r i = Some f \<and> frame_history r j = Some g \<and> fh_is_evictable g \<longrightarrow>
           \<not> preferred (k_m r) g f) \<and>
        (\<forall>j. frame_history r' j =
           (if j = i then map_option (\<lambda>fr. fr\<lparr>fh_history := []\<rparr>) (frame_history r j) else frame_history r j))"
  using EvictFrame_result [OF assms] assms by (auto split: prod.splits option.splits)

theorem EvictFrame_correct_witness:
  "let r = LRUKReplacer_init\<lparr>k_m := 2, lru_frames :=
       [(0, \<lparr>fh_history = [5, 9], fh_is_evictable = True\<rparr>), (1, \<lparr>fh_history = [7], fh_is_evictable = True\<rparr>),
        (2, \<lparr>fh_history = [1], fh_is_evictable = False\<rparr>)]\<rparr>
   in fst (EvictFrame r) = Some 1 \<and> evictable r 1"
proof -
  let ?r = "LRUKReplacer_init\<lparr>k_m := 2, lru_frames :=
       [(0, \<lparr>fh_history = [5, 9], fh_is_evictable = True\<rparr>), (1, \<lparr>fh_history = [7], fh_is_evictable = True\<rparr>),
        (2, \<lparr>fh_history = [1], fh_is_evictable = False\<rparr>)]\<rparr>"
  have "lru_ok ?r" by (simp add: lru_ok_def)
  note c = EvictFrame_correct [OF this]
  have e: "fst (EvictFrame ?r) = Some 1" by (simp add: EvictFrame_def LRUKReplacer_init_def)
  then have "evictable ?r 1" using c by (cases "EvictFrame ?r") auto
  then show ?thesis using e by (simp add: Let_def)
qed

text \<open>
  C30: the pool's replacer does not track accesses. Its \<open>k_m\<close> is never set, and from then on no
  sequence of operations ever leaves a timestamp in a history; \<open>EvictFrame\<close> just takes the first
  evictable frame in the map's iteration order, whatever was accessed.
\<close>

theorem replacer_ignores_accesses:
  "untracked LRUKReplacer_init \<and>
   (untracked r \<longrightarrow>
      untracked (RegisterFrame r i) \<and> untracked (RecordAccess r i) \<and> untracked (SetEvictable r i b) \<and>
      untracked (snd (EvictFrame r)) \<and>
      fst (EvictFrame r) = map_option fst (List.find (\<lambda>(i, fr). fh_is_evictable fr) (lru_frames r)))"
proof -
  have "untracked LRUKReplacer_init" by (simp add: untracked_def LRUKReplacer_init_def)
  moreover have "fst (EvictFrame r) = map_option fst (List.find (\<lambda>(i, fr). fh_is_evictable fr) (lru_frames r))"
    if "untracked r"
    using evict_scan_untracked [of "lru_frames r"] that
    by (auto simp: untracked_def EvictFrame_def split: option.splits)
  ultimately show ?thesis using untracked_step [of r] by blast
qed

theorem replacer_ignores_accesses_witness:
  "untracked (RecordAccess LRUKReplacer_init 0)"
  using replacer_ignores_accesses [of LRUKReplacer_init 0] by blast

end
