(* ===== verification/Buffer_Manager.thy ===== *)
theory Buffer_Manager
  imports Disk_Manager LRU_K_Replacer
begin

text \<open>
  The page buffer manager and its page handles (\<open>page_buffer_manager.cpp\<close>, \<open>page.cpp\<close>, \<open>frame.cpp\<close>): a
  pool of frames that caches pages of the disk manager's files. Every public operation runs under
  the pool's mutex, so it is one step on the state \<open>PageBufferManager\<close>; a call that waits on the
  condition variable in the state it finds is \<open>Blocked\<close>. The frames' spinlocks are modelled in
  \<open>Shared_Spinlock\<close>. The \<open>unordered_map\<close> from pages to frames is an association list.

  The claims say that the pool is transparent: however pages are loaded and evicted, each page has
  the contents last written to it, and shutting the pool down leaves them on disk.
\<close>

section \<open>State\<close>

record Frame =
  fr_id :: frame_id_t
  fr_fp_id :: file_page_id_t
  fr_is_dirty :: bool
  fr_pin_count :: "32 word"
  fr_data :: FullPage

record PageBufferManager =
  replacer_m :: LRUKReplacer
  disk_manager_m :: DiskManager
  page_map_m :: "(file_page_id_t \<times> frame_id_t) list"
  frames_m :: "Frame list"

datatype pool_error = GetPageError file_page_id_t string | FlushPageError file_page_id_t string
  | DeleteFileTimeoutError file_id_t | DiskError disk_error

primrec pool_what :: "pool_error \<Rightarrow> string" where
  "pool_what (GetPageError fp_id reason) = page_text ''get'' fp_id reason"
| "pool_what (FlushPageError fp_id reason) = page_text ''flush'' fp_id reason"
| "pool_what (DeleteFileTimeoutError file_id) =
     ''timed out waiting for pinned pages in file '' @ nat_to_string (unat file_id) @ '' to be released''"
| "pool_what (DiskError e) = what e"

definition new_Frame :: "frame_id_t \<Rightarrow> FullPage \<Rightarrow> Frame" where
  "new_Frame frame_id data_view =
     \<lparr>fr_id = frame_id, fr_fp_id = FilePageId INVALID_FILE_ID NULL_PAGE_ID, fr_is_dirty = False,
      fr_pin_count = 0, fr_data = data_view\<rparr>"

text \<open>The constructor; \<open>buffer\<close> is what the freshly allocated memory of each frame holds.\<close>

definition PageBufferManager_init ::
    "(nat \<Rightarrow> FullPage) \<Rightarrow> (string \<rightharpoonup> byte list) \<Rightarrow> nat \<Rightarrow> PageBufferManager" where
  "PageBufferManager_init buffer files num_frames =
     \<lparr>replacer_m = fold (\<lambda>i r. RegisterFrame r (of_nat i)) [0..<num_frames] LRUKReplacer_init,
      disk_manager_m = DiskManager_init files,
      page_map_m = [],
      frames_m = map (\<lambda>i. new_Frame (of_nat i) (buffer i)) [0..<num_frames]\<rparr>"

section \<open>Operations\<close>

definition contains_page :: "PageBufferManager \<Rightarrow> file_page_id_t \<Rightarrow> bool" where
  "contains_page p fp_id \<longleftrightarrow> map_of (page_map_m p) fp_id \<noteq> None"

definition erase_page :: "file_page_id_t \<Rightarrow> PageBufferManager \<Rightarrow> PageBufferManager" where
  "erase_page fp_id p = p\<lparr>page_map_m := filter (\<lambda>(k, _). k \<noteq> fp_id) (page_map_m p)\<rparr>"

text \<open>\<open>frames_m[i]\<close>: undefined when there is no such frame.\<close>

definition frame_at :: "PageBufferManager \<Rightarrow> frame_id_t \<Rightarrow> Frame outcome" where
  "frame_at p i = (if unat i < length (frames_m p) then Inr (frames_m p ! unat i) else Inl Undefined)"

definition set_frame :: "frame_id_t \<Rightarrow> Frame \<Rightarrow> PageBufferManager \<Rightarrow> PageBufferManager" where
  "set_frame i frame p = p\<lparr>frames_m := (frames_m p)[unat i := frame]\<rparr>"

definition GetFrameForPage :: "PageBufferManager \<Rightarrow> file_page_id_t \<Rightarrow> frame_id_t option" where
  "GetFrameForPage p fp_id = map_of (page_map_m p) fp_id"

definition FlushPage ::
    "io_env \<Rightarrow> PageBufferManager \<Rightarrow> file_page_id_t \<Rightarrow> (pool_error option \<times> PageBufferManager) outcome" where
  "FlushPage env p fp_id =
     (case GetFrameForPage p fp_id of
        None \<Rightarrow> Inr (Some (FlushPageError fp_id ''page not in buffer pool''), p)
      | Some i \<Rightarrow>
          andthen (frame_at p i) (\<lambda>frame.
          andthen (WritePage env (disk_manager_m p) fp_id (fr_data frame)) (\<lambda>(err, d).
          let p = p\<lparr>disk_manager_m := d\<rparr>
          in Inr (map_option (\<lambda>e. FlushPageError fp_id (what e)) err, p))))"

definition LoadPage ::
    "io_env \<Rightarrow> PageBufferManager \<Rightarrow> file_page_id_t \<Rightarrow> (pool_error option \<times> PageBufferManager) outcome" where
  "LoadPage env p fp_id =
     (if contains_page p fp_id then Inr (None, p)
      else
        case EvictFrame (replacer_m p) of
          (None, r) \<Rightarrow> Inr (Some (GetPageError fp_id ''no evictable frame available''), p\<lparr>replacer_m := r\<rparr>)
        | (Some i, r) \<Rightarrow>
            let p = p\<lparr>replacer_m := r\<rparr>
            in andthen (frame_at p i) (\<lambda>frame.
               andthen (if fr_is_dirty frame then FlushPage env p (fr_fp_id frame) else Inr (None, p)) (\<lambda>(err, p).
               if err \<noteq> None then Inr (err, p)
               else
                 let p = erase_page (fr_fp_id frame) p
                 in andthen (ReadPage env (disk_manager_m p) fp_id (fr_data frame)) (\<lambda>((err, buf), d).
                    let frame = frame\<lparr>fr_data := buf\<rparr>; p = set_frame i frame (p\<lparr>disk_manager_m := d\<rparr>)
                    in if err \<noteq> None then Inr (map_option (\<lambda>e. GetPageError fp_id (what e)) err, p)
                       else
                         let p = erase_page fp_id p; p = p\<lparr>page_map_m := (fp_id, fr_id frame) # page_map_m p\<rparr>
                         in Inr (None, set_frame i
                              (frame\<lparr>fr_fp_id := fp_id, fr_is_dirty := False, fr_pin_count := 0\<rparr>) p)))))"

text \<open>A page handle is the frame it points to; \<open>None\<close> is a handle that was moved from.\<close>

definition PinAndReturnPage ::
    "PageBufferManager \<Rightarrow> file_page_id_t \<Rightarrow> (frame_id_t \<times> PageBufferManager) outcome" where
  "PinAndReturnPage p fp_id =
     (case GetFrameForPage p fp_id of
        None \<Rightarrow> Inl AssertionFailed
      | Some i \<Rightarrow>
          andthen (frame_at p i) (\<lambda>frame.
          let p = set_frame i (frame\<lparr>fr_pin_count := fr_pin_count frame + 1\<rparr>) p;
              r = RecordAccess (replacer_m p) (fr_id frame);
              r = SetEvictable r (fr_id frame) False
          in Inr (i, p\<lparr>replacer_m := r\<rparr>)))"

definition GetPage :: "io_env \<Rightarrow> PageBufferManager \<Rightarrow> file_page_id_t \<Rightarrow>
    ((pool_error + frame_id_t) \<times> PageBufferManager) outcome" where
  "GetPage env p fp_id =
     (if \<not> (contains_page p fp_id \<or> GetEvictableCount (replacer_m p) > 0) then Inl Blocked
      else
        andthen (if \<not> contains_page p fp_id then LoadPage env p fp_id else Inr (None, p)) (\<lambda>(err, p).
        case err of
          Some e \<Rightarrow> Inr (Inl e, p)
        | None \<Rightarrow> andthen (PinAndReturnPage p fp_id) (\<lambda>(page, p). Inr (Inr page, p))))"

definition GetPageIfFrameAvailable :: "io_env \<Rightarrow> PageBufferManager \<Rightarrow> file_page_id_t \<Rightarrow>
    ((pool_error + frame_id_t option) \<times> PageBufferManager) outcome" where
  "GetPageIfFrameAvailable env p fp_id =
     (if \<not> contains_page p fp_id \<and> GetEvictableCount (replacer_m p) = 0 then Inr (Inr None, p)
      else
        andthen (if \<not> contains_page p fp_id then LoadPage env p fp_id else Inr (None, p)) (\<lambda>(err, p).
        case err of
          Some e \<Rightarrow> Inr (Inl e, p)
        | None \<Rightarrow> andthen (PinAndReturnPage p fp_id) (\<lambda>(page, p). Inr (Inr (Some page), p))))"

definition RemoveAccessor :: "PageBufferManager \<Rightarrow> file_page_id_t \<Rightarrow> PageBufferManager outcome" where
  "RemoveAccessor p fp_id =
     (case GetFrameForPage p fp_id of
        None \<Rightarrow> Inl AssertionFailed
      | Some i \<Rightarrow>
          andthen (frame_at p i) (\<lambda>frame.
          let prev = fr_pin_count frame; p = set_frame i (frame\<lparr>fr_pin_count := prev - 1\<rparr>) p
          in andthen (YADB_ASSERT (sint prev > 0)) (\<lambda>_.
             Inr (if prev = 1 then p\<lparr>replacer_m := SetEvictable (replacer_m p) (fr_id frame) True\<rparr> else p))))"

definition FileHasPinnedPages :: "PageBufferManager \<Rightarrow> file_id_t \<Rightarrow> bool" where
  "FileHasPinnedPages p file_id \<longleftrightarrow>
     list_ex (\<lambda>(fp_id, i). fp_file_id fp_id = file_id \<and> sint (fr_pin_count (frames_m p ! unat i)) > 0) (page_map_m p)"

text \<open>Dropping one page of a file that is being deleted.\<close>

definition drop_page :: "file_page_id_t \<Rightarrow> PageBufferManager \<Rightarrow> PageBufferManager outcome" where
  "drop_page fp_id p =
     (case map_of (page_map_m p) fp_id of
        None \<Rightarrow> Inl RuntimeError
      | Some i \<Rightarrow>
          andthen (frame_at p i) (\<lambda>frame.
          let p = set_frame i (frame\<lparr>fr_is_dirty := False\<rparr>) p; p = erase_page fp_id p
          in Inr (p\<lparr>replacer_m := SetEvictable (replacer_m p) (fr_id frame) True\<rparr>)))"

definition pool_DeleteFile ::
    "io_env \<Rightarrow> PageBufferManager \<Rightarrow> file_id_t \<Rightarrow> (pool_error option \<times> PageBufferManager) outcome" where
  "pool_DeleteFile env p file_id =
     (if FileHasPinnedPages p file_id then Inr (Some (DeleteFileTimeoutError file_id), p)
      else
        let to_evict = filter (\<lambda>fp_id. fp_file_id fp_id = file_id) (map fst (page_map_m p))
        in andthen (for_each drop_page to_evict p) (\<lambda>p.
           let (err, d) = DeleteFile env (disk_manager_m p) file_id
           in Inr (map_option DiskError err, p\<lparr>disk_manager_m := d\<rparr>)))"

definition pool_CreateFile :: "io_env \<Rightarrow> PageBufferManager \<Rightarrow> (disk_error + file_id_t) \<times> PageBufferManager" where
  "pool_CreateFile env p =
     (let (r, d) = CreateFile env (disk_manager_m p) in (r, p\<lparr>disk_manager_m := d\<rparr>))"

definition pool_CreateFileWithId ::
    "io_env \<Rightarrow> PageBufferManager \<Rightarrow> file_id_t \<Rightarrow> disk_error option \<times> PageBufferManager" where
  "pool_CreateFileWithId env p file_id =
     (let (r, d) = CreateFileWithId env (disk_manager_m p) file_id in (r, p\<lparr>disk_manager_m := d\<rparr>))"

definition pool_FileExists :: "PageBufferManager \<Rightarrow> file_id_t \<Rightarrow> bool" where
  "pool_FileExists p file_id = FileExists (disk_manager_m p) file_id"

definition pool_AllocatePage ::
    "io_env \<Rightarrow> PageBufferManager \<Rightarrow> file_id_t \<Rightarrow> ((disk_error + page_id_t) \<times> PageBufferManager) outcome" where
  "pool_AllocatePage env p file_id =
     andthen (AllocatePage env (disk_manager_m p) file_id) (\<lambda>(r, d). Inr (r, p\<lparr>disk_manager_m := d\<rparr>))"

text \<open>The destructor: every cached page is flushed, errors are dropped.\<close>

definition PageBufferManager_destroy :: "io_env \<Rightarrow> PageBufferManager \<Rightarrow> DiskManager outcome" where
  "PageBufferManager_destroy env p =
     andthen (for_each (\<lambda>(fp_id, _) p. andthen (FlushPage env p fp_id) (\<lambda>(_, p). Inr p)) (page_map_m p) p)
       (\<lambda>p. Inr (disk_manager_m p))"

section \<open>Page handles\<close>

type_synonym Page = "frame_id_t option"

definition Page_move :: "Page \<Rightarrow> Page \<times> Page" where
  "Page_move other = (other, None)"

text \<open>Move assignment overwrites the target; the page it held is not released.\<close>

definition Page_assign :: "PageBufferManager \<Rightarrow> Page \<Rightarrow> Page \<Rightarrow> (Page \<times> Page) \<times> PageBufferManager" where
  "Page_assign p this other = ((other, None), p)"

definition Page_destroy :: "PageBufferManager \<Rightarrow> Page \<Rightarrow> PageBufferManager outcome" where
  "Page_destroy p this =
     (case this of
        None \<Rightarrow> Inr p
      | Some i \<Rightarrow> andthen (frame_at p i) (\<lambda>frame. RemoveAccessor p (fr_fp_id frame)))"

definition GetView :: "PageBufferManager \<Rightarrow> frame_id_t \<Rightarrow> FullPage outcome" where
  "GetView p i = andthen (frame_at p i) (\<lambda>frame. Inr (fr_data frame))"

text \<open>\<open>GetMutView\<close> marks the frame dirty; \<open>write_view\<close> is the effect of writing through the view.\<close>

definition GetMutView :: "PageBufferManager \<Rightarrow> frame_id_t \<Rightarrow> PageBufferManager outcome" where
  "GetMutView p i = andthen (frame_at p i) (\<lambda>frame. Inr (set_frame i (frame\<lparr>fr_is_dirty := True\<rparr>) p))"

definition write_view :: "frame_id_t \<Rightarrow> FullPage \<Rightarrow> PageBufferManager \<Rightarrow> PageBufferManager outcome" where
  "write_view i page p = andthen (frame_at p i) (\<lambda>frame. Inr (set_frame i (frame\<lparr>fr_data := page\<rparr>) p))"

definition GetFilePageId :: "PageBufferManager \<Rightarrow> frame_id_t \<Rightarrow> file_page_id_t outcome" where
  "GetFilePageId p i = andthen (frame_at p i) (\<lambda>frame. Inr (fr_fp_id frame))"

end
