(* ===== verification/Buffer_Pool.thy ===== *)
theory Buffer_Pool
  imports Buffer_Manager
begin

text \<open>
  What the buffer manager guarantees. \<open>pool_ok\<close> is the invariant that ties the page map, the frames,
  the replacer and the disk together; \<open>contents\<close> is the abstract state, the contents of every page
  wherever it currently is.
\<close>

named_theorems pool_simps \<open>views of the pool after an update\<close>

section \<open>Invariant\<close>

definition frame :: "PageBufferManager \<Rightarrow> frame_id_t \<Rightarrow> Frame" where
  "frame p i = frames_m p ! unat i"

definition is_frame :: "PageBufferManager \<Rightarrow> frame_id_t \<Rightarrow> bool" where
  "is_frame p i \<longleftrightarrow> unat i < length (frames_m p)"

definition page_frame :: "PageBufferManager \<Rightarrow> file_page_id_t \<rightharpoonup> frame_id_t" where
  "page_frame p = map_of (page_map_m p)"

text \<open>A frame that no page is mapped to.\<close>

definition idle :: "PageBufferManager \<Rightarrow> frame_id_t \<Rightarrow> bool" where
  "idle p i \<longleftrightarrow> page_frame p (fr_fp_id (frame p i)) \<noteq> Some i"

definition frame_ok :: "PageBufferManager \<Rightarrow> frame_id_t \<Rightarrow> bool" where
  "frame_ok p i \<longleftrightarrow> fr_id (frame p i) = i \<and> length (fr_data (frame p i)) = 4096 \<and>
     unat (fr_pin_count (frame p i)) < 2 ^ 31 \<and>
     (evictable (replacer_m p) i \<longleftrightarrow> fr_pin_count (frame p i) = 0) \<and>
     (idle p i \<longrightarrow> \<not> fr_is_dirty (frame p i) \<and> fr_pin_count (frame p i) = 0 \<and>
        page_frame p (fr_fp_id (frame p i)) = None)"

definition entry_ok :: "PageBufferManager \<Rightarrow> file_page_id_t \<Rightarrow> frame_id_t \<Rightarrow> bool" where
  "entry_ok p fp i \<longleftrightarrow> is_frame p i \<and> fr_fp_id (frame p i) = fp \<and> disk_pages (disk_manager_m p) fp \<noteq> None \<and>
     (\<not> fr_is_dirty (frame p i) \<longrightarrow> disk_pages (disk_manager_m p) fp = Some (fr_data (frame p i)))"

definition pool_ok :: "PageBufferManager \<Rightarrow> bool" where
  "pool_ok p \<longleftrightarrow> (\<forall>i. is_frame p i \<longrightarrow> frame_ok p i) \<and>
     (\<forall>fp i. page_frame p fp = Some i \<longrightarrow> entry_ok p fp i) \<and> distinct (map fst (page_map_m p)) \<and>
     lru_ok (replacer_m p) \<and> (\<forall>i. frame_history (replacer_m p) i \<noteq> None \<longleftrightarrow> is_frame p i) \<and>
     disk_ok (disk_manager_m p)"

definition contents :: "PageBufferManager \<Rightarrow> file_page_id_t \<rightharpoonup> FullPage" where
  "contents p fp =
     (case page_frame p fp of
        Some i \<Rightarrow> Some (fr_data (frame p i))
      | None \<Rightarrow> disk_pages (disk_manager_m p) fp)"

lemma pool_okD:
  assumes "pool_ok p"
  shows "is_frame p i \<Longrightarrow> frame_ok p i" and "page_frame p fp = Some i \<Longrightarrow> entry_ok p fp i"
    and "lru_ok (replacer_m p)" and "frame_history (replacer_m p) i \<noteq> None \<longleftrightarrow> is_frame p i"
    and "disk_ok (disk_manager_m p)" and "distinct (map fst (page_map_m p))"
  using assms by (auto simp: pool_ok_def)

lemma frame_at_eq: "is_frame p i \<Longrightarrow> frame_at p i = Inr (frame p i)"
  by (simp add: frame_at_def is_frame_def frame_def)

lemma set_frame_views [pool_simps]:
  "is_frame (set_frame i f p) j = is_frame p j"
  "is_frame p i \<Longrightarrow> frame (set_frame i f p) j = (if j = i then f else frame p j)"
  "page_frame (set_frame i f p) = page_frame p"
  "replacer_m (set_frame i f p) = replacer_m p" "disk_manager_m (set_frame i f p) = disk_manager_m p"
  "page_map_m (set_frame i f p) = page_map_m p"
  by (auto simp: set_frame_def is_frame_def frame_def page_frame_def nth_list_update word_unat_eq_iff)

lemma field_upd_views [pool_simps]:
  "frame (p\<lparr>replacer_m := r\<rparr>) = frame p" "frame (p\<lparr>disk_manager_m := d\<rparr>) = frame p"
  "frame (p\<lparr>page_map_m := m\<rparr>) = frame p"
  "is_frame (p\<lparr>replacer_m := r\<rparr>) = is_frame p" "is_frame (p\<lparr>disk_manager_m := d\<rparr>) = is_frame p"
  "is_frame (p\<lparr>page_map_m := m\<rparr>) = is_frame p"
  "page_frame (p\<lparr>replacer_m := r\<rparr>) = page_frame p" "page_frame (p\<lparr>disk_manager_m := d\<rparr>) = page_frame p"
  "page_frame (p\<lparr>page_map_m := m\<rparr>) = map_of m"
  by (simp_all add: frame_def is_frame_def page_frame_def fun_eq_iff)

lemma map_of_erase: "map_of (filter (\<lambda>(k, _). k \<noteq> fp) xs) = (map_of xs)(fp := None)"
  by (induction xs) auto

lemma erase_views [pool_simps]:
  "page_frame (erase_page fp p) = (page_frame p)(fp := None)"
  "frame (erase_page fp p) = frame p" "is_frame (erase_page fp p) = is_frame p"
  "replacer_m (erase_page fp p) = replacer_m p" "disk_manager_m (erase_page fp p) = disk_manager_m p"
  by (simp_all add: page_frame_def erase_page_def map_of_erase frame_def is_frame_def fun_eq_iff)

lemma erase_distinct:
  assumes "distinct (map fst (page_map_m p))"
  shows "distinct (map fst (page_map_m (erase_page fp p)))" and "fp \<notin> fst ` set (page_map_m (erase_page fp p))"
  using assms by (auto simp: erase_page_def intro!: distinct_map_filter)

lemma contains_page_eq: "contains_page p fp \<longleftrightarrow> page_frame p fp \<noteq> None"
  by (simp add: contains_page_def page_frame_def)

lemma GetFrameForPage_eq: "GetFrameForPage p fp = page_frame p fp"
  by (simp add: GetFrameForPage_def page_frame_def)

text \<open>Frames of mapped pages are in use, and no two pages share a frame.\<close>

lemma page_frame_inj:
  assumes "pool_ok p" and "page_frame p fp = Some i" and "page_frame p fp' = Some i"
  shows "fp = fp'"
  using pool_okD(2) [OF assms(1,2)] pool_okD(2) [OF assms(1,3)] by (simp add: entry_ok_def)

section \<open>Flushing\<close>

lemma FlushPage_ok:
  assumes ok: "pool_ok p" and m: "page_frame p fp = Some i" and env: "no_fault env"
  shows "\<exists>d. FlushPage env p fp = Inr (None, p\<lparr>disk_manager_m := d\<rparr>) \<and> disk_ok d \<and>
    disk_pages d = (disk_pages (disk_manager_m p))(fp \<mapsto> fr_data (frame p i))"
proof -
  have e: "entry_ok p fp i" by (rule pool_okD(2) [OF ok m])
  then have f: "frame_ok p i" using pool_okD(1) [OF ok] by (simp add: entry_ok_def)
  obtain d where "WritePage env (disk_manager_m p) fp (fr_data (frame p i)) = Inr (None, d)" "disk_ok d"
    "disk_pages d = (disk_pages (disk_manager_m p))(fp \<mapsto> fr_data (frame p i))"
    using disk.put_page [OF pool_okD(5) [OF ok] env, of fp "fr_data (frame p i)"] e f
    by (auto simp: entry_ok_def frame_ok_def)
  then show ?thesis
    using e m by (auto simp: FlushPage_def GetFrameForPage_eq entry_ok_def frame_at_eq)
qed

text \<open>A flushed disk agrees with the contents where it changed.\<close>

lemma pool_ok_disk:
  assumes ok: "pool_ok p" and d: "disk_ok d" and m: "page_frame p fp = Some i"
    and dp: "disk_pages d = (disk_pages (disk_manager_m p))(fp \<mapsto> fr_data (frame p i))"
  shows "pool_ok (p\<lparr>disk_manager_m := d\<rparr>)" and "contents (p\<lparr>disk_manager_m := d\<rparr>) = contents p"
proof -
  have "entry_ok (p\<lparr>disk_manager_m := d\<rparr>) q j" if "page_frame p q = Some j" for q j
    using pool_okD(2) [OF ok that] that m dp page_frame_inj [OF ok] by (auto simp: entry_ok_def pool_simps)
  moreover have "frame_ok (p\<lparr>disk_manager_m := d\<rparr>) j = frame_ok p j" for j
    by (simp add: frame_ok_def idle_def pool_simps)
  ultimately show "pool_ok (p\<lparr>disk_manager_m := d\<rparr>)"
    using ok d by (auto simp: pool_ok_def pool_simps)
  show "contents (p\<lparr>disk_manager_m := d\<rparr>) = contents p"
    using m dp by (auto simp: contents_def pool_simps fun_eq_iff split: option.splits)
qed

section \<open>Loading\<close>

text \<open>
  Loading page \<open>fp\<close> into the victim \<open>i\<close>, once the victim's own page is on disk. No idle frame may
  still carry the id of \<open>fp\<close>, which could only be left from a deleted file with the same id.
\<close>

definition no_stale :: "PageBufferManager \<Rightarrow> file_page_id_t \<Rightarrow> bool" where
  "no_stale p fp \<longleftrightarrow> (\<forall>i. is_frame p i \<and> idle p i \<longrightarrow> fr_fp_id (frame p i) \<noteq> fp)"

definition loaded :: "PageBufferManager \<Rightarrow> frame_id_t \<Rightarrow> file_page_id_t \<Rightarrow> FullPage \<Rightarrow> DiskManager \<Rightarrow>
    PageBufferManager \<Rightarrow> bool" where
  "loaded p i fp pg d p' \<longleftrightarrow>
     replacer_m p' = replacer_m p \<and> disk_manager_m p' = d \<and> distinct (map fst (page_map_m p')) \<and> (\<forall>j. is_frame p' j = is_frame p j) \<and>
     page_frame p' = (page_frame p)(fr_fp_id (frame p i) := None, fp \<mapsto> i) \<and>
     (\<forall>j. frame p' j =
        (if j = i then (frame p i)\<lparr>fr_fp_id := fp, fr_is_dirty := False, fr_pin_count := 0, fr_data := pg\<rparr>
         else frame p j))"

lemma pool_ok_loaded:
  assumes ok: "pool_ok p" and i: "is_frame p i" and ev: "evictable (replacer_m p) i"
    and saved: "page_frame p (fr_fp_id (frame p i)) = Some i \<Longrightarrow>
      disk_pages (disk_manager_m p) (fr_fp_id (frame p i)) = Some (fr_data (frame p i))"
    and new: "page_frame p fp = None" "disk_pages (disk_manager_m p) fp = Some pg" "no_stale p fp"
    and d: "disk_ok d" "disk_pages d = disk_pages (disk_manager_m p)" and l: "loaded p i fp pg d p'"
  shows "pool_ok p'" and "contents p' = contents p"
    and "is_frame p j \<Longrightarrow> j \<noteq> i \<Longrightarrow> idle p' j \<Longrightarrow> idle p j"
proof -
  let ?old = "fr_fp_id (frame p i)"
  have fi: "frame_ok p i" by (rule pool_okD(1) [OF ok i])
  have len: "length pg = 4096" using disk.page_length [OF pool_okD(5) [OF ok] new(2)] .
  have ne: "page_frame p fp' = Some i \<Longrightarrow> fp' = ?old" for fp'
    using pool_okD(2) [OF ok] by (auto simp: entry_ok_def)
  have views: "replacer_m p' = replacer_m p" "disk_manager_m p' = d" "is_frame p' j = is_frame p j"
    "page_frame p' = (page_frame p)(?old := None, fp \<mapsto> i)"
    "frame p' j = (if j = i then (frame p i)\<lparr>fr_fp_id := fp, fr_is_dirty := False, fr_pin_count := 0,
       fr_data := pg\<rparr> else frame p j)" for j
    using l by (simp_all add: loaded_def)
  have entry: "entry_ok p' q j" if "page_frame p' q = Some j" for q j
  proof (cases "q = fp")
    case True
    then show ?thesis using that i new d views by (auto simp: entry_ok_def)
  next
    case False
    then have q: "q \<noteq> ?old" "page_frame p q = Some j" using that views(4) by (auto split: if_splits)
    then have "j \<noteq> i" using ne by blast
    then show ?thesis using pool_okD(2) [OF ok q(2)] d views by (simp add: entry_ok_def)
  qed
  show "idle p j" if "is_frame p j" "j \<noteq> i" "idle p' j" for j
  proof (rule ccontr)
    assume "\<not> idle p j"
    then have pj: "page_frame p (fr_fp_id (frame p j)) = Some j" by (simp add: idle_def)
    moreover have "fr_fp_id (frame p j) \<noteq> ?old" using pj that(2) fi by (auto simp: frame_ok_def idle_def)
    moreover have "fr_fp_id (frame p j) \<noteq> fp" using pj new(1) by auto
    ultimately show False using that(2,3) views by (simp add: idle_def)
  qed
  have "frame_ok p' j" if j: "is_frame p j" for j
  proof (cases "j = i")
    case True
    then show ?thesis using fi ev len views by (simp add: frame_ok_def idle_def)
  next
    case False
    have fj: "frame_ok p j" by (rule pool_okD(1) [OF ok j])
    show ?thesis
    proof (cases "idle p j")
      case True
      then have "page_frame p (fr_fp_id (frame p j)) = None" using fj by (simp add: frame_ok_def)
      moreover have "fr_fp_id (frame p j) \<noteq> fp" using new(3) j True by (simp add: no_stale_def)
      ultimately show ?thesis using fj True False views by (simp add: frame_ok_def idle_def)
    next
      case nidle: False
      then have pj: "page_frame p (fr_fp_id (frame p j)) = Some j" by (simp add: idle_def)
      then have "fr_fp_id (frame p j) \<noteq> fp" using new(1) by auto
      moreover have "fr_fp_id (frame p j) \<noteq> ?old"
        using pj False fi by (auto simp: frame_ok_def idle_def)
      ultimately show ?thesis using fj nidle False views pj by (simp add: frame_ok_def idle_def)
    qed
  qed
  then show "pool_ok p'"
    using ok entry d(1) views l by (auto simp: pool_ok_def loaded_def)
  show "contents p' = contents p"
  proof
    fix q
    consider "q = fp" | "q \<noteq> fp" "q = ?old" | "q \<noteq> fp" "q \<noteq> ?old" by blast
    then show "contents p' q = contents p q"
    proof cases
      case 1
      then show ?thesis using new views by (simp add: contents_def)
    next
      case 2
      have "page_frame p ?old = None \<or> page_frame p ?old = Some i" using fi by (auto simp: frame_ok_def idle_def)
      then show ?thesis using 2 views d(2) saved by (auto simp: contents_def)
    next
      case 3
      then show ?thesis using views d(2) ne by (auto simp: contents_def split: option.splits)
    qed
  qed
qed

lemma pool_ok_replacer:
  assumes "pool_ok p" and "lru_ok r" and "\<And>i. evictable r i = evictable (replacer_m p) i"
    and "\<And>i. (frame_history r i = None) = (frame_history (replacer_m p) i = None)"
  shows "pool_ok (p\<lparr>replacer_m := r\<rparr>)" and "contents (p\<lparr>replacer_m := r\<rparr>) = contents p"
proof -
  have "frame_ok (p\<lparr>replacer_m := r\<rparr>) i = frame_ok p i" "entry_ok (p\<lparr>replacer_m := r\<rparr>) fp i = entry_ok p fp i" for i fp
    using assms(3) by (simp_all add: frame_ok_def entry_ok_def idle_def pool_simps)
  then show "pool_ok (p\<lparr>replacer_m := r\<rparr>)" using assms by (simp add: pool_ok_def pool_simps)
  show "contents (p\<lparr>replacer_m := r\<rparr>) = contents p" by (auto simp: contents_def pool_simps split: option.splits)
qed

lemma no_stale_views [pool_simps]:
  "no_stale (p\<lparr>replacer_m := r\<rparr>) fp = no_stale p fp" "no_stale (p\<lparr>disk_manager_m := d\<rparr>) fp = no_stale p fp"
  by (simp_all add: no_stale_def idle_def pool_simps)

lemma LoadPage_ok:
  assumes ok: "pool_ok p" and new: "page_frame p fp = None" "contents p fp \<noteq> None" "no_stale p fp"
    and ev: "\<exists>i. evictable (replacer_m p) i" and env: "no_fault env"
  shows "\<exists>i p'. LoadPage env p fp = Inr (None, p') \<and> pool_ok p' \<and> contents p' = contents p \<and>
    page_frame p' fp = Some i \<and> fr_pin_count (frame p' i) = 0 \<and> (\<forall>j. is_frame p' j = is_frame p j) \<and>
    is_frame p i \<and> fr_pin_count (frame p i) = 0 \<and>
    (\<forall>j. is_frame p j \<and> j \<noteq> i \<longrightarrow> frame p' j = frame p j \<and> (idle p' j \<longrightarrow> idle p j))"
proof -
  obtain i r where e: "EvictFrame (replacer_m p) = (Some i, r)" "evictable (replacer_m p) i"
    "r = update_frame i (\<lambda>fr. fr\<lparr>fh_history := []\<rparr>) (replacer_m p)"
    using EvictFrame_result [OF pool_okD(3) [OF ok]] ev by (auto split: prod.splits option.splits)
  let ?p1 = "p\<lparr>replacer_m := r\<rparr>"
  have "lru_ok r" "\<And>j. evictable r j = evictable (replacer_m p) j"
    "\<And>j. (frame_history r j = None) = (frame_history (replacer_m p) j = None)"
    using pool_okD(3) [OF ok] by (simp_all add: e(3) evictable_clear)
  note p1 = pool_ok_replacer [OF ok this]
  have i: "is_frame ?p1 i" and ev1: "evictable (replacer_m ?p1) i"
    using pool_okD(4) [OF ok, of i] e(2) by (auto simp: evictable_def pool_simps e(3) evictable_clear [unfolded evictable_def])
  let ?f = "frame p i"
  let ?old = "fr_fp_id ?f"
  obtain d where fl: "(if fr_is_dirty ?f then FlushPage env ?p1 ?old else Inr (None, ?p1)) =
      Inr (None, ?p1\<lparr>disk_manager_m := d\<rparr>)"
    and p2: "pool_ok (?p1\<lparr>disk_manager_m := d\<rparr>)" "contents (?p1\<lparr>disk_manager_m := d\<rparr>) = contents p"
    and saved: "page_frame p ?old = Some i \<Longrightarrow> disk_pages d ?old = Some (fr_data ?f)"
  proof (cases "fr_is_dirty ?f")
    case True
    then have m: "page_frame ?p1 ?old = Some i"
      using pool_okD(1) [OF p1(1) i] by (auto simp: frame_ok_def idle_def pool_simps)
    obtain d where "FlushPage env ?p1 ?old = Inr (None, ?p1\<lparr>disk_manager_m := d\<rparr>)" "disk_ok d"
      "disk_pages d = (disk_pages (disk_manager_m ?p1))(?old \<mapsto> fr_data (frame ?p1 i))"
      using FlushPage_ok [OF p1(1) m env] by blast
    then show thesis using that pool_ok_disk [OF p1(1) _ m] True p1(2) by (simp add: pool_simps)
  next
    case False
    have "?p1\<lparr>disk_manager_m := disk_manager_m p\<rparr> = ?p1" by simp
    moreover have "disk_pages (disk_manager_m p) ?old = Some (fr_data ?f)" if "page_frame p ?old = Some i"
      using pool_okD(2) [OF ok that] False by (simp add: entry_ok_def)
    ultimately show thesis using that [of "disk_manager_m p"] False p1 by simp
  qed
  let ?p2 = "?p1\<lparr>disk_manager_m := d\<rparr>"
  obtain pg where pg: "disk_pages d fp = Some pg"
  proof -
    have "contents ?p2 fp \<noteq> None" using p2(2) new(2) by simp
    then show thesis using that new(1) by (auto simp: contents_def pool_simps)
  qed
  have len: "length (fr_data ?f) = 4096"
    using pool_okD(1) [OF p1(1) i] by (simp add: frame_ok_def pool_simps)
  have "disk_ok d" using pool_okD(5) [OF p2(1)] by simp
  from disk.get_page [OF this env pg len] obtain d' where rd:
    "ReadPage env d fp (fr_data ?f) = Inr ((None, pg), d')" "disk_ok d'" "disk_pages d' = disk_pages d"
    by blast
  have fid: "fr_id ?f = i" using pool_okD(1) [OF p1(1) i] by (simp add: frame_ok_def pool_simps)
  define p3 where "p3 = set_frame i (?f\<lparr>fr_data := pg\<rparr>) ((erase_page ?old ?p2)\<lparr>disk_manager_m := d'\<rparr>)"
  define p4 where "p4 = (let q = erase_page fp p3 in q\<lparr>page_map_m := (fp, i) # page_map_m q\<rparr>)"
  define p5 where "p5 = set_frame i (?f\<lparr>fr_data := pg, fr_fp_id := fp, fr_is_dirty := False, fr_pin_count := 0\<rparr>) p4"
  have eq: "LoadPage env p fp = Inr (None, p5)"
    using new(1) e(1) i fl rd(1) fid
    by (simp add: LoadPage_def contains_page_eq frame_at_eq pool_simps p5_def p4_def p3_def Let_def)
  have is4: "is_frame p4 i" and is3: "is_frame ((erase_page ?old ?p2)\<lparr>disk_manager_m := d'\<rparr>) i"
    using i by (simp_all add: p4_def p3_def Let_def pool_simps)
  have pf4: "page_frame p4 = (page_frame p)(?old := None, fp \<mapsto> i)"
    using fun_cong [OF erase_views(1) [of fp p3]]
    by (auto simp: p4_def Let_def pool_simps page_frame_def [symmetric] p3_def fun_eq_iff)
  have "distinct (map fst (page_map_m (erase_page ?old ?p2)))"
    by (rule erase_distinct(1)) (rule pool_okD(6) [OF p2(1)])
  then have "distinct (map fst (page_map_m p3))" by (simp add: p3_def pool_simps)
  then have "distinct (map fst (page_map_m p5))"
    using erase_distinct [of p3 fp] by (simp add: p5_def p4_def Let_def pool_simps)
  then have "loaded ?p2 i fp pg d' p5"
    using is4 is3 pf4 i unfolding loaded_def
    by (auto simp: p5_def pool_simps p4_def p3_def Let_def)
  moreover have "is_frame ?p2 i" "evictable (replacer_m ?p2) i" using i ev1 by (simp_all add: pool_simps)
  ultimately have "pool_ok p5" "contents p5 = contents ?p2"
    and id5: "is_frame p j \<Longrightarrow> j \<noteq> i \<Longrightarrow> idle p5 j \<Longrightarrow> idle p j" for j
    using pool_ok_loaded [OF p2(1), of i fp pg d' p5] saved new(1,3) pg rd(2,3)
    by (simp_all add: pool_simps idle_def)
  moreover have "page_frame p5 fp = Some i" "fr_pin_count (frame p5 i) = 0" "is_frame p5 j = is_frame p j"
    "j \<noteq> i \<Longrightarrow> frame p5 j = frame p j" for j
    using pf4 is4 is3 by (simp_all add: p5_def pool_simps p4_def p3_def Let_def)
  moreover have "is_frame p i" "fr_pin_count (frame p i) = 0"
    using i e(2) pool_okD(1) [OF ok, of i] by (simp_all add: pool_simps frame_ok_def)
  ultimately show ?thesis using eq p2(2) by auto
qed

section \<open>Pinning and writing\<close>

lemma pool_ok_set_pin:
  assumes ok: "pool_ok p" and m: "page_frame p fp = Some i" and c: "unat c < 2 ^ 31" and r: "lru_ok r"
    and ev: "\<And>j. evictable r j = (if j = i then c = 0 else evictable (replacer_m p) j)"
    and hist: "\<And>j. (frame_history r j = None) = (frame_history (replacer_m p) j = None)"
  defines "p' \<equiv> (set_frame i ((frame p i)\<lparr>fr_pin_count := c\<rparr>) p)\<lparr>replacer_m := r\<rparr>"
  shows "pool_ok p'" and "contents p' = contents p" and "page_frame p' = page_frame p"
    and "frame p' j = (if j = i then (frame p i)\<lparr>fr_pin_count := c\<rparr> else frame p j)"
    and "is_frame p' j = is_frame p j"
proof -
  have i: "is_frame p i" and fp: "fr_fp_id (frame p i) = fp"
    using pool_okD(2) [OF ok m] by (simp_all add: entry_ok_def)
  have views: "frame p' j = (if j = i then (frame p i)\<lparr>fr_pin_count := c\<rparr> else frame p j)"
    "page_frame p' = page_frame p" "is_frame p' j = is_frame p j" "replacer_m p' = r"
    "disk_manager_m p' = disk_manager_m p" "page_map_m p' = page_map_m p" for j
    using i by (simp_all add: p'_def pool_simps)
  show "frame p' j = (if j = i then (frame p i)\<lparr>fr_pin_count := c\<rparr> else frame p j)"
    "page_frame p' = page_frame p" "is_frame p' j = is_frame p j" by (simp_all add: views)
  have "frame_ok p' j" if "is_frame p j" for j
    using pool_okD(1) [OF ok that] pool_okD(1) [OF ok i] m fp c ev [of j]
    by (auto simp: frame_ok_def idle_def views)
  moreover have "entry_ok p' q j" if "page_frame p q = Some j" for q j
    using pool_okD(2) [OF ok that] by (auto simp: entry_ok_def views)
  ultimately show "pool_ok p'" using ok r hist by (simp add: pool_ok_def views)
  show "contents p' = contents p" by (auto simp: contents_def views split: option.splits)
qed

lemma PinAndReturnPage_ok:
  assumes ok: "pool_ok p" and m: "page_frame p fp = Some i" and c: "unat (fr_pin_count (frame p i)) + 1 < 2 ^ 31"
  shows "\<exists>p'. PinAndReturnPage p fp = Inr (i, p') \<and> pool_ok p' \<and> contents p' = contents p \<and>
    page_frame p' = page_frame p \<and>
    (\<forall>j. frame p' j = (if j = i then (frame p i)\<lparr>fr_pin_count := fr_pin_count (frame p i) + 1\<rparr> else frame p j)) \<and>
    (\<forall>j. is_frame p' j = is_frame p j) \<and>
    GetEvictableCount (replacer_m p') = GetEvictableCount (replacer_m p) - 1"
proof -
  have i: "is_frame p i" using pool_okD(2) [OF ok m] by (simp add: entry_ok_def)
  have id: "fr_id (frame p i) = i" using pool_okD(1) [OF ok i] by (simp add: frame_ok_def)
  let ?c = "fr_pin_count (frame p i) + 1"
  let ?r = "SetEvictable (RecordAccess (replacer_m p) i) i False"
  have u: "unat ?c = unat (fr_pin_count (frame p i)) + 1" using c by (simp add: unat_word_ariths)
  then have c': "unat ?c < 2 ^ 31" "?c \<noteq> 0" using c by (simp, metis Suc_eq_plus1 nat.distinct(1) unat_0)
  have r: "lru_ok ?r" "evictable ?r j = (if j = i then ?c = 0 else evictable (replacer_m p) j)"
    "(frame_history ?r j = None) = (frame_history (replacer_m p) j = None)" for j
    using pool_okD(3) [OF ok] c'(2)
    by (simp_all add: evictable_SetEvictable evictable_RecordAccess)
  have "frame_history (replacer_m p) i \<noteq> None" using pool_okD(4) [OF ok] i by simp
  then have "GetEvictableCount ?r = GetEvictableCount (replacer_m p) - 1"
    by (simp add: GetEvictableCount_def SetEvictable_def contains_frame_eq evictable_RecordAccess
        RecordAccess_def Let_def)
  moreover have "PinAndReturnPage p fp = Inr (i, (set_frame i ((frame p i)\<lparr>fr_pin_count := ?c\<rparr>) p)\<lparr>replacer_m := ?r\<rparr>)"
    using m i id by (simp add: PinAndReturnPage_def GetFrameForPage_eq frame_at_eq pool_simps)
  ultimately show ?thesis
    using pool_ok_set_pin [OF ok m c'(1) r(1) r(2,3)] by auto
qed

lemma RemoveAccessor_ok:
  assumes ok: "pool_ok p" and m: "page_frame p fp = Some i" and c: "fr_pin_count (frame p i) \<noteq> 0"
  shows "\<exists>p'. RemoveAccessor p fp = Inr p' \<and> pool_ok p' \<and> contents p' = contents p \<and>
    page_frame p' = page_frame p \<and>
    (\<forall>j. frame p' j = (if j = i then (frame p i)\<lparr>fr_pin_count := fr_pin_count (frame p i) - 1\<rparr> else frame p j)) \<and>
    (\<forall>j. is_frame p' j = is_frame p j) \<and>
    GetEvictableCount (replacer_m p') =
      (if fr_pin_count (frame p i) = 1 then GetEvictableCount (replacer_m p) + 1 else GetEvictableCount (replacer_m p))"
proof -
  have i: "is_frame p i" using pool_okD(2) [OF ok m] by (simp add: entry_ok_def)
  have f: "frame_ok p i" by (rule pool_okD(1) [OF ok i])
  then have id: "fr_id (frame p i) = i" and lt: "unat (fr_pin_count (frame p i)) < 2 ^ 31"
    and ne: "\<not> evictable (replacer_m p) i" using c by (simp_all add: frame_ok_def)
  let ?c = "fr_pin_count (frame p i)"
  let ?r = "if ?c = 1 then SetEvictable (replacer_m p) i True else replacer_m p"
  have "0 < unat ?c" using c by (simp add: unat_gt_0)
  moreover from this have u: "unat (?c - 1) = unat ?c - 1" by (simp add: unat_sub word_le_nat_alt)
  ultimately have c': "unat (?c - 1) < 2 ^ 31" using lt by simp
  have "sint ?c = int (unat ?c)" using lt by (rule sint_unat)
  then have s: "sint ?c > 0" using \<open>0 < unat ?c\<close> by (simp only: of_nat_0_less_iff)
  have z: "?c - 1 = 0 \<longleftrightarrow> ?c = 1" by simp
  have h: "frame_history (replacer_m p) i \<noteq> None" using pool_okD(4) [OF ok] i by simp
  have r: "lru_ok ?r" "evictable ?r j = (if j = i then ?c - 1 = 0 else evictable (replacer_m p) j)"
    "(frame_history ?r j = None) = (frame_history (replacer_m p) j = None)" for j
    using pool_okD(3) [OF ok] ne h by (auto simp: evictable_SetEvictable)
  have "RemoveAccessor p fp = Inr ((set_frame i ((frame p i)\<lparr>fr_pin_count := ?c - 1\<rparr>) p)\<lparr>replacer_m := ?r\<rparr>)"
    using m i id s by (simp add: RemoveAccessor_def GetFrameForPage_eq frame_at_eq pool_simps Let_def)
  moreover have "GetEvictableCount ?r =
      (if ?c = 1 then GetEvictableCount (replacer_m p) + 1 else GetEvictableCount (replacer_m p))"
    using h by (simp add: GetEvictableCount_def SetEvictable_def contains_frame_eq Let_def)
  ultimately show ?thesis
    using pool_ok_set_pin [OF ok m c' r(1) r(2,3)] by auto
qed

lemma modify_ok:
  assumes ok: "pool_ok p" and m: "page_frame p fp = Some i" and len: "length page = 4096"
  shows "\<exists>p'. andthen (GetMutView p i) (write_view i page) = Inr p' \<and> pool_ok p' \<and>
    contents p' = (contents p)(fp \<mapsto> page) \<and> page_frame p' = page_frame p \<and>
    (\<forall>j. frame p' j = (if j = i then (frame p i)\<lparr>fr_is_dirty := True, fr_data := page\<rparr> else frame p j)) \<and>
    (\<forall>j. is_frame p' j = is_frame p j) \<and> replacer_m p' = replacer_m p"
proof -
  have i: "is_frame p i" and fp: "fr_fp_id (frame p i) = fp"
    using pool_okD(2) [OF ok m] by (simp_all add: entry_ok_def)
  let ?p = "set_frame i ((frame p i)\<lparr>fr_is_dirty := True, fr_data := page\<rparr>) p"
  have eq: "andthen (GetMutView p i) (write_view i page) = Inr ?p"
    using i by (simp add: GetMutView_def write_view_def frame_at_eq pool_simps) (simp add: set_frame_def)
  have views: "frame ?p j = (if j = i then (frame p i)\<lparr>fr_is_dirty := True, fr_data := page\<rparr> else frame p j)"
    "page_frame ?p = page_frame p" "is_frame ?p j = is_frame p j" "replacer_m ?p = replacer_m p"
    "disk_manager_m ?p = disk_manager_m p" "page_map_m ?p = page_map_m p" for j
    using i by (simp_all add: pool_simps)
  have "frame_ok ?p j" if "is_frame p j" for j
    using pool_okD(1) [OF ok that] m fp len by (auto simp: frame_ok_def idle_def views)
  moreover have "entry_ok ?p q j" if "page_frame p q = Some j" for q j
    using pool_okD(2) [OF ok that] by (auto simp: entry_ok_def views)
  ultimately have "pool_ok ?p" using ok by (simp add: pool_ok_def views)
  moreover have "contents ?p = (contents p)(fp \<mapsto> page)"
  proof
    fix q
    have "page_frame p q = Some i \<Longrightarrow> q = fp" using page_frame_inj [OF ok m, of q] by simp
    then show "contents ?p q = ((contents p)(fp \<mapsto> page)) q"
      using m by (cases "page_frame p q") (auto simp: contents_def views)
  qed
  ultimately show ?thesis using eq views by blast
qed

end
