(* ===== verification/Pool_Access.thy ===== *)
theory Pool_Access
  imports Buffer_Pool
begin

text \<open>
  How the tables use the buffer pool: fetch a page, read or modify it through its view, let the
  handle go out of scope. The lemmas say what such a scope does to the pool as a whole: the contents of
  the one page change as the body says, the files keep their sizes, and no frame goes stale. The last
  section adds growing a file by a page.
\<close>

section \<open>Fetching a page\<close>

text \<open>When \<open>GetPage\<close> can serve a page: it is cached and its pin count can grow, or a frame is free.\<close>

definition can_get :: "PageBufferManager \<Rightarrow> file_page_id_t \<Rightarrow> bool" where
  "can_get p fp \<longleftrightarrow>
     (case page_frame p fp of
        Some i \<Rightarrow> unat (fr_pin_count (frame p i)) + 1 < 2 ^ 31
      | None \<Rightarrow> contents p fp \<noteq> None \<and> no_stale p fp \<and> GetEvictableCount (replacer_m p) > 0 \<and>
          (\<exists>i. evictable (replacer_m p) i))"

lemma EvictFrame_count: "evictable_count_m (snd (EvictFrame r)) = evictable_count_m r"
  by (simp add: EvictFrame_def split: option.splits)

lemma FlushPage_replacer: "FlushPage env p fp = Inr (e, p') \<Longrightarrow> replacer_m p' = replacer_m p"
  by (auto simp: FlushPage_def andthen_eq_Inr Let_def split: option.splits)

lemma LoadPage_count:
  assumes "LoadPage env p fp = Inr (e, p')"
  shows "GetEvictableCount (replacer_m p') = GetEvictableCount (replacer_m p)"
proof (cases "contains_page p fp")
  case False
  obtain o' r where e: "EvictFrame (replacer_m p) = (o', r)" by force
  then have c: "evictable_count_m r = evictable_count_m (replacer_m p)"
    using EvictFrame_count [of "replacer_m p"] by simp
  show ?thesis
  proof (cases o')
    case None
    then show ?thesis using assms False e c by (auto simp: LoadPage_def GetEvictableCount_def)
  next
    case (Some i)
    then have "replacer_m p' = r"
      using assms False e
      by (auto simp: LoadPage_def andthen_eq_Inr Let_def pool_simps split: if_splits prod.splits
          dest!: FlushPage_replacer)
    then show ?thesis using c by (simp add: GetEvictableCount_def)
  qed
qed (use assms in \<open>auto simp: LoadPage_def\<close>)

lemma GetPage_ok:
  assumes ok: "pool_ok p" and can: "can_get p fp" and env: "no_fault env"
  shows "\<exists>i p'. GetPage env p fp = Inr (Inr i, p') \<and> pool_ok p' \<and> contents p' = contents p \<and>
    page_frame p' fp = Some i \<and> fr_data (frame p' i) = the (contents p fp) \<and>
    fr_pin_count (frame p' i) =
      (case page_frame p fp of Some j \<Rightarrow> fr_pin_count (frame p j) + 1 | None \<Rightarrow> 1) \<and>
    fr_pin_count (frame p' i) \<noteq> 0 \<and>
    GetEvictableCount (replacer_m p') = GetEvictableCount (replacer_m p) - 1 \<and>
    (\<forall>j. is_frame p' j = is_frame p j) \<and>
    (page_frame p fp = None \<longrightarrow> is_frame p i \<and> fr_pin_count (frame p i) = 0) \<and>
    (\<forall>j. page_frame p fp = Some j \<longrightarrow> j = i) \<and>
    (\<forall>j. is_frame p j \<and> j \<noteq> i \<longrightarrow> frame p' j = frame p j \<and> (idle p' j \<longrightarrow> idle p j))"
proof -
  have "\<exists>i p1. (if \<not> contains_page p fp then LoadPage env p fp else Inr (None, p)) = Inr (None, p1) \<and>
      pool_ok p1 \<and> contents p1 = contents p \<and> page_frame p1 fp = Some i \<and>
      unat (fr_pin_count (frame p1 i)) + 1 < 2 ^ 31 \<and>
      fr_pin_count (frame p1 i) + 1 = (case page_frame p fp of Some j \<Rightarrow> fr_pin_count (frame p j) + 1 | None \<Rightarrow> 1) \<and>
      GetEvictableCount (replacer_m p1) = GetEvictableCount (replacer_m p) \<and>
      (\<forall>j. is_frame p1 j = is_frame p j) \<and>
      (page_frame p fp = None \<longrightarrow> is_frame p i \<and> fr_pin_count (frame p i) = 0) \<and>
      (\<forall>j. page_frame p fp = Some j \<longrightarrow> j = i) \<and>
      (\<forall>j. is_frame p j \<and> j \<noteq> i \<longrightarrow> frame p1 j = frame p j \<and> (idle p1 j \<longrightarrow> idle p j))"
  proof (cases "page_frame p fp")
    case None
    then obtain i p1 where l: "LoadPage env p fp = Inr (None, p1)" "pool_ok p1" "contents p1 = contents p"
      "page_frame p1 fp = Some i" "fr_pin_count (frame p1 i) = 0" "\<forall>j. is_frame p1 j = is_frame p j"
      "is_frame p i" "fr_pin_count (frame p i) = 0"
      "\<forall>j. is_frame p j \<and> j \<noteq> i \<longrightarrow> frame p1 j = frame p j \<and> (idle p1 j \<longrightarrow> idle p j)"
      using LoadPage_ok [OF ok None _ _ _ env] can by (auto simp: can_get_def)
    then show ?thesis using None LoadPage_count [OF l(1)] by (auto simp: contains_page_eq)
  next
    case (Some i)
    then show ?thesis using ok can by (auto simp: contains_page_eq can_get_def)
  qed
  then obtain i p1 where l: "(if \<not> contains_page p fp then LoadPage env p fp else Inr (None, p)) = Inr (None, p1)"
    "pool_ok p1" "contents p1 = contents p" "page_frame p1 fp = Some i"
    "unat (fr_pin_count (frame p1 i)) + 1 < 2 ^ 31"
    "fr_pin_count (frame p1 i) + 1 = (case page_frame p fp of Some j \<Rightarrow> fr_pin_count (frame p j) + 1 | None \<Rightarrow> 1)"
    "GetEvictableCount (replacer_m p1) = GetEvictableCount (replacer_m p)" "\<forall>j. is_frame p1 j = is_frame p j"
    "\<forall>j. is_frame p j \<and> j \<noteq> i \<longrightarrow> frame p1 j = frame p j \<and> (idle p1 j \<longrightarrow> idle p j)"
    "page_frame p fp = None \<longrightarrow> is_frame p i \<and> fr_pin_count (frame p i) = 0"
    "\<forall>j. page_frame p fp = Some j \<longrightarrow> j = i"
    by (elim exE conjE) (rule that; assumption)
  obtain p' where pin: "PinAndReturnPage p1 fp = Inr (i, p')" "pool_ok p'" "contents p' = contents p1"
    "page_frame p' = page_frame p1"
    "frame p' i = (frame p1 i)\<lparr>fr_pin_count := fr_pin_count (frame p1 i) + 1\<rparr>"
    "GetEvictableCount (replacer_m p') = GetEvictableCount (replacer_m p1) - 1"
    "\<forall>j. j \<noteq> i \<longrightarrow> frame p' j = frame p1 j" "\<forall>j. is_frame p' j = is_frame p1 j"
    using PinAndReturnPage_ok [OF l(2,4,5)] by auto
  have wait: "contains_page p fp \<or> GetEvictableCount (replacer_m p) > 0"
    using can by (auto simp: can_get_def contains_page_eq split: option.splits)
  have "GetPage env p fp = Inr (Inr i, p')"
    using wait l(1) pin(1) by (simp add: GetPage_def)
  moreover have "fr_data (frame p' i) = the (contents p fp)"
    using l(4) pin(5) unfolding l(3) [symmetric] by (simp add: contents_def)
  moreover have "unat (fr_pin_count (frame p1 i) + 1) = unat (fr_pin_count (frame p1 i)) + 1"
    using l(5) by (simp add: unat_word_ariths)
  then have "fr_pin_count (frame p' i) \<noteq> 0" using pin(5) by (metis Frame.simps(4) Suc_eq_plus1 nat.distinct(1) unat_0
        Frame.select_convs(4) Frame.surjective Frame.update_convs(4))
  moreover have "\<forall>j. is_frame p j \<and> j \<noteq> i \<longrightarrow> frame p' j = frame p j \<and> (idle p' j \<longrightarrow> idle p j)"
    using l(9) pin(4,7) by (simp add: idle_def)
  ultimately show ?thesis using l pin by auto
qed

text \<open>
  Reading and updating one page the way a client does it: fetch the page, use its view, let the
  handle go out of scope.
\<close>

definition with_page :: "io_env \<Rightarrow> PageBufferManager \<Rightarrow> file_page_id_t \<Rightarrow>
    (frame_id_t \<Rightarrow> PageBufferManager \<Rightarrow> ('a \<times> PageBufferManager) outcome) \<Rightarrow>
    ((pool_error + 'a) \<times> PageBufferManager) outcome" where
  "with_page env p fp body =
     andthen (GetPage env p fp) (\<lambda>(r, p).
     case r of
       Inl e \<Rightarrow> Inr (Inl e, p)
     | Inr i \<Rightarrow> andthen (body i p) (\<lambda>(x, p). andthen (Page_destroy p (Some i)) (\<lambda>p. Inr (Inr x, p))))"

section \<open>Access through a view\<close>

definition view_page :: "PageBufferManager \<Rightarrow> frame_id_t \<Rightarrow> (FullPage \<Rightarrow> 'a outcome) \<Rightarrow> ('a \<times> PageBufferManager) outcome" where
  "view_page p i f = andthen (GetView p i) (\<lambda>page. andthen (f page) (\<lambda>x. Inr (x, p)))"

definition modify_page :: "PageBufferManager \<Rightarrow> frame_id_t \<Rightarrow> (FullPage \<Rightarrow> ('a \<times> FullPage) outcome) \<Rightarrow>
    ('a \<times> PageBufferManager) outcome" where
  "modify_page p i f =
     andthen (GetMutView p i) (\<lambda>p.
     andthen (GetView p i) (\<lambda>page.
     andthen (f page) (\<lambda>(x, page). andthen (write_view i page p) (\<lambda>p. Inr (x, p)))))"

text \<open>What a scope that holds frame \<open>i\<close> of page \<open>fp\<close> may do to the pool: make the page \<open>new\<close>.\<close>

definition touched :: "PageBufferManager \<Rightarrow> frame_id_t \<Rightarrow> file_page_id_t \<Rightarrow> FullPage \<Rightarrow> PageBufferManager \<Rightarrow> bool" where
  "touched p i fp new p' \<longleftrightarrow> pool_ok p' \<and> contents p' = (contents p)(fp \<mapsto> new) \<and> page_frame p' = page_frame p \<and>
     replacer_m p' = replacer_m p \<and> disk_manager_m p' = disk_manager_m p \<and> (\<forall>j. is_frame p' j = is_frame p j) \<and>
     (\<forall>j. j \<noteq> i \<longrightarrow> frame p' j = frame p j) \<and> fr_fp_id (frame p' i) = fr_fp_id (frame p i) \<and>
     fr_pin_count (frame p' i) = fr_pin_count (frame p i) \<and> fr_data (frame p' i) = new"

lemma touched_trans: "touched p i fp a p1 \<Longrightarrow> touched p1 i fp b p2 \<Longrightarrow> touched p i fp b p2"
  by (simp add: touched_def)

lemma held_page:
  assumes "pool_ok p" and "page_frame p fp = Some i"
  shows "is_frame p i" and "touched p i fp (fr_data (frame p i)) p" and "GetView p i = Inr (fr_data (frame p i))"
proof -
  show i: "is_frame p i" using pool_okD(2) [OF assms] by (simp add: entry_ok_def)
  have "contents p fp = Some (fr_data (frame p i))" using assms(2) by (simp add: contents_def)
  then show "touched p i fp (fr_data (frame p i)) p" using assms(1) by (simp add: touched_def fun_upd_idem)
  show "GetView p i = Inr (fr_data (frame p i))" using i by (simp add: GetView_def frame_at_eq)
qed

lemma view_page_ok:
  assumes "pool_ok p" and "page_frame p fp = Some i" and "f (fr_data (frame p i)) = Inr x"
  shows "view_page p i f = Inr (x, p)"
  using held_page(3) [OF assms(1,2)] assms(3) by (simp add: view_page_def)

lemma modify_page_ok:
  assumes ok: "pool_ok p" and m: "page_frame p fp = Some i" and f: "f (fr_data (frame p i)) = Inr (x, new)"
    and len: "length new = 4096"
  shows "\<exists>p'. modify_page p i f = Inr (x, p') \<and> touched p i fp new p'"
proof -
  note i = held_page(1) [OF ok m]
  obtain p' where p': "andthen (GetMutView p i) (write_view i new) = Inr p'" "pool_ok p'"
    "contents p' = (contents p)(fp \<mapsto> new)" "page_frame p' = page_frame p"
    "\<forall>j. frame p' j = (if j = i then (frame p i)\<lparr>fr_is_dirty := True, fr_data := new\<rparr> else frame p j)"
    "\<forall>j. is_frame p' j = is_frame p j" "replacer_m p' = replacer_m p"
    using modify_ok [OF ok m len] by blast
  let ?q = "set_frame i ((frame p i)\<lparr>fr_is_dirty := True\<rparr>) p"
  have mv: "GetMutView p i = Inr ?q" using i by (simp add: GetMutView_def frame_at_eq)
  moreover have "GetView ?q i = Inr (fr_data (frame p i))"
    using i by (simp add: GetView_def frame_at_eq pool_simps)
  ultimately have "modify_page p i f = Inr (x, p')" using f p'(1) by (simp add: modify_page_def)
  moreover have "disk_manager_m p' = disk_manager_m p"
    using p'(1) i by (auto simp: GetMutView_def write_view_def frame_at_eq andthen_eq_Inr pool_simps)
  ultimately show ?thesis using p' by (simp add: touched_def)
qed

section \<open>File sizes\<close>

definition sizes :: "DiskManager \<Rightarrow> file_id_t \<rightharpoonup> nat" where
  "sizes d i = map_option length (fs d (GetFilePath i))"

lemma GetFileHandle_fs: "fs (snd (GetFileHandle env d i)) = fs d"
  by (simp add: GetFileHandle_def Let_def split: option.splits)

lemma WritePage_sizes:
  assumes ok: "disk_ok d" and pg: "disk_pages d fp \<noteq> None" and env: "no_fault env" and len: "length page = 4096"
    and w: "WritePage env d fp page = Inr (e, d')"
  shows "sizes d' = sizes d"
proof -
  obtain old where "disk_pages d fp = Some old" using pg by blast
  then obtain f d1 content where a: "GetFileHandle env d (fp_file_id fp) = (Inr f, d1)"
    "handle_ok d1 (fp_file_id fp) f" "fs d1 (df_path f) = Some content"
    "unat (fp_page_id fp) < length content div 4096" "fp_page_id fp \<notin> set (free_pages f)"
    "GetOffset (fp_page_id fp) = 4096 * unat (fp_page_id fp)" "4096 * unat (fp_page_id fp) + 4096 \<le> length content"
    using page_access [OF ok _ env] by blast
  have "df_good f" and path: "df_path f = GetFilePath (fp_file_id fp)" using a(2) by (simp_all add: handle_ok_def)
  moreover have "take (io_written env) page = page" using env len by (simp add: no_fault_def)
  ultimately have "fs d' = (fs d1)(df_path f \<mapsto> mem_write (4096 * unat (fp_page_id fp)) page content)"
    using w a by (auto simp: WritePage_def PageCapacity_def PAGE_SIZE_def file_content_def set_handle_def Let_def)
  moreover have "fs d1 = fs d" using GetFileHandle_fs [of env d "fp_file_id fp"] a(1) by simp
  ultimately show ?thesis using a(3,7) len path by (auto simp: sizes_def fun_eq_iff)
qed

lemma ReadPage_sizes:
  assumes "ReadPage env d fp buf = Inr (r, d')"
  shows "sizes d' = sizes d"
proof -
  have "fs d' = fs d"
    using assms GetFileHandle_fs [of env d "fp_file_id fp"]
    by (auto simp: ReadPage_def andthen_eq_Inr Let_def set_handle_def split: prod.splits sum.splits)
  then show ?thesis by (simp add: sizes_def fun_eq_iff)
qed

abbreviation pool_sizes :: "PageBufferManager \<Rightarrow> file_id_t \<rightharpoonup> nat" where
  "pool_sizes p \<equiv> sizes (disk_manager_m p)"

lemma FlushPage_sizes:
  assumes "pool_ok p" and "no_fault env" and "FlushPage env p fp = Inr (e, p')"
  shows "pool_sizes p' = pool_sizes p"
proof (cases "page_frame p fp")
  case (Some i)
  note e = pool_okD(2) [OF assms(1) Some]
  then have i: "is_frame p i" "disk_pages (disk_manager_m p) fp \<noteq> None" "length (fr_data (frame p i)) = 4096"
    using pool_okD(1) [OF assms(1)] by (simp_all add: entry_ok_def frame_ok_def)
  then show ?thesis
    using assms(3) Some WritePage_sizes [OF pool_okD(5) [OF assms(1)] i(2) assms(2) i(3)]
    by (auto simp: FlushPage_def GetFrameForPage_eq frame_at_eq andthen_eq_Inr Let_def)
qed (use assms(3) in \<open>simp add: FlushPage_def GetFrameForPage_eq\<close>)

lemma LoadPage_sizes:
  assumes ok: "pool_ok p" and env: "no_fault env" and l: "LoadPage env p fp = Inr (e, p')"
  shows "pool_sizes p' = pool_sizes p"
proof (cases "contains_page p fp")
  case False
  obtain v r where ev: "EvictFrame (replacer_m p) = (v, r)" by force
  show ?thesis
  proof (cases v)
    case None
    then show ?thesis using l False ev by (auto simp: LoadPage_def)
  next
    case (Some i)
    have r: "r = update_frame i (\<lambda>fr. fr\<lparr>fh_history := []\<rparr>) (replacer_m p)"
      using EvictFrame_result [OF pool_okD(3) [OF ok]] ev Some by (auto split: prod.splits option.splits)
    have "lru_ok r" "\<And>j. evictable r j = evictable (replacer_m p) j"
      "\<And>j. (frame_history r j = None) = (frame_history (replacer_m p) j = None)"
      using pool_okD(3) [OF ok] by (simp_all add: r evictable_clear)
    note ok1 = pool_ok_replacer(1) [OF ok this]
    then show ?thesis
      using l False ev Some
      by (auto simp: LoadPage_def andthen_eq_Inr Let_def erase_page_def set_frame_def
          split: if_splits prod.splits dest!: FlushPage_sizes [OF _ env] ReadPage_sizes)
  qed
qed (use l in \<open>simp add: LoadPage_def\<close>)

lemma GetPage_sizes:
  assumes "pool_ok p" and "no_fault env" and "GetPage env p fp = Inr (r, p')"
  shows "pool_sizes p' = pool_sizes p"
proof -
  have pin: "disk_manager_m q' = disk_manager_m q" if "PinAndReturnPage q fp = Inr (i, q')" for q q' i
    using that by (auto simp: PinAndReturnPage_def andthen_eq_Inr Let_def pool_simps split: option.splits)
  then show ?thesis
    using assms(3) LoadPage_sizes [OF assms(1,2)]
    by (auto simp: GetPage_def andthen_eq_Inr split: if_splits option.splits)
qed

lemma RemoveAccessor_disk: "RemoveAccessor p fp = Inr p' \<Longrightarrow> disk_manager_m p' = disk_manager_m p"
  by (auto simp: RemoveAccessor_def andthen_eq_Inr Let_def pool_simps split: option.splits)

section \<open>Scopes\<close>

text \<open>
  A pool that can serve a request: some frame is unpinned, the evictable count says so, and no idle
  frame carries the id of an existing page.
\<close>

definition calm :: "PageBufferManager \<Rightarrow> bool" where
  "calm p \<longleftrightarrow> pool_ok p \<and> GetEvictableCount (replacer_m p) > 0 \<and>
     (\<exists>i. is_frame p i \<and> fr_pin_count (frame p i) = 0) \<and>
     (\<forall>i. is_frame p i \<and> idle p i \<longrightarrow> contents p (fr_fp_id (frame p i)) = None)"

definition unpinned :: "PageBufferManager \<Rightarrow> file_page_id_t \<Rightarrow> bool" where
  "unpinned p fp \<longleftrightarrow> (\<forall>i. page_frame p fp = Some i \<longrightarrow> fr_pin_count (frame p i) = 0)"

text \<open>
  What stays the same in the pool when pages are visited and released: the pins, the evictable
  count, the sizes of the files, the frames of pinned pages; and no further frame becomes idle.
\<close>

definition tidy :: "PageBufferManager \<Rightarrow> PageBufferManager \<Rightarrow> bool" where
  "tidy p p' \<longleftrightarrow> pool_ok p' \<and> pool_sizes p' = pool_sizes p \<and> (\<forall>j. is_frame p' j = is_frame p j) \<and>
     GetEvictableCount (replacer_m p') = GetEvictableCount (replacer_m p) \<and>
     (\<forall>j. is_frame p j \<longrightarrow> fr_pin_count (frame p' j) = fr_pin_count (frame p j)) \<and>
     (\<forall>fp j. page_frame p fp = Some j \<and> fr_pin_count (frame p j) \<noteq> 0 \<longrightarrow> page_frame p' fp = Some j) \<and>
     (\<forall>j. is_frame p' j \<and> idle p' j \<longrightarrow> idle p j \<and> frame p' j = frame p j)"

lemma tidy_refl: "pool_ok p \<Longrightarrow> tidy p p"
  by (simp add: tidy_def)

lemma tidy_trans:
  assumes "pool_ok p" and a: "tidy p p'" and b: "tidy p' p''"
  shows "tidy p p''"
proof -
  have "page_frame p'' fp = Some j" if "page_frame p fp = Some j" "fr_pin_count (frame p j) \<noteq> 0" for fp j
  proof -
    have "is_frame p j" using pool_okD(2) [OF assms(1) that(1)] by (simp add: entry_ok_def)
    then show ?thesis using a b that by (simp add: tidy_def)
  qed
  then show ?thesis using a b unfolding tidy_def by metis
qed

lemma touched_tidy:
  assumes ok: "pool_ok p" and m: "page_frame p fp = Some i" and t: "touched p i fp new p'"
  shows "tidy p p'"
proof -
  have "\<not> idle p' i" using t m pool_okD(2) [OF ok m] by (simp add: idle_def touched_def entry_ok_def)
  then have "idle p j \<and> frame p' j = frame p j" if "idle p' j" for j
    using that t by (cases "j = i") (auto simp: touched_def idle_def)
  moreover have "fr_pin_count (frame p' j) = fr_pin_count (frame p j)" for j
    using t by (cases "j = i") (simp_all add: touched_def)
  ultimately show ?thesis using t by (simp add: tidy_def touched_def)
qed

lemma calm_tidy:
  assumes "calm p" and "tidy p p'" and "\<forall>fp. contents p fp = None \<longrightarrow> contents p' fp = None"
  shows "calm p'"
  using assms unfolding calm_def tidy_def by metis

lemma calm_can_get:
  assumes c: "calm p" and ex: "contents p fp \<noteq> None" and u: "unpinned p fp"
  shows "can_get p fp"
proof (cases "page_frame p fp")
  case None
  obtain i where i: "is_frame p i" "fr_pin_count (frame p i) = 0" using c by (auto simp: calm_def)
  then have "evictable (replacer_m p) i"
    using pool_okD(1) [of p i] c by (auto simp: calm_def frame_ok_def)
  moreover have "no_stale p fp" using c ex by (auto simp: calm_def no_stale_def)
  ultimately show ?thesis using None c ex by (auto simp: can_get_def calm_def)
next
  case (Some i)
  then show ?thesis using u by (simp add: can_get_def unpinned_def)
qed

text \<open>
  The body of a scope runs in a pool \<open>p1\<close> that holds the page in a frame pinned once, and in which
  everything else is as it was.
\<close>

definition fetched :: "PageBufferManager \<Rightarrow> file_page_id_t \<Rightarrow> frame_id_t \<Rightarrow> PageBufferManager \<Rightarrow> bool" where
  "fetched p fp i p1 \<longleftrightarrow> pool_ok p1 \<and> contents p1 = contents p \<and> page_frame p1 fp = Some i \<and>
     Some (fr_data (frame p1 i)) = contents p fp \<and> fr_pin_count (frame p1 i) = 1 \<and>
     is_frame p i \<and> fr_pin_count (frame p i) = 0 \<and>
     GetEvictableCount (replacer_m p1) = GetEvictableCount (replacer_m p) - 1 \<and>
     pool_sizes p1 = pool_sizes p \<and> (\<forall>j. is_frame p1 j = is_frame p j) \<and>
     (\<forall>j. is_frame p j \<and> j \<noteq> i \<longrightarrow> frame p1 j = frame p j \<and> (idle p1 j \<longrightarrow> idle p j))"

lemma GetPage_fetched:
  assumes c: "calm p" and ex: "contents p fp \<noteq> None" and u: "unpinned p fp" and env: "no_fault env"
  shows "\<exists>i p1. GetPage env p fp = Inr (Inr i, p1) \<and> fetched p fp i p1"
proof -
  have ok: "pool_ok p" using c by (simp add: calm_def)
  obtain i p1 where g: "GetPage env p fp = Inr (Inr i, p1)" "pool_ok p1" "contents p1 = contents p"
    "page_frame p1 fp = Some i" "fr_data (frame p1 i) = the (contents p fp)"
    "fr_pin_count (frame p1 i) = (case page_frame p fp of Some j \<Rightarrow> fr_pin_count (frame p j) + 1 | None \<Rightarrow> 1)"
    "GetEvictableCount (replacer_m p1) = GetEvictableCount (replacer_m p) - 1"
    "\<forall>j. is_frame p1 j = is_frame p j"
    "page_frame p fp = None \<longrightarrow> is_frame p i \<and> fr_pin_count (frame p i) = 0" "\<forall>j. page_frame p fp = Some j \<longrightarrow> j = i"
    "\<forall>j. is_frame p j \<and> j \<noteq> i \<longrightarrow> frame p1 j = frame p j \<and> (idle p1 j \<longrightarrow> idle p j)"
    using GetPage_ok [OF ok calm_can_get [OF c ex u] env] by (elim exE conjE) (rule that; assumption)
  have "is_frame p i \<and> fr_pin_count (frame p i) = 0 \<and> fr_pin_count (frame p1 i) = 1"
  proof (cases "page_frame p fp")
    case (Some j)
    then have "j = i" using g(10) by blast
    then show ?thesis using Some g(6) u pool_okD(2) [OF ok Some] by (simp add: unpinned_def entry_ok_def)
  qed (use g(6,9) in simp)
  then show ?thesis using g GetPage_sizes [OF ok env g(1)] ex by (auto simp: fetched_def)
qed

lemma with_page_tidy:
  assumes c: "calm p" and ex: "contents p fp \<noteq> None" and u: "unpinned p fp" and env: "no_fault env"
    and body: "\<And>i p1. fetched p fp i p1 \<Longrightarrow> \<exists>x p2. body i p1 = Inr (x, p2) \<and> P x \<and> tidy p1 p2 \<and> contents p2 = c'"
  shows "\<exists>x p'. with_page env p fp body = Inr (Inr x, p') \<and> P x \<and> tidy p p' \<and> contents p' = c'"
proof -
  have ok: "pool_ok p" using c by (simp add: calm_def)
  obtain i p1 where g: "GetPage env p fp = Inr (Inr i, p1)" and f: "fetched p fp i p1"
    using GetPage_fetched [OF c ex u env] by blast
  obtain x p2 where b: "body i p1 = Inr (x, p2)" "tidy p1 p2" "contents p2 = c'" and x: "P x" using body [OF f] by blast
  have i1: "is_frame p1 i" and pin1: "fr_pin_count (frame p1 i) = 1" and m1: "page_frame p1 fp = Some i"
    using f by (simp_all add: fetched_def)
  have m2: "page_frame p2 fp = Some i" and pin2: "fr_pin_count (frame p2 i) = 1" and ok2: "pool_ok p2"
    using b(2) i1 pin1 m1 by (auto simp: tidy_def)
  have i2: "is_frame p2 i" and fp2: "fr_fp_id (frame p2 i) = fp"
    using pool_okD(2) [OF ok2 m2] by (simp_all add: entry_ok_def)
  obtain p3 where r: "RemoveAccessor p2 fp = Inr p3" "pool_ok p3"
    "contents p3 = contents p2" "page_frame p3 = page_frame p2"
    "\<forall>j. frame p3 j = (if j = i then (frame p2 i)\<lparr>fr_pin_count := fr_pin_count (frame p2 i) - 1\<rparr> else frame p2 j)"
    "\<forall>j. is_frame p3 j = is_frame p2 j"
    "GetEvictableCount (replacer_m p3) = GetEvictableCount (replacer_m p2) + 1"
    using RemoveAccessor_ok [OF ok2 m2] pin2 by auto
  have w: "with_page env p fp body = Inr (Inr x, p3)"
    using g b(1) r(1) i2 fp2 by (simp add: with_page_def Page_destroy_def frame_at_eq)
  have "\<not> idle p3 i" using r(4,5) m2 fp2 by (simp add: idle_def)
  then have idle: "idle p j \<and> frame p3 j = frame p j" if "is_frame p3 j" "idle p3 j" for j
  proof -
    have ji: "j \<noteq> i" using that(2) \<open>\<not> idle p3 i\<close> by auto
    have "idle p2 j" using that(2) r(4,5) ji by (simp add: idle_def)
    then show ?thesis using that(1) r(5,6) ji b(2) f unfolding tidy_def fetched_def by metis
  qed
  have pins: "fr_pin_count (frame p3 j) = fr_pin_count (frame p j)" if "is_frame p j" for j
    using that r(5) b(2) f pin2 by (cases "j = i") (simp_all add: tidy_def fetched_def)
  have "page_frame p3 q = Some j" if "page_frame p q = Some j" "fr_pin_count (frame p j) \<noteq> 0" for q j
  proof -
    have e: "is_frame p j" "fr_fp_id (frame p j) = q"
      using pool_okD(2) [OF ok that(1)] by (simp_all add: entry_ok_def)
    have "j \<noteq> i" using that(2) f by (auto simp: fetched_def)
    then have j1: "frame p1 j = frame p j" "\<not> idle p1 j"
      using f e that(1) by (auto simp: fetched_def idle_def)
    then have "page_frame p1 q = Some j" using e(2) by (simp add: idle_def)
    then show ?thesis using b(2) j1 that(2) r(4) by (simp add: tidy_def)
  qed
  moreover have "pool_sizes p3 = pool_sizes p"
    using RemoveAccessor_disk [OF r(1)] b(2) f by (simp add: tidy_def fetched_def)
  moreover have "is_frame p3 j = is_frame p j" for j using r(6) b(2) f by (simp add: tidy_def fetched_def)
  moreover have "GetEvictableCount (replacer_m p3) = GetEvictableCount (replacer_m p)"
    using r(7) b(2) f by (simp add: tidy_def fetched_def)
  ultimately have "tidy p p3" using r(2) pins idle by (simp add: tidy_def)
  then show ?thesis using w x r(3) b(3) by blast
qed

text \<open>A scope that reads the page, and one that modifies it.\<close>

lemma with_page_touched:
  assumes c: "calm p" and ex: "contents p fp = Some old" and u: "unpinned p fp" and env: "no_fault env"
    and body: "\<And>i p1. pool_ok p1 \<Longrightarrow> page_frame p1 fp = Some i \<Longrightarrow> fr_data (frame p1 i) = old \<Longrightarrow>
      \<exists>p2. body i p1 = Inr (x, p2) \<and> touched p1 i fp new p2"
  shows "\<exists>p'. with_page env p fp body = Inr (Inr x, p') \<and> tidy p p' \<and> contents p' = (contents p)(fp \<mapsto> new)"
proof -
  have "\<exists>y p'. with_page env p fp body = Inr (Inr y, p') \<and> y = x \<and> tidy p p' \<and> contents p' = (contents p)(fp \<mapsto> new)"
  proof (rule with_page_tidy [OF c _ u env])
    fix i p1 assume f: "fetched p fp i p1"
    then have a: "pool_ok p1" "page_frame p1 fp = Some i" "fr_data (frame p1 i) = old" "contents p1 = contents p"
      using ex by (simp_all add: fetched_def)
    obtain p2 where "body i p1 = Inr (x, p2)" "touched p1 i fp new p2" using body [OF a(1-3)] by blast
    then show "\<exists>y p2. body i p1 = Inr (y, p2) \<and> y = x \<and> tidy p1 p2 \<and> contents p2 = (contents p)(fp \<mapsto> new)"
      using touched_tidy [OF a(1,2)] a(4) by (auto simp: touched_def)
  qed (use ex in simp)
  then show ?thesis by blast
qed

section \<open>Growing a file\<close>

lemma disk_page_small:
  assumes "disk_ok d" and "disk_pages d fp = Some pg"
  shows "unat (fp_page_id fp) < 2 ^ 20"
proof -
  obtain content where "fs d (GetFilePath (fp_file_id fp)) = Some content" "unat (fp_page_id fp) < length content div 4096"
    using assms(2) by (auto simp: disk_pages_def split: option.splits if_splits)
  moreover from this(1) have "length content \<le> 2 ^ 20 * 4096" using assms(1) unfolding disk_ok_def by blast
  ultimately show ?thesis by linarith
qed

text \<open>The pages of a file in use, and how far allocating one more can make the file grow.\<close>

definition used :: "(file_page_id_t \<rightharpoonup> FullPage) \<Rightarrow> file_id_t \<Rightarrow> nat" where
  "used c i = card {x. c (FilePageId i x) \<noteq> None}"

lemma card_page_ids: "n \<le> 2 ^ 32 \<Longrightarrow> card {x :: page_id_t. unat x < n} = n"
proof -
  assume n: "n \<le> 2 ^ 32"
  have "{x :: page_id_t. unat x < n} = of_nat ` {..<n}"
  proof (intro set_eqI iffI)
    fix x :: page_id_t assume "x \<in> {x. unat x < n}"
    then show "x \<in> of_nat ` {..<n}" by (auto intro!: image_eqI [of _ _ "unat x"])
  qed (use n in \<open>auto simp: unat_of_nat_32\<close>)
  moreover have "inj_on (of_nat :: nat \<Rightarrow> page_id_t) {..<n}"
    using n by (auto simp: inj_on_def word_unat_eq_iff unat_of_nat_32)
  ultimately show ?thesis by (simp add: card_image)
qed

lemma AllocatePage_sizes:
  assumes ok: "disk_ok d" and c: "fs d (GetFilePath i) = Some content" and small: "length content \<le> 2 ^ 19 * 4096"
    and env: "no_fault env" and a: "AllocatePage env d i = Inr (Inr pid, d')"
  shows "\<exists>n'. sizes d' = (sizes d)(i \<mapsto> n') \<and> n' \<le> max (length content) (8192 * used (disk_pages d) i + 4096) \<and>
    (content = [] \<longrightarrow> pid = 0)"
proof -
  obtain f d1 where h: "GetFileHandle env d i = (Inr f, d1)" "id_map_m d1 i = Some f" "handle_ok d1 i f" "fs d1 = fs d"
    "disk_pages d1 = disk_pages d" "set (free_pages f) = free_of d i"
    using GetFileHandle_ok [OF ok c env] by blast
  have path: "df_path f = GetFilePath i" using h(3) by (simp add: handle_ok_def)
  show ?thesis
  proof (cases "free_pages f")
    case Nil
    let ?n = "length content div 4096"
    define m where "m = (if ?n = 0 then 1 else ?n * 2)"
    have "{x. disk_pages d (FilePageId i x) \<noteq> None} = {x. unat x < ?n}"
      using c Nil h(6) by (auto simp: disk_pages_def)
    then have u: "used (disk_pages d) i = ?n" using small by (simp add: used_def card_page_ids)
    note rs = resize_grow [OF refl m_def]
    have "pid = of_nat ?n" and "fs d' = (fs d)(GetFilePath i \<mapsto> resize_content (m * 4096) content)"
      using a h(1,4) c Nil path env
      by (auto simp: AllocatePage_def andthen_eq_Inr Let_def no_fault_def PAGE_SIZE_def set_handle_def m_def)
    then have "sizes d' = (sizes d)(i \<mapsto> m * 4096)" and "content = [] \<longrightarrow> pid = 0"
      using rs(2) by (auto simp: sizes_def fun_eq_iff)
    moreover have "m * 4096 \<le> 8192 * used (disk_pages d) i + 4096" by (auto simp: u m_def)
    ultimately show ?thesis by (auto intro: le_max_iff_disj [THEN iffD2])
  next
    case (Cons x xs)
    then have "x \<in> set (free_pages f)" by simp
    then have "content \<noteq> []" using h(3,4) c path by (fastforce simp: handle_ok_def)
    moreover have "fs d' = fs d"
      using a h(1,4) Cons by (auto simp: AllocatePage_def Let_def set_handle_def)
    then have "sizes d' = (sizes d)(i \<mapsto> length content)" using c by (auto simp: sizes_def fun_eq_iff)
    ultimately show ?thesis by auto
  qed
qed

lemma contents_iff_disk: "pool_ok p \<Longrightarrow> contents p fp \<noteq> None \<longleftrightarrow> disk_pages (disk_manager_m p) fp \<noteq> None"
  using pool_okD(2) [of p fp] by (cases "page_frame p fp") (auto simp: contents_def entry_ok_def)

lemma used_contents: "pool_ok p \<Longrightarrow> used (disk_pages (disk_manager_m p)) = used (contents p)"
  by (intro ext) (simp only: used_def contents_iff_disk)

lemma pool_AllocatePage_ok:
  assumes q: "calm p" and env: "no_fault env" and sz: "pool_sizes p i = Some n" "n \<le> 2 ^ 19 * 4096"
    and idle: "\<forall>j. is_frame p j \<and> idle p j \<longrightarrow> fp_file_id (fr_fp_id (frame p j)) \<noteq> i"
  shows "\<exists>pid p' pg. pool_AllocatePage env p i = Inr (Inr pid, p') \<and> calm p' \<and>
    contents p (FilePageId i pid) = None \<and> contents p' = (contents p)(FilePageId i pid \<mapsto> pg) \<and> length pg = 4096 \<and>
    pid \<noteq> NULL_PAGE_ID \<and> page_frame p' = page_frame p \<and> replacer_m p' = replacer_m p \<and>
    (\<forall>j. is_frame p' j = is_frame p j \<and> frame p' j = frame p j \<and> idle p' j = idle p j) \<and>
    (n = 0 \<longrightarrow> pid = 0) \<and>
    (\<exists>n'. pool_sizes p' = (pool_sizes p)(i \<mapsto> n') \<and> n' \<le> max n (8192 * used (contents p) i + 4096))"
proof -
  let ?d = "disk_manager_m p"
  have ok: "pool_ok p" using q by (simp add: calm_def)
  obtain content where c: "fs ?d (GetFilePath i) = Some content" "length content \<le> 2 ^ 19 * 4096"
    and n: "n = length content"
    using sz by (auto simp: sizes_def)
  obtain pid d' pg where a: "AllocatePage env ?d i = Inr (Inr pid, d')" "disk_ok d'"
    "disk_pages ?d (FilePageId i pid) = None" "disk_pages d' = (disk_pages ?d)(FilePageId i pid \<mapsto> pg)"
    using AllocatePage_ok [OF pool_okD(5) [OF ok] c env] by blast
  let ?p = "p\<lparr>disk_manager_m := d'\<rparr>" and ?fp = "FilePageId i pid"
  have nf: "page_frame p ?fp = None"
    using pool_okD(2) [OF ok, of ?fp] a(3) by (cases "page_frame p ?fp") (auto simp: entry_ok_def)
  have views: "page_frame ?p = page_frame p" "frame ?p = frame p" "is_frame ?p = is_frame p" "idle ?p = idle p"
    "replacer_m ?p = replacer_m p"
    by (simp_all add: pool_simps idle_def fun_eq_iff)
  have cont: "contents ?p = (contents p)(?fp \<mapsto> pg)"
    using nf a(4) by (auto simp: contents_def views fun_eq_iff split: option.splits)
  have "entry_ok ?p fp j" if "page_frame p fp = Some j" for fp j
    using pool_okD(2) [OF ok that] a(4) nf that by (auto simp: entry_ok_def views)
  moreover have "frame_ok ?p j = frame_ok p j" for j by (simp add: frame_ok_def views)
  ultimately have ok': "pool_ok ?p" using ok a(2) by (auto simp: pool_ok_def views)
  have "contents ?p (fr_fp_id (frame p j)) = None" if "is_frame p j" "idle p j" for j
    using that q idle by (auto simp: calm_def cont)
  then have "calm ?p" using q ok' by (auto simp: calm_def views)
  moreover have "disk_pages d' ?fp = Some pg" by (simp add: a(4))
  then have len: "length pg = 4096" and "unat pid < 2 ^ 20"
    using disk.page_length [OF a(2)] disk_page_small [OF a(2), of ?fp] by auto
  moreover from this(2) have "pid \<noteq> NULL_PAGE_ID"
    by (auto simp: NULL_PAGE_ID_def unsigned_minus_1_eq_mask mask_eq_exp_minus_1)
  moreover have "contents p ?fp = None" using nf a(3) by (simp add: contents_def)
  moreover have "(n = 0 \<longrightarrow> pid = 0) \<and>
      (\<exists>n'. pool_sizes ?p = (pool_sizes p)(i \<mapsto> n') \<and> n' \<le> max n (8192 * used (contents p) i + 4096))"
    using AllocatePage_sizes [OF pool_okD(5) [OF ok] c env a(1)] n used_contents [OF ok] by auto
  ultimately show ?thesis using a(1) cont views by (auto simp: pool_AllocatePage_def)
qed

end
