(* ===== verification/Buffer_Claims.thy ===== *)
theory Buffer_Claims
  imports Pool_Access
begin

text \<open>
  The buffer manager's claims: transparency of fetching a page, the pool as a page store for its
  clients, shutdown, file deletion, and the two ways in which its bookkeeping goes wrong.
\<close>

section \<open>The pool as a page store\<close>

text \<open>Reading and replacing one page the way a client does it.\<close>

definition pool_read :: "io_env \<Rightarrow> PageBufferManager \<Rightarrow> file_page_id_t \<Rightarrow> FullPage \<Rightarrow>
    ((pool_error option \<times> FullPage) \<times> PageBufferManager) outcome" where
  "pool_read env p fp buf =
     andthen (with_page env p fp (\<lambda>i p. view_page p i Inr)) (\<lambda>(r, p).
     Inr (case r of Inl e \<Rightarrow> (Some e, buf) | Inr page \<Rightarrow> (None, page), p))"

definition pool_write :: "io_env \<Rightarrow> PageBufferManager \<Rightarrow> file_page_id_t \<Rightarrow> FullPage \<Rightarrow>
    (pool_error option \<times> PageBufferManager) outcome" where
  "pool_write env p fp page =
     andthen (with_page env p fp (\<lambda>i p. modify_page p i (\<lambda>_. Inr ((), page)))) (\<lambda>(r, p).
     Inr (case r of Inl e \<Rightarrow> Some e | Inr _ \<Rightarrow> None, p))"

text \<open>Nothing is pinned, the evictable count is right, and no idle frame carries the id of a page.\<close>

definition quiet :: "PageBufferManager \<Rightarrow> bool" where
  "quiet p \<longleftrightarrow> pool_ok p \<and> (\<forall>i. is_frame p i \<longrightarrow> fr_pin_count (frame p i) = 0) \<and>
     GetEvictableCount (replacer_m p) > 0 \<and> (\<exists>i. is_frame p i) \<and>
     (\<forall>i. is_frame p i \<and> idle p i \<longrightarrow> contents p (fr_fp_id (frame p i)) = None)"

lemma quiet_calm:
  assumes "quiet p"
  shows "calm p" and "unpinned p fp"
proof -
  show "calm p" using assms by (auto simp: quiet_def calm_def)
  show "unpinned p fp"
    using assms pool_okD(2) [of p fp] by (auto simp: quiet_def unpinned_def entry_ok_def)
qed

lemma quiet_can_get: "quiet p \<Longrightarrow> contents p fp \<noteq> None \<Longrightarrow> can_get p fp"
  using calm_can_get quiet_calm by blast

lemma quiet_tidy:
  assumes "quiet p" and "tidy p p'" and "\<forall>fp. contents p fp = None \<longrightarrow> contents p' fp = None"
  shows "quiet p'"
  using assms unfolding quiet_def tidy_def by metis

lemma with_page_quiet:
  assumes q: "quiet p" and ex: "contents p fp = Some old" and env: "no_fault env"
    and body: "\<And>i p1. pool_ok p1 \<Longrightarrow> page_frame p1 fp = Some i \<Longrightarrow> fr_data (frame p1 i) = old \<Longrightarrow>
      \<exists>p2. body i p1 = Inr (x, p2) \<and> touched p1 i fp new p2"
  shows "\<exists>p'. with_page env p fp body = Inr (Inr x, p') \<and> quiet p' \<and> contents p' = (contents p)(fp \<mapsto> new)"
proof -
  obtain p' where p': "with_page env p fp body = Inr (Inr x, p')" "tidy p p'" "contents p' = (contents p)(fp \<mapsto> new)"
    using with_page_touched [OF quiet_calm(1) [OF q] ex quiet_calm(2) [OF q] env body] by blast
  then have "quiet p'" using quiet_tidy [OF q] ex by (metis fun_upd_apply option.distinct(1))
  then show ?thesis using p' by blast
qed

lemma contents_length:
  assumes "pool_ok p" and "contents p fp = Some pg"
  shows "length pg = 4096"
proof (cases "page_frame p fp")
  case (Some i)
  then have "is_frame p i" using pool_okD(2) [OF assms(1) Some] by (simp add: entry_ok_def)
  then show ?thesis using pool_okD(1) [OF assms(1), of i] assms(2) Some by (simp add: contents_def frame_ok_def)
qed (use assms disk_page_length in \<open>simp add: contents_def\<close>)

interpretation pool: page_store no_fault quiet contents pool_read pool_write
proof unfold_locales
  show "length pg = 4096" if "quiet p" "contents p fp = Some pg" for p fp pg
    using contents_length that by (auto simp: quiet_def)
  show "\<exists>p'. pool_read env p fp buf = Inr ((None, pg), p') \<and> quiet p' \<and> contents p' = contents p"
    if "quiet p" "no_fault env" "contents p fp = Some pg" "length buf = 4096" for p env fp pg buf
  proof -
    have "\<exists>p2. view_page p1 i Inr = Inr (pg, p2) \<and> touched p1 i fp pg p2"
      if "pool_ok p1" "page_frame p1 fp = Some i" "fr_data (frame p1 i) = pg" for i p1
      using view_page_ok [OF that(1,2), of Inr] held_page(2) [OF that(1,2)] that(3) by simp
    from with_page_quiet [OF that(1,3,2), of "\<lambda>i p. view_page p i Inr", OF this]
    obtain p' where "with_page env p fp (\<lambda>i p. view_page p i Inr) = Inr (Inr pg, p')" "quiet p'"
      "contents p' = (contents p)(fp \<mapsto> pg)" by blast
    moreover have "(contents p)(fp \<mapsto> pg) = contents p" using \<open>contents p fp = Some pg\<close> by (rule fun_upd_idem)
    ultimately show ?thesis by (simp add: pool_read_def)
  qed
  show "\<exists>p'. pool_write env p fp pg = Inr (None, p') \<and> quiet p' \<and> contents p' = (contents p)(fp \<mapsto> pg)"
    if "quiet p" "no_fault env" "contents p fp \<noteq> None" "length pg = 4096" for p env fp pg
  proof -
    note prems = that
    obtain old where old: "contents p fp = Some old" using prems(3) by blast
    from with_page_quiet [OF prems(1) old prems(2), of "\<lambda>i p. modify_page p i (\<lambda>_. Inr ((), pg))",
        OF modify_page_ok [OF _ _ refl prems(4)]]
    obtain p' where "with_page env p fp (\<lambda>i p. modify_page p i (\<lambda>_. Inr ((), pg))) = Inr (Inr (), p')" "quiet p'"
      "contents p' = (contents p)(fp \<mapsto> pg)" by blast
    then show ?thesis by (simp add: pool_write_def)
  qed
qed

section \<open>Construction\<close>

lemma register_frames:
  assumes "n \<le> 2 ^ 32"
  shows "let r = fold (\<lambda>i r. RegisterFrame r (of_nat i)) [0..<n] LRUKReplacer_init
    in lru_ok r \<and> evictable_count_m r = of_nat n \<and>
       (\<forall>i. frame_history r i = (if unat i < n then Some new_history else None))"
  using assms
proof (induction n)
  case 0
  then show ?case by (simp add: LRUKReplacer_init_def lru_ok_def frame_history_def)
next
  case (Suc n)
  let ?r = "fold (\<lambda>i r. RegisterFrame r (of_nat i)) [0..<n] LRUKReplacer_init"
  have IH: "lru_ok ?r" "evictable_count_m ?r = of_nat n"
    "\<forall>i. frame_history ?r i = (if unat i < n then Some new_history else None)"
    using Suc by (simp_all add: Let_def)
  have "unat (of_nat n :: 32 word) = n" using Suc.prems by (intro unat_of_nat_32) simp
  then have "frame_history (RegisterFrame ?r (of_nat n)) i =
      (if unat i < Suc n then Some new_history else None)" for i
    using IH(3) by (auto simp: frame_history_RegisterFrame less_Suc_eq word_unat_eq_iff)
  moreover have "evictable_count_m (RegisterFrame ?r (of_nat n)) = of_nat (Suc n)"
    using IH(2) by (simp add: RegisterFrame_def Let_def)
  ultimately show ?case
    using IH(1) by (simp add: frame_history_RegisterFrame)
qed

lemma pool_init:
  assumes n: "0 < n" "n < 2 ^ 32" and buf: "\<And>i. length (buffer i) = 4096"
    and files: "\<And>i content. files (GetFilePath i) = Some content \<Longrightarrow> length content \<le> 2 ^ 20 * 4096"
    and inv: "files (GetFilePath INVALID_FILE_ID) = None"
  defines "p \<equiv> PageBufferManager_init buffer files n"
  shows "quiet p" and "contents p = disk_pages (DiskManager_init files)"
    and "GetEvictableCount (replacer_m p) = of_nat n" and "is_frame p i \<longleftrightarrow> unat i < n"
    and "page_frame p fp = None"
proof -
  note r = register_frames [of n, unfolded Let_def]
  have views: "page_frame p = Map.empty" "is_frame p i \<longleftrightarrow> unat i < n" "disk_manager_m p = DiskManager_init files"
    "unat i < n \<Longrightarrow> frame p i = new_Frame i (buffer (unat i))" "page_map_m p = []" for i
    by (simp_all add: p_def PageBufferManager_init_def page_frame_def is_frame_def frame_def fun_eq_iff)
  have rp: "lru_ok (replacer_m p)" "evictable_count_m (replacer_m p) = of_nat n"
    "frame_history (replacer_m p) i = (if unat i < n then Some new_history else None)" for i
    using r n(2) by (simp_all add: p_def PageBufferManager_init_def)
  show "is_frame p i \<longleftrightarrow> unat i < n" "page_frame p fp = None" by (simp_all add: views)
  show cnt: "GetEvictableCount (replacer_m p) = of_nat n" using rp(2) by (simp add: GetEvictableCount_def)
  show cont: "contents p = disk_pages (DiskManager_init files)" by (simp add: contents_def views fun_eq_iff)
  have "frame_ok p i" if "unat i < n" for i
    using that rp buf by (simp add: frame_ok_def idle_def views new_Frame_def evictable_def new_history_def)
  moreover have "disk_ok (DiskManager_init files)" using files by (rule disk_ok_init)
  ultimately have "pool_ok p" using rp by (simp add: pool_ok_def views)
  moreover have "unat (of_nat n :: 64 word) = n" using n(2) by (intro unat_of_nat_64) simp
  then have "GetEvictableCount (replacer_m p) > 0" using cnt n(1) by (simp add: word_less_nat_alt)
  moreover have "\<exists>i. is_frame p i" using n(1) by (intro exI [of _ 0]) (simp add: views)
  moreover have "contents p (fr_fp_id (frame p i)) = None" if "unat i < n" for i
    using that inv by (simp add: cont views new_Frame_def disk_pages_def DiskManager_init_def)
  ultimately show "quiet p" unfolding quiet_def by (auto simp: views new_Frame_def)
qed

text \<open>A pool of a few frames over two files with one page each, for the witnesses.\<close>

abbreviation small_files :: "string \<rightharpoonup> byte list" where
  "small_files \<equiv> [GetFilePath 7 \<mapsto> replicate 4096 5, GetFilePath 9 \<mapsto> replicate 4096 6]"

abbreviation small_pool :: "nat \<Rightarrow> PageBufferManager" where
  "small_pool n \<equiv> PageBufferManager_init (\<lambda>_. replicate 4096 0) small_files n"

lemma small_pool:
  assumes "0 < n" and "n < 2 ^ 32"
  shows "quiet (small_pool n)" and "contents (small_pool n) (FilePageId 7 0) = Some (replicate 4096 5)"
    and "GetEvictableCount (replacer_m (small_pool n)) = of_nat n" and "is_frame (small_pool n) i \<longleftrightarrow> unat i < n"
    and "page_frame (small_pool n) fp = None" and "contents (small_pool n) (FilePageId 9 0) = Some (replicate 4096 6)"
    and "contents (small_pool n) (FilePageId 8 0) = None"
proof -
  have "INVALID_FILE_ID \<noteq> 7" "INVALID_FILE_ID \<noteq> 9" by (simp_all add: INVALID_FILE_ID_def)
  then have f: "small_files (GetFilePath INVALID_FILE_ID) = None"
    "small_files (GetFilePath i) = Some content \<Longrightarrow> length content \<le> 2 ^ 20 * 4096" for i content
    by (auto split: if_splits)
  have b: "\<And>i :: nat. length (replicate 4096 (0 :: byte)) = 4096" by simp
  note i = pool_init [where buffer = "\<lambda>_. replicate 4096 0" and files = small_files, OF assms b f(2) f(1)]
  show "quiet (small_pool n)" "GetEvictableCount (replacer_m (small_pool n)) = of_nat n"
    "is_frame (small_pool n) i \<longleftrightarrow> unat i < n" "page_frame (small_pool n) fp = None"
    using i by simp_all
  show "contents (small_pool n) (FilePageId 7 0) = Some (replicate 4096 5)"
    "contents (small_pool n) (FilePageId 9 0) = Some (replicate 4096 6)"
    "contents (small_pool n) (FilePageId 8 0) = None"
    using i(2) by (simp_all add: disk_pages_def free_of_def DiskManager_init_def mem_read_def)
qed

section \<open>Claims\<close>

text \<open>
  C14: fetching a page is transparent. Whenever \<open>GetPage\<close> can serve a page, it returns a handle whose
  view has exactly the page's contents, evicting and flushing some other page if it must, and the
  contents of no page change; dropping the handle works and changes no page either.
\<close>

theorem GetPage_transparent:
  assumes "pool_ok p" and "can_get p fp" and "no_fault env"
  shows "\<exists>i p'. GetPage env p fp = Inr (Inr i, p') \<and> pool_ok p' \<and> contents p' = contents p \<and>
    GetView p' i = Inr (the (contents p fp)) \<and> GetFilePageId p' i = Inr fp \<and>
    (\<exists>p''. Page_destroy p' (Some i) = Inr p'' \<and> pool_ok p'' \<and> contents p'' = contents p)"
proof -
  obtain i p' where g: "GetPage env p fp = Inr (Inr i, p')" "pool_ok p'" "contents p' = contents p"
    "page_frame p' fp = Some i" "fr_data (frame p' i) = the (contents p fp)" "fr_pin_count (frame p' i) \<noteq> 0"
    using GetPage_ok [OF assms] by blast
  have i: "is_frame p' i" "fr_fp_id (frame p' i) = fp"
    using pool_okD(2) [OF g(2,4)] by (simp_all add: entry_ok_def)
  obtain p'' where "RemoveAccessor p' fp = Inr p''" "pool_ok p''" "contents p'' = contents p'"
    using RemoveAccessor_ok [OF g(2,4,6)] by blast
  then show ?thesis
    using g i by (auto simp: GetView_def GetFilePageId_def Page_destroy_def frame_at_eq)
qed

theorem GetPage_transparent_witness:
  "\<exists>i p'. GetPage lucky_env (small_pool 1) (FilePageId 7 0) = Inr (Inr i, p') \<and>
     GetView p' i = Inr (replicate 4096 5)"
proof -
  have q: "quiet (small_pool 1)" and c: "contents (small_pool 1) (FilePageId 7 0) = Some (replicate 4096 5)"
    using small_pool [of 1] by simp_all
  have "pool_ok (small_pool 1)" using q by (simp add: quiet_def)
  moreover have "can_get (small_pool 1) (FilePageId 7 0)" using quiet_can_get [OF q] c by simp
  ultimately show ?thesis using GetPage_transparent [OF _ _ no_fault_lucky] c by fastforce
qed

text \<open>
  C13: a client that updates a page through the pool reads its update back. In a quiet pool, fetching
  a page, writing through its mutable view and releasing it replaces that page and no other, and a
  later fetch sees the new contents, however small the pool is.
\<close>

theorem pool_write_read:
  assumes "quiet p" and "no_fault env" and "contents p fp \<noteq> None" and "length page = 4096"
  shows "\<exists>p'. pool_write env p fp page = Inr (None, p') \<and> quiet p' \<and> contents p' = (contents p)(fp \<mapsto> page) \<and>
    (\<exists>p''. pool_read env p' fp page = Inr ((None, page), p'') \<and> quiet p'' \<and>
       contents p'' = (contents p)(fp \<mapsto> page))"
  using pool.get_after_put [OF assms assms(4)] by blast

theorem pool_write_read_witness:
  "\<exists>p' p''. pool_write lucky_env (small_pool 1) (FilePageId 7 0) (replicate 4096 9) = Inr (None, p') \<and>
     pool_read lucky_env p' (FilePageId 7 0) (replicate 4096 9) = Inr ((None, replicate 4096 9), p'')"
proof -
  have "quiet (small_pool 1)" "contents (small_pool 1) (FilePageId 7 0) \<noteq> None"
    using small_pool(1,2) [of 1] by simp_all
  from pool_write_read [OF this(1) no_fault_lucky this(2) length_replicate [of 4096 9]] show ?thesis by blast
qed

lemma flush_writes:
  assumes "\<forall>(fp, i) \<in> set xs. page_frame p fp = Some i \<and> is_frame p i"
  shows "for_each (\<lambda>(fp_id, _) p. andthen (FlushPage env p fp_id) (\<lambda>(_, p). Inr p)) xs (p\<lparr>disk_manager_m := d\<rparr>) =
    andthen (for_each (\<lambda>(fp, pg) d. andthen (WritePage env d fp pg) (\<lambda>(_, d). Inr d))
      (map (\<lambda>(fp, i). (fp, fr_data (frame p i))) xs) d) (\<lambda>d. Inr (p\<lparr>disk_manager_m := d\<rparr>))"
  using assms
proof (induction xs arbitrary: d)
  case (Cons x xs)
  obtain fp i where x: "x = (fp, i)" by force
  have f: "FlushPage env (p\<lparr>disk_manager_m := d\<rparr>) fp =
      andthen (WritePage env d fp (fr_data (frame p i))) (\<lambda>(err, d).
        Inr (map_option (\<lambda>e. FlushPageError fp (what e)) err, p\<lparr>disk_manager_m := d\<rparr>))"
    using Cons.prems x by (simp add: FlushPage_def GetFrameForPage_eq pool_simps frame_at_eq)
  show ?case
    using Cons.IH Cons.prems x f
    by (cases "WritePage env d fp (fr_data (frame p i))") (auto simp: andthen_assoc)
qed simp

text \<open>Writing allocated pages leaves the sizes of the files as they are.\<close>

lemma put_all_sizes:
  assumes "disk_ok d" and "no_fault env" and "\<forall>(fp, pg) \<in> set ws. disk_pages d fp \<noteq> None \<and> length pg = 4096"
    and "for_each (\<lambda>(fp, pg) d. andthen (WritePage env d fp pg) (\<lambda>(_, d). Inr d)) ws d = Inr d'"
  shows "sizes d' = sizes d"
  using assms(1,3,4)
proof (induction ws arbitrary: d)
  case (Cons x ws)
  obtain fp pg where x: "x = (fp, pg)" by force
  then have pg: "disk_pages d fp \<noteq> None" "length pg = 4096" using Cons.prems(2) by auto
  then obtain d1 where d1: "WritePage env d fp pg = Inr (None, d1)" "disk_ok d1" "disk_pages d1 = (disk_pages d)(fp \<mapsto> pg)"
    using WritePage_ok [OF Cons.prems(1) _ assms(2)] by blast
  have "sizes d' = sizes d1" using Cons.prems(2,3) x d1(1,3) by (intro Cons.IH [OF d1(2)]) auto
  then show ?case using WritePage_sizes [OF Cons.prems(1) pg(1) assms(2) pg(2) d1(1)] by simp
qed simp

lemma pool_destroy_ok:
  assumes "pool_ok p" and "no_fault env"
  shows "\<exists>d. PageBufferManager_destroy env p = Inr d \<and> disk_ok d \<and> disk_pages d = contents p \<and> sizes d = pool_sizes p"
proof -
  let ?ws = "map (\<lambda>(fp, i). (fp, fr_data (frame p i))) (page_map_m p)"
  have ent: "page_frame p fp = Some i \<and> entry_ok p fp i" if "(fp, i) \<in> set (page_map_m p)" for fp i
    using that pool_okD(2,6) [OF assms(1)] by (simp add: page_frame_def)
  have "disk_pages (disk_manager_m p) fp \<noteq> None \<and> length (fr_data (frame p i)) = 4096"
    if "(fp, i) \<in> set (page_map_m p)" for fp i
    using ent [OF that] pool_okD(1) [OF assms(1), of i] by (auto simp: entry_ok_def frame_ok_def)
  then have ws: "\<forall>(fp, pg) \<in> set ?ws. disk_pages (disk_manager_m p) fp \<noteq> None \<and> length pg = 4096" by auto
  then obtain d where d: "for_each (\<lambda>(fp, pg) d. andthen (WritePage env d fp pg) (\<lambda>(_, d). Inr d)) ?ws
      (disk_manager_m p) = Inr d" "disk_ok d" "disk_pages d = disk_pages (disk_manager_m p) ++ map_of (rev ?ws)"
    using disk.put_all [OF pool_okD(5) [OF assms(1)] assms(2), of ?ws] by fastforce
  have "\<forall>(fp, i) \<in> set (page_map_m p). page_frame p fp = Some i \<and> is_frame p i"
    using ent by (auto simp: entry_ok_def)
  from flush_writes [OF this, of env "disk_manager_m p"] d(1)
  have "for_each (\<lambda>(fp_id, _) p. andthen (FlushPage env p fp_id) (\<lambda>(_, p). Inr p)) (page_map_m p) p =
      Inr (p\<lparr>disk_manager_m := d\<rparr>)" by simp
  then have "PageBufferManager_destroy env p = Inr d" by (simp add: PageBufferManager_destroy_def)
  moreover have "map_of (rev ?ws) fp = map_option (\<lambda>i. fr_data (frame p i)) (page_frame p fp)" for fp
  proof -
    have ds: "distinct (map fst ?ws)" using pool_okD(6) [OF assms(1)] by (simp add: comp_def case_prod_beta)
    then have "distinct (map fst (rev ?ws))" by (simp only: rev_map [symmetric] distinct_rev)
    then have "map_of (rev ?ws) = map_of ?ws" using map_of_inject_set [OF _ ds] by (simp only: set_rev)
    then show ?thesis by (simp add: map_of_map page_frame_def comp_def)
  qed
  then have "disk_pages d = contents p"
    using d(3) by (auto simp: contents_def map_add_def fun_eq_iff split: option.splits)
  ultimately show ?thesis using d(2) put_all_sizes [OF pool_okD(5) [OF assms(1)] assms(2) ws d(1)] by blast
qed

section \<open>Deleting a file\<close>

definition same_frames :: "PageBufferManager \<Rightarrow> PageBufferManager \<Rightarrow> bool" where
  "same_frames p p' \<longleftrightarrow> (\<forall>j. is_frame p' j = is_frame p j \<and> fr_pin_count (frame p' j) = fr_pin_count (frame p j) \<and>
     fr_fp_id (frame p' j) = fr_fp_id (frame p j))"

lemma drop_page_ok:
  assumes ok: "pool_ok p" and m: "page_frame p fp = Some i" and pin: "fr_pin_count (frame p i) = 0"
  shows "\<exists>p'. drop_page fp p = Inr p' \<and> pool_ok p' \<and> page_frame p' = (page_frame p)(fp := None) \<and>
    disk_manager_m p' = disk_manager_m p \<and> (\<forall>q. q \<noteq> fp \<longrightarrow> contents p' q = contents p q) \<and>
    same_frames p p' \<and> GetEvictableCount (replacer_m p') = GetEvictableCount (replacer_m p) + 1"
proof -
  have i: "is_frame p i" and fp: "fr_fp_id (frame p i) = fp"
    using pool_okD(2) [OF ok m] by (simp_all add: entry_ok_def)
  have id: "fr_id (frame p i) = i" using pool_okD(1) [OF ok i] by (simp add: frame_ok_def)
  let ?q = "erase_page fp (set_frame i ((frame p i)\<lparr>fr_is_dirty := False\<rparr>) p)"
  let ?p = "?q\<lparr>replacer_m := SetEvictable (replacer_m p) i True\<rparr>"
  have eq: "drop_page fp p = Inr ?p"
    using m i id by (simp add: drop_page_def page_frame_def [symmetric] frame_at_eq pool_simps Let_def)
  have views: "frame ?p j = (if j = i then (frame p i)\<lparr>fr_is_dirty := False\<rparr> else frame p j)"
    "page_frame ?p = (page_frame p)(fp := None)" "is_frame ?p j = is_frame p j"
    "disk_manager_m ?p = disk_manager_m p" "replacer_m ?p = SetEvictable (replacer_m p) i True" for j
    using i by (simp_all add: pool_simps)
  have dist: "distinct (map fst (page_map_m ?p))"
    using erase_distinct(1) [of "set_frame i ((frame p i)\<lparr>fr_is_dirty := False\<rparr>) p" fp] pool_okD(6) [OF ok]
    by (simp add: pool_simps)
  have h: "frame_history (replacer_m p) i \<noteq> None" using pool_okD(4) [OF ok] i by simp
  have "frame_ok ?p j" if j: "is_frame p j" for j
    using pool_okD(1) [OF ok j] pool_okD(1) [OF ok i] pin fp m h
    by (auto simp: frame_ok_def idle_def views evictable_SetEvictable split: if_splits)
  moreover have "entry_ok ?p q j" if "page_frame ?p q = Some j" for q j
  proof -
    have q: "page_frame p q = Some j" "q \<noteq> fp" using that views(2) by (auto split: if_splits)
    then have "j \<noteq> i" using page_frame_inj [OF ok m, of q] by auto
    then show ?thesis using pool_okD(2) [OF ok q(1)] by (simp add: entry_ok_def views)
  qed
  ultimately have "pool_ok ?p"
    using ok dist unfolding pool_ok_def by (simp add: views evictable_SetEvictable)
  moreover have "contents ?p q = contents p q" if "q \<noteq> fp" for q
    using that page_frame_inj [OF ok m, of q] by (cases "page_frame p q") (auto simp: contents_def views)
  moreover have "GetEvictableCount (replacer_m ?p) = GetEvictableCount (replacer_m p) + 1"
    using h by (simp add: views GetEvictableCount_def SetEvictable_def contains_frame_eq Let_def)
  moreover have "same_frames p ?p" by (simp add: same_frames_def views)
  ultimately show ?thesis using eq views by auto
qed

lemma drop_pages_ok:
  assumes "pool_ok p" and "distinct fps"
    and "\<forall>fp \<in> set fps. \<exists>i. page_frame p fp = Some i \<and> fr_pin_count (frame p i) = 0"
  shows "\<exists>p'. for_each drop_page fps p = Inr p' \<and> pool_ok p' \<and>
    (\<forall>fp. page_frame p' fp = (if fp \<in> set fps then None else page_frame p fp)) \<and>
    disk_manager_m p' = disk_manager_m p \<and> (\<forall>q. q \<notin> set fps \<longrightarrow> contents p' q = contents p q) \<and>
    same_frames p p' \<and> GetEvictableCount (replacer_m p') = GetEvictableCount (replacer_m p) + of_nat (length fps)"
  using assms
proof (induction fps arbitrary: p)
  case (Cons fp fps)
  then obtain i where i: "page_frame p fp = Some i" "fr_pin_count (frame p i) = 0" by auto
  obtain p1 where d: "drop_page fp p = Inr p1" "pool_ok p1" "page_frame p1 = (page_frame p)(fp := None)"
    "disk_manager_m p1 = disk_manager_m p" "\<forall>q. q \<noteq> fp \<longrightarrow> contents p1 q = contents p q"
    "same_frames p p1" "GetEvictableCount (replacer_m p1) = GetEvictableCount (replacer_m p) + 1"
    using drop_page_ok [OF Cons.prems(1) i] by blast
  have "\<forall>q \<in> set fps. \<exists>i. page_frame p1 q = Some i \<and> fr_pin_count (frame p1 i) = 0"
    using Cons.prems(2,3) d(3,6) by (auto simp: same_frames_def)
  then obtain p' where p': "for_each drop_page fps p1 = Inr p'" "pool_ok p'"
    "\<forall>fp. page_frame p' fp = (if fp \<in> set fps then None else page_frame p1 fp)"
    "disk_manager_m p' = disk_manager_m p1" "\<forall>q. q \<notin> set fps \<longrightarrow> contents p' q = contents p1 q"
    "same_frames p1 p'" "GetEvictableCount (replacer_m p') = GetEvictableCount (replacer_m p1) + of_nat (length fps)"
    using Cons.IH [OF d(2)] Cons.prems(2) by auto
  moreover have "same_frames p p'" using d(6) p'(6) by (simp add: same_frames_def)
  ultimately show ?case using d by (auto simp: add.assoc)
qed (simp add: same_frames_def)

text \<open>A pinned page is one with a pin count that is not zero: within the bound the signed comparison agrees.\<close>

lemma FileHasPinnedPages_eq:
  assumes "pool_ok p"
  shows "FileHasPinnedPages p file_id \<longleftrightarrow>
    (\<exists>fp i. page_frame p fp = Some i \<and> fp_file_id fp = file_id \<and> fr_pin_count (frame p i) \<noteq> 0)"
proof -
  have mem: "(fp, i) \<in> set (page_map_m p) \<longleftrightarrow> page_frame p fp = Some i" for fp i
    using pool_okD(6) [OF assms] by (simp add: page_frame_def)
  have pin: "sint (fr_pin_count (frame p i)) > 0 \<longleftrightarrow> fr_pin_count (frame p i) \<noteq> 0"
    if "page_frame p fp = Some i" for fp i
  proof -
    have "is_frame p i" using pool_okD(2) [OF assms that] by (simp add: entry_ok_def)
    then have "unat (fr_pin_count (frame p i)) < 2 ^ 31" using pool_okD(1) [OF assms] by (simp add: frame_ok_def)
    then have "sint (fr_pin_count (frame p i)) = int (unat (fr_pin_count (frame p i)))" by (rule sint_unat)
    then show ?thesis by (simp only: of_nat_0_less_iff unat_gt_0)
  qed
  show ?thesis
    using pin by (auto simp: FileHasPinnedPages_def list_ex_iff Bex_def frame_def [symmetric] mem)
qed

text \<open>Deleting a file, with what it does to the frames and the evictable count.\<close>

lemma pool_DeleteFile_ok:
  assumes "pool_ok p" and "no_fault env"
  shows "if \<exists>fp i. page_frame p fp = Some i \<and> fp_file_id fp = file_id \<and> fr_pin_count (frame p i) \<noteq> 0
    then pool_DeleteFile env p file_id = Inr (Some (DeleteFileTimeoutError file_id), p)
    else \<exists>p'. pool_DeleteFile env p file_id = Inr (None, p') \<and> pool_ok p' \<and>
      (\<forall>fp. contents p' fp = (if fp_file_id fp = file_id then None else contents p fp)) \<and> same_frames p p' \<and>
      (\<forall>j. is_frame p j \<and> idle p' j \<longrightarrow> idle p j \<or> fp_file_id (fr_fp_id (frame p j)) = file_id) \<and>
      pool_sizes p' = (pool_sizes p)(file_id := None) \<and>
      (\<exists>k \<le> length (page_map_m p). GetEvictableCount (replacer_m p') = GetEvictableCount (replacer_m p) + of_nat k)"
proof -
  have mem: "(fp, i) \<in> set (page_map_m p) \<longleftrightarrow> page_frame p fp = Some i" for fp i
    using pool_okD(6) [OF assms(1)] by (simp add: page_frame_def)
  have pin: "sint (fr_pin_count (frame p i)) > 0 \<longleftrightarrow> fr_pin_count (frame p i) \<noteq> 0"
    if "page_frame p fp = Some i" for fp i
  proof -
    have "is_frame p i" using pool_okD(2) [OF assms(1) that] by (simp add: entry_ok_def)
    then have "unat (fr_pin_count (frame p i)) < 2 ^ 31" using pool_okD(1) [OF assms(1)] by (simp add: frame_ok_def)
    then have "sint (fr_pin_count (frame p i)) = int (unat (fr_pin_count (frame p i)))" by (rule sint_unat)
    then show ?thesis by (simp only: of_nat_0_less_iff unat_gt_0)
  qed
  note has = FileHasPinnedPages_eq [OF assms(1), of file_id]
  show ?thesis
  proof (cases "FileHasPinnedPages p file_id")
    case True
    then show ?thesis using has by (simp add: pool_DeleteFile_def)
  next
    case False
    let ?fps = "filter (\<lambda>fp_id. fp_file_id fp_id = file_id) (map fst (page_map_m p))"
    have set: "fp \<in> set ?fps \<longleftrightarrow> fp_file_id fp = file_id \<and> page_frame p fp \<noteq> None" for fp
      using mem by (auto simp: image_iff) force
    have "\<forall>fp \<in> set ?fps. \<exists>i. page_frame p fp = Some i \<and> fr_pin_count (frame p i) = 0"
      using False has set by blast
    then obtain p1 where p1: "for_each drop_page ?fps p = Inr p1" "pool_ok p1"
      "\<forall>fp. page_frame p1 fp = (if fp \<in> set ?fps then None else page_frame p fp)"
      "disk_manager_m p1 = disk_manager_m p" "\<forall>q. q \<notin> set ?fps \<longrightarrow> contents p1 q = contents p q"
      "same_frames p p1" "GetEvictableCount (replacer_m p1) = GetEvictableCount (replacer_m p) + of_nat (length ?fps)"
      using drop_pages_ok [OF assms(1), of ?fps] pool_okD(6) [OF assms(1)] by auto
    obtain d where d: "DeleteFile env (disk_manager_m p1) file_id = (None, d)" "disk_ok d"
      "\<forall>fp. disk_pages d fp = (if fp_file_id fp = file_id then None else disk_pages (disk_manager_m p1) fp)"
      using DeleteFile_ok [OF pool_okD(5) [OF p1(2)] assms(2)] by blast
    let ?p = "p1\<lparr>disk_manager_m := d\<rparr>"
    have eq: "pool_DeleteFile env p file_id = Inr (None, ?p)"
      using False p1(1) d(1) by (simp add: pool_DeleteFile_def)
    have gone: "fp_file_id fp = file_id \<Longrightarrow> page_frame p1 fp = None" for fp
      using p1(3) set by auto
    have "entry_ok ?p fp i" if "page_frame p1 fp = Some i" for fp i
      using pool_okD(2) [OF p1(2) that] gone that d(3) by (auto simp: entry_ok_def pool_simps)
    moreover have "frame_ok ?p i = frame_ok p1 i" for i by (simp add: frame_ok_def idle_def pool_simps)
    ultimately have ok': "pool_ok ?p" using p1(2) d(2) by (simp add: pool_ok_def pool_simps)
    have cont': "contents ?p fp = (if fp_file_id fp = file_id then None else contents p fp)" for fp
    proof (cases "fp_file_id fp = file_id")
      case True
      then show ?thesis using gone d(3) by (simp add: contents_def pool_simps)
    next
      case False
      then have same: "contents p1 fp = contents p fp" using p1(5) set by simp
      show ?thesis using False d(3) unfolding same [symmetric]
        by (cases "page_frame p1 fp") (simp_all add: contents_def pool_simps)
    qed
    have fr: "same_frames p ?p" using p1(6) by (simp add: same_frames_def pool_simps)
    have idle: "idle p j \<or> fp_file_id (fr_fp_id (frame p j)) = file_id" if "is_frame p j" "idle ?p j" for j
    proof -
      have "fr_fp_id (frame ?p j) = fr_fp_id (frame p j)" using p1(6) by (simp add: same_frames_def pool_simps)
      then show ?thesis using that(2) p1(3) set by (auto simp: idle_def pool_simps split: if_splits)
    qed
    have sz: "pool_sizes ?p = (pool_sizes p)(file_id := None)"
      using d(1) p1(4) assms(2) by (auto simp: DeleteFile_def no_fault_def sizes_def)
    have "length ?fps \<le> length (page_map_m p)" using length_filter_le [of _ "map fst (page_map_m p)"] by simp
    moreover have "GetEvictableCount (replacer_m ?p) = GetEvictableCount (replacer_m p) + of_nat (length ?fps)" using p1(7) by simp
    ultimately have "\<exists>k \<le> length (page_map_m p).
        GetEvictableCount (replacer_m ?p) = GetEvictableCount (replacer_m p) + of_nat k" by blast
    then show ?thesis unfolding if_not_P [OF False [unfolded has]] using eq ok' cont' fr idle sz by blast
  qed
qed

text \<open>
  C34: deleting a file. While some page of the file is pinned the call only reports the timeout and
  changes nothing; otherwise it succeeds, the file's pages are gone from the pool and the disk, and
  the pages of every other file keep their contents.
\<close>

theorem DeleteFile_correct:
  assumes "pool_ok p" and "no_fault env"
  shows "if \<exists>fp i. page_frame p fp = Some i \<and> fp_file_id fp = file_id \<and> fr_pin_count (frame p i) \<noteq> 0
    then pool_DeleteFile env p file_id = Inr (Some (DeleteFileTimeoutError file_id), p)
    else \<exists>p'. pool_DeleteFile env p file_id = Inr (None, p') \<and> pool_ok p' \<and>
      (\<forall>fp. contents p' fp = (if fp_file_id fp = file_id then None else contents p fp))"
proof (cases "\<exists>fp i. page_frame p fp = Some i \<and> fp_file_id fp = file_id \<and> fr_pin_count (frame p i) \<noteq> 0")
  case True
  then show ?thesis using pool_DeleteFile_ok [OF assms, of file_id] by presburger
next
  case False
  then show ?thesis using pool_DeleteFile_ok [OF assms, of file_id] unfolding if_not_P [OF False] by blast
qed

theorem DeleteFile_correct_witness:
  "\<exists>p'. pool_DeleteFile lucky_env (small_pool 2) 7 = Inr (None, p') \<and> contents p' (FilePageId 7 0) = None"
  using DeleteFile_correct [of "small_pool 2" lucky_env 7] small_pool [of 2] by (auto simp: quiet_def)

section \<open>Where the bookkeeping goes wrong\<close>

text \<open>
  C35: the evictable count drifts. Fetching a cached, unpinned page twice and releasing it twice
  leaves every frame as it was, but the count is one lower than before; when it was one, a request
  for any page that is not cached then blocks although a frame is evictable.
\<close>

theorem evictable_count_drifts:
  assumes "pool_ok p" and "page_frame p fp = Some i" and "fr_pin_count (frame p i) = 0"
  shows "\<exists>p1 p2 p3 p4. GetPage env p fp = Inr (Inr i, p1) \<and> GetPage env p1 fp = Inr (Inr i, p2) \<and>
    Page_destroy p2 (Some i) = Inr p3 \<and> Page_destroy p3 (Some i) = Inr p4 \<and>
    pool_ok p4 \<and> (\<forall>j. frame p4 j = frame p j) \<and> evictable (replacer_m p4) i \<and>
    GetEvictableCount (replacer_m p4) = GetEvictableCount (replacer_m p) - 1 \<and>
    (GetEvictableCount (replacer_m p) = 1 \<longrightarrow>
       (\<forall>env q. page_frame p q = None \<longrightarrow> GetPage env p4 q = Inl Blocked))"
proof -
  have pin: "\<exists>q'. GetPage env q fp = Inr (Inr i, q') \<and> pool_ok q' \<and> page_frame q' = page_frame q \<and>
      (\<forall>j. frame q' j = (if j = i then (frame q i)\<lparr>fr_pin_count := fr_pin_count (frame q i) + 1\<rparr> else frame q j)) \<and>
      GetEvictableCount (replacer_m q') = GetEvictableCount (replacer_m q) - 1"
    if "pool_ok q" "page_frame q fp = Some i" "unat (fr_pin_count (frame q i)) + 1 < 2 ^ 31" for q
    using PinAndReturnPage_ok [OF that] that(2) by (fastforce simp: GetPage_def contains_page_eq)
  have unpin: "\<exists>q'. Page_destroy q (Some i) = Inr q' \<and> pool_ok q' \<and> page_frame q' = page_frame q \<and>
      (\<forall>j. frame q' j = (if j = i then (frame q i)\<lparr>fr_pin_count := fr_pin_count (frame q i) - 1\<rparr> else frame q j)) \<and>
      GetEvictableCount (replacer_m q') = (if fr_pin_count (frame q i) = 1
        then GetEvictableCount (replacer_m q) + 1 else GetEvictableCount (replacer_m q))"
    if "pool_ok q" "page_frame q fp = Some i" "fr_pin_count (frame q i) \<noteq> 0" for q
  proof -
    have "frame_at q i = Inr (frame q i)" "fr_fp_id (frame q i) = fp"
      using pool_okD(2) [OF that(1,2)] by (simp_all add: entry_ok_def frame_at_eq)
    then show ?thesis using RemoveAccessor_ok [OF that] by (auto simp: Page_destroy_def)
  qed
  obtain p1 where p1: "GetPage env p fp = Inr (Inr i, p1)" "pool_ok p1" "page_frame p1 = page_frame p"
    "\<forall>j. frame p1 j = (if j = i then (frame p i)\<lparr>fr_pin_count := 1\<rparr> else frame p j)"
    "GetEvictableCount (replacer_m p1) = GetEvictableCount (replacer_m p) - 1"
    using pin [OF assms(1,2)] assms(3) by auto
  obtain p2 where p2: "GetPage env p1 fp = Inr (Inr i, p2)" "pool_ok p2" "page_frame p2 = page_frame p"
    "\<forall>j. frame p2 j = (if j = i then (frame p i)\<lparr>fr_pin_count := 2\<rparr> else frame p j)"
    "GetEvictableCount (replacer_m p2) = GetEvictableCount (replacer_m p) - 2"
    using pin [OF p1(2)] p1(3,4,5) assms(2) by auto
  obtain p3 where p3: "Page_destroy p2 (Some i) = Inr p3" "pool_ok p3" "page_frame p3 = page_frame p"
    "\<forall>j. frame p3 j = (if j = i then (frame p i)\<lparr>fr_pin_count := 1\<rparr> else frame p j)"
    "GetEvictableCount (replacer_m p3) = GetEvictableCount (replacer_m p) - 2"
    using unpin [OF p2(2)] p2(3,4,5) assms(2) by auto
  obtain p4 where p4: "Page_destroy p3 (Some i) = Inr p4" "pool_ok p4" "page_frame p4 = page_frame p"
    "\<forall>j. frame p4 j = (if j = i then (frame p i)\<lparr>fr_pin_count := 0\<rparr> else frame p j)"
    "GetEvictableCount (replacer_m p4) = GetEvictableCount (replacer_m p) - 1"
    using unpin [OF p3(2)] p3(3,4,5) assms(2) by auto
  have same: "\<forall>j. frame p4 j = frame p j" using p4(4) assms(3) by simp
  have "is_frame p4 i" using pool_okD(2) [OF p4(2)] p4(3) assms(2) by (simp add: entry_ok_def)
  then have "evictable (replacer_m p4) i"
    using pool_okD(1) [OF p4(2), of i] same assms(3) by (simp add: frame_ok_def)
  moreover have "GetPage env' p4 q = Inl Blocked"
    if "GetEvictableCount (replacer_m p) = 1" "page_frame p q = None" for env' q
    using that p4(3,5) by (simp add: GetPage_def contains_page_eq)
  ultimately show ?thesis using p1(1) p2(1) p3(1) p4 same by blast
qed

theorem evictable_count_drifts_witness:
  "\<exists>p p1 p2 p3 p4 i. GetPage lucky_env p (FilePageId 7 0) = Inr (Inr i, p1) \<and>
     GetPage lucky_env p1 (FilePageId 7 0) = Inr (Inr i, p2) \<and> Page_destroy p2 (Some i) = Inr p3 \<and>
     Page_destroy p3 (Some i) = Inr p4 \<and> evictable (replacer_m p4) i \<and>
     GetPage lucky_env p4 (FilePageId 8 0) = Inl Blocked"
proof -
  let ?fp = "FilePageId 7 0"
  have q: "quiet (small_pool 1)" "contents (small_pool 1) ?fp \<noteq> None"
    "GetEvictableCount (replacer_m (small_pool 1)) = 1" using small_pool [of 1] by simp_all
  then have ok: "pool_ok (small_pool 1)" by (simp add: quiet_def)
  obtain i p0 where g: "pool_ok p0" "contents p0 = contents (small_pool 1)" "page_frame p0 ?fp = Some i"
    "fr_pin_count (frame p0 i) = 1" "GetEvictableCount (replacer_m p0) = 0"
    using GetPage_ok [OF ok quiet_can_get [OF q(1,2)] no_fault_lucky] q(3) small_pool(5) [of 1 ?fp] by auto
  have one: "fr_pin_count (frame p0 i) \<noteq> 0" using g(4) by simp
  obtain p where p: "pool_ok p" "page_frame p = page_frame p0" "fr_pin_count (frame p i) = 0"
    "contents p = contents p0" "GetEvictableCount (replacer_m p) = 1"
    using RemoveAccessor_ok [OF g(1,3) one] g(4,5) by auto
  have none: "page_frame p (FilePageId 8 0) = None"
  proof (rule ccontr)
    assume "page_frame p (FilePageId 8 0) \<noteq> None"
    then have "contents p (FilePageId 8 0) \<noteq> None" by (auto simp: contents_def)
    then show False using p(4) g(2) small_pool(7) [of 1] by simp
  qed
  have m: "page_frame p ?fp = Some i" using p(2) g(3) by simp
  from evictable_count_drifts [OF p(1) m p(3), of lucky_env] p(5) none show ?thesis by blast
qed




end
