(* ===== verification/Shared_Spinlock.thy ===== *)
theory Shared_Spinlock
  imports Prelude
begin

text \<open>
  The reader-writer spinlock of the buffer pool (\<open>shared_spinlock.h\<close>, \<open>shared_spinlock.cpp\<close>) as a
  transition system: \<open>n\<close> threads share the atomic word \<open>state_m\<close>, and every step is one atomic
  operation of one thread or a local decision between two of them. A relaxed load may return any
  value, and a weak compare-exchange may fail although the values agree, so the steps include every
  behaviour of weaker memory models on this one variable. A thread calls an unlock operation only
  when it holds the lock in that mode.
\<close>

section \<open>The lock\<close>

datatype LockState = UNLOCKED | EXCLUSIVE | SHARED

text \<open>\<open>State()\<close> of the value loaded; an impossible value fails its assertion.\<close>

definition State :: "32 word \<Rightarrow> LockState outcome" where
  "State lock_state =
     (if lock_state = - 1 then Inr EXCLUSIVE
      else if lock_state = 0 then Inr UNLOCKED
      else andthen (YADB_ASSERT (sint lock_state > 0)) (\<lambda>_. Inr SHARED))"

text \<open>
  Where a thread is: outside, inside one of the four locking operations (the shared ones with
  \<open>expected\<close> once it is loaded), or holding the lock.
\<close>

datatype lock_pc = Idle | InTryLock | InLock
  | InTryLockShared "32 word option" | InLockShared "32 word option" | HoldsExclusive | HoldsShared

record lock_sys =
  state_m :: "32 word"
  pc :: "nat \<Rightarrow> lock_pc"

definition goto :: "lock_sys \<Rightarrow> nat \<Rightarrow> lock_pc \<Rightarrow> lock_sys" where
  "goto s t p = s\<lparr>pc := (pc s)(t := p)\<rparr>"

inductive lock_step :: "nat \<Rightarrow> lock_sys \<Rightarrow> lock_sys \<Rightarrow> bool" for n where
  call: "t < n \<Longrightarrow> pc s t = Idle \<Longrightarrow>
      p \<in> {InTryLock, InLock, InTryLockShared None, InLockShared None} \<Longrightarrow>
      lock_step n s (goto s t p)"
| try_lock_true: "t < n \<Longrightarrow> pc s t = InTryLock \<Longrightarrow> state_m s = 0 \<Longrightarrow>
      lock_step n s ((goto s t HoldsExclusive)\<lparr>state_m := - 1\<rparr>)"
| try_lock_false: "t < n \<Longrightarrow> pc s t = InTryLock \<Longrightarrow> state_m s \<noteq> 0 \<Longrightarrow> lock_step n s (goto s t Idle)"
| lock_acquired: "t < n \<Longrightarrow> pc s t = InLock \<Longrightarrow> state_m s = 0 \<Longrightarrow>
      lock_step n s ((goto s t HoldsExclusive)\<lparr>state_m := - 1\<rparr>)"
| lock_retry: "t < n \<Longrightarrow> pc s t = InLock \<Longrightarrow> lock_step n s s"
| unlock: "t < n \<Longrightarrow> pc s t = HoldsExclusive \<Longrightarrow> lock_step n s ((goto s t Idle)\<lparr>state_m := 0\<rparr>)"
| try_shared_load: "t < n \<Longrightarrow> pc s t = InTryLockShared None \<Longrightarrow>
      lock_step n s (goto s t (InTryLockShared (Some e)))"
| try_shared_true: "t < n \<Longrightarrow> pc s t = InTryLockShared (Some e) \<Longrightarrow> sint e \<ge> 0 \<Longrightarrow> state_m s = e \<Longrightarrow>
      lock_step n s ((goto s t HoldsShared)\<lparr>state_m := e + 1\<rparr>)"
| try_shared_retry: "t < n \<Longrightarrow> pc s t = InTryLockShared (Some e) \<Longrightarrow> sint e \<ge> 0 \<Longrightarrow>
      lock_step n s (goto s t (InTryLockShared (Some (state_m s))))"
| try_shared_false: "t < n \<Longrightarrow> pc s t = InTryLockShared (Some e) \<Longrightarrow> sint e < 0 \<Longrightarrow>
      lock_step n s (goto s t Idle)"
| shared_load: "t < n \<Longrightarrow> pc s t = InLockShared None \<Longrightarrow>
      lock_step n s (goto s t (InLockShared (Some e)))"
| shared_reload: "t < n \<Longrightarrow> pc s t = InLockShared (Some e) \<Longrightarrow> sint e < 0 \<Longrightarrow>
      lock_step n s (goto s t (InLockShared (Some e')))"
| shared_acquired: "t < n \<Longrightarrow> pc s t = InLockShared (Some e) \<Longrightarrow> sint e \<ge> 0 \<Longrightarrow> state_m s = e \<Longrightarrow>
      lock_step n s ((goto s t HoldsShared)\<lparr>state_m := e + 1\<rparr>)"
| shared_retry: "t < n \<Longrightarrow> pc s t = InLockShared (Some e) \<Longrightarrow> sint e \<ge> 0 \<Longrightarrow>
      lock_step n s (goto s t (InLockShared (Some (state_m s))))"
| unlock_shared: "t < n \<Longrightarrow> pc s t = HoldsShared \<Longrightarrow>
      lock_step n s ((goto s t Idle)\<lparr>state_m := state_m s - 1\<rparr>)"

inductive_cases lock_stepE: "lock_step n s s'"

definition lock_init :: lock_sys where
  "lock_init = \<lparr>state_m = 0, pc = (\<lambda>_. Idle)\<rparr>"

inductive lock_reachable :: "nat \<Rightarrow> lock_sys \<Rightarrow> bool" for n where
  lock_reachable_init: "lock_reachable n lock_init"
| lock_reachable_step: "lock_reachable n s \<Longrightarrow> lock_step n s s' \<Longrightarrow> lock_reachable n s'"

section \<open>Invariant\<close>

definition writers :: "nat \<Rightarrow> lock_sys \<Rightarrow> nat set" where
  "writers n s = {t. t < n \<and> pc s t = HoldsExclusive}"

definition readers :: "nat \<Rightarrow> lock_sys \<Rightarrow> nat set" where
  "readers n s = {t. t < n \<and> pc s t = HoldsShared}"

definition lock_inv :: "nat \<Rightarrow> lock_sys \<Rightarrow> bool" where
  "lock_inv n s \<longleftrightarrow>
     (writers n s = {} \<and> state_m s = of_nat (card (readers n s)) \<or>
      (\<exists>t. writers n s = {t}) \<and> readers n s = {} \<and> state_m s = - 1)"

lemma holders_finite [simp]: "finite (writers n s)" "finite (readers n s)"
  by (simp_all add: writers_def readers_def)

lemma holders_goto:
  "t < n \<Longrightarrow> writers n (goto s t p) = (if p = HoldsExclusive then insert t (writers n s) else writers n s - {t})"
  "t < n \<Longrightarrow> readers n (goto s t p) = (if p = HoldsShared then insert t (readers n s) else readers n s - {t})"
  "writers n (s\<lparr>state_m := w\<rparr>) = writers n s" "readers n (s\<lparr>state_m := w\<rparr>) = readers n s"
  "state_m (goto s t p) = state_m s" "pc (goto s t p) = (pc s)(t := p)"
  by (auto simp: writers_def readers_def goto_def)

lemma holders_mem:
  "t < n \<Longrightarrow> t \<in> writers n s \<longleftrightarrow> pc s t = HoldsExclusive"
  "t < n \<Longrightarrow> t \<in> readers n s \<longleftrightarrow> pc s t = HoldsShared"
  by (simp_all add: writers_def readers_def)

lemma card_readers_le: "card (readers n s) \<le> n"
  using card_mono [of "{..<n}" "readers n s"] by (auto simp: readers_def)

lemma small_nat_word:
  assumes "k < 2 ^ 31"
  shows "(of_nat k :: 32 word) = 0 \<longleftrightarrow> k = 0" and "(of_nat k :: 32 word) \<noteq> - 1"
proof -
  show "(of_nat k :: 32 word) = 0 \<longleftrightarrow> k = 0"
  proof
    assume "(of_nat k :: 32 word) = 0"
    then have "sint (of_nat k :: 32 word) = 0" by simp
    then show "k = 0" using sint_of_small_nat [OF assms] by simp
  qed simp
  show "(of_nat k :: 32 word) \<noteq> - 1"
  proof
    assume "(of_nat k :: 32 word) = - 1"
    then have "sint (of_nat k :: 32 word) = - 1" by simp
    then show False using sint_of_small_nat [OF assms] by simp
  qed
qed

text \<open>The kinds of steps: those between holding nothing and holding nothing, and the acquisitions.\<close>

lemma lock_inv_local:
  assumes "lock_inv n s" and "t < n" and "pc s t \<noteq> HoldsExclusive" "pc s t \<noteq> HoldsShared"
    and "p \<noteq> HoldsExclusive" "p \<noteq> HoldsShared"
  shows "lock_inv n (goto s t p)"
proof -
  have "t \<notin> writers n s" "t \<notin> readers n s" using assms by (simp_all add: holders_mem)
  then show ?thesis using assms by (simp add: lock_inv_def holders_goto)
qed

lemma lock_inv_take_exclusive:
  assumes "lock_inv n s" and "n < 2 ^ 31" and "t < n" and "state_m s = 0"
  shows "lock_inv n ((goto s t HoldsExclusive)\<lparr>state_m := - 1\<rparr>)"
proof -
  have "card (readers n s) < 2 ^ 31" using card_readers_le [of n s] assms(2) by simp
  from small_nat_word(1) [OF this] have "writers n s = {}" "readers n s = {}"
    using assms(1,4) by (auto simp: lock_inv_def)
  then show ?thesis using assms(3) by (simp add: lock_inv_def holders_goto)
qed

lemma lock_inv_take_shared:
  assumes "lock_inv n s" and "t < n" and "pc s t \<noteq> HoldsShared" and "sint (state_m s) \<ge> 0"
  shows "lock_inv n ((goto s t HoldsShared)\<lparr>state_m := state_m s + 1\<rparr>)"
proof -
  have "writers n s = {}" "state_m s = of_nat (card (readers n s))"
    using assms(1,4) by (auto simp: lock_inv_def)
  moreover have "t \<notin> readers n s" using assms(2,3) by (simp add: holders_mem)
  ultimately show ?thesis using assms(2) by (simp add: lock_inv_def holders_goto)
qed

lemma lock_inv_step:
  assumes "lock_step n s s'" and inv: "lock_inv n s" and n: "n < 2 ^ 31"
  shows "lock_inv n s'"
proof -
  from assms(1) show ?thesis
  proof cases
    case (unlock_shared t)
    then have t: "t \<in> readers n s" "t \<notin> writers n s" using holders_mem [of t n s] by simp_all
    then have "state_m s = of_nat (card (readers n s))" "writers n s = {}"
      using inv by (auto simp: lock_inv_def)
    moreover have "Suc (card (readers n s - {t})) = card (readers n s)"
      by (rule card_Suc_Diff1 [OF holders_finite(2) t(1)])
    then have "(of_nat (card (readers n s)) :: 32 word) - 1 = of_nat (card (readers n s - {t}))"
      by (metis add_diff_cancel_left' of_nat_Suc)
    ultimately show ?thesis
      using unlock_shared t by (simp add: lock_inv_def holders_goto)
  next
    case (unlock t)
    then have "t \<in> writers n s" by (simp add: holders_mem)
    then have "writers n s - {t} = {}" "readers n s = {}" using inv by (auto simp: lock_inv_def)
    then show ?thesis using unlock by (simp add: lock_inv_def holders_goto)
  qed (use inv n in \<open>auto intro: lock_inv_local lock_inv_take_exclusive lock_inv_take_shared\<close>)
qed

lemma lock_inv_reachable:
  assumes "lock_reachable n s" and "n < 2 ^ 31"
  shows "lock_inv n s"
  using assms(1)
proof induction
  case lock_reachable_init
  then show ?case by (simp add: lock_inv_def lock_init_def writers_def readers_def)
next
  case (lock_reachable_step s s')
  then show ?case using lock_inv_step assms(2) by blast
qed

section \<open>Claims\<close>

text \<open>
  C27: mutual exclusion. With fewer than \<open>2^31\<close> threads, in every reachable state a thread that holds
  the lock exclusively is the only holder in any mode, and the reader count never leaves the range
  of \<open>int\<close>.
\<close>

theorem spinlock_mutual_exclusion:
  assumes "lock_reachable n s" and "n < 2 ^ 31"
  shows "(\<forall>t < n. pc s t = HoldsExclusive \<longrightarrow>
      (\<forall>u < n. u \<noteq> t \<longrightarrow> pc s u \<noteq> HoldsExclusive \<and> pc s u \<noteq> HoldsShared)) \<and>
    - 1 \<le> sint (state_m s) \<and> sint (state_m s) \<le> int n"
proof -
  have inv: "lock_inv n s" by (rule lock_inv_reachable [OF assms])
  have "sint (of_nat (card (readers n s)) :: 32 word) = int (card (readers n s))"
    using card_readers_le [of n s] assms(2) by (intro sint_of_small_nat) simp
  then have "- 1 \<le> sint (state_m s) \<and> sint (state_m s) \<le> int n"
    using inv card_readers_le [of n s] by (auto simp: lock_inv_def)
  moreover have "pc s u \<noteq> HoldsExclusive \<and> pc s u \<noteq> HoldsShared"
    if "t < n" "pc s t = HoldsExclusive" "u < n" "u \<noteq> t" for t u
    using inv that holders_mem [of t n s] holders_mem [of u n s] by (auto simp: lock_inv_def)
  ultimately show ?thesis by blast
qed

theorem spinlock_mutual_exclusion_witness:
  "\<exists>s. lock_reachable 2 s \<and> pc s 0 = HoldsExclusive \<and> pc s 1 \<noteq> HoldsShared"
proof -
  let ?s1 = "goto lock_init 0 InTryLock"
  let ?s2 = "(goto ?s1 0 HoldsExclusive)\<lparr>state_m := - 1\<rparr>"
  have "lock_step 2 lock_init ?s1" by (rule lock_step.call) (simp_all add: lock_init_def)
  moreover have "lock_step 2 ?s1 ?s2"
    by (rule lock_step.try_lock_true) (simp_all add: goto_def lock_init_def)
  ultimately have r: "lock_reachable 2 ?s2"
    by (blast intro: lock_reachable.intros)
  then show ?thesis using spinlock_mutual_exclusion [OF r] by (auto simp: goto_def lock_init_def intro!: exI [of _ ?s2])
qed

text \<open>
  \<open>State\<close> tells the truth: in every reachable state it returns without a failed assertion, says
  \<open>EXCLUSIVE\<close> exactly when a thread holds the lock exclusively and \<open>SHARED\<close> exactly when some thread
  holds it in shared mode.
\<close>

lemma spinlock_State_correct:
  assumes "lock_reachable n s" and "n < 2 ^ 31"
  shows "\<exists>r. State (state_m s) = Inr r \<and>
    (r = EXCLUSIVE \<longleftrightarrow> (\<exists>t < n. pc s t = HoldsExclusive)) \<and>
    (r = SHARED \<longleftrightarrow> (\<exists>t < n. pc s t = HoldsShared))"
proof -
  have inv: "lock_inv n s" by (rule lock_inv_reachable [OF assms])
  have k: "card (readers n s) < 2 ^ 31" using card_readers_le [of n s] assms(2) by simp
  note w = small_nat_word [OF k] and sn = sint_of_small_nat [OF k]
  have h: "(\<exists>t < n. pc s t = HoldsExclusive) \<longleftrightarrow> writers n s \<noteq> {}"
    "(\<exists>t < n. pc s t = HoldsShared) \<longleftrightarrow> readers n s \<noteq> {}"
    by (auto simp: writers_def readers_def)
  show ?thesis
  proof (cases "readers n s = {}")
    case True
    then show ?thesis using inv h unfolding lock_inv_def State_def by auto
  next
    case False
    then have "state_m s = of_nat (card (readers n s))" "writers n s = {}" "0 < card (readers n s)"
      using inv by (auto simp: lock_inv_def card_gt_0_iff)
    then show ?thesis using False w sn h by (auto simp: State_def)
  qed
qed



end
