(* ===== verification/Pool_Threads.thy ===== *)
theory Pool_Threads
  imports Buffer_Claims Shared_Spinlock
begin

text \<open>
  The buffer pool shared by threads. Every public operation of \<open>page_buffer_manager.cpp\<close> runs under the
  mutex of the pool, so it is one step on the pool; \<open>GetPage\<close> and \<open>DeleteFile\<close> give the mutex up while
  they wait on the condition variable, so a call is a check of its predicate, which either lets it run
  or puts the thread to sleep until it is notified. The frames' locks are those of \<open>Shared_Spinlock\<close>,
  one step per atomic access. \<open>n\<close> threads own at most \<open>k\<close> page handles each, files do not fault, and no
  file is created or grown.

  The threads keep the protocol of the clients (\<open>disk_table.cpp\<close>): a page is locked and released by a
  thread that owns a handle to it, it is written with the lock held exclusively, and a handle dies after
  the lock guard declared behind it.
\<close>

section \<open>The system\<close>

datatype pool_call = CallGetPage file_page_id_t | CallDeleteFile file_id_t

text \<open>\<open>Checking\<close> is a thread about to evaluate the predicate of its wait, \<open>Waiting\<close> one that sleeps.\<close>

datatype pool_pc = Ready | Checking pool_call | Waiting pool_call

record pool_sys =
  shared_pool :: PageBufferManager
  calls :: "nat \<Rightarrow> pool_pc"
  pages_of :: "nat \<Rightarrow> frame_id_t list"
  locks :: "frame_id_t \<Rightarrow> lock_sys"

text \<open>\<open>notify_all\<close>, and \<open>notify_one\<close>, which wakes any one of the threads that sleep.\<close>

definition notify_all :: "(nat \<Rightarrow> pool_pc) \<Rightarrow> nat \<Rightarrow> pool_pc" where
  "notify_all c = (\<lambda>t. case c t of Waiting call \<Rightarrow> Checking call | other \<Rightarrow> other)"

definition notify_one :: "(nat \<Rightarrow> pool_pc) \<Rightarrow> (nat \<Rightarrow> pool_pc) \<Rightarrow> bool" where
  "notify_one c c' \<longleftrightarrow> (\<exists>t call. c t = Waiting call \<and> c' = c(t := Checking call)) \<or>
     ((\<forall>t call. c t \<noteq> Waiting call) \<and> c' = c)"

text \<open>\<open>Page::lock\<close>, \<open>try_lock\<close>, \<open>unlock\<close> and their shared forms: a step of thread \<open>t\<close> on the lock of its frame.\<close>

definition page_lock_step :: "nat \<Rightarrow> nat \<Rightarrow> lock_sys \<Rightarrow> lock_sys \<Rightarrow> bool" where
  "page_lock_step n t l l' \<longleftrightarrow> lock_step n l l' \<and> (\<forall>u. u \<noteq> t \<longrightarrow> pc l' u = pc l u)"

text \<open>A new handle, and the wake-up of everyone when a page was loaded for it.\<close>

definition got_page :: "nat \<Rightarrow> file_page_id_t \<Rightarrow> pool_error + frame_id_t option \<Rightarrow> PageBufferManager \<Rightarrow> pool_sys \<Rightarrow> pool_sys" where
  "got_page t fp r p s = s\<lparr>shared_pool := p,
     calls := (if \<not> contains_page (shared_pool s) fp \<and> contains_page p fp then notify_all (calls s) else calls s)(t := Ready),
     pages_of := (case r of Inr (Some i) \<Rightarrow> (pages_of s)(t := i # pages_of s t) | _ \<Rightarrow> pages_of s)\<rparr>"

text \<open>The kinds of steps, with the thread that takes them.\<close>

datatype pool_event = NewCall nat | Tried nat | Served nat | Slept nat | TimedOut nat | Spurious nat
  | Released nat | Written nat | Locked nat

inductive pool_step :: "nat \<Rightarrow> nat \<Rightarrow> io_env \<Rightarrow> pool_event \<Rightarrow> pool_sys \<Rightarrow> pool_sys \<Rightarrow> bool" for n k env where
  new_call: "t < n \<Longrightarrow> calls s t = Ready \<Longrightarrow> length (pages_of s t) < k \<Longrightarrow>
      pool_step n k env (NewCall t) s (s\<lparr>calls := (calls s)(t := Checking call)\<rparr>)"
| get_sleep: "t < n \<Longrightarrow> calls s t = Checking (CallGetPage fp) \<Longrightarrow> GetPage env (shared_pool s) fp = Inl Blocked \<Longrightarrow>
      pool_step n k env (Slept t) s (s\<lparr>calls := (calls s)(t := Waiting (CallGetPage fp))\<rparr>)"
| get_served: "t < n \<Longrightarrow> calls s t = Checking (CallGetPage fp) \<Longrightarrow> contents (shared_pool s) fp \<noteq> None \<Longrightarrow>
      GetPage env (shared_pool s) fp = Inr (r, p) \<Longrightarrow>
      pool_step n k env (Served t) s (got_page t fp (map_sum (\<lambda>e. e) Some r) p s)"
| get_tried: "t < n \<Longrightarrow> calls s t = Ready \<Longrightarrow> length (pages_of s t) < k \<Longrightarrow> contents (shared_pool s) fp \<noteq> None \<Longrightarrow>
      GetPageIfFrameAvailable env (shared_pool s) fp = Inr (r, p) \<Longrightarrow>
      pool_step n k env (Tried t) s (got_page t fp r p s)"
| delete_sleep: "t < n \<Longrightarrow> calls s t = Checking (CallDeleteFile f) \<Longrightarrow> FileHasPinnedPages (shared_pool s) f \<Longrightarrow>
      pool_step n k env (Slept t) s (s\<lparr>calls := (calls s)(t := Waiting (CallDeleteFile f))\<rparr>)"
| delete_served: "t < n \<Longrightarrow> calls s t = Checking (CallDeleteFile f) \<Longrightarrow> \<not> FileHasPinnedPages (shared_pool s) f \<Longrightarrow>
      pool_DeleteFile env (shared_pool s) f = Inr (r, p) \<Longrightarrow>
      pool_step n k env (Served t) s (s\<lparr>shared_pool := p, calls := (notify_all (calls s))(t := Ready)\<rparr>)"
| delete_timeout: "t < n \<Longrightarrow> calls s t = Waiting (CallDeleteFile f) \<Longrightarrow>
      pool_step n k env (TimedOut t) s (s\<lparr>calls := (calls s)(t :=
        if FileHasPinnedPages (shared_pool s) f then Ready else Checking (CallDeleteFile f))\<rparr>)"
| spurious: "t < n \<Longrightarrow> calls s t = Waiting call \<Longrightarrow>
      pool_step n k env (Spurious t) s (s\<lparr>calls := (calls s)(t := Checking call)\<rparr>)"
| release: "t < n \<Longrightarrow> calls s t = Ready \<Longrightarrow> i \<in> set (pages_of s t) \<Longrightarrow>
      pc (locks s i) t = Idle \<or> i \<in> set (remove1 i (pages_of s t)) \<Longrightarrow>
      Page_destroy (shared_pool s) (Some i) = Inr p \<Longrightarrow>
      (if fr_pin_count (frame (shared_pool s) i) = 1 then notify_one (calls s) c else c = calls s) \<Longrightarrow>
      pool_step n k env (Released t) s
        (s\<lparr>shared_pool := p, calls := c, pages_of := (pages_of s)(t := remove1 i (pages_of s t))\<rparr>)"
| write_page: "t < n \<Longrightarrow> calls s t = Ready \<Longrightarrow> i \<in> set (pages_of s t) \<Longrightarrow> pc (locks s i) t = HoldsExclusive \<Longrightarrow>
      length page = 4096 \<Longrightarrow> andthen (GetMutView (shared_pool s) i) (write_view i page) = Inr p \<Longrightarrow>
      pool_step n k env (Written t) s (s\<lparr>shared_pool := p\<rparr>)"
| lock_page: "t < n \<Longrightarrow> calls s t = Ready \<Longrightarrow> i \<in> set (pages_of s t) \<Longrightarrow> page_lock_step n t (locks s i) l \<Longrightarrow>
      pool_step n k env (Locked t) s (s\<lparr>locks := (locks s)(i := l)\<rparr>)"

definition pool_start :: "PageBufferManager \<Rightarrow> pool_sys" where
  "pool_start p = \<lparr>shared_pool = p, calls = (\<lambda>_. Ready), pages_of = (\<lambda>_. []), locks = (\<lambda>_. lock_init)\<rparr>"

inductive pool_reachable :: "nat \<Rightarrow> nat \<Rightarrow> io_env \<Rightarrow> PageBufferManager \<Rightarrow> pool_sys \<Rightarrow> bool" for n k env p0 where
  pool_reachable_start: "pool_reachable n k env p0 (pool_start p0)"
| pool_reachable_step: "pool_reachable n k env p0 s \<Longrightarrow> pool_step n k env e s s' \<Longrightarrow> pool_reachable n k env p0 s'"

section \<open>Invariant\<close>

text \<open>How many handles to a frame there are.\<close>

definition handle_count :: "nat \<Rightarrow> pool_sys \<Rightarrow> frame_id_t \<Rightarrow> nat" where
  "handle_count n s i = (\<Sum>t<n. count_list (pages_of s t) i)"

text \<open>Frames without a page do not claim to hold a page that exists.\<close>

definition no_ghosts :: "PageBufferManager \<Rightarrow> bool" where
  "no_ghosts p \<longleftrightarrow> (\<forall>i. is_frame p i \<and> idle p i \<longrightarrow> contents p (fr_fp_id (frame p i)) = None)"

definition pool_sys_inv :: "nat \<Rightarrow> nat \<Rightarrow> pool_sys \<Rightarrow> bool" where
  "pool_sys_inv n k s \<longleftrightarrow> pool_ok (shared_pool s) \<and> no_ghosts (shared_pool s) \<and>
     (\<forall>i. is_frame (shared_pool s) i \<longrightarrow> unat (fr_pin_count (frame (shared_pool s) i)) = handle_count n s i) \<and>
     (\<forall>t < n. (\<forall>i \<in> set (pages_of s t). is_frame (shared_pool s) i) \<and>
        length (pages_of s t) \<le> k \<and> (calls s t \<noteq> Ready \<longrightarrow> length (pages_of s t) < k)) \<and>
     (\<forall>i. lock_inv n (locks s i) \<and> (\<forall>t < n. pc (locks s i) t \<noteq> Idle \<longrightarrow> i \<in> set (pages_of s t)))"

lemma pool_sys_invD:
  assumes "pool_sys_inv n k s"
  shows "pool_ok (shared_pool s)" and "no_ghosts (shared_pool s)"
    and "is_frame (shared_pool s) i \<Longrightarrow> unat (fr_pin_count (frame (shared_pool s) i)) = handle_count n s i"
    and "t < n \<Longrightarrow> i \<in> set (pages_of s t) \<Longrightarrow> is_frame (shared_pool s) i"
    and "t < n \<Longrightarrow> length (pages_of s t) \<le> k" and "t < n \<Longrightarrow> calls s t \<noteq> Ready \<Longrightarrow> length (pages_of s t) < k"
    and "lock_inv n (locks s i)" and "t < n \<Longrightarrow> pc (locks s i) t \<noteq> Idle \<Longrightarrow> i \<in> set (pages_of s t)"
  using assms unfolding pool_sys_inv_def by blast+

section \<open>What the operations do to the pool\<close>

text \<open>Handing out a page: one more pin on its frame, and every other frame that is in use as it was.\<close>

definition taken :: "PageBufferManager \<Rightarrow> file_page_id_t \<Rightarrow> frame_id_t \<Rightarrow> PageBufferManager \<Rightarrow> bool" where
  "taken p fp i p' \<longleftrightarrow> pool_ok p' \<and> no_ghosts p' \<and> contents p' = contents p \<and> page_frame p' fp = Some i \<and>
     is_frame p i \<and> (\<forall>j. is_frame p' j = is_frame p j) \<and>
     unat (fr_pin_count (frame p' i)) = unat (fr_pin_count (frame p i)) + 1 \<and>
     GetEvictableCount (replacer_m p') = GetEvictableCount (replacer_m p) - 1 \<and>
     (\<forall>j. is_frame p j \<and> j \<noteq> i \<longrightarrow> frame p' j = frame p j) \<and>
     (page_frame p fp = Some i \<or> page_frame p fp = None \<and> fr_pin_count (frame p i) = 0)"

lemma takenD:
  assumes "taken p fp i p'"
  shows "pool_ok p'" and "no_ghosts p'" and "contents p' = contents p" and "page_frame p' fp = Some i" and "is_frame p i"
    and "is_frame p' j = is_frame p j" and "unat (fr_pin_count (frame p' i)) = unat (fr_pin_count (frame p i)) + 1"
    and "GetEvictableCount (replacer_m p') = GetEvictableCount (replacer_m p) - 1"
    and "is_frame p j \<Longrightarrow> j \<noteq> i \<Longrightarrow> frame p' j = frame p j"
    and "page_frame p fp = None \<Longrightarrow> fr_pin_count (frame p i) = 0"
  using assms by (auto simp: taken_def)

lemma no_ghosts_no_stale: "no_ghosts p \<Longrightarrow> contents p fp \<noteq> None \<Longrightarrow> no_stale p fp"
  by (auto simp: no_ghosts_def no_stale_def)

lemma pin_room:
  assumes "unat c + 1 < 2 ^ 31"
  shows "unat (c + 1 :: 32 word) = unat c + 1"
  using assms by (subst unat_word_ariths) simp

lemma GetPage_taken:
  assumes ok: "pool_ok p" and g: "no_ghosts p" and can: "can_get p fp" and ex: "contents p fp \<noteq> None" and env: "no_fault env"
  shows "\<exists>i p'. GetPage env p fp = Inr (Inr i, p') \<and> taken p fp i p'"
proof -
  obtain i p' where p': "GetPage env p fp = Inr (Inr i, p')" "pool_ok p'" "contents p' = contents p" "page_frame p' fp = Some i"
    "fr_pin_count (frame p' i) = (case page_frame p fp of Some j \<Rightarrow> fr_pin_count (frame p j) + 1 | None \<Rightarrow> 1)"
    "GetEvictableCount (replacer_m p') = GetEvictableCount (replacer_m p) - 1"
    "\<forall>j. is_frame p' j = is_frame p j" "page_frame p fp = None \<longrightarrow> is_frame p i \<and> fr_pin_count (frame p i) = 0"
    "\<forall>j. page_frame p fp = Some j \<longrightarrow> j = i" "\<forall>j. is_frame p j \<and> j \<noteq> i \<longrightarrow> frame p' j = frame p j \<and> (idle p' j \<longrightarrow> idle p j)"
    using GetPage_ok [OF ok can env] by (elim exE conjE) (rule that; assumption)
  have e: "is_frame p' i" "fr_fp_id (frame p' i) = fp" using pool_okD(2) [OF p'(2,4)] by (simp_all add: entry_ok_def)
  then have "\<not> idle p' i" using p'(4) by (simp add: idle_def)
  then have "no_ghosts p'" using g p'(3,7,10) unfolding no_ghosts_def by metis
  moreover have "unat (fr_pin_count (frame p' i)) = unat (fr_pin_count (frame p i)) + 1"
    using p'(5,8,9) can by (cases "page_frame p fp") (simp_all add: can_get_def pin_room)
  ultimately show ?thesis using p' e(1) unfolding taken_def by (cases "page_frame p fp") auto
qed

lemma GetPage_cases:
  assumes ok: "pool_ok p" and g: "no_ghosts p" and ex: "contents p fp \<noteq> None" and env: "no_fault env"
    and room: "\<And>i. page_frame p fp = Some i \<Longrightarrow> unat (fr_pin_count (frame p i)) + 1 < 2 ^ 31"
    and get: "contains_page p fp \<or> GetEvictableCount (replacer_m p) > 0"
  shows "(GetPage env p fp = Inr (Inl (GetPageError fp ''no evictable frame available''), p) \<and> page_frame p fp = None) \<or>
    (\<exists>i p'. GetPage env p fp = Inr (Inr i, p') \<and> taken p fp i p')"
proof (cases "can_get p fp")
  case True
  then show ?thesis using GetPage_taken [OF ok g _ ex env] by blast
next
  case False
  then have none: "page_frame p fp = None" using room by (auto simp: can_get_def split: option.splits)
  then have c: "GetEvictableCount (replacer_m p) > 0" using get by (simp add: contains_page_eq)
  then have "\<not> (\<exists>i. evictable (replacer_m p) i)"
    using False none ex no_ghosts_no_stale [OF g ex] by (simp add: can_get_def)
  then have "EvictFrame (replacer_m p) = (None, replacer_m p)"
    using EvictFrame_result [OF pool_okD(3) [OF ok]] by (auto split: prod.splits option.splits)
  then show ?thesis using none c by (simp add: GetPage_def LoadPage_def contains_page_eq)
qed

lemma GetPageIfFrameAvailable_eq:
  "GetPageIfFrameAvailable env p fp =
     (if \<not> contains_page p fp \<and> GetEvictableCount (replacer_m p) = 0 then Inr (Inr None, p)
      else map_sum (\<lambda>e. e) (map_prod (map_sum (\<lambda>e. e) Some) (\<lambda>p. p)) (GetPage env p fp))"
proof -
  have c: "\<not> (contains_page p fp \<or> 0 < GetEvictableCount (replacer_m p)) \<longleftrightarrow>
      \<not> contains_page p fp \<and> GetEvictableCount (replacer_m p) = 0" by (auto simp: word_gt_0)
  show ?thesis unfolding GetPageIfFrameAvailable_def GetPage_def c
    by (auto simp: andthen_def map_sum.simps split: sum.splits option.splits prod.splits)
qed

text \<open>Giving a page back.\<close>

lemma Page_destroy_ok:
  assumes ok: "pool_ok p" and g: "no_ghosts p" and i: "is_frame p i" and c: "fr_pin_count (frame p i) \<noteq> 0"
  shows "\<exists>p'. Page_destroy p (Some i) = Inr p' \<and> pool_ok p' \<and> no_ghosts p' \<and> contents p' = contents p \<and> page_frame p' = page_frame p \<and>
    (\<forall>j. frame p' j = (if j = i then (frame p i)\<lparr>fr_pin_count := fr_pin_count (frame p i) - 1\<rparr> else frame p j)) \<and>
    (\<forall>j. is_frame p' j = is_frame p j) \<and> GetEvictableCount (replacer_m p') =
      (if fr_pin_count (frame p i) = 1 then GetEvictableCount (replacer_m p) + 1 else GetEvictableCount (replacer_m p))"
proof -
  have m: "page_frame p (fr_fp_id (frame p i)) = Some i" using pool_okD(1) [OF ok i] c by (auto simp: frame_ok_def idle_def)
  from RemoveAccessor_ok [OF ok m c] obtain p' where p': "RemoveAccessor p (fr_fp_id (frame p i)) = Inr p'" "pool_ok p'"
    "contents p' = contents p" "page_frame p' = page_frame p"
    "\<forall>j. frame p' j = (if j = i then (frame p i)\<lparr>fr_pin_count := fr_pin_count (frame p i) - 1\<rparr> else frame p j)"
    "\<forall>j. is_frame p' j = is_frame p j" "GetEvictableCount (replacer_m p') =
      (if fr_pin_count (frame p i) = 1 then GetEvictableCount (replacer_m p) + 1 else GetEvictableCount (replacer_m p))"
    by (elim exE conjE) (rule that; assumption)
  have "idle p' j = idle p j" for j using p'(4,5) by (simp add: idle_def)
  then have "no_ghosts p'" using g p'(3,5,6) by (auto simp: no_ghosts_def)
  then show ?thesis using p' i by (simp add: Page_destroy_def frame_at_eq)
qed

text \<open>Deleting a file leaves frames that are pinned alone.\<close>

lemma pool_DeleteFile_pinned:
  assumes ok: "pool_ok p" and g: "no_ghosts p" and env: "no_fault env" and free: "\<not> FileHasPinnedPages p f"
  shows "\<exists>p'. pool_DeleteFile env p f = Inr (None, p') \<and> pool_ok p' \<and> no_ghosts p' \<and>
    (\<forall>fp. contents p' fp = (if fp_file_id fp = f then None else contents p fp)) \<and> (\<forall>j. is_frame p' j = is_frame p j) \<and>
    (\<forall>j. fr_pin_count (frame p' j) = fr_pin_count (frame p j)) \<and>
    (\<forall>j. is_frame p j \<and> fr_pin_count (frame p j) \<noteq> 0 \<longrightarrow>
       fr_fp_id (frame p' j) = fr_fp_id (frame p j) \<and> fr_data (frame p' j) = fr_data (frame p j))"
proof -
  have np: "\<not> (\<exists>fp i. page_frame p fp = Some i \<and> fp_file_id fp = f \<and> fr_pin_count (frame p i) \<noteq> 0)"
    using free FileHasPinnedPages_eq [OF ok] by simp
  obtain p' where p': "pool_DeleteFile env p f = Inr (None, p')" "pool_ok p'"
    "\<forall>fp. contents p' fp = (if fp_file_id fp = f then None else contents p fp)" "same_frames p p'"
    "\<forall>j. is_frame p j \<and> idle p' j \<longrightarrow> idle p j \<or> fp_file_id (fr_fp_id (frame p j)) = f"
    using pool_DeleteFile_ok [OF ok env, of f] unfolding if_not_P [OF np] by (elim exE conjE) (rule that; assumption)
  have same: "is_frame p' j = is_frame p j" "fr_pin_count (frame p' j) = fr_pin_count (frame p j)"
    "fr_fp_id (frame p' j) = fr_fp_id (frame p j)" for j
    using p'(4) by (simp_all add: same_frames_def)
  have ghosts: "no_ghosts p'" using g p'(3,5) same unfolding no_ghosts_def by metis
  have "fr_data (frame p' j) = fr_data (frame p j)" if j: "is_frame p j" "fr_pin_count (frame p j) \<noteq> 0" for j
  proof -
    let ?fp = "fr_fp_id (frame p j)"
    have m: "page_frame p ?fp = Some j" using pool_okD(1) [OF ok j(1)] j(2) by (auto simp: frame_ok_def idle_def)
    have "page_frame p' ?fp = Some j"
      using pool_okD(1) [OF p'(2), of j] j same by (auto simp: frame_ok_def idle_def)
    moreover have "fp_file_id ?fp \<noteq> f" using np m j(2) by blast
    ultimately show ?thesis using p'(3) m by (auto simp: contents_def dest!: spec [of _ ?fp])
  qed
  then show ?thesis using p'(1-3) ghosts same by blast
qed

text \<open>Writing a page through its view.\<close>

lemma write_ok:
  assumes ok: "pool_ok p" and g: "no_ghosts p" and i: "is_frame p i" and c: "fr_pin_count (frame p i) \<noteq> 0" and len: "length page = 4096"
  shows "\<exists>p'. andthen (GetMutView p i) (write_view i page) = Inr p' \<and> pool_ok p' \<and> no_ghosts p' \<and>
    contents p' = (contents p)(fr_fp_id (frame p i) \<mapsto> page) \<and> page_frame p' = page_frame p \<and>
    (\<forall>j. frame p' j = (if j = i then (frame p i)\<lparr>fr_is_dirty := True, fr_data := page\<rparr> else frame p j)) \<and>
    (\<forall>j. is_frame p' j = is_frame p j)"
proof -
  have m: "page_frame p (fr_fp_id (frame p i)) = Some i" using pool_okD(1) [OF ok i] c by (auto simp: frame_ok_def idle_def)
  from modify_ok [OF ok m len] obtain p' where p': "andthen (GetMutView p i) (write_view i page) = Inr p'" "pool_ok p'"
    "contents p' = (contents p)(fr_fp_id (frame p i) \<mapsto> page)" "page_frame p' = page_frame p"
    "\<forall>j. frame p' j = (if j = i then (frame p i)\<lparr>fr_is_dirty := True, fr_data := page\<rparr> else frame p j)"
    "\<forall>j. is_frame p' j = is_frame p j"
    by (elim exE conjE) (rule that; assumption)
  have "idle p' j = idle p j" for j using p'(4,5) by (simp add: idle_def)
  moreover have "contents p (fr_fp_id (frame p i)) \<noteq> None" using m by (simp add: contents_def)
  ultimately have "no_ghosts p'" using g p'(3,5,6) by (auto simp: no_ghosts_def)
  then show ?thesis using p' by blast
qed

section \<open>Every step keeps the invariant\<close>

lemma handle_count_upd:
  assumes "t < n"
  shows "handle_count n (s\<lparr>pages_of := (pages_of s)(t := xs)\<rparr>) i + count_list (pages_of s t) i = handle_count n s i + count_list xs i"
proof -
  have t: "t \<in> {..<n}" using assms by simp
  have "(\<Sum>u\<in>{..<n} - {t}. count_list (((pages_of s)(t := xs)) u) i) = (\<Sum>u\<in>{..<n} - {t}. count_list (pages_of s u) i)"
    by (rule sum.cong) simp_all
  then show ?thesis by (simp add: handle_count_def sum.remove [OF finite_lessThan t])
qed

lemma handle_count_views [simp]:
  "handle_count n (s\<lparr>shared_pool := p\<rparr>) = handle_count n s" "handle_count n (s\<lparr>calls := c\<rparr>) = handle_count n s"
  "handle_count n (s\<lparr>locks := l\<rparr>) = handle_count n s"
  by (simp_all add: handle_count_def fun_eq_iff)

lemma handle_count_pos: "t < n \<Longrightarrow> i \<in> set (pages_of s t) \<Longrightarrow> 0 < handle_count n s i"
  unfolding handle_count_def by (rule sum_pos2 [of _ t]) (simp_all add: neq0_conv [symmetric] count_list_0_iff del: neq0_conv)

lemma handle_count_le:
  assumes "pool_sys_inv n k s"
  shows "handle_count n s i \<le> n * k"
proof -
  have "count_list (pages_of s t) i \<le> k" if "t < n" for t
    using pool_sys_invD(5) [OF assms that] count_le_length [of "pages_of s t" i] by simp
  then show ?thesis using sum_bounded_above [of "{..<n}" "\<lambda>t. count_list (pages_of s t) i" k] by (simp add: handle_count_def)
qed

text \<open>A thread that may take one more page leaves room in every pin count.\<close>

lemma handle_count_room:
  assumes inv: "pool_sys_inv n k s" and t: "t < n" "length (pages_of s t) < k" and small: "n * k < 2 ^ 31" and i: "is_frame (shared_pool s) i"
  shows "unat (fr_pin_count (frame (shared_pool s) i)) + 1 < 2 ^ 31"
proof -
  have "count_list (pages_of s t) i < k" using t(2) count_le_length [of "pages_of s t" i] by simp
  moreover have "count_list (pages_of s u) i \<le> k" if "u < n" for u
    using pool_sys_invD(5) [OF inv that] count_le_length [of "pages_of s u" i] by simp
  ultimately have "(\<Sum>u<n. count_list (pages_of s u) i) < (\<Sum>u<n. k)"
    using t(1) by (intro sum_strict_mono_ex1) auto
  then show ?thesis using small pool_sys_invD(3) [OF inv i] by (simp add: handle_count_def)
qed

lemma inv_calls:
  assumes "pool_sys_inv n k s" and "\<And>u. u < n \<Longrightarrow> c u \<noteq> Ready \<Longrightarrow> length (pages_of s u) < k"
  shows "pool_sys_inv n k (s\<lparr>calls := c\<rparr>)"
  using assms by (simp add: pool_sys_inv_def)

lemma inv_taken:
  assumes inv: "pool_sys_inv n k s" and p: "taken (shared_pool s) fp i p" and t: "t < n" "length (pages_of s t) < k"
  shows "pool_sys_inv n k (s\<lparr>shared_pool := p, calls := (calls s)(t := Ready), pages_of := (pages_of s)(t := i # pages_of s t)\<rparr>)"
proof -
  let ?p = "shared_pool s"
  let ?s = "s\<lparr>shared_pool := p, calls := (calls s)(t := Ready), pages_of := (pages_of s)(t := i # pages_of s t)\<rparr>"
  have "handle_count n ?s j = handle_count n s j + (if j = i then 1 else 0)" for j
    using handle_count_upd [OF t(1), of s "i # pages_of s t" j] by (cases "j = i") (simp_all add: handle_count_def)
  then have "unat (fr_pin_count (frame p j)) = handle_count n ?s j" if "is_frame p j" for j
    using that p pool_sys_invD(3) [OF inv, of j] by (cases "j = i") (simp_all add: taken_def)
  then show ?thesis using inv p t unfolding pool_sys_inv_def taken_def by auto
qed

lemma notify_all_Ready [simp]: "notify_all c t = Ready \<longleftrightarrow> c t = Ready"
  by (simp add: notify_all_def split: pool_pc.splits)

lemma notify_one_Ready: "notify_one c c' \<Longrightarrow> c' t = Ready \<longleftrightarrow> c t = Ready"
  by (auto simp: notify_one_def split: if_splits)

lemma inv_got_page:
  assumes inv: "pool_sys_inv n k s" and t: "t < n" "length (pages_of s t) < k"
    and r: "r = Inr None \<and> p = shared_pool s \<or> (\<exists>e. r = Inl e) \<and> p = shared_pool s \<or> (\<exists>i. r = Inr (Some i) \<and> taken (shared_pool s) fp i p)"
  shows "pool_sys_inv n k (got_page t fp r p s)"
proof -
  let ?c = "(if \<not> contains_page (shared_pool s) fp \<and> contains_page p fp then notify_all (calls s) else calls s)"
  have c: "?c u \<noteq> Ready \<Longrightarrow> length (pages_of s u) < k" if "u < n" for u
    using pool_sys_invD(6) [OF inv that] by (auto split: if_splits)
  note inv' = inv_calls [where c = ?c, OF inv c]
  show ?thesis
  proof (cases "\<exists>i. r = Inr (Some i)")
    case True
    then obtain i where i: "r = Inr (Some i)" "taken (shared_pool s) fp i p" using r by auto
    have "pool_sys_inv n k ((s\<lparr>calls := ?c\<rparr>)\<lparr>shared_pool := p, calls := ?c(t := Ready), pages_of := (pages_of s)(t := i # pages_of s t)\<rparr>)"
      using inv_taken [where s = "s\<lparr>calls := ?c\<rparr>", OF inv' _ t(1)] i(2) t(2) by simp
    then show ?thesis using i(1) by (simp add: got_page_def)
  next
    case False
    then have "p = shared_pool s" using r by auto
    then have "got_page t fp r p s = s\<lparr>calls := (calls s)(t := Ready)\<rparr>"
      using False by (simp add: got_page_def split: sum.splits option.splits)
    moreover have "pool_sys_inv n k (s\<lparr>calls := (calls s)(t := Ready)\<rparr>)"
      by (rule inv_calls [OF inv]) (use pool_sys_invD(6) [OF inv] in \<open>auto split: if_splits\<close>)
    ultimately show ?thesis by simp
  qed
qed

lemma served_effect:
  assumes inv: "pool_sys_inv n k s" and t: "t < n" "length (pages_of s t) < k" and small: "n * k < 2 ^ 31" and env: "no_fault env"
    and ex: "contents (shared_pool s) fp \<noteq> None"
  shows "GetPage env (shared_pool s) fp = Inr (r, p) \<Longrightarrow>
      (\<exists>e. r = Inl e) \<and> p = shared_pool s \<or> (\<exists>i. r = Inr i \<and> taken (shared_pool s) fp i p)"
    and "GetPageIfFrameAvailable env (shared_pool s) fp = Inr (r', p) \<Longrightarrow>
      r' = Inr None \<and> p = shared_pool s \<or> (\<exists>e. r' = Inl e) \<and> p = shared_pool s \<or> (\<exists>i. r' = Inr (Some i) \<and> taken (shared_pool s) fp i p)"
    and "\<exists>r p. GetPageIfFrameAvailable env (shared_pool s) fp = Inr (r, p)"
    and "GetPage env (shared_pool s) fp \<noteq> Inl Blocked \<Longrightarrow> \<exists>r p. GetPage env (shared_pool s) fp = Inr (r, p)"
proof -
  have room: "unat (fr_pin_count (frame (shared_pool s) i)) + 1 < 2 ^ 31" if "page_frame (shared_pool s) fp = Some i" for i
    using handle_count_room [OF inv t small] pool_okD(2) [OF pool_sys_invD(1) [OF inv] that] by (simp add: entry_ok_def)
  note c = GetPage_cases [OF pool_sys_invD(1,2) [OF inv] ex env room]
  have run: "contains_page (shared_pool s) fp \<or> GetEvictableCount (replacer_m (shared_pool s)) > 0"
    if "GetPage env (shared_pool s) fp \<noteq> Inl Blocked"
    using that by (auto simp: GetPage_def split: if_splits)
  show "GetPage env (shared_pool s) fp = Inr (r, p) \<Longrightarrow>
      (\<exists>e. r = Inl e) \<and> p = shared_pool s \<or> (\<exists>i. r = Inr i \<and> taken (shared_pool s) fp i p)"
    using c run by auto
  show "GetPage env (shared_pool s) fp \<noteq> Inl Blocked \<Longrightarrow> \<exists>r p. GetPage env (shared_pool s) fp = Inr (r, p)"
    using c run by auto
  show "GetPageIfFrameAvailable env (shared_pool s) fp = Inr (r', p) \<Longrightarrow>
      r' = Inr None \<and> p = shared_pool s \<or> (\<exists>e. r' = Inl e) \<and> p = shared_pool s \<or> (\<exists>i. r' = Inr (Some i) \<and> taken (shared_pool s) fp i p)"
    using c by (auto simp: GetPageIfFrameAvailable_eq word_gt_0 split: if_splits)
  show "\<exists>r p. GetPageIfFrameAvailable env (shared_pool s) fp = Inr (r, p)"
    using c by (auto simp: GetPageIfFrameAvailable_eq word_gt_0)
qed

lemma inv_served:
  assumes inv: "pool_sys_inv n k s" and t: "t < n" and r: "(\<exists>e. r = Inl e) \<and> p = shared_pool s \<or> (\<exists>i. r = Inr i \<and> taken (shared_pool s) fp i p)"
    and l: "length (pages_of s t) < k"
  shows "pool_sys_inv n k (got_page t fp (map_sum (\<lambda>e. e) Some r) p s)"
  by (rule inv_got_page [OF inv t l]) (use r in auto)

lemma inv_deleted:
  assumes inv: "pool_sys_inv n k s" and t: "t < n" and env: "no_fault env"
    and free: "\<not> FileHasPinnedPages (shared_pool s) f" and d: "pool_DeleteFile env (shared_pool s) f = Inr (r, p)"
  shows "pool_sys_inv n k (s\<lparr>shared_pool := p, calls := (notify_all (calls s))(t := Ready)\<rparr>)"
proof -
  have "pool_ok p \<and> no_ghosts p \<and> (\<forall>j. is_frame p j = is_frame (shared_pool s) j) \<and>
      (\<forall>j. fr_pin_count (frame p j) = fr_pin_count (frame (shared_pool s) j))"
    using pool_DeleteFile_pinned [OF pool_sys_invD(1,2) [OF inv] env free] d by auto
  then show ?thesis using inv by (simp add: pool_sys_inv_def)
qed

lemma inv_released:
  assumes inv: "pool_sys_inv n k s" and t: "t < n" and i: "i \<in> set (pages_of s t)"
    and unlocked: "pc (locks s i) t = Idle \<or> i \<in> set (remove1 i (pages_of s t))"
    and d: "Page_destroy (shared_pool s) (Some i) = Inr p" and c: "\<And>u. c u = Ready \<longleftrightarrow> calls s u = Ready"
  shows "pool_sys_inv n k (s\<lparr>shared_pool := p, calls := c, pages_of := (pages_of s)(t := remove1 i (pages_of s t))\<rparr>)"
proof -
  let ?s = "s\<lparr>shared_pool := p, calls := c, pages_of := (pages_of s)(t := remove1 i (pages_of s t))\<rparr>"
  have f: "is_frame (shared_pool s) i" by (rule pool_sys_invD(4) [OF inv t i])
  have pos: "0 < handle_count n s i" by (rule handle_count_pos [OF t i])
  then have pin: "fr_pin_count (frame (shared_pool s) i) \<noteq> 0" using pool_sys_invD(3) [OF inv f] by (auto simp: unat_eq_0)
  then have less: "unat (fr_pin_count (frame (shared_pool s) i) - 1) = unat (fr_pin_count (frame (shared_pool s) i)) - 1"
    by (simp add: unat_minus_one)
  have p: "pool_ok p" "no_ghosts p" "\<forall>j. is_frame p j = is_frame (shared_pool s) j"
    "\<forall>j. frame p j = (if j = i then (frame (shared_pool s) i)\<lparr>fr_pin_count := fr_pin_count (frame (shared_pool s) i) - 1\<rparr> else frame (shared_pool s) j)"
    using Page_destroy_ok [OF pool_sys_invD(1,2) [OF inv] f pin] d by auto
  have "count_list (pages_of s t) j = count_list (remove1 i (pages_of s t)) j + (if j = i then 1 else 0)" for j
    using i by (cases "count_list (pages_of s t) i") (auto simp: count_list_0_iff)
  note rm = this
  have cnt: "handle_count n ?s j + (if j = i then 1 else 0) = handle_count n s j" for j
  proof -
    define d :: nat where "d = (if j = i then 1 else 0)"
    have "handle_count n ?s j = handle_count n (s\<lparr>pages_of := (pages_of s)(t := remove1 i (pages_of s t))\<rparr>) j"
      by (simp add: handle_count_def)
    then show ?thesis using handle_count_upd [OF t, of s "remove1 i (pages_of s t)" j] rm [of j]
      unfolding d_def [symmetric] by linarith
  qed
  have "unat (fr_pin_count (frame p j)) = handle_count n ?s j" if "is_frame p j" for j
    using that p(3,4) pool_sys_invD(3) [OF inv, of j] less cnt [of j] by (cases "j = i") simp_all
  moreover have "j \<in> set (remove1 i (pages_of s t))" if "pc (locks s j) t \<noteq> Idle" for j
    using pool_sys_invD(8) [OF inv t that] unlocked that by (cases "j = i") auto
  moreover have "length (remove1 i (pages_of s t)) \<le> length (pages_of s t)" by (simp add: length_remove1)
  ultimately show ?thesis
    using inv p(1-3) c set_remove1_subset [of i "pages_of s t"] unfolding pool_sys_inv_def
    by (auto intro: le_less_trans order_trans)
qed

lemma inv_written:
  assumes inv: "pool_sys_inv n k s" and t: "t < n" and i: "i \<in> set (pages_of s t)" and len: "length page = 4096"
    and w: "andthen (GetMutView (shared_pool s) i) (write_view i page) = Inr p"
  shows "pool_sys_inv n k (s\<lparr>shared_pool := p\<rparr>)"
proof -
  have f: "is_frame (shared_pool s) i" by (rule pool_sys_invD(4) [OF inv t i])
  have "fr_pin_count (frame (shared_pool s) i) \<noteq> 0"
    using handle_count_pos [OF t i] pool_sys_invD(3) [OF inv f] by (auto simp: unat_eq_0)
  from write_ok [OF pool_sys_invD(1,2) [OF inv] f this len] w
  have "pool_ok p \<and> no_ghosts p \<and> (\<forall>j. is_frame p j = is_frame (shared_pool s) j) \<and>
      (\<forall>j. fr_pin_count (frame p j) = fr_pin_count (frame (shared_pool s) j))" by auto
  then show ?thesis using inv by (simp add: pool_sys_inv_def)
qed

lemma inv_locked:
  assumes inv: "pool_sys_inv n k s" and t: "t < n" and i: "i \<in> set (pages_of s t)" and l: "page_lock_step n t (locks s i) l" and n: "n < 2 ^ 31"
  shows "pool_sys_inv n k (s\<lparr>locks := (locks s)(i := l)\<rparr>)"
proof -
  have "lock_inv n l" using lock_inv_step pool_sys_invD(7) [OF inv] l n by (auto simp: page_lock_step_def)
  moreover have "i \<in> set (pages_of s u)" if "u < n" "pc l u \<noteq> Idle" for u
    using that l i pool_sys_invD(8) [OF inv that(1), of i] by (cases "u = t") (auto simp: page_lock_step_def)
  ultimately show ?thesis using inv by (simp add: pool_sys_inv_def)
qed

lemma pool_sys_inv_step:
  assumes inv: "pool_sys_inv n k s" and env: "no_fault env" and small: "n * k < 2 ^ 31" "n < 2 ^ 31" and step: "pool_step n k env e s s'"
  shows "pool_sys_inv n k s'"
  using step
proof cases
  case (get_served t fp r p)
  have l: "length (pages_of s t) < k" using pool_sys_invD(6) [OF inv get_served(3)] get_served(4) by simp
  show ?thesis unfolding get_served(2)
    by (rule inv_served [OF inv get_served(3) served_effect(1) [OF inv get_served(3) l small(1) env get_served(5,6)] l])
next
  case (get_tried t fp r p)
  show ?thesis unfolding get_tried(2)
    by (rule inv_got_page [OF inv get_tried(3,5) served_effect(2) [OF inv get_tried(3,5) small(1) env get_tried(6,7)]])
next
  case (release t i p c)
  have "c u = Ready \<longleftrightarrow> calls s u = Ready" for u using release(8) notify_one_Ready by (auto split: if_splits)
  from inv_released [OF inv release(3,5,6,7) this] show ?thesis using release(2) by simp
next
  case (new_call t call)
  show ?thesis unfolding new_call(2) by (rule inv_calls [OF inv]) (use new_call pool_sys_invD(6) [OF inv] in \<open>auto split: if_splits\<close>)
next
  case (get_sleep t fp)
  show ?thesis unfolding get_sleep(2) by (rule inv_calls [OF inv]) (use get_sleep pool_sys_invD(6) [OF inv] in \<open>auto split: if_splits\<close>)
next
  case (delete_sleep t f)
  show ?thesis unfolding delete_sleep(2) by (rule inv_calls [OF inv]) (use delete_sleep pool_sys_invD(6) [OF inv] in \<open>auto split: if_splits\<close>)
next
  case (delete_timeout t f)
  show ?thesis unfolding delete_timeout(2) by (rule inv_calls [OF inv]) (use delete_timeout pool_sys_invD(6) [OF inv] in \<open>auto split: if_splits\<close>)
next
  case (spurious t call)
  show ?thesis unfolding spurious(2) by (rule inv_calls [OF inv]) (use spurious pool_sys_invD(6) [OF inv] in \<open>auto split: if_splits\<close>)
qed (use inv_deleted [OF inv _ env] inv_written [OF inv] inv_locked [OF inv _ _ _ small(2)] in \<open>auto\<close>)

lemma pool_sys_inv_start:
  assumes "quiet p"
  shows "pool_sys_inv n k (pool_start p)"
  using assms lock_inv_reachable [OF lock_reachable_init, of 1]
  by (auto simp: pool_sys_inv_def pool_start_def quiet_def no_ghosts_def handle_count_def lock_inv_def lock_init_def writers_def readers_def)

lemma pool_sys_inv_reachable:
  assumes "pool_reachable n k env p s" and "quiet p" and "no_fault env" and "n * k < 2 ^ 31" and "n < 2 ^ 31"
  shows "pool_sys_inv n k s"
  using assms(1)
proof induction
  case pool_reachable_start
  then show ?case by (rule pool_sys_inv_start [OF assms(2)])
next
  case (pool_reachable_step s e s')
  then show ?case using pool_sys_inv_step [OF _ assms(3-5)] by blast
qed

section \<open>Pages that are held stay\<close>

lemma pinned_mapped:
  assumes "pool_sys_inv n k s" and "is_frame (shared_pool s) i" and "0 < handle_count n s i"
  shows "page_frame (shared_pool s) (fr_fp_id (frame (shared_pool s) i)) = Some i" and "fr_pin_count (frame (shared_pool s) i) \<noteq> 0"
proof -
  show c: "fr_pin_count (frame (shared_pool s) i) \<noteq> 0" using pool_sys_invD(3) [OF assms(1,2)] assms(3) by (auto simp: unat_eq_0)
  then show "page_frame (shared_pool s) (fr_fp_id (frame (shared_pool s) i)) = Some i"
    using pool_okD(1) [OF pool_sys_invD(1) [OF assms(1)] assms(2)] by (auto simp: frame_ok_def idle_def)
qed

lemma taken_frame:
  assumes ok: "pool_ok p" and t: "taken p fp i p'" and j: "is_frame p j" "page_frame p (fr_fp_id (frame p j)) = Some j" "fr_pin_count (frame p j) \<noteq> 0"
  shows "fr_fp_id (frame p' j) = fr_fp_id (frame p j)" and "fr_data (frame p' j) = fr_data (frame p j)"
proof -
  have "fr_fp_id (frame p' j) = fr_fp_id (frame p j) \<and> fr_data (frame p' j) = fr_data (frame p j)"
  proof (cases "j = i")
    case True
    then have m: "page_frame p fp = Some i" using t j(3) by (auto simp: taken_def)
    have m': "page_frame p' fp = Some i" "contents p' fp = contents p fp" "pool_ok p'" using t by (simp_all add: taken_def)
    then have "fr_data (frame p' i) = fr_data (frame p i)" using m by (simp add: contents_def)
    then show ?thesis using True pool_okD(2) [OF ok m] pool_okD(2) [OF m'(3,1)] by (simp add: entry_ok_def)
  qed (use t j(1) in \<open>simp add: taken_def\<close>)
  then show "fr_fp_id (frame p' j) = fr_fp_id (frame p j)" "fr_data (frame p' j) = fr_data (frame p j)" by simp_all
qed

lemma got_page_pool [simp]: "shared_pool (got_page t fp r p s) = p"
  by (simp add: got_page_def)

lemma pinned_frame_step:
  assumes inv: "pool_sys_inv n k s" and env: "no_fault env" and small: "n * k < 2 ^ 31" and step: "pool_step n k env e s s'"
    and i: "is_frame (shared_pool s) i" and h: "0 < handle_count n s i"
  shows "fr_fp_id (frame (shared_pool s') i) = fr_fp_id (frame (shared_pool s) i) \<and>
    (fr_data (frame (shared_pool s') i) \<noteq> fr_data (frame (shared_pool s) i) \<longrightarrow>
       (\<exists>u < n. e = Written u \<and> i \<in> set (pages_of s u) \<and> pc (locks s i) u = HoldsExclusive))"
  using step
proof cases
  case (get_served t fp r p)
  have l: "length (pages_of s t) < k" using pool_sys_invD(6) [OF inv get_served(3)] get_served(4) by simp
  show ?thesis
    using served_effect(1) [OF inv get_served(3) l small env get_served(5,6)] taken_frame [OF pool_sys_invD(1) [OF inv] _ i pinned_mapped [OF inv i h]]
      get_served(2) by auto
next
  case (get_tried t fp r p)
  show ?thesis
    using served_effect(2) [OF inv get_tried(3,5) small env get_tried(6,7)] taken_frame [OF pool_sys_invD(1) [OF inv] _ i pinned_mapped [OF inv i h]]
      get_tried(2) by auto
next
  case (delete_served t f r p)
  then show ?thesis
    using pool_DeleteFile_pinned [OF pool_sys_invD(1,2) [OF inv] env delete_served(5)] i pinned_mapped(2) [OF inv i h] by auto
next
  case (release t j p c)
  have f: "is_frame (shared_pool s) j" by (rule pool_sys_invD(4) [OF inv release(3,5)])
  show ?thesis
    using Page_destroy_ok [OF pool_sys_invD(1,2) [OF inv] f pinned_mapped(2) [OF inv f handle_count_pos [OF release(3,5)]]] release(2,7) by auto
next
  case (write_page t j page p)
  have f: "is_frame (shared_pool s) j" by (rule pool_sys_invD(4) [OF inv write_page(3,5)])
  show ?thesis
    using write_ok [OF pool_sys_invD(1,2) [OF inv] f pinned_mapped(2) [OF inv f handle_count_pos [OF write_page(3,5)]] write_page(7)]
      write_page by auto
qed simp_all

lemma exclusive_alone:
  assumes "lock_inv n l" and "u < n" and "pc l u = HoldsExclusive" and "v < n" and "v \<noteq> u"
  shows "pc l v \<notin> {HoldsExclusive, HoldsShared}"
  using assms holders_mem [of u n l] holders_mem [of v n l] by (auto simp: lock_inv_def)

text \<open>The steps of a call: a thread about to run either runs or goes to sleep.\<close>

lemma call_progress:
  assumes inv: "pool_sys_inv n k s" and env: "no_fault env" and small: "n * k < 2 ^ 31" and u: "u < n"
  shows "calls s u = Checking (CallGetPage fp) \<Longrightarrow> contents (shared_pool s) fp \<noteq> None \<Longrightarrow> \<exists>e \<in> {Served u, Slept u}. \<exists>s'. pool_step n k env e s s'"
    and "calls s u = Checking (CallDeleteFile f) \<Longrightarrow> \<exists>e \<in> {Served u, Slept u}. \<exists>s'. pool_step n k env e s s'"
proof -
  assume c: "calls s u = Checking (CallGetPage fp)" and ex: "contents (shared_pool s) fp \<noteq> None"
  have l: "length (pages_of s u) < k" using pool_sys_invD(6) [OF inv u] c by simp
  show "\<exists>e \<in> {Served u, Slept u}. \<exists>s'. pool_step n k env e s s'"
    using served_effect(4) [OF inv u l small env ex] pool_step.get_served [OF u c ex] pool_step.get_sleep [OF u c] by blast
next
  assume c: "calls s u = Checking (CallDeleteFile f)"
  show "\<exists>e \<in> {Served u, Slept u}. \<exists>s'. pool_step n k env e s s'"
    using pool_DeleteFile_pinned [OF pool_sys_invD(1,2) [OF inv] env] pool_step.delete_served [OF u c] pool_step.delete_sleep [OF u c] by blast
qed

section \<open>A schedule that loses a wake-up\<close>

text \<open>System states with no lock in use, and the steps of the schedule on them.\<close>

abbreviation sys :: "PageBufferManager \<Rightarrow> (nat \<Rightarrow> pool_pc) \<Rightarrow> (nat \<Rightarrow> frame_id_t list) \<Rightarrow> pool_sys" where
  "sys p c h \<equiv> \<lparr>shared_pool = p, calls = c, pages_of = h, locks = (\<lambda>_. lock_init)\<rparr>"

lemma sys_steps:
  assumes r: "pool_reachable n k env p0 (sys p c h)" and t: "t < n"
  shows "c t = Ready \<Longrightarrow> length (h t) < k \<Longrightarrow> pool_reachable n k env p0 (sys p (c(t := Checking call)) h)"
    and "c t = Checking (CallGetPage fp) \<Longrightarrow> GetPage env p fp = Inl Blocked \<Longrightarrow> pool_reachable n k env p0 (sys p (c(t := Waiting (CallGetPage fp))) h)"
    and "c t = Checking (CallDeleteFile f) \<Longrightarrow> FileHasPinnedPages p f \<Longrightarrow> pool_reachable n k env p0 (sys p (c(t := Waiting (CallDeleteFile f))) h)"
    and "c t = Waiting (CallDeleteFile f) \<Longrightarrow> FileHasPinnedPages p f \<Longrightarrow> pool_reachable n k env p0 (sys p (c(t := Ready)) h)"
    and "c t = Checking (CallGetPage fp) \<Longrightarrow> \<forall>u call. c u \<noteq> Waiting call \<Longrightarrow> contents p fp \<noteq> None \<Longrightarrow> GetPage env p fp = Inr (Inr i, p') \<Longrightarrow>
      pool_reachable n k env p0 (sys p' (c(t := Ready)) (h(t := i # h t)))"
    and "c t = Ready \<Longrightarrow> h t = [i] \<Longrightarrow> fr_pin_count (frame p i) = 1 \<Longrightarrow> Page_destroy p (Some i) = Inr p' \<Longrightarrow> c u = Waiting call \<Longrightarrow>
      pool_reachable n k env p0 (sys p' (c(u := Checking call)) (h(t := [])))"
proof -
  note step = pool_reachable_step [OF r]
  show "pool_reachable n k env p0 (sys p (c(t := Checking call)) h)" if "c t = Ready" "length (h t) < k"
    using step [OF pool_step.new_call [OF t, of "sys p c h" k env call]] that by simp
  show "pool_reachable n k env p0 (sys p (c(t := Waiting (CallGetPage fp))) h)"
    if "c t = Checking (CallGetPage fp)" "GetPage env p fp = Inl Blocked"
    using step [OF pool_step.get_sleep [OF t, of "sys p c h" fp env k]] that by simp
  show "pool_reachable n k env p0 (sys p (c(t := Waiting (CallDeleteFile f))) h)"
    if "c t = Checking (CallDeleteFile f)" "FileHasPinnedPages p f"
    using step [OF pool_step.delete_sleep [OF t, of "sys p c h" f k env]] that by simp
  show "pool_reachable n k env p0 (sys p (c(t := Ready)) h)" if "c t = Waiting (CallDeleteFile f)" "FileHasPinnedPages p f"
    using step [OF pool_step.delete_timeout [OF t, of "sys p c h" f k env]] that by simp
  show "pool_reachable n k env p0 (sys p' (c(t := Ready)) (h(t := i # h t)))"
    if c: "c t = Checking (CallGetPage fp)" "\<forall>u call. c u \<noteq> Waiting call" "contents p fp \<noteq> None" "GetPage env p fp = Inr (Inr i, p')"
  proof -
    have "notify_all c = c" using c(2) by (auto simp: notify_all_def fun_eq_iff split: pool_pc.splits)
    then show ?thesis using step [OF pool_step.get_served [OF t, of "sys p c h" fp env "Inr i" p' k]] c by (simp add: got_page_def cong: if_cong)
  qed
  show "pool_reachable n k env p0 (sys p' (c(u := Checking call)) (h(t := [])))"
    if c: "c t = Ready" "h t = [i]" "fr_pin_count (frame p i) = 1" "Page_destroy p (Some i) = Inr p'" "c u = Waiting call"
  proof -
    have "notify_one c (c(u := Checking call))" using c(5) by (auto simp: notify_one_def)
    then show ?thesis
      using step [OF pool_step.release [OF t, of "sys p c h" i p' "c(u := Checking call)" k env]] c by (simp add: lock_init_def)
  qed
qed

text \<open>Loading one page does not bring in another.\<close>

lemma taken_other:
  assumes ok: "pool_ok p" and t: "taken p fp i p'" and g: "no_ghosts p" and q: "contents p q \<noteq> None" "q \<noteq> fp" "page_frame p q = None"
  shows "page_frame p' q = None"
proof (rule ccontr)
  assume "page_frame p' q \<noteq> None"
  then obtain j where j: "page_frame p' q = Some j" by auto
  have "pool_ok p'" "page_frame p' fp = Some i" using t by (simp_all add: taken_def)
  then have e: "is_frame p' j" "fr_fp_id (frame p' j) = q" "j \<noteq> i"
    using pool_okD(2) [of p' q j] pool_okD(2) [of p' fp i] j q(2) by (auto simp: entry_ok_def)
  then have "is_frame p j" "fr_fp_id (frame p j) = q" using t by (auto simp: taken_def)
  moreover from this have "idle p j" using q(3) by (simp add: idle_def)
  ultimately show False using g q(1) by (auto simp: no_ghosts_def)
qed

section \<open>Claims\<close>

lemma shared_pool_holds:
  assumes "pool_reachable n k env p0 s" and "quiet p0" and "no_fault env" and "n * k < 2 ^ 31" and "n < 2 ^ 31"
    and "t < n" and "i \<in> set (pages_of s t)"
  shows "unat (fr_pin_count (frame (shared_pool s) i)) = handle_count n s i"
    and "\<forall>e s'. pool_step n k env e s s' \<longrightarrow>
      ((\<exists>u < n. i \<in> set (pages_of s' u)) \<longrightarrow>
         (\<exists>fp. page_frame (shared_pool s) fp = Some i \<and> page_frame (shared_pool s') fp = Some i)) \<and>
      (fr_data (frame (shared_pool s') i) \<noteq> fr_data (frame (shared_pool s) i) \<longrightarrow>
         (\<exists>u < n. e = Written u \<and> i \<in> set (pages_of s u) \<and> pc (locks s i) u = HoldsExclusive \<and>
            (\<forall>v < n. v \<noteq> u \<longrightarrow> pc (locks s i) v \<notin> {HoldsExclusive, HoldsShared})))"
    and "\<exists>p. Page_destroy (shared_pool s) (Some i) = Inr p"
    and "\<forall>u < n. \<forall>fp f. (calls s u = Checking (CallGetPage fp) \<and> contents (shared_pool s) fp \<noteq> None) \<or> calls s u = Checking (CallDeleteFile f) \<longrightarrow>
      (\<exists>e \<in> {Served u, Slept u}. \<exists>s'. pool_step n k env e s s')"
proof -
  have inv: "pool_sys_inv n k s" by (rule pool_sys_inv_reachable [OF assms(1-5)])
  have f: "is_frame (shared_pool s) i" by (rule pool_sys_invD(4) [OF inv assms(6,7)])
  have pos: "0 < handle_count n s i" by (rule handle_count_pos [OF assms(6,7)])
  show "unat (fr_pin_count (frame (shared_pool s) i)) = handle_count n s i" by (rule pool_sys_invD(3) [OF inv f])
  show "\<exists>p. Page_destroy (shared_pool s) (Some i) = Inr p"
    using Page_destroy_ok [OF pool_sys_invD(1,2) [OF inv] f pinned_mapped(2) [OF inv f pos]] by blast
  show "\<forall>u < n. \<forall>fp f. (calls s u = Checking (CallGetPage fp) \<and> contents (shared_pool s) fp \<noteq> None) \<or> calls s u = Checking (CallDeleteFile f) \<longrightarrow>
      (\<exists>e \<in> {Served u, Slept u}. \<exists>s'. pool_step n k env e s s')"
    using call_progress [OF inv assms(3,4)] by blast
  show "\<forall>e s'. pool_step n k env e s s' \<longrightarrow>
      ((\<exists>u < n. i \<in> set (pages_of s' u)) \<longrightarrow>
         (\<exists>fp. page_frame (shared_pool s) fp = Some i \<and> page_frame (shared_pool s') fp = Some i)) \<and>
      (fr_data (frame (shared_pool s') i) \<noteq> fr_data (frame (shared_pool s) i) \<longrightarrow>
         (\<exists>u < n. e = Written u \<and> i \<in> set (pages_of s u) \<and> pc (locks s i) u = HoldsExclusive \<and>
            (\<forall>v < n. v \<noteq> u \<longrightarrow> pc (locks s i) v \<notin> {HoldsExclusive, HoldsShared})))"
  proof (intro allI impI conjI)
    fix e s' assume step: "pool_step n k env e s s'"
    have inv': "pool_sys_inv n k s'" by (rule pool_sys_inv_step [OF inv assms(3-5) step])
    note same = pinned_frame_step [OF inv assms(3,4) step f pos]
    show "\<exists>fp. page_frame (shared_pool s) fp = Some i \<and> page_frame (shared_pool s') fp = Some i"
      if held: "\<exists>u < n. i \<in> set (pages_of s' u)"
    proof -
      obtain u where u: "u < n" "i \<in> set (pages_of s' u)" using held by blast
      show ?thesis
        using pinned_mapped(1) [OF inv f pos] same
          pinned_mapped(1) [OF inv' pool_sys_invD(4) [OF inv' u] handle_count_pos [OF u]] by auto
    qed
    show "\<exists>u < n. e = Written u \<and> i \<in> set (pages_of s u) \<and> pc (locks s i) u = HoldsExclusive \<and>
        (\<forall>v < n. v \<noteq> u \<longrightarrow> pc (locks s i) v \<notin> {HoldsExclusive, HoldsShared})"
      if "fr_data (frame (shared_pool s') i) \<noteq> fr_data (frame (shared_pool s) i)"
      using same that exclusive_alone [OF pool_sys_invD(7) [OF inv]] by blast
  qed
qed



text \<open>
  C36: a wake-up can be lost. \<open>RemoveAccessor\<close> wakes one of the threads that sleep, and both \<open>GetPage\<close> and
  \<open>DeleteFile\<close> sleep on the same condition variable. On a pool with two free frames, one thread that holds
  a page and waits for another one, one that deletes the file of the held page, and one that releases a
  third page reach a state in which the first thread sleeps although a frame is evictable and its call
  would be served, while the other two hold nothing and are in no call. Only a new call of theirs or a
  spurious wake-up can get it going again.
\<close>

theorem wakeup_lost:
  assumes "quiet p" and "no_fault env" and "GetEvictableCount (replacer_m p) = 2" and "\<And>i. is_frame p i \<longleftrightarrow> unat i < 2"
    and "distinct [a, b, c]" and "\<forall>fp \<in> {a, b, c}. contents p fp \<noteq> None \<and> page_frame p fp = None"
  shows "\<exists>s. pool_reachable 3 2 env p s \<and> calls s 0 = Waiting (CallGetPage c) \<and>
    (\<forall>t \<in> {1, 2}. calls s t = Ready \<and> pages_of s t = []) \<and>
    (\<exists>i. is_frame (shared_pool s) i \<and> evictable (replacer_m (shared_pool s)) i) \<and>
    GetPage env (shared_pool s) c \<noteq> Inl Blocked \<and>
    (\<forall>e s'. pool_step 3 2 env e s s' \<longrightarrow> e = Spurious 0 \<or> (\<exists>t \<in> {1, 2}. e = NewCall t \<or> e = Tried t))"
proof -
  have e: "contents p a \<noteq> None" "contents p b \<noteq> None" "contents p c \<noteq> None" using assms(6) by simp_all
  have ne: "b \<noteq> a" "c \<noteq> a" "c \<noteq> b" using assms(5) by auto
  have p0: "pool_ok p" "no_ghosts p" using assms(1) by (simp_all add: quiet_def no_ghosts_def)
  obtain ia p1 where p1: "GetPage env p a = Inr (Inr ia, p1)" "taken p a ia p1"
    using GetPage_taken [OF p0 quiet_can_get [OF assms(1) e(1)] e(1) assms(2)] by blast
  have pa: "page_frame p a = None" using assms(6) by simp
  note t1 = takenD [OF p1(2)]
  have f_a: "is_frame p1 ia" and count1: "GetEvictableCount (replacer_m p1) = 1" using t1(5,6,8) assms(3) by simp_all
  have "unat (fr_pin_count (frame p1 ia)) = 1" using t1(7,10) pa by simp
  then have pin_a: "fr_pin_count (frame p1 ia) \<noteq> 0" by auto
  have none1: "page_frame p1 b = None" "page_frame p1 c = None"
    using taken_other [OF p0(1) p1(2) p0(2)] e(2,3) ne assms(6) by simp_all
  have can_b: "can_get p1 b"
  proof -
    let ?j = "1 - ia"
    have "unat ia < 2" using t1(5) assms(4) by simp
    then have "unat ia = 0 \<or> unat ia = 1" by linarith
    then have "ia = 0 \<or> ia = 1" by (simp add: word_unat_eq_iff)
    then have j: "?j \<noteq> ia" "unat ?j < 2" by auto
    then have f: "is_frame p ?j" using assms(4) by simp
    then have "fr_pin_count (frame p1 ?j) = 0" using t1(9) [OF f j(1)] assms(1) by (simp add: quiet_def)
    then have "evictable (replacer_m p1) ?j" using pool_okD(1) [OF t1(1)] t1(6) f by (simp add: frame_ok_def)
    moreover have "contents p1 b \<noteq> None" using e(2) t1(3) by simp
    ultimately show ?thesis using none1(1) count1 no_ghosts_no_stale [OF t1(2), of b] by (auto simp: can_get_def)
  qed
  obtain ib p2 where p2: "GetPage env p1 b = Inr (Inr ib, p2)" "taken p1 b ib p2"
    using GetPage_taken [OF t1(1,2) can_b _ assms(2)] e(2) t1(3) by auto
  note t2 = takenD [OF p2(2)]
  have f_b: "is_frame p2 ib" and count2: "GetEvictableCount (replacer_m p2) = 0" using t2(5,6,8) count1 by simp_all
  have "unat (fr_pin_count (frame p2 ib)) = 1" using t2(7,10) none1(1) by simp
  then have pin_b: "fr_pin_count (frame p2 ib) = 1" by (simp add: word_unat_eq_iff)
  have ab: "ia \<noteq> ib" using pin_a t2(10) none1(1) by auto
  have a2: "is_frame p2 ia" "frame p2 ia = frame p1 ia" using t2(6,9) [of ia] f_a ab by simp_all
  have "fr_fp_id (frame p1 ia) = a" using pool_okD(2) [OF t1(1,4)] by (simp add: entry_ok_def)
  then have m2: "page_frame p2 a = Some ia"
    using pool_okD(1) [OF t2(1) a2(1)] a2(2) pin_a by (auto simp: frame_ok_def idle_def)
  have none2: "page_frame p2 c = None" using taken_other [OF t1(1) p2(2) t1(2)] e(3) t1(3) none1(2) ne by simp
  then have blocked: "GetPage env p2 c = Inl Blocked" using count2 by (simp add: GetPage_def contains_page_eq)
  obtain p3 where p3: "Page_destroy p2 (Some ib) = Inr p3" "pool_ok p3" "page_frame p3 = page_frame p2" "no_ghosts p3" "contents p3 = contents p2"
    "\<forall>j. frame p3 j = (if j = ib then (frame p2 ib)\<lparr>fr_pin_count := fr_pin_count (frame p2 ib) - 1\<rparr> else frame p2 j)"
    "\<forall>j. is_frame p3 j = is_frame p2 j" "GetEvictableCount (replacer_m p3) = 1"
    using Page_destroy_ok [OF t2(1,2) f_b] pin_b count2 by auto
  have "frame p3 ia = frame p1 ia" using p3(6) ab a2(2) by simp
  then have pinned: "FileHasPinnedPages p2 (fp_file_id a)" "FileHasPinnedPages p3 (fp_file_id a)"
    using FileHasPinnedPages_eq [OF t2(1)] FileHasPinnedPages_eq [OF p3(2)] m2 p3(3) pin_a a2(2) by force+
  have free: "is_frame p3 ib" "evictable (replacer_m p3) ib"
    using p3(6,7) f_b pin_b pool_okD(1) [OF p3(2), of ib] by (simp_all add: frame_ok_def)
  have c3: "contents p3 c \<noteq> None" using p3(5) t2(3) t1(3) e(3) by simp
  then have "can_get p3 c"
    using none2 p3(3,8) free no_ghosts_no_stale [OF p3(4), of c] by (auto simp: can_get_def)
  then have runs: "GetPage env p3 c \<noteq> Inl Blocked" using GetPage_taken [OF p3(2,4) _ c3 assms(2)] by auto
  let ?get = "\<lambda>fp. Checking (CallGetPage fp)" and ?del = "CallDeleteFile (fp_file_id a)"
  let ?c1 = "(\<lambda>_. Ready)(0 := ?get a, 0 := Ready)"
  let ?c2 = "?c1(2 := ?get b, 2 := Ready)"
  let ?c3 = "?c2(0 := ?get c, 0 := Waiting (CallGetPage c))"
  let ?c4 = "?c3(1 := Checking ?del, 1 := Waiting ?del)"
  let ?c5 = "?c4(1 := Checking ?del, 1 := Waiting ?del, 1 := Ready)"
  let ?h1 = "(\<lambda>_. [])(0 := [ia])" let ?h2 = "?h1(2 := [ib])"
  note start = pool_reachable_start [of 3 2 env p, unfolded pool_start_def]
  have "pool_reachable 3 2 env p (sys p ((\<lambda>_. Ready)(0 := ?get a)) (\<lambda>_. []))"
    by (rule sys_steps(1) [OF start]) simp_all
  from sys_steps(5) [OF this, of 0 a ia p1] have "pool_reachable 3 2 env p (sys p1 ?c1 ?h1)" using p1(1) e(1) by simp
  from sys_steps(1) [OF this, of 2 "CallGetPage b"] have "pool_reachable 3 2 env p (sys p1 (?c1(2 := ?get b)) ?h1)" by simp
  from sys_steps(5) [OF this, of 2 b ib p2] have "pool_reachable 3 2 env p (sys p2 ?c2 ?h2)" using p2(1) t1(3) e(2) by simp
  from sys_steps(1) [OF this, of 0 "CallGetPage c"] have "pool_reachable 3 2 env p (sys p2 (?c2(0 := ?get c)) ?h2)" by simp
  from sys_steps(2) [OF this, of 0 c] have "pool_reachable 3 2 env p (sys p2 ?c3 ?h2)" using blocked by simp
  from sys_steps(1) [OF this, of 1 ?del] have "pool_reachable 3 2 env p (sys p2 (?c3(1 := Checking ?del)) ?h2)" by simp
  from sys_steps(3) [OF this, of 1 "fp_file_id a"] have "pool_reachable 3 2 env p (sys p2 ?c4 ?h2)" using pinned(1) by simp
  from sys_steps(6) [OF this, of 2 ib p3 1 ?del] have "pool_reachable 3 2 env p (sys p3 (?c4(1 := Checking ?del)) (?h2(2 := [])))"
    using pin_b p3(1) by simp
  from sys_steps(3) [OF this, of 1 "fp_file_id a"] have
    "pool_reachable 3 2 env p (sys p3 (?c4(1 := Checking ?del, 1 := Waiting ?del)) (?h2(2 := [])))" using pinned(2) by simp
  from sys_steps(4) [OF this, of 1 "fp_file_id a"] have reach: "pool_reachable 3 2 env p (sys p3 ?c5 (?h2(2 := [])))" using pinned(2) by simp
  let ?s = "sys p3 ?c5 (?h2(2 := []))"
  have three: "t = 0 \<or> t = 1 \<or> t = 2" if "t < 3" for t :: nat using that by linarith
  have state: "calls ?s 0 = Waiting (CallGetPage c)" "calls ?s 1 = Ready" "calls ?s 2 = Ready" "pages_of ?s 1 = []" "pages_of ?s 2 = []"
    by simp_all
  have only: "e = Spurious 0 \<or> (\<exists>t \<in> {1, 2}. e = NewCall t \<or> e = Tried t)" if "pool_step 3 2 env e s s'" "s = ?s" for e s s'
    using that(1) by cases (use three state that(2) in \<open>fastforce+\<close>)
  show ?thesis
    by (rule exI [of _ ?s]) (use reach free runs only state in auto)
qed

theorem wakeup_lost_witness:
  "\<exists>p s. pool_reachable 3 2 lucky_env p s \<and> calls s 0 = Waiting (CallGetPage (FilePageId 7 2)) \<and>
     GetPage lucky_env (shared_pool s) (FilePageId 7 2) \<noteq> Inl Blocked"
proof -
  let ?files = "[GetFilePath 7 \<mapsto> replicate (3 * 4096) (5 :: byte)]"
  have "INVALID_FILE_ID \<noteq> 7" by (simp add: INVALID_FILE_ID_def)
  then have f: "?files (GetFilePath i) = Some content \<Longrightarrow> length content \<le> 2 ^ 20 * 4096" "?files (GetFilePath INVALID_FILE_ID) = None" for i content
    by (auto split: if_splits)
  have b: "\<And>i :: nat. length (replicate 4096 (0 :: byte)) = 4096" by simp
  have n: "0 < (2 :: nat)" "(2 :: nat) < 2 ^ 32" by simp_all
  note i = pool_init [where buffer = "\<lambda>_. replicate 4096 0" and files = ?files, OF n b f]
  let ?p = "PageBufferManager_init (\<lambda>_. replicate 4096 0) ?files 2"
  have q: "quiet ?p" "GetEvictableCount (replacer_m ?p) = 2" "is_frame ?p j \<longleftrightarrow> unat j < 2" "page_frame ?p fp = None"
    "contents ?p = disk_pages (DiskManager_init ?files)" for j fp
    using i by simp_all
  have pages: "\<forall>fp \<in> {FilePageId 7 0, FilePageId 7 1, FilePageId 7 2}. contents ?p fp \<noteq> None \<and> page_frame ?p fp = None"
    using q(4,5) by (simp add: disk_pages_def free_of_def DiskManager_init_def)
  have d: "distinct [FilePageId 7 0, FilePageId 7 1, FilePageId 7 2]" by simp
  show ?thesis using wakeup_lost [OF q(1) no_fault_lucky q(2,3) d pages] by blast
qed

end
