(* ===== verification/External_Sort.thy ===== *)
theory External_Sort
  imports Page_Layout
begin

text \<open>
  Sorting a page in place (\<open>external_sort.cpp\<close>): the slot entries of the live records are moved to the
  front of the slot directory, then sorted by a quicksort that exchanges slot entries; the records
  themselves stay where they are. The comparison is the parameter \<open>before\<close>, a function on records that
  says whether the first comes before the second. Slot ids are 16-bit; the bounds \<open>right_bound -
  left_bound\<close> are subtracted as \<open>int\<close>.
\<close>

section \<open>Exchanging and shifting slot entries\<close>

definition SwapSlots :: "FullPage \<Rightarrow> slot_id_t \<Rightarrow> slot_id_t \<Rightarrow> FullPage outcome" where
  "SwapSlots page slot1 slot2 =
     andthen (GetSlotOffset page slot1) (\<lambda>temp_offset.
     andthen (GetSlotSize page slot1) (\<lambda>temp_size.
     andthen (IsSlotDeleted page slot1) (\<lambda>temp_is_deleted.
     andthen (GetSlotOffset page slot2) (\<lambda>offset2.
     andthen (SetSlotOffset page slot1 offset2) (\<lambda>page.
     andthen (GetSlotSize page slot2) (\<lambda>size2.
     andthen (SetSlotSize page slot1 size2) (\<lambda>page.
     andthen (IsSlotDeleted page slot2) (\<lambda>deleted2.
     andthen (SetSlotDeleted page slot1 deleted2) (\<lambda>page.
     andthen (SetSlotOffset page slot2 temp_offset) (\<lambda>page.
     andthen (SetSlotSize page slot2 temp_size) (\<lambda>page.
     SetSlotDeleted page slot2 temp_is_deleted)))))))))))"

function skip_live :: "FullPage \<Rightarrow> slot_id_t \<Rightarrow> slot_id_t outcome" where
  "skip_live page ptr =
     (if ptr < GetPageCapacity page
      then andthen (IsSlotDeleted page ptr) (\<lambda>deleted. if \<not> deleted then skip_live page (ptr + 1) else Inr ptr)
      else Inr ptr)"
  by pat_completeness auto
termination
  by (relation "measure (\<lambda>(page, ptr). 65536 - unat ptr)") (simp_all add: slot_step_measure)

text \<open>This loop has no bound of its own: past the last slot it stops at the assertion of \<open>IsSlotDeleted\<close>.\<close>

function skip_deleted :: "FullPage \<Rightarrow> slot_id_t \<Rightarrow> slot_id_t outcome" where
  "skip_deleted page ptr =
     andthen (IsSlotDeleted page ptr) (\<lambda>deleted. if deleted then skip_deleted page (ptr + 1) else Inr ptr)"
  by pat_completeness auto
termination
  by (relation "measure (\<lambda>(page, ptr). 65536 - unat ptr)")
    (auto simp: IsSlotDeleted_def outcome_simps intro: slot_step_measure)

definition move_entry :: "FullPage \<Rightarrow> slot_id_t \<Rightarrow> slot_id_t \<Rightarrow> FullPage outcome" where
  "move_entry page deleted_ptr ptr =
     andthen (SetSlotDeleted page deleted_ptr False) (\<lambda>page.
     andthen (GetSlotOffset page ptr) (\<lambda>offset.
     andthen (SetSlotOffset page deleted_ptr offset) (\<lambda>page.
     andthen (GetSlotSize page ptr) (\<lambda>sz.
     andthen (SetSlotSize page deleted_ptr sz) (\<lambda>page.
     andthen (SetSlotDeleted page ptr True) (\<lambda>page.
     andthen (SetSlotOffset page ptr 0) (\<lambda>page.
     SetSlotSize page ptr 0)))))))"

function shift_from :: "FullPage \<Rightarrow> slot_id_t \<Rightarrow> slot_id_t \<Rightarrow> FullPage outcome" where
  "shift_from page deleted_ptr ptr =
     (if deleted_ptr < GetNumTuples page
      then andthen (skip_deleted page ptr) (\<lambda>ptr.
           andthen (move_entry page deleted_ptr ptr) (\<lambda>page. shift_from page (deleted_ptr + 1) (ptr + 1)))
      else Inr page)"
  by pat_completeness auto
termination
  by (relation "measure (\<lambda>(page, deleted_ptr, ptr). 65536 - unat deleted_ptr)") (simp_all add: slot_step_measure)

declare skip_live.simps [simp del] skip_deleted.simps [simp del] shift_from.simps [simp del]

definition ShiftSlotsLeft :: "FullPage \<Rightarrow> FullPage outcome" where
  "ShiftSlotsLeft page = andthen (skip_live page 0) (\<lambda>ptr. shift_from page ptr ptr)"

section \<open>Quicksort\<close>

function skip_before :: "(byte list \<Rightarrow> byte list \<Rightarrow> bool) \<Rightarrow> FullPage \<Rightarrow> slot_id_t \<Rightarrow> slot_id_t \<Rightarrow> slot_id_t outcome" where
  "skip_before before page gt_ptr partition_ptr =
     (if gt_ptr < partition_ptr
      then andthen (ReadRecord page gt_ptr) (\<lambda>a. andthen (ReadRecord page partition_ptr) (\<lambda>b.
           if before a b then skip_before before page (gt_ptr + 1) partition_ptr else Inr gt_ptr))
      else Inr gt_ptr)"
  by pat_completeness auto
termination
  by (relation "measure (\<lambda>(before, page, gt_ptr, partition_ptr). 65536 - unat gt_ptr)") (simp_all add: slot_step_measure)

function skip_after :: "(byte list \<Rightarrow> byte list \<Rightarrow> bool) \<Rightarrow> FullPage \<Rightarrow> slot_id_t \<Rightarrow> slot_id_t \<Rightarrow> slot_id_t outcome" where
  "skip_after before page lt_ptr partition_ptr =
     (if lt_ptr < partition_ptr
      then andthen (ReadRecord page lt_ptr) (\<lambda>a. andthen (ReadRecord page partition_ptr) (\<lambda>b.
           if \<not> before a b then skip_after before page (lt_ptr + 1) partition_ptr else Inr lt_ptr))
      else Inr lt_ptr)"
  by pat_completeness auto
termination
  by (relation "measure (\<lambda>(before, page, lt_ptr, partition_ptr). 65536 - unat lt_ptr)") (simp_all add: slot_step_measure)

declare skip_before.simps [simp del] skip_after.simps [simp del]

text \<open>The bounds that make the outer loops end.\<close>

lemma slot_succ: "(slot :: slot_id_t) < c \<Longrightarrow> unat (slot + 1) = Suc (unat slot)"
  using unat_less_16 [of c] by (simp add: word_less_nat_alt unat_word_ariths)

lemma skip_after_bound:
  "skip_after before page lt part = Inr lt' \<Longrightarrow> unat lt \<le> unat part \<Longrightarrow> unat lt \<le> unat lt' \<and> unat lt' \<le> unat part"
proof (induction before page lt part arbitrary: lt' rule: skip_after.induct)
  case (1 before page lt part)
  show ?case
    using 1 slot_succ [of lt part] by (subst (asm) skip_after.simps)
      (auto simp: outcome_simps word_less_nat_alt split: if_splits; fastforce)
qed

lemma skip_before_bound:
  "skip_before before page gt part = Inr gt' \<Longrightarrow> unat gt \<le> unat part \<Longrightarrow> unat gt \<le> unat gt' \<and> unat gt' \<le> unat part"
proof (induction before page gt part arbitrary: gt' rule: skip_before.induct)
  case (1 before page gt part)
  show ?case
    using 1 slot_succ [of gt part] by (subst (asm) skip_before.simps)
      (auto simp: outcome_simps word_less_nat_alt split: if_splits; fastforce)
qed

function move_before ::
    "(byte list \<Rightarrow> byte list \<Rightarrow> bool) \<Rightarrow> FullPage \<Rightarrow> slot_id_t \<Rightarrow> slot_id_t \<Rightarrow> slot_id_t \<Rightarrow> (FullPage \<times> slot_id_t) outcome" where
  "move_before before page lt_ptr gt_ptr partition_ptr =
     (if lt_ptr < partition_ptr
      then andthen (skip_after before page lt_ptr partition_ptr) (\<lambda>lt_ptr.
           if lt_ptr < partition_ptr
           then andthen (SwapSlots page lt_ptr gt_ptr) (\<lambda>page. move_before before page (lt_ptr + 1) (gt_ptr + 1) partition_ptr)
           else move_before before page lt_ptr gt_ptr partition_ptr)
      else Inr (page, gt_ptr))"
  by pat_completeness auto
termination
proof (relation "measure (\<lambda>(before, page, lt_ptr, gt_ptr, partition_ptr). 65536 - unat lt_ptr)")
  fix before page and lt gt part lt' :: slot_id_t and page'
  assume lt: "lt < part" "skip_after before page lt part = Inr lt'"
  then have b: "unat lt \<le> unat lt'" using skip_after_bound by (simp add: word_less_nat_alt)
  show "((before, page', lt' + 1, gt + 1, part), before, page, lt, gt, part)
      \<in> measure (\<lambda>(before, page, lt_ptr, gt_ptr, partition_ptr). 65536 - unat lt_ptr)" if "lt' < part"
    using b slot_step_measure [OF that] by simp
  show "((before, page, lt', gt, part), before, page, lt, gt, part)
      \<in> measure (\<lambda>(before, page, lt_ptr, gt_ptr, partition_ptr). 65536 - unat lt_ptr)" if "\<not> lt' < part"
    using lt(1) that unat_less_16 [of part] by (simp add: word_less_nat_alt)
qed simp

declare move_before.simps [simp del]

lemma move_before_bound:
  "move_before before page lt gt part = Inr (page', gt') \<Longrightarrow> unat gt \<le> unat lt \<Longrightarrow> unat lt \<le> unat part \<Longrightarrow>
     unat gt \<le> unat gt' \<and> unat gt' \<le> unat part"
proof (induction before page lt gt part arbitrary: page' gt' rule: move_before.induct)
  case (1 before page lt gt part)
  show ?case
  proof (cases "lt < part")
    case False
    then show ?thesis using 1(3-) by (subst (asm) move_before.simps) simp
  next
    case True
    then obtain lt' where s: "skip_after before page lt part = Inr lt'"
      using 1(3) by (subst (asm) move_before.simps) (auto simp: outcome_simps)
    have b: "unat lt \<le> unat lt'" "unat lt' \<le> unat part" using skip_after_bound [OF s 1(5)] by auto
    show ?thesis
    proof (cases "lt' < part")
      case less: True
      then obtain page1 where w: "SwapSlots page lt' gt = Inr page1"
        "move_before before page1 (lt' + 1) (gt + 1) part = Inr (page', gt')"
        using 1(3) True s by (subst (asm) move_before.simps) (auto simp: outcome_simps)
      have "gt < part" using less 1(4) b by (simp add: word_less_nat_alt)
      then have "unat (gt + 1) = Suc (unat gt)" "unat (lt' + 1) = Suc (unat lt')" using slot_succ less by auto
      then show ?thesis using 1(1) [OF True s less w] 1(4) b less by (auto simp: word_less_nat_alt)
    next
      case False
      then have "move_before before page lt' gt part = Inr (page', gt')"
        using 1(3) True s by (subst (asm) move_before.simps) (auto simp: outcome_simps)
      then show ?thesis using 1(2) [OF True s False] 1(4) b by auto
    qed
  qed
qed

function sort_range ::
    "(byte list \<Rightarrow> byte list \<Rightarrow> bool) \<Rightarrow> FullPage \<Rightarrow> slot_id_t \<Rightarrow> slot_id_t \<Rightarrow> FullPage outcome" where
  "sort_range before page left_bound right_bound =
     (if int (unat right_bound) - int (unat left_bound) \<le> 1 then Inr page
      else
        let partition_ptr = right_bound - 1
        in andthen (skip_before before page left_bound partition_ptr) (\<lambda>gt_ptr.
           andthen (move_before before page gt_ptr gt_ptr partition_ptr) (\<lambda>(page, gt_ptr).
           andthen (SwapSlots page gt_ptr partition_ptr) (\<lambda>page.
           andthen (sort_range before page left_bound gt_ptr) (\<lambda>page.
           sort_range before page (gt_ptr + 1) right_bound)))))"
  by pat_completeness auto
termination
proof (relation "measure (\<lambda>(before, page, left_bound, right_bound). unat right_bound - unat left_bound)")
  fix before page and left right gt gt' :: slot_id_t and page' page'' page3 and x :: "FullPage \<times> slot_id_t"
  assume "\<not> int (unat right) - int (unat left) \<le> 1"
  then have lr: "unat left + 1 < unat right" by linarith
  then have part: "unat (right - 1) = unat right - 1" by (simp add: unat_sub word_le_nat_alt)
  fix part assume p: "part = right - 1" and s: "skip_before before page left part = Inr gt"
    and m: "move_before before page gt gt part = Inr x" and x: "(page', gt') = x"
  have g: "unat left \<le> unat gt" "unat gt \<le> unat part" using skip_before_bound [OF s] lr part p by auto
  have g': "unat gt \<le> unat gt'" "unat gt' \<le> unat part" using move_before_bound [OF m [folded x]] g by auto
  show "((before, page'', left, gt'), before, page, left, right)
      \<in> measure (\<lambda>(before, page, left_bound, right_bound). unat right_bound - unat left_bound)"
    using g g' lr part p by auto
  have "gt' < right" using g' part lr p by (simp add: word_less_nat_alt)
  then show "((before, page3, gt' + 1, right), before, page, left, right)
      \<in> measure (\<lambda>(before, page, left_bound, right_bound). unat right_bound - unat left_bound)"
    using slot_succ [of gt' right] g g' lr by simp
qed simp

declare sort_range.simps [simp del]

definition SortPageInPlace :: "(byte list \<Rightarrow> byte list \<Rightarrow> bool) \<Rightarrow> FullPage \<Rightarrow> FullPage outcome" where
  "SortPageInPlace before page =
     andthen (ShiftSlotsLeft page) (\<lambda>page. sort_range before page 0 (GetNumTuples page))"

section \<open>Rearranged slot directories\<close>

text \<open>
  \<open>rearranged f page page'\<close>: slot \<open>i\<close> of \<open>page'\<close> has the entry of slot \<open>f i\<close> of \<open>page\<close>, or is cleared when
  \<open>f i\<close> is \<open>None\<close>; no entry is used twice, no live entry is lost, and nothing else has changed.
\<close>

definition rearranged :: "(nat \<rightharpoonup> nat) \<Rightarrow> FullPage \<Rightarrow> FullPage \<Rightarrow> bool" where
  "rearranged f page page' \<longleftrightarrow>
     length page' = length page \<and> free_start page' = free_start page \<and> free_end page' = free_end page \<and>
     GetNumTuples page' = GetNumTuples page \<and>
     (\<forall>off n. free_start page \<le> off \<longrightarrow> mem_read off n page' = mem_read off n page) \<and>
     (\<forall>i < num_slots page. case f i of
        None \<Rightarrow> slot_del page' i \<and> slot_off page' i = 0 \<and> slot_sz page' i = 0
      | Some j \<Rightarrow> j < num_slots page \<and> slot_del page' i = slot_del page j \<and> slot_off page' i = slot_off page j \<and>
          slot_sz page' i = slot_sz page j) \<and>
     (\<forall>i < num_slots page. \<forall>k < num_slots page. f i \<noteq> None \<longrightarrow> f i = f k \<longrightarrow> i = k) \<and>
     (\<forall>j \<in> live_slots page. \<exists>i < num_slots page. f i = Some j)"

lemma rearranged_records:
  assumes ok: "page_ok limit page" and r: "rearranged f page page'"
  shows "page_ok limit page'" and "page_records page' =
    map (\<lambda>i. case f i of None \<Rightarrow> None | Some j \<Rightarrow> page_records page ! j) [0..<num_slots page]"
proof -
  let ?n = "num_slots page"
  have n: "num_slots page' = ?n" using r by (simp add: rearranged_def num_slots_def)
  have entry: "(case f i of None \<Rightarrow> slot_del page' i \<and> slot_off page' i = 0 \<and> slot_sz page' i = 0
      | Some j \<Rightarrow> j < ?n \<and> slot_del page' i = slot_del page j \<and> slot_off page' i = slot_off page j \<and>
          slot_sz page' i = slot_sz page j)" if "i < ?n" for i
    using r that unfolding rearranged_def by blast
  have inj: "i = k" if "i < ?n" "k < ?n" "f i = Some j" "f k = Some j" for i k j
    using r that unfolding rearranged_def by (metis option.distinct(1))
  have "inj_on (\<lambda>i. the (f i)) (live_slots page')"
  proof (rule inj_onI)
    fix i k assume i: "i \<in> live_slots page'" "k \<in> live_slots page'" "the (f i) = the (f k)"
    then show "i = k" using entry [of i] entry [of k] inj [of i k] n
      by (auto simp: live_slots_def split: option.splits)
  qed
  moreover have "(\<lambda>i. the (f i)) ` live_slots page' = live_slots page"
  proof (intro equalityI subsetI)
    fix j assume "j \<in> (\<lambda>i. the (f i)) ` live_slots page'"
    then obtain i where i: "i < ?n" "\<not> slot_del page' i" "j = the (f i)" using n by (auto simp: live_slots_def)
    then show "j \<in> live_slots page" using entry [OF i(1)] by (auto simp: live_slots_def split: option.splits)
  next
    fix j assume j: "j \<in> live_slots page"
    then obtain i where i: "i < ?n" "f i = Some j" using r unfolding rearranged_def by blast
    then have "i \<in> live_slots page'" using entry [OF i(1)] j n by (auto simp: live_slots_def)
    then show "j \<in> (\<lambda>i. the (f i)) ` live_slots page'" using i by force
  qed
  ultimately have card: "card (live_slots page') = card (live_slots page)" using card_image by metis
  have ext: "extent_ok limit page' i" if "i < ?n" for i
    using entry [OF that] page_okD(5) [OF ok] r
    by (auto simp: extent_ok_def rearranged_def split: option.splits)
  have ap: "apart page' i k" if "i < ?n" "k < ?n" "i \<noteq> k" for i k
  proof (cases "f i"; cases "f k")
    fix a b assume f: "f i = Some a" "f k = Some b"
    then have e: "a < ?n" "b < ?n" "slot_off page' i = slot_off page a" "slot_sz page' i = slot_sz page a"
      "slot_off page' k = slot_off page b" "slot_sz page' k = slot_sz page b"
      using entry [OF that(1)] entry [OF that(2)] by auto
    have "a \<noteq> b" using inj [OF that(1,2) f(1)] f(2) that(3) by auto
    then show ?thesis using page_okD(6) [OF ok e(1,2)] e(3-) by (simp add: apart_def)
  qed (use entry [OF that(1)] entry [OF that(2)] in \<open>auto simp: apart_def\<close>)
  show "page_ok limit page'"
    using ok ext ap card n r unfolding page_ok_def directory_ok_def by (auto simp: rearranged_def)
  have same: "record_at page' i = record_at page j" if "i < ?n" "f i = Some j" for i j
  proof -
    have e: "j < ?n" "slot_off page' i = slot_off page j" "slot_sz page' i = slot_sz page j" using entry [OF that(1)] that(2) by auto
    have "slot_sz page j = 0 \<or> free_start page \<le> slot_off page j"
      using page_okD(5) [OF ok e(1)] page_okD(3) [OF ok] by (auto simp: extent_ok_def)
    then show ?thesis using e r by (auto simp: record_at_def rearranged_def)
  qed
  show "page_records page' = map (\<lambda>i. case f i of None \<Rightarrow> None | Some j \<Rightarrow> page_records page ! j) [0..<?n]"
  proof (rule nth_equalityI)
    fix i assume "i < length (page_records page')"
    then have i: "i < ?n" using n by simp
    then show "page_records page' ! i = map (\<lambda>i. case f i of None \<Rightarrow> None | Some j \<Rightarrow> page_records page ! j) [0..<?n] ! i"
      using entry [OF i] same [OF i] n by (auto simp: nth_page_records split: option.splits)
  qed (simp add: n)
qed

section \<open>The slot operations rearrange the directory\<close>

text \<open>Replacing a slot's whole entry.\<close>

definition put_entry :: "FullPage \<Rightarrow> nat \<Rightarrow> bool \<Rightarrow> offset_t \<Rightarrow> 16 word \<Rightarrow> FullPage" where
  "put_entry page i d a s = put_del (put_sz (put_off page i a) i s) i d"

lemma put_entry_views:
  assumes "directory_ok page" and "i < num_slots page"
  shows "length (put_entry page i d a s) = length page" and "free_start (put_entry page i d a s) = free_start page"
    and "free_end (put_entry page i d a s) = free_end page" and "GetNumTuples (put_entry page i d a s) = GetNumTuples page"
    and "num_slots (put_entry page i d a s) = num_slots page" and "directory_ok (put_entry page i d a s)"
    and "slot_del (put_entry page i d a s) j = (if j = i then d else slot_del page j)"
    and "slot_off (put_entry page i d a s) j = (if j = i then unat a else slot_off page j)"
    and "slot_sz (put_entry page i d a s) j = (if j = i then unat s else slot_sz page j)"
    and "free_start page \<le> off \<Longrightarrow> mem_read off n (put_entry page i d a s) = mem_read off n page"
  using directory_okD(1,2) [OF assms(1)] directory_okD(4) [OF assms] assms
  by (simp_all add: put_entry_def page_simps slot_frame)

lemma put_order:
  assumes "directory_ok page" and "i < num_slots page"
  shows "put_sz (put_off (put_del page i d) i a) i s = put_entry page i d a s"
  unfolding put_entry_def put_del_def put_off_def put_sz_def
  using directory_okD(1) [OF assms(1)] directory_okD(4) [OF assms]
  by (intro nth_equalityI) (auto simp: mem_write_def nth_append)

lemma SwapSlots_ok:
  assumes ok: "page_ok limit page" and i: "unat i < num_slots page" "unat j < num_slots page"
  shows "\<exists>page'. SwapSlots page i j = Inr page' \<and> page_ok limit page' \<and> GetNumTuples page' = GetNumTuples page \<and>
    page_records page' = (page_records page)[unat i := page_records page ! unat j, unat j := page_records page ! unat i]"
proof -
  note dir = page_okD(1) [OF ok]
  define p1 where "p1 = put_entry page (unat i) (slot_del page (unat j)) (of_nat (slot_off page (unat j))) (of_nat (slot_sz page (unat j)))"
  define p2 where "p2 = put_entry p1 (unat j) (slot_del page (unat i)) (of_nat (slot_off page (unat i))) (of_nat (slot_sz page (unat i)))"
  have n1: "num_slots p1 = num_slots page" by (simp add: p1_def put_entry_views(5) [OF dir i(1)])
  have d1: "directory_ok p1" by (simp add: p1_def put_entry_views(6) [OF dir i(1)])
  have j1: "unat j < num_slots p1" using i(2) n1 by simp
  note v = put_entry_views [OF dir i(1), where d = "slot_del page (unat j)" and a = "of_nat (slot_off page (unat j))"
      and s = "of_nat (slot_sz page (unat j))", folded p1_def]
    put_entry_views [OF d1 j1, where d = "slot_del page (unat i)" and a = "of_nat (slot_off page (unat i))"
      and s = "of_nat (slot_sz page (unat i))", folded p2_def]
  have sw: "SwapSlots page i j = Inr p2"
    using dir i directory_okD(1) [OF dir] directory_okD(4) [OF dir i(1)] directory_okD(4) [OF dir i(2)] j1 d1
    by (cases "unat i = unat j")
      (simp_all add: SwapSlots_def slot_getters slot_setters page_simps p1_def p2_def put_entry_def)
  have fr: "mem_read off n p2 = mem_read off n page" if "free_start page \<le> off" for off n
    using that put_entry_views(2,10) [OF dir i(1)] put_entry_views(10) [OF d1 j1] by (simp add: p2_def p1_def)
  let ?f = "\<lambda>k. Some (if k = unat i then unat j else if k = unat j then unat i else k)"
  have surj: "\<forall>l \<in> live_slots page. \<exists>k < num_slots page. ?f k = Some l"
  proof
    fix l assume "l \<in> live_slots page"
    then show "\<exists>k < num_slots page. ?f k = Some l"
      using i by (intro exI [of _ "if l = unat i then unat j else if l = unat j then unat i else l"]) (auto simp: live_slots_def)
  qed
  have "rearranged ?f page p2"
    unfolding rearranged_def using fr slot_off_less [of page] slot_sz_less [of page]
    by (intro conjI surj) (use i in \<open>auto simp: v unat_of_nat_16 split: if_splits\<close>)
  from rearranged_records [OF ok this] have "page_ok limit p2"
    and "page_records p2 = map (\<lambda>k. page_records page ! (if k = unat i then unat j else if k = unat j then unat i else k)) [0..<num_slots page]"
    by simp_all
  moreover from this(2) have "page_records p2 = (page_records page)[unat i := page_records page ! unat j, unat j := page_records page ! unat i]"
    using i by (intro nth_equalityI) (auto simp: nth_list_update)
  moreover have "GetNumTuples p2 = GetNumTuples page"
    by (simp add: v)
  ultimately show ?thesis using sw by blast
qed

lemma move_entry_ok:
  assumes ok: "page_ok limit page" and i: "unat d < num_slots page" "unat q < num_slots page" "d \<noteq> q"
    and del: "slot_del page (unat d)" "\<not> slot_del page (unat q)"
  shows "\<exists>page'. move_entry page d q = Inr page' \<and> page_ok limit page' \<and> GetNumTuples page' = GetNumTuples page \<and>
    page_records page' = (page_records page)[unat d := page_records page ! unat q, unat q := None]"
proof -
  note dir = page_okD(1) [OF ok]
  define p1 where "p1 = put_entry page (unat d) False (of_nat (slot_off page (unat q))) (of_nat (slot_sz page (unat q)))"
  define p2 where "p2 = put_entry p1 (unat q) True 0 0"
  have n1: "num_slots p1 = num_slots page" by (simp add: p1_def put_entry_views(5) [OF dir i(1)])
  have d1: "directory_ok p1" by (simp add: p1_def put_entry_views(6) [OF dir i(1)])
  have q1: "unat q < num_slots p1" using i(2) n1 by simp
  note v = put_entry_views [OF dir i(1), where d = False and a = "of_nat (slot_off page (unat q))"
      and s = "of_nat (slot_sz page (unat q))", folded p1_def]
    put_entry_views [OF d1 q1, where d = True and a = 0 and s = 0, folded p2_def]
  have "move_entry page d q = andthen (SetSlotDeleted p1 q True) (\<lambda>page. andthen (SetSlotOffset page q 0) (\<lambda>page. SetSlotSize page q 0))"
    using dir i directory_okD(1) [OF dir] directory_okD(4) [OF dir i(1)] put_order [OF dir i(1), of False]
    by (simp add: move_entry_def slot_getters slot_setters page_simps p1_def)
  also have "\<dots> = Inr p2"
    using d1 q1 directory_okD(1) [OF d1] directory_okD(4) [OF d1 q1] put_order [OF d1 q1, of True 0 0]
    by (simp add: slot_setters page_simps p2_def)
  finally have sw: "move_entry page d q = Inr p2" .
  have fr: "mem_read off n p2 = mem_read off n page" if "free_start page \<le> off" for off n
    using that put_entry_views(2,10) [OF dir i(1)] put_entry_views(10) [OF d1 q1] by (simp add: p2_def p1_def)
  let ?f = "\<lambda>k. if k = unat d then Some (unat q) else if k = unat q then None else Some k"
  have ne: "unat d \<noteq> unat q" using i(3) by (simp add: word_unat_eq_iff)
  have surj: "\<forall>l \<in> live_slots page. \<exists>k < num_slots page. ?f k = Some l"
  proof
    fix l assume "l \<in> live_slots page"
    then show "\<exists>k < num_slots page. ?f k = Some l"
      using i del by (intro exI [of _ "if l = unat q then unat d else l"]) (auto simp: live_slots_def)
  qed
  have "rearranged ?f page p2"
    unfolding rearranged_def using fr slot_off_less [of page] slot_sz_less [of page] del ne
    by (intro conjI surj) (use i in \<open>auto simp: v unat_of_nat_16 split: if_splits\<close>)
  from rearranged_records [OF ok this] have "page_ok limit p2"
    and r: "page_records p2 = map (\<lambda>k. case ?f k of None \<Rightarrow> None | Some j \<Rightarrow> page_records page ! j) [0..<num_slots page]"
    by simp_all
  moreover from r have "page_records p2 = (page_records page)[unat d := page_records page ! unat q, unat q := None]"
    using i ne by (intro nth_equalityI) (auto simp: nth_list_update)
  moreover have "GetNumTuples p2 = GetNumTuples page"
    by (simp add: v)
  ultimately show ?thesis using sw by blast
qed

end
