(* ===== verification/External_Sort_Spec.thy ===== *)
theory External_Sort_Spec
  imports External_Sort
begin

text \<open>
  Sorting a page, shown on the list of its records: shifting keeps the live records in order, and the
  quicksort ends with a permutation of them for every comparison, which is sorted when the comparison
  is a strict weak order.
\<close>

section \<open>Lists with a permuted segment\<close>

definition segment :: "nat \<Rightarrow> nat \<Rightarrow> 'a list \<Rightarrow> 'a list" where
  "segment l r xs = take (r - l) (drop l xs)"

definition perm_in :: "nat \<Rightarrow> nat \<Rightarrow> 'a list \<Rightarrow> 'a list \<Rightarrow> bool" where
  "perm_in l r xs ys \<longleftrightarrow> mset ys = mset xs \<and> (\<forall>k < length xs. k < l \<or> r \<le> k \<longrightarrow> ys ! k = xs ! k)"

lemma perm_in_refl [simp]: "perm_in l r xs xs"
  by (simp add: perm_in_def)

lemma perm_in_length: "perm_in l r xs ys \<Longrightarrow> length ys = length xs"
  by (metis perm_in_def mset_eq_length)

lemma perm_in_trans:
  "perm_in l r xs ys \<Longrightarrow> perm_in l' r' ys zs \<Longrightarrow> l \<le> l' \<Longrightarrow> r' \<le> r \<Longrightarrow> perm_in l r xs zs"
  "perm_in l' r' xs ys \<Longrightarrow> perm_in l r ys zs \<Longrightarrow> l \<le> l' \<Longrightarrow> r' \<le> r \<Longrightarrow> perm_in l r xs zs"
  using perm_in_length [of _ _ xs ys] by (auto simp: perm_in_def)

lemma perm_in_swap:
  assumes "i < length xs" "j < length xs" "l \<le> i" "i < r" "l \<le> j" "j < r"
  shows "perm_in l r xs (xs[i := xs ! j, j := xs ! i])"
  using assms by (auto simp: perm_in_def mset_swap nth_list_update)

lemma length_segment [simp]: "r \<le> length xs \<Longrightarrow> length (segment l r xs) = r - l"
  by (simp add: segment_def)

lemma nth_segment [simp]: "k < r - l \<Longrightarrow> r \<le> length xs \<Longrightarrow> segment l r xs ! k = xs ! (l + k)"
  by (simp add: segment_def)

lemma set_segment: "r \<le> length xs \<Longrightarrow> set (segment l r xs) = {xs ! k | k. l \<le> k \<and> k < r}"
proof (intro equalityI subsetI)
  fix x assume r: "r \<le> length xs" and "x \<in> set (segment l r xs)"
  then obtain k where "k < r - l" "x = xs ! (l + k)" by (auto simp: in_set_conv_nth)
  then show "x \<in> {xs ! k | k. l \<le> k \<and> k < r}" by (intro CollectI exI [of _ "l + k"]) auto
next
  fix x assume r: "r \<le> length xs" and "x \<in> {xs ! k | k. l \<le> k \<and> k < r}"
  then obtain k where k: "l \<le> k" "k < r" "x = xs ! k" by blast
  then have "segment l r xs ! (k - l) = x" "k - l < length (segment l r xs)" using r by auto
  then show "x \<in> set (segment l r xs)" by (metis nth_mem)
qed

lemma segment_split:
  assumes "l \<le> m" "m < r" "r \<le> length xs"
  shows "segment l r xs = segment l m xs @ xs ! m # segment (Suc m) r xs"
proof (rule nth_equalityI)
  fix i assume "i < length (segment l r xs)"
  then have i: "i < r - l" using assms by simp
  consider "l + i < m" | "l + i = m" | j where "l + i = Suc (m + j)" using less_imp_Suc_add [of m "l + i"] by (metis linorder_cases)
  then show "segment l r xs ! i = (segment l m xs @ xs ! m # segment (Suc m) r xs) ! i"
  proof cases
    case (3 j)
    then have "i - (m - l) = Suc j" "\<not> i < m - l" using assms(1) by linarith+
    then show ?thesis using assms i 3 by (simp add: nth_append)
  qed (use assms i in \<open>auto simp: nth_append\<close>)
qed (use assms in simp)

lemma split_segment: "l \<le> r \<Longrightarrow> r \<le> length xs \<Longrightarrow> xs = take l xs @ segment l r xs @ drop r xs"
  by (simp add: segment_def drop_take) (metis append_assoc append_take_drop_id drop_take le_add_diff_inverse take_add)

lemma perm_in_segment:
  assumes "perm_in l r xs ys" "l \<le> r" "r \<le> length xs"
  shows "mset (segment l r ys) = mset (segment l r xs)"
proof -
  have len: "length ys = length xs" using perm_in_length [OF assms(1)] .
  have t: "take l ys = take l xs" "drop r ys = drop r xs"
    using assms len by (auto simp: perm_in_def intro!: nth_equalityI)
  have "mset xs = mset (take l xs) + mset (segment l r xs) + mset (drop r xs)"
    using arg_cong [OF split_segment [OF assms(2,3)], of mset] by simp
  moreover have "mset ys = mset (take l ys) + mset (segment l r ys) + mset (drop r ys)"
    using arg_cong [OF split_segment [of l r ys], of mset] assms(2,3) len by simp
  ultimately show ?thesis using assms(1) t by (simp add: perm_in_def)
qed

text \<open>What holds of all elements of a segment holds after permuting it.\<close>

lemma perm_in_all:
  assumes "perm_in l r xs ys" "l \<le> r" "r \<le> length xs" and "\<And>k. l \<le> k \<Longrightarrow> k < r \<Longrightarrow> P (xs ! k)" and "l \<le> k" "k < r"
  shows "P (ys ! k)"
proof -
  have len: "length ys = length xs" using perm_in_length [OF assms(1)] .
  have "set (segment l r ys) = set (segment l r xs)" using perm_in_segment [OF assms(1-3)] mset_eq_setD by blast
  moreover have "ys ! k \<in> set (segment l r ys)" using assms(3,5,6) len by (auto simp: set_segment)
  ultimately show ?thesis using assms(3,4) by (auto simp: set_segment)
qed

section \<open>Shifting\<close>

abbreviation live :: "'a option list \<Rightarrow> 'a option list" where
  "live xs \<equiv> filter (\<lambda>r. r \<noteq> None) xs"

lemma num_tuples_live: "page_ok limit page \<Longrightarrow> unat (GetNumTuples page) = length (live (page_records page))"
proof -
  assume "page_ok limit page"
  moreover have "{i. i < num_slots page \<and> page_records page ! i \<noteq> None} = live_slots page"
    by (auto simp: live_slots_def nth_page_records)
  ultimately show ?thesis using page_okD(7) [of limit page] by (simp add: length_filter_conv_card)
qed

lemma IsSlotDeleted_records:
  assumes "page_ok limit page" and "unat slot < num_slots page"
  shows "IsSlotDeleted page slot = Inr (page_records page ! unat slot = None)"
  using slot_getters(1) [OF page_okD(1) [OF assms(1)] assms(2)] assms(2) by (simp add: nth_page_records)

lemma skip_live_ok:
  assumes ok: "page_ok limit page" and "unat ptr \<le> num_slots page"
  shows "\<exists>q. skip_live page ptr = Inr q \<and> unat ptr \<le> unat q \<and> unat q \<le> num_slots page \<and>
    (\<forall>k. unat ptr \<le> k \<and> k < unat q \<longrightarrow> page_records page ! k \<noteq> None) \<and>
    (unat q < num_slots page \<longrightarrow> page_records page ! unat q = None)"
  using assms
proof (induction page ptr rule: skip_live.induct)
  case (1 page ptr)
  note dir = page_okD(1) [OF 1(2)]
  show ?case
  proof (cases "unat ptr < num_slots page \<and> page_records page ! unat ptr \<noteq> None")
    case True
    have lt: "ptr < GetPageCapacity page" using True slot_less_capacity [OF dir] by simp
    have d: "IsSlotDeleted page ptr = Inr False" using IsSlotDeleted_records [OF 1(2)] True by simp
    have s: "unat (ptr + 1) = Suc (unat ptr)" using slot_succ [OF lt] .
    obtain q where q: "skip_live page (ptr + 1) = Inr q" "Suc (unat ptr) \<le> unat q" "unat q \<le> num_slots page"
      "\<forall>k. Suc (unat ptr) \<le> k \<and> k < unat q \<longrightarrow> page_records page ! k \<noteq> None"
      "unat q < num_slots page \<longrightarrow> page_records page ! unat q = None"
      using 1(1) [OF lt d _ 1(2)] True s by auto
    have "skip_live page ptr = Inr q" using lt d q(1) by (subst skip_live.simps) simp
    moreover have "page_records page ! k \<noteq> None" if "unat ptr \<le> k" "k < unat q" for k
      using that q(4) True by (cases "k = unat ptr") auto
    ultimately show ?thesis using q by auto
  next
    case False
    then have "skip_live page ptr = Inr ptr"
      using IsSlotDeleted_records [OF 1(2), of ptr] slot_less_capacity [OF dir, of ptr] by (subst skip_live.simps) auto
    then show ?thesis using False 1(3) by auto
  qed
qed

lemma skip_deleted_ok:
  assumes ok: "page_ok limit page" and "unat ptr \<le> m" "m < num_slots page" "page_records page ! m \<noteq> None"
  shows "\<exists>q. skip_deleted page ptr = Inr q \<and> unat ptr \<le> unat q \<and> unat q < num_slots page \<and>
    (\<forall>k. unat ptr \<le> k \<and> k < unat q \<longrightarrow> page_records page ! k = None) \<and> page_records page ! unat q \<noteq> None"
  using assms
proof (induction page ptr rule: skip_deleted.induct)
  case (1 page ptr)
  note dir = page_okD(1) [OF 1(2)]
  have lt: "unat ptr < num_slots page" using 1 by simp
  show ?case
  proof (cases "page_records page ! unat ptr = None")
    case True
    have d: "IsSlotDeleted page ptr = Inr True" using IsSlotDeleted_records [OF 1(2) lt] True by simp
    have s: "unat (ptr + 1) = Suc (unat ptr)" using slot_succ [of ptr "GetPageCapacity page"] slot_less_capacity [OF dir] lt by simp
    have "unat (ptr + 1) \<le> m" using 1(3,5) True s by (cases "unat ptr = m") auto
    then obtain q where q: "skip_deleted page (ptr + 1) = Inr q" "Suc (unat ptr) \<le> unat q" "unat q < num_slots page"
      "\<forall>k. Suc (unat ptr) \<le> k \<and> k < unat q \<longrightarrow> page_records page ! k = None" "page_records page ! unat q \<noteq> None"
      using 1(1) [OF d _ 1(2) _ 1(4,5)] s by auto
    have "skip_deleted page ptr = Inr q" using d q(1) by (subst skip_deleted.simps) simp
    moreover have "page_records page ! k = None" if "unat ptr \<le> k" "k < unat q" for k
      using that q(4) True by (cases "k = unat ptr") auto
    ultimately show ?thesis using q by auto
  next
    case False
    then have "IsSlotDeleted page ptr = Inr False" using IsSlotDeleted_records [OF 1(2) lt] by simp
    then have "skip_deleted page ptr = Inr ptr" by (subst skip_deleted.simps) simp
    then show ?thesis using False lt by auto
  qed
qed

lemma live_move:
  assumes "d < q" "q < length xs" "\<And>k. d \<le> k \<Longrightarrow> k < q \<Longrightarrow> xs ! k = None" "xs ! q = Some r"
  shows "live (xs[d := Some r, q := None]) = live xs"
proof -
  define A M B where "A = take d xs" and "M = segment (Suc d) q xs" and "B = drop (Suc q) xs"
  have "drop (Suc d) xs = M @ drop q xs"
    using assms(1) append_take_drop_id [of "q - Suc d" "drop (Suc d) xs"] by (simp add: M_def segment_def)
  moreover have "drop q xs = Some r # B" using assms(2,4) by (simp add: B_def Cons_nth_drop_Suc [symmetric])
  ultimately have xs: "xs = A @ None # M @ Some r # B"
    using id_take_nth_drop [of d xs] assms(1-3) by (simp add: A_def)
  have len: "length A = d" "length M = q - Suc d" using assms(1,2) by (simp_all add: A_def M_def)
  have "set M \<subseteq> {None}" using assms(1-3) by (auto simp: M_def set_segment)
  then have "live M = []" by (auto simp: filter_empty_conv)
  moreover have "xs[d := Some r, q := None] = A @ Some r # M @ None # B"
    unfolding xs using len assms(1) by (auto simp: list_update_append split: nat.splits)
  ultimately show ?thesis by (simp add: xs)
qed

lemma live_prefix:
  assumes "d \<le> length xs" "\<And>k. k < d \<Longrightarrow> xs ! k \<noteq> None"
  shows "live xs = take d xs @ live (drop d xs)"
proof -
  have "live (take d xs) = take d xs" using assms by (intro filter_True) (auto simp: in_set_conv_nth)
  then show ?thesis by (metis append_take_drop_id filter_append)
qed

lemma shift_from_ok:
  assumes "page_ok limit page" and "unat d \<le> unat q" "unat q \<le> num_slots page"
    and "\<And>k. k < unat d \<Longrightarrow> page_records page ! k \<noteq> None"
    and "\<And>k. unat d \<le> k \<Longrightarrow> k < unat q \<Longrightarrow> page_records page ! k = None"
    and "unat d < num_slots page \<Longrightarrow> page_records page ! unat d = None"
  shows "\<exists>page'. shift_from page d q = Inr page' \<and> page_ok limit page' \<and> GetNumTuples page' = GetNumTuples page \<and>
    page_records page' = live (page_records page) @ replicate (num_slots page - length (live (page_records page))) None"
  using assms
proof (induction page d q rule: shift_from.induct)
  case (1 page d q)
  let ?xs = "page_records page" and ?n = "num_slots page"
  note ok = 1(2) and dq = 1(3,4) and pre = 1(5) and gap = 1(6) and del = 1(7)
  have pf: "live ?xs = take (unat d) ?xs @ live (drop (unat d) ?xs)"
    using live_prefix [of "unat d" ?xs] pre dq by simp
  show ?case
  proof (cases "d < GetNumTuples page")
    case False
    then have "length (live ?xs) \<le> unat d" using num_tuples_live [OF ok] by (simp add: word_less_nat_alt)
    moreover have "length (take (unat d) ?xs) = unat d" using dq by simp
    ultimately have e: "live (drop (unat d) ?xs) = []" using arg_cong [OF pf, of length] by simp
    then have "drop (unat d) ?xs = replicate (?n - unat d) None"
      by (intro replicate_eqI) (auto simp: filter_empty_conv)
    then have "?xs = live ?xs @ replicate (?n - length (live ?xs)) None"
      using pf e dq append_take_drop_id [of "unat d" ?xs] by simp
    moreover have "shift_from page d q = Inr page" using False by (subst shift_from.simps) simp
    ultimately show ?thesis using ok by auto
  next
    case True
    then have "unat d < length (live ?xs)" using num_tuples_live [OF ok] by (simp add: word_less_nat_alt)
    then have "live (drop (unat d) ?xs) \<noteq> []" using arg_cong [OF pf, of length] dq by auto
    then obtain k where "k < ?n - unat d" "?xs ! (unat d + k) \<noteq> None"
      by (auto simp: filter_empty_conv in_set_conv_nth)
    then obtain m where m: "unat d \<le> m" "m < ?n" "?xs ! m \<noteq> None" by (intro that [of "unat d + k"]) auto
    have "unat q \<le> m" using gap [OF m(1)] m(3) by (metis leI)
    then obtain q' where q': "skip_deleted page q = Inr q'" "unat q \<le> unat q'" "unat q' < ?n"
      "\<forall>k. unat q \<le> k \<and> k < unat q' \<longrightarrow> ?xs ! k = None" "?xs ! unat q' \<noteq> None"
      using skip_deleted_ok [OF ok _ m(2,3)] by blast
    have dn: "unat d < ?n" using m by simp
    have lt: "unat d < unat q'" using dq q'(2,5) del [OF dn] by (cases "unat d = unat q'") auto
    have ne: "d \<noteq> q'" using lt by auto
    have sd: "slot_del page (unat d)" "\<not> slot_del page (unat q')"
      using del [OF dn] q'(3,5) dn by (auto simp: nth_page_records split: if_splits)
    obtain page1 where p1: "move_entry page d q' = Inr page1" "page_ok limit page1" "GetNumTuples page1 = GetNumTuples page"
      "page_records page1 = ?xs[unat d := ?xs ! unat q', unat q' := None]"
      using move_entry_ok [OF ok dn q'(3) ne sd] by blast
    have n1: "num_slots page1 = ?n" using arg_cong [OF p1(4), of length] by simp
    have s: "unat (d + 1) = Suc (unat d)" "unat (q' + 1) = Suc (unat q')"
      using slot_succ [OF True] slot_succ [of q' "GetPageCapacity page"] slot_less_capacity [OF page_okD(1) [OF ok]] q'(3) by auto
    have gap': "?xs ! k = None" if "unat d \<le> k" "k < unat q'" for k using that gap q'(4) by (metis leI)
    have "\<exists>page'. shift_from page1 (d + 1) (q' + 1) = Inr page' \<and> page_ok limit page' \<and> GetNumTuples page' = GetNumTuples page1 \<and>
        page_records page' = live (page_records page1) @ replicate (num_slots page1 - length (live (page_records page1))) None"
    proof (rule 1(1) [OF True q'(1) p1(1,2)])
      show "unat (d + 1) \<le> unat (q' + 1)" "unat (q' + 1) \<le> num_slots page1" using s lt q'(3) n1 by auto
      show "page_records page1 ! k \<noteq> None" if "k < unat (d + 1)" for k
        using that pre q'(5) lt dn s by (auto simp: p1(4) nth_list_update less_Suc_eq)
      show "page_records page1 ! k = None" if "unat (d + 1) \<le> k" "k < unat (q' + 1)" for k
        using that gap' lt q'(3) s by (cases "k = unat q'") (auto simp: p1(4) nth_list_update)
      show "page_records page1 ! unat (d + 1) = None" if "unat (d + 1) < num_slots page1"
        using gap' lt q'(3) s by (cases "Suc (unat d) = unat q'") (auto simp: p1(4) nth_list_update)
    qed
    moreover obtain r where "?xs ! unat q' = Some r" using q'(5) by auto
    then have "live (page_records page1) = live ?xs"
      using live_move [of "unat d" "unat q'" ?xs r] lt q'(3) gap' by (simp add: p1(4))
    ultimately show ?thesis
      using True q'(1) p1(1,3) n1 by (subst shift_from.simps) auto
  qed
qed

lemma ShiftSlotsLeft_ok:
  assumes "page_ok limit page"
  shows "\<exists>page'. ShiftSlotsLeft page = Inr page' \<and> page_ok limit page' \<and> GetNumTuples page' = GetNumTuples page \<and>
    page_records page' = live (page_records page) @ replicate (num_slots page - length (live (page_records page))) None"
proof -
  obtain q where q: "skip_live page 0 = Inr q" "unat q \<le> num_slots page"
    "\<forall>k. k < unat q \<longrightarrow> page_records page ! k \<noteq> None" "unat q < num_slots page \<longrightarrow> page_records page ! unat q = None"
    using skip_live_ok [OF assms, of 0] by auto
  then show ?thesis using shift_from_ok [OF assms order_refl q(2)] by (auto simp: ShiftSlotsLeft_def)
qed

section \<open>Partitioning\<close>

abbreviation slot_record :: "FullPage \<Rightarrow> nat \<Rightarrow> byte list" where
  "slot_record page k \<equiv> the (page_records page ! k)"

lemma ReadRecord_record:
  assumes "page_ok limit page" and "unat k < num_slots page" and "page_records page ! unat k \<noteq> None"
  shows "ReadRecord page k = Inr (slot_record page (unat k))"
  using ReadRecord_live [OF assms(1,2)] assms(2,3) by (auto simp: nth_page_records split: if_splits)

definition live_range :: "FullPage \<Rightarrow> nat \<Rightarrow> nat \<Rightarrow> bool" where
  "live_range page l r \<longleftrightarrow> r \<le> num_slots page \<and> (\<forall>k. l \<le> k \<longrightarrow> k < r \<longrightarrow> page_records page ! k \<noteq> None)"

lemma live_rangeD:
  assumes "page_ok limit page" "live_range page l r" "l \<le> unat k" "unat k < r"
  shows "ReadRecord page k = Inr (slot_record page (unat k))"
  using assms by (intro ReadRecord_record) (auto simp: live_range_def)

lemma live_range_sub: "live_range page l r \<Longrightarrow> l \<le> l' \<Longrightarrow> r' \<le> r \<Longrightarrow> live_range page l' r'"
  by (auto simp: live_range_def)

lemma skip_before_ok:
  assumes "page_ok limit page" "live_range page (unat gt) (Suc (unat part))" "unat gt \<le> unat part"
  shows "\<exists>q. skip_before before page gt part = Inr q \<and> unat gt \<le> unat q \<and> unat q \<le> unat part \<and>
    (\<forall>k. unat gt \<le> k \<longrightarrow> k < unat q \<longrightarrow> before (slot_record page k) (slot_record page (unat part)))"
  using assms
proof (induction before page gt part rule: skip_before.induct)
  case (1 before page gt part)
  show ?case
  proof (cases "gt < part \<and> before (slot_record page (unat gt)) (slot_record page (unat part))")
    case True
    then have lt: "unat gt < unat part" by (simp add: word_less_nat_alt)
    have r: "ReadRecord page gt = Inr (slot_record page (unat gt))" "ReadRecord page part = Inr (slot_record page (unat part))"
      using live_rangeD [OF 1(2,3)] lt by auto
    have s: "unat (gt + 1) = Suc (unat gt)" using True slot_succ by blast
    obtain q where q: "skip_before before page (gt + 1) part = Inr q" "Suc (unat gt) \<le> unat q" "unat q \<le> unat part"
      "\<forall>k. Suc (unat gt) \<le> k \<longrightarrow> k < unat q \<longrightarrow> before (slot_record page k) (slot_record page (unat part))"
      using 1(1) [OF _ r _ 1(2)] True live_range_sub [OF 1(3)] s lt by auto
    have "skip_before before page gt part = Inr q" using True r q(1) by (subst skip_before.simps) simp
    moreover have "before (slot_record page k) (slot_record page (unat part))" if "unat gt \<le> k" "k < unat q" for k
      using that q(4) True by (cases "k = unat gt") auto
    ultimately show ?thesis using q by auto
  next
    case False
    then have "skip_before before page gt part = Inr gt"
      using live_rangeD [OF 1(2,3), of gt] live_rangeD [OF 1(2,3), of part] 1(4)
      by (subst skip_before.simps) (auto simp: word_less_nat_alt)
    then show ?thesis using 1(4) by auto
  qed
qed

lemma skip_after_ok:
  assumes "page_ok limit page" "live_range page (unat lt) (Suc (unat part))" "unat lt \<le> unat part"
  shows "\<exists>q. skip_after before page lt part = Inr q \<and> unat lt \<le> unat q \<and> unat q \<le> unat part \<and>
    (\<forall>k. unat lt \<le> k \<longrightarrow> k < unat q \<longrightarrow> \<not> before (slot_record page k) (slot_record page (unat part))) \<and>
    (q < part \<longrightarrow> before (slot_record page (unat q)) (slot_record page (unat part)))"
  using assms
proof (induction before page lt part rule: skip_after.induct)
  case (1 before page gt part)
  show ?case
  proof (cases "gt < part \<and> \<not> before (slot_record page (unat gt)) (slot_record page (unat part))")
    case True
    then have lt: "unat gt < unat part" by (simp add: word_less_nat_alt)
    have r: "ReadRecord page gt = Inr (slot_record page (unat gt))" "ReadRecord page part = Inr (slot_record page (unat part))"
      using live_rangeD [OF 1(2,3)] lt by auto
    have s: "unat (gt + 1) = Suc (unat gt)" using True slot_succ by blast
    obtain q where q: "skip_after before page (gt + 1) part = Inr q" "Suc (unat gt) \<le> unat q" "unat q \<le> unat part"
      "\<forall>k. Suc (unat gt) \<le> k \<longrightarrow> k < unat q \<longrightarrow> \<not> before (slot_record page k) (slot_record page (unat part))"
      "q < part \<longrightarrow> before (slot_record page (unat q)) (slot_record page (unat part))"
      using 1(1) [OF _ r _ 1(2)] True live_range_sub [OF 1(3)] s lt by auto
    have "skip_after before page gt part = Inr q" using True r q(1) by (subst skip_after.simps) simp
    moreover have "\<not> before (slot_record page k) (slot_record page (unat part))" if "unat gt \<le> k" "k < unat q" for k
      using that q(4) True by (cases "k = unat gt") auto
    ultimately show ?thesis using q by auto
  next
    case False
    then have "skip_after before page gt part = Inr gt"
      using live_rangeD [OF 1(2,3), of gt] live_rangeD [OF 1(2,3), of part] 1(4)
      by (subst skip_after.simps) (auto simp: word_less_nat_alt)
    then show ?thesis using False 1(4) by auto
  qed
qed

lemma live_range_perm:
  assumes "live_range page l r" "perm_in l' r' (page_records page) (page_records page')" "l \<le> l'" "r' \<le> r" "l' \<le> r'"
  shows "live_range page' l r"
proof -
  have n: "num_slots page' = num_slots page" using perm_in_length [OF assms(2)] by simp
  have "page_records page' ! k \<noteq> None" if "l \<le> k" "k < r" for k
  proof (cases "l' \<le> k \<and> k < r'")
    case True
    then show ?thesis using perm_in_all [OF assms(2,5), of "\<lambda>x. x \<noteq> None" k] assms(1,3,4) by (auto simp: live_range_def)
  next
    case False
    then show ?thesis using assms(1,2) that by (auto simp: live_range_def perm_in_def not_le not_less)
  qed
  then show ?thesis using assms(1) n by (simp add: live_range_def)
qed

text \<open>The second loop of the partition, from the first record that does not come before the pivot.\<close>

definition partitioned :: "(byte list \<Rightarrow> byte list \<Rightarrow> bool) \<Rightarrow> FullPage \<Rightarrow> nat \<Rightarrow> nat \<Rightarrow> nat \<Rightarrow> bool" where
  "partitioned before page l m part \<longleftrightarrow>
     (\<forall>k. l \<le> k \<longrightarrow> k < m \<longrightarrow> before (slot_record page k) (slot_record page part)) \<and>
     (\<forall>k. m \<le> k \<longrightarrow> k < part \<longrightarrow> \<not> before (slot_record page k) (slot_record page part))"

lemma move_before_ok:
  assumes "page_ok limit page" "live_range page (unat gt) (Suc (unat part))" "unat gt \<le> unat lt" "unat lt \<le> unat part"
    and "\<And>k. unat gt \<le> k \<Longrightarrow> k < unat lt \<Longrightarrow> \<not> before (slot_record page k) (slot_record page (unat part))"
  shows "\<exists>page' m. move_before before page lt gt part = Inr (page', m) \<and> page_ok limit page' \<and> GetNumTuples page' = GetNumTuples page \<and>
    perm_in (unat gt) (unat part) (page_records page) (page_records page') \<and> unat gt \<le> unat m \<and> unat m \<le> unat part \<and>
    partitioned before page' (unat gt) (unat m) (unat part)"
  using assms
proof (induction before page lt gt part rule: move_before.induct)
  case (1 before page lt gt part)
  note ok = 1(3) and lv = 1(4) and gl = 1(5,6) and after = 1(7)
  have n: "unat part < num_slots page" using lv by (simp add: live_range_def)
  show ?case
  proof (cases "lt < part")
    case False
    then have e: "unat lt = unat part" using gl by (simp add: word_less_nat_alt)
    have "move_before before page lt gt part = Inr (page, gt)" using False by (subst move_before.simps) simp
    then show ?thesis using ok gl after e by (auto simp: partitioned_def)
  next
    case True
    obtain q where q: "skip_after before page lt part = Inr q" "unat lt \<le> unat q" "unat q \<le> unat part"
      "\<forall>k. unat lt \<le> k \<longrightarrow> k < unat q \<longrightarrow> \<not> before (slot_record page k) (slot_record page (unat part))"
      "q < part \<longrightarrow> before (slot_record page (unat q)) (slot_record page (unat part))"
      using skip_after_ok [OF ok live_range_sub [OF lv gl(1) order_refl] gl(2)] by blast
    have after': "\<not> before (slot_record page k) (slot_record page (unat part))" if "unat gt \<le> k" "k < unat q" for k
      using that after q(4) by (metis leI)
    show ?thesis
    proof (cases "q < part")
      case False
      then have "move_before before page lt gt part = move_before before page q gt part"
        using True q(1) by (subst move_before.simps) simp
      then show ?thesis using 1(2) [OF True q(1) False ok lv _ q(3)] after' gl q(2) by auto
    next
      case less: True
      then have qp: "unat q < unat part" by (simp add: word_less_nat_alt)
      let ?xs = "page_records page"
      obtain page1 where p1: "SwapSlots page q gt = Inr page1" "page_ok limit page1" "GetNumTuples page1 = GetNumTuples page"
        "page_records page1 = ?xs[unat q := ?xs ! unat gt, unat gt := ?xs ! unat q]"
        using SwapSlots_ok [OF ok, of q gt] qp n gl q(2) by auto
      have run: "move_before before page lt gt part = move_before before page1 (q + 1) (gt + 1) part"
        using True q(1) less p1(1) by (subst move_before.simps) simp
      have "gt < part" using qp gl q(2) by (simp add: word_less_nat_alt)
      then have s: "unat (gt + 1) = Suc (unat gt)" "unat (q + 1) = Suc (unat q)" using slot_succ less by auto
      have perm1: "perm_in (unat gt) (unat part) ?xs (page_records page1)"
        unfolding p1(4) using qp n gl q(2) by (intro perm_in_swap) auto
      have n1: "num_slots page1 = num_slots page" using arg_cong [OF p1(4), of length] by simp
      have piv: "slot_record page1 (unat part) = slot_record page (unat part)"
        using qp gl q(2) by (simp add: p1(4))
      have lv1: "live_range page1 (unat gt) (Suc (unat part))"
        using qp gl q(2) by (intro live_range_perm [OF lv perm1]) auto
      have "\<exists>page' m. move_before before page1 (q + 1) (gt + 1) part = Inr (page', m) \<and> page_ok limit page' \<and>
          GetNumTuples page' = GetNumTuples page1 \<and>
          perm_in (unat (gt + 1)) (unat part) (page_records page1) (page_records page') \<and> unat (gt + 1) \<le> unat m \<and> unat m \<le> unat part \<and>
          partitioned before page' (unat (gt + 1)) (unat m) (unat part)"
      proof (rule 1(1) [OF True q(1) less p1(1,2)])
        show "live_range page1 (unat (gt + 1)) (Suc (unat part))" using live_range_sub [OF lv1] s by simp
        show "unat (gt + 1) \<le> unat (q + 1)" "unat (q + 1) \<le> unat part" using s gl q(2) qp by auto
        show "\<not> before (slot_record page1 k) (slot_record page1 (unat part))" if "unat (gt + 1) \<le> k" "k < unat (q + 1)" for k
          unfolding piv using that s gl q(2) qp n after' [of k] after' [of "unat gt"]
          by (cases "k = unat q") (auto simp: p1(4) nth_list_update)
      qed
      then obtain page' m where m: "move_before before page1 (q + 1) (gt + 1) part = Inr (page', m)" "page_ok limit page'"
        "GetNumTuples page' = GetNumTuples page1" "perm_in (Suc (unat gt)) (unat part) (page_records page1) (page_records page')"
        "Suc (unat gt) \<le> unat m" "unat m \<le> unat part" "partitioned before page' (Suc (unat gt)) (unat m) (unat part)"
        using s(1) by auto
      have "page_records page' ! unat gt = ?xs ! unat q" "slot_record page' (unat part) = slot_record page (unat part)"
        using m(4) n n1 gl q(2) qp piv by (auto simp: perm_in_def p1(4) nth_list_update)
      then have first: "before (slot_record page' (unat gt)) (slot_record page' (unat part))" using q(5) less by simp
      have "partitioned before page' (unat gt) (unat m) (unat part)"
        using m(7) first unfolding partitioned_def by (metis Suc_leI le_neq_implies_less)
      then show ?thesis using run m(1-3,5,6) p1(3) perm_in_trans(1) [OF perm1 m(4)] by auto
    qed
  qed
qed

section \<open>Sorting\<close>

definition strict_weak :: "('a \<Rightarrow> 'a \<Rightarrow> bool) \<Rightarrow> bool" where
  "strict_weak before \<longleftrightarrow> (\<forall>a b. before a b \<longrightarrow> \<not> before b a) \<and>
     (\<forall>a b c. \<not> before b a \<longrightarrow> \<not> before c b \<longrightarrow> \<not> before c a)"

definition sorted_records :: "(byte list \<Rightarrow> byte list \<Rightarrow> bool) \<Rightarrow> byte list option list \<Rightarrow> bool" where
  "sorted_records before rs \<longleftrightarrow> sorted_wrt (\<lambda>a b. \<not> before (the b) (the a)) rs"

lemma sorted_join:
  assumes sw: "strict_weak before" and "sorted_records before xs" "sorted_records before ys"
    and "\<And>x. x \<in> set xs \<Longrightarrow> before (the x) (the p)" "\<And>y. y \<in> set ys \<Longrightarrow> \<not> before (the y) (the p)"
  shows "sorted_records before (xs @ p # ys)"
proof -
  have "\<not> before (the p) (the x)" if "x \<in> set xs" for x using sw assms(4) [OF that] unfolding strict_weak_def by blast
  moreover from this have "\<not> before (the y) (the x)" if "x \<in> set xs" "y \<in> set ys" for x y
    using sw assms(5) [OF that(2)] that(1) unfolding strict_weak_def by blast
  ultimately show ?thesis using assms(2,3,5) by (auto simp: sorted_records_def sorted_wrt_append)
qed

text \<open>One partition step: everything before the final place of the pivot comes before it, nothing after it does.\<close>

definition pivoted :: "(byte list \<Rightarrow> byte list \<Rightarrow> bool) \<Rightarrow> FullPage \<Rightarrow> nat \<Rightarrow> nat \<Rightarrow> nat \<Rightarrow> bool" where
  "pivoted before page l m r \<longleftrightarrow>
     (\<forall>k. l \<le> k \<longrightarrow> k < m \<longrightarrow> before (slot_record page k) (slot_record page m)) \<and>
     (\<forall>k. m < k \<longrightarrow> k < r \<longrightarrow> \<not> before (slot_record page k) (slot_record page m))"

lemma swap_pivot:
  assumes ok: "page_ok limit page" and n: "unat part < num_slots page" and m: "l \<le> unat m" "unat m \<le> unat part"
    and p: "partitioned before page l (unat m) (unat part)"
  shows "\<exists>page'. SwapSlots page m part = Inr page' \<and> page_ok limit page' \<and> GetNumTuples page' = GetNumTuples page \<and>
    perm_in l (Suc (unat part)) (page_records page) (page_records page') \<and> pivoted before page' l (unat m) (Suc (unat part))"
proof -
  let ?m = "unat m" and ?q = "unat part"
  obtain page' where s: "SwapSlots page m part = Inr page'" "page_ok limit page'" "GetNumTuples page' = GetNumTuples page"
    "page_records page' = (page_records page)[?m := page_records page ! ?q, ?q := page_records page ! ?m]"
    using SwapSlots_ok [OF ok, of m part] n m by auto
  have piv: "slot_record page' ?m = slot_record page ?q"
    using m n by (cases "?m = ?q") (auto simp: s(4) nth_list_update)
  have "before (slot_record page' k) (slot_record page' ?m)" if "l \<le> k" "k < ?m" for k
    using p that m unfolding piv by (simp add: partitioned_def s(4) nth_list_update)
  moreover have "\<not> before (slot_record page' k) (slot_record page' ?m)" if "?m < k" "k < Suc ?q" for k
    using p that n unfolding piv by (cases "k = ?q") (auto simp: partitioned_def s(4) nth_list_update)
  moreover have "perm_in l (Suc ?q) (page_records page) (page_records page')"
    unfolding s(4) using m n by (intro perm_in_swap) auto
  ultimately show ?thesis using s by (auto simp: pivoted_def)
qed

lemma partition_ok:
  assumes ok: "page_ok limit page" and lv: "live_range page (unat left) (Suc (unat part))" and lp: "unat left \<le> unat part"
  shows "\<exists>gt page1 m page2. skip_before before page left part = Inr gt \<and> move_before before page gt gt part = Inr (page1, m) \<and>
    SwapSlots page1 m part = Inr page2 \<and> page_ok limit page2 \<and> GetNumTuples page2 = GetNumTuples page \<and>
    perm_in (unat left) (Suc (unat part)) (page_records page) (page_records page2) \<and> unat left \<le> unat m \<and> unat m \<le> unat part \<and>
    pivoted before page2 (unat left) (unat m) (Suc (unat part))"
proof -
  let ?l = "unat left" and ?q = "unat part"
  have n: "?q < num_slots page" using lv by (simp add: live_range_def)
  obtain gt where g: "skip_before before page left part = Inr gt" "?l \<le> unat gt" "unat gt \<le> ?q"
    "\<forall>k. ?l \<le> k \<longrightarrow> k < unat gt \<longrightarrow> before (slot_record page k) (slot_record page ?q)"
    using skip_before_ok [OF ok lv lp] by blast
  obtain page1 m where m: "move_before before page gt gt part = Inr (page1, m)" "page_ok limit page1" "GetNumTuples page1 = GetNumTuples page"
    "perm_in (unat gt) ?q (page_records page) (page_records page1)" "unat gt \<le> unat m" "unat m \<le> ?q"
    "partitioned before page1 (unat gt) (unat m) ?q"
    using move_before_ok [OF ok, of gt part gt before] live_range_sub [OF lv g(2)] g(3) by auto
  have eq: "page_records page1 ! k = page_records page ! k" if "k < unat gt \<or> k = ?q" for k
    using m(4) n g(3) that by (auto simp: perm_in_def)
  have "before (slot_record page1 k) (slot_record page1 ?q)" if "?l \<le> k" "k < unat m" for k
    using m(7) g(4) that eq [of k] eq [of ?q] by (cases "k < unat gt") (auto simp: partitioned_def)
  then have "partitioned before page1 ?l (unat m) ?q" using m(7) by (simp add: partitioned_def)
  moreover have "?q < num_slots page1" using perm_in_length [OF m(4)] n by simp
  moreover have "?l \<le> unat m" using g(2) m(5) by simp
  ultimately obtain page2 where "SwapSlots page1 m part = Inr page2" "page_ok limit page2" "GetNumTuples page2 = GetNumTuples page1"
    "perm_in ?l (Suc ?q) (page_records page1) (page_records page2)" "pivoted before page2 ?l (unat m) (Suc ?q)"
    using swap_pivot [OF m(2) _ _ m(6)] by blast
  then show ?thesis using g m perm_in_trans(2) [OF m(4), of ?l "Suc ?q" "page_records page2"] by auto
qed

text \<open>Sorting both sides of the pivot keeps the pivot in place and each side on its side.\<close>

lemma sorted_sides:
  assumes piv: "pivoted before page2 l m r" and lmr: "l \<le> m" "m < r" "r \<le> num_slots page2"
    and p3: "perm_in l m (page_records page2) (page_records page3)" and p4: "perm_in (Suc m) r (page_records page3) (page_records page4)"
    and sw: "strict_weak before" and s: "sorted_records before (segment l m (page_records page3))"
      "sorted_records before (segment (Suc m) r (page_records page4))"
  shows "sorted_records before (segment l r (page_records page4))"
proof -
  have n: "num_slots page3 = num_slots page2" "num_slots page4 = num_slots page2"
    using perm_in_length [OF p3] perm_in_length [OF p4] by simp_all
  have eq: "page_records page4 ! k = page_records page3 ! k" if "k \<le> m" for k
    using that p4 n lmr by (simp add: perm_in_def)
  have pivot: "page_records page4 ! m = page_records page2 ! m"
    using eq [of m] p3 n lmr by (simp add: perm_in_def)
  have left_part: "segment l m (page_records page4) = segment l m (page_records page3)"
    using eq n lmr by (intro nth_equalityI) auto
  have b4: "before (the x) (the (page_records page4 ! m))" if "x \<in> set (segment l m (page_records page4))" for x
    using that perm_in_all [OF p3 lmr(1), of "\<lambda>x. before (the x) (slot_record page2 m)"] piv lmr n
    unfolding left_part pivot by (auto simp: set_segment pivoted_def)
  have "\<not> before (slot_record page3 k) (slot_record page2 m)" if "Suc m \<le> k" "k < r" for k
    using piv p3 that n lmr by (auto simp: perm_in_def pivoted_def)
  then have a4: "\<not> before (the x) (the (page_records page4 ! m))" if "x \<in> set (segment (Suc m) r (page_records page4))" for x
    using that perm_in_all [OF p4, of "\<lambda>x. \<not> before (the x) (slot_record page2 m)"] lmr n
    unfolding pivot by (auto simp: set_segment)
  have "segment l r (page_records page4) = segment l m (page_records page4) @ page_records page4 ! m # segment (Suc m) r (page_records page4)"
    using lmr n by (intro segment_split) simp_all
  then show ?thesis using sorted_join [OF sw] s b4 a4 left_part by simp
qed

lemma sort_range_ok:
  assumes "page_ok limit page" "live_range page (unat left) (unat right)" "unat left \<le> unat right"
  shows "\<exists>page'. sort_range before page left right = Inr page' \<and> page_ok limit page' \<and> GetNumTuples page' = GetNumTuples page \<and>
    perm_in (unat left) (unat right) (page_records page) (page_records page') \<and>
    (strict_weak before \<longrightarrow> sorted_records before (segment (unat left) (unat right) (page_records page')))"
  using assms
proof (induction "unat right - unat left" arbitrary: page left right rule: less_induct)
  case less
  note ok = less(2) and lv = less(3)
  let ?l = "unat left" and ?r = "unat right"
  have n: "?r \<le> num_slots page" using lv by (simp add: live_range_def)
  show ?case
  proof (cases "?r - ?l \<le> 1")
    case True
    then have "int ?r - int ?l \<le> 1" using less(4) by linarith
    then have "sort_range before page left right = Inr page" by (subst sort_range.simps) (rule if_P)
    moreover have "length (segment ?l ?r (page_records page)) \<le> 1" using True n by simp
    then have "sorted_records before (segment ?l ?r (page_records page))"
      by (cases "segment ?l ?r (page_records page)") (auto simp: sorted_records_def)
    ultimately show ?thesis using ok by simp
  next
    case False
    define part where "part = right - 1"
    have part: "Suc (unat part) = ?r" "?l \<le> unat part" using False by (simp_all add: part_def unat_sub word_le_nat_alt)
    obtain gt page1 m page2 where p: "skip_before before page left part = Inr gt" "move_before before page gt gt part = Inr (page1, m)"
      "SwapSlots page1 m part = Inr page2" and p2: "page_ok limit page2" "GetNumTuples page2 = GetNumTuples page"
      "perm_in ?l ?r (page_records page) (page_records page2)" "?l \<le> unat m" "unat m \<le> unat part" "pivoted before page2 ?l (unat m) ?r"
      using partition_ok [OF ok, of left part before] lv part by auto
    let ?m = "unat m"
    have mr: "?m < ?r" using p2(5) part(1) by simp
    have lv2: "live_range page2 ?l ?r" using live_range_perm [OF lv p2(3)] less(4) by simp
    obtain page3 where p3: "sort_range before page2 left m = Inr page3" "page_ok limit page3" "GetNumTuples page3 = GetNumTuples page2"
      "perm_in ?l ?m (page_records page2) (page_records page3)"
      "strict_weak before \<longrightarrow> sorted_records before (segment ?l ?m (page_records page3))"
      using less(1) [OF _ p2(1) live_range_sub [OF lv2 order_refl] p2(4)] mr p2(4) by (metis diff_less_mono less_imp_le)
    have sm: "unat (m + 1) = Suc ?m" using slot_succ [of m right] mr by (simp add: word_less_nat_alt)
    have lv3: "live_range page3 ?l ?r" using live_range_perm [OF lv2 p3(4)] mr p2(4) by simp
    have dec: "?r - Suc ?m < ?r - ?l" using mr p2(4) by linarith
    obtain page4 where p4: "sort_range before page3 (m + 1) right = Inr page4" "page_ok limit page4" "GetNumTuples page4 = GetNumTuples page3"
      "perm_in (Suc ?m) ?r (page_records page3) (page_records page4)"
      "strict_weak before \<longrightarrow> sorted_records before (segment (Suc ?m) ?r (page_records page4))"
      using less(1) [of right "m + 1" page3, unfolded sm, OF dec p3(2) live_range_sub [OF lv3 _ order_refl]] mr p2(4) by auto
    have "\<not> int ?r - int ?l \<le> 1" using False less(4) by linarith
    then have run: "sort_range before page left right = Inr page4"
      by (subst sort_range.simps) (simp only: if_False part_def [symmetric] Let_def p p3(1) p4(1) andthen_simps prod.case)
    have "perm_in ?l ?r (page_records page) (page_records page4)"
      using perm_in_trans(1) [OF perm_in_trans(1) [OF p2(3) p3(4)] p4(4)] mr p2(4) by simp
    moreover have "num_slots page2 = num_slots page" using perm_in_length [OF p2(3)] by simp
    then have "strict_weak before \<longrightarrow> sorted_records before (segment ?l ?r (page_records page4))"
      using sorted_sides [OF p2(6,4) mr _ p3(4) p4(4)] p3(5) p4(5) n by simp
    ultimately show ?thesis using run p4(2,3) p3(3) p2(2) by auto
  qed
qed

section \<open>Claims\<close>

text \<open>
  C16: \<open>SortPageInPlace\<close> ends on every well-formed page and for every comparison function, and keeps
  the page well formed: its live records become the first slots, permuted, followed by the deleted
  slots. When the comparison is a strict weak order the records are sorted by it.
\<close>

theorem SortPageInPlace_correct:
  assumes "page_ok limit page"
  shows "\<exists>page' rs. SortPageInPlace before page = Inr page' \<and> page_ok limit page' \<and>
    page_records page' = map Some rs @ replicate (length (page_records page) - length rs) None \<and>
    mset rs = mset (map the (filter (\<lambda>r. r \<noteq> None) (page_records page))) \<and>
    (strict_weak before \<longrightarrow> sorted_wrt (\<lambda>a b. \<not> before b a) rs)"
proof -
  let ?live = "live (page_records page)" and ?n = "num_slots page"
  obtain page1 where p1: "ShiftSlotsLeft page = Inr page1" "page_ok limit page1" "GetNumTuples page1 = GetNumTuples page"
    "page_records page1 = ?live @ replicate (?n - length ?live) None"
    using ShiftSlotsLeft_ok [OF assms] by blast
  let ?k = "length ?live"
  have k: "unat (GetNumTuples page1) = ?k" using p1(3) num_tuples_live [OF assms] by simp
  have n1: "num_slots page1 = ?n" and kn: "?k \<le> ?n" using arg_cong [OF p1(4), of length] length_filter_le [of _ "page_records page"] by auto
  have "live_range page1 0 ?k"
    using kn n1 nth_mem [of _ ?live] by (auto simp: live_range_def p1(4) nth_append)
  then obtain page2 where p2: "sort_range before page1 0 (GetNumTuples page1) = Inr page2" "page_ok limit page2"
    "perm_in 0 ?k (page_records page1) (page_records page2)"
    "strict_weak before \<longrightarrow> sorted_records before (segment 0 ?k (page_records page2))"
    using sort_range_ok [OF p1(2), of 0 "GetNumTuples page1" before] k by auto
  define rs where "rs = map the (segment 0 ?k (page_records page2))"
  have n2: "num_slots page2 = ?n" using perm_in_length [OF p2(3)] n1 by simp
  have seg: "mset (segment 0 ?k (page_records page2)) = mset ?live"
    using perm_in_segment [OF p2(3)] kn n1 by (simp add: segment_def p1(4))
  have "map Some rs = segment 0 ?k (page_records page2)"
    unfolding rs_def map_map using mset_eq_setD [OF seg] by (intro map_idI) auto
  moreover have "page_records page2 = segment 0 ?k (page_records page2) @ replicate (?n - ?k) None"
    using p2(3) n1 n2 kn by (intro nth_equalityI) (auto simp: perm_in_def nth_append p1(4))
  ultimately have "page_records page2 = map Some rs @ replicate (length (page_records page) - length rs) None"
    using n2 kn by (simp add: rs_def)
  moreover have "mset rs = mset (map the ?live)" unfolding rs_def mset_map seg ..
  moreover have "strict_weak before \<longrightarrow> sorted_wrt (\<lambda>a b. \<not> before b a) rs"
    using p2(4) by (simp add: rs_def sorted_records_def sorted_wrt_map)
  ultimately show ?thesis using p1(1) p2(1,2) by (auto simp: SortPageInPlace_def)
qed

theorem SortPageInPlace_correct_witness:
  "\<exists>page page'. page_records page = [Some [2, 2], Some [1]] \<and>
     SortPageInPlace (\<lambda>a b. length a < length b) page = Inr page' \<and> page_records page' = [Some [1], Some [2, 2]]"
proof -
  let ?before = "\<lambda>a b :: byte list. length a < length b"
  obtain page0 where p0: "page_ok 4096 page0" "page_records page0 = [Some [2, 2]]" "free_end page0 - free_start page0 = 4074"
    using store_record_fits [OF empty_page_ok(1), of "[2, 2]"] by (auto simp: empty_page_ok)
  obtain page where p: "page_ok 4096 page" "page_records page = [Some [2, 2], Some [1]]"
    using store_record_fits [OF p0(1), of "[1]"] p0(2,3) by auto
  have "strict_weak ?before" by (auto simp: strict_weak_def)
  then obtain page' rs where r: "SortPageInPlace ?before page = Inr page'"
    "page_records page' = map Some rs @ replicate (2 - length rs) None"
    "mset rs = {#[2, 2], [1]#}" "sorted_wrt (\<lambda>a b. \<not> ?before b a) rs"
    using SortPageInPlace_correct [OF p(1), of ?before] by (auto simp: p(2) numeral_2_eq_2)
  have "length rs = 2" using arg_cong [OF r(3), of size] by simp
  then obtain x y where rs: "rs = [x, y]" by (auto simp: numeral_2_eq_2 length_Suc_conv)
  then have "x = [1] \<and> y = [2, 2]" using r(3,4) by (auto simp: add_eq_conv_ex)
  then show ?thesis using p(2) r(1,2) rs by auto
qed

end
