(* ===== verification/Row_Format.thy ===== *)
theory Row_Format
  imports Datatypes
begin

text \<open>
  Rows (\<open>row_builder.cpp\<close>, \<open>row_reader.cpp\<close>, \<open>TableHandle::BuildRow\<close>): a row is the concatenation of
  the encodings of its values. \<open>RowBuilder\<close> appends to a growing heap block, \<open>RowReader\<close> finds a value
  by walking the encodings before it, \<open>BuildRow\<close> checks the values against the schema.

  The heap is the parameter \<open>env\<close>: which allocations succeed, and what bytes fresh memory holds.
\<close>

section \<open>Schemas\<close>

record RelationAttribute =
  ra_name :: string
  ra_type :: TypeId

type_synonym Schema = "RelationAttribute list"

section \<open>RowBuilder\<close>

record heap_env =
  env_ok :: "nat \<Rightarrow> bool"
  env_fresh :: "nat \<Rightarrow> byte"

definition malloc :: "heap_env \<Rightarrow> nat \<Rightarrow> byte list option" where
  "malloc env n = (if env_ok env n then Some (map (env_fresh env) [0..<n]) else None)"

definition realloc :: "heap_env \<Rightarrow> byte list \<Rightarrow> nat \<Rightarrow> byte list option" where
  "realloc env block n =
     (if env_ok env n then Some (take n block @ map (env_fresh env) [length block..<n]) else None)"

record RowBuilder =
  size_m :: nat
  capacity_m :: nat
  data_m :: "byte list option"

definition RowBuilder_empty :: RowBuilder where
  "RowBuilder_empty = \<lparr>size_m = 0, capacity_m = 0, data_m = None\<rparr>"

text \<open>Move construction: the new builder takes the block, the source is left empty.\<close>

definition RowBuilder_move :: "RowBuilder \<Rightarrow> RowBuilder \<times> RowBuilder" where
  "RowBuilder_move other =
     (\<lparr>size_m = size_m other, capacity_m = capacity_m other, data_m = data_m other\<rparr>,
      other\<lparr>size_m := 0, capacity_m := 0, data_m := None\<rparr>)"

text \<open>Move assignment frees the block the target had; assigning a builder to itself does nothing.\<close>

definition RowBuilder_assign :: "bool \<Rightarrow> RowBuilder \<Rightarrow> RowBuilder \<Rightarrow> RowBuilder \<times> RowBuilder" where
  "RowBuilder_assign same_object this other =
     (if same_object then (this, this)
      else (\<lparr>size_m = size_m other, capacity_m = capacity_m other, data_m = data_m other\<rparr>,
        other\<lparr>size_m := 0, capacity_m := 0, data_m := None\<rparr>))"

definition AllocateSpace :: "heap_env \<Rightarrow> RowBuilder \<Rightarrow> nat \<Rightarrow> RowBuilder outcome" where
  "AllocateSpace env rb sz =
     (if sz \<le> capacity_m rb then Inr rb
      else
        let new_data = (case data_m rb of None \<Rightarrow> malloc env sz | Some d \<Rightarrow> realloc env d sz);
            rb = rb\<lparr>capacity_m := sz\<rparr>
        in case new_data of
             None \<Rightarrow> Inl BadAlloc
           | Some d \<Rightarrow> Inr (rb\<lparr>data_m := Some d\<rparr>))"

text \<open>The bytes behind \<open>data_m\<close>; a null pointer has none.\<close>

definition block :: "RowBuilder \<Rightarrow> byte list" where
  "block rb = (case data_m rb of None \<Rightarrow> [] | Some d \<Rightarrow> d)"

definition Push :: "heap_env \<Rightarrow> RowBuilder \<Rightarrow> Value \<Rightarrow> RowBuilder outcome" where
  "Push env rb v =
     (let required_size = size_m rb + serialized_size v
      in andthen (if required_size > capacity_m rb then AllocateSpace env rb required_size else Inr rb) (\<lambda>rb.
         case to_bytes v (drop (size_m rb) (block rb)) of
           Inl _ \<Rightarrow> Inl RuntimeError
         | Inr buffer \<Rightarrow>
             Inr (rb\<lparr>data_m := Some (take (size_m rb) (block rb) @ buffer), size_m := required_size\<rparr>)))"

definition Data :: "RowBuilder \<Rightarrow> byte list" where
  "Data rb = take (size_m rb) (block rb)"

definition BuildRow :: "heap_env \<Rightarrow> Schema \<Rightarrow> Value list \<Rightarrow> RowBuilder outcome" where
  "BuildRow env schema vals =
     (if length vals \<noteq> length schema then Inl RuntimeError
      else for_each (\<lambda>i rb.
             let expected_type = ra_type (schema ! i); actual_type = TypeOf (vals ! i)
             in if actual_type \<noteq> expected_type then Inl RuntimeError else Push env rb (vals ! i))
           [0..<length vals] RowBuilder_empty)"

section \<open>RowReader\<close>

definition read_size :: "TypeId \<Rightarrow> byte list \<Rightarrow> nat outcome" where
  "read_size i buffer =
     andthen (dispatch_type i (\<lambda>t. serialized_size_at t buffer)) (\<lambda>r.
     case r of Inl _ \<Rightarrow> Inl AssertionFailed | Inr n \<Rightarrow> Inr n)"

definition read_value :: "TypeId \<Rightarrow> byte list \<Rightarrow> Value outcome" where
  "read_value i buffer =
     andthen (dispatch_type i (\<lambda>t. from_bytes t buffer)) (\<lambda>r.
     case r of Inl _ \<Rightarrow> Inl AssertionFailed | Inr v \<Rightarrow> Inr v)"

text \<open>\<open>data_m.subspan(offset)\<close> is undefined past the end of the row.\<close>

definition SizeAt :: "byte list \<Rightarrow> TypeId \<Rightarrow> nat \<Rightarrow> nat outcome" where
  "SizeAt data i off =
     andthen (dispatch_type i (\<lambda>t.
       if length data < off then Inl Undefined
       else case serialized_size_at t (drop off data) of Inl _ \<Rightarrow> Inl AssertionFailed | Inr n \<Rightarrow> Inr n))
     (\<lambda>r. r)"

definition CalculateOffset :: "byte list \<Rightarrow> Schema \<Rightarrow> nat \<Rightarrow> nat outcome" where
  "CalculateOffset data schema pos =
     andthen (YADB_ASSERT (pos < length schema)) (\<lambda>_.
     for_each (\<lambda>attr off. andthen (SizeAt data (ra_type attr) off) (\<lambda>n. Inr (off + n))) (take pos schema) 0)"

definition GetOffset :: "byte list \<Rightarrow> Schema \<Rightarrow> nat \<Rightarrow> nat outcome" where
  "GetOffset data schema pos = CalculateOffset data schema pos"

definition GetSize :: "byte list \<Rightarrow> Schema \<Rightarrow> nat \<Rightarrow> nat outcome" where
  "GetSize data schema pos =
     andthen (YADB_ASSERT (pos < length schema)) (\<lambda>_.
     andthen (CalculateOffset data schema pos) (\<lambda>off. SizeAt data (ra_type (schema ! pos)) off))"

definition Get :: "DataType \<Rightarrow> byte list \<Rightarrow> Schema \<Rightarrow> nat \<Rightarrow> Value outcome" where
  "Get t data schema pos =
     (if length schema \<le> pos then Inl Undefined
      else
        andthen (YADB_ASSERT (type_id t = ra_type (schema ! pos))) (\<lambda>_.
        andthen (CalculateOffset data schema pos) (\<lambda>off.
        if length data < off then Inl Undefined
        else case from_bytes t (drop off data) of Inl _ \<Rightarrow> Inl AssertionFailed | Inr v \<Rightarrow> Inr v)))"

definition GetValue :: "byte list \<Rightarrow> Schema \<Rightarrow> nat \<Rightarrow> Value outcome" where
  "GetValue data schema pos =
     (if length schema \<le> pos then Inl Undefined
      else andthen (dispatch_type (ra_type (schema ! pos)) (\<lambda>t. Get t data schema pos)) (\<lambda>r. r))"

section \<open>Building\<close>

text \<open>The builder's invariant: what it holds is \<open>bs\<close>, inside a block of its capacity.\<close>

definition holds :: "RowBuilder \<Rightarrow> byte list \<Rightarrow> bool" where
  "holds rb bs \<longleftrightarrow> Data rb = bs \<and> size_m rb \<le> capacity_m rb \<and> capacity_m rb = length (block rb)"

lemma holds_empty [simp]: "holds RowBuilder_empty []"
  by (simp add: holds_def Data_def RowBuilder_empty_def block_def)

lemma holds_move:
  "holds rb bs \<Longrightarrow> holds (fst (RowBuilder_move rb)) bs \<and> holds (snd (RowBuilder_move rb)) []"
  by (simp add: holds_def Data_def RowBuilder_move_def block_def)

lemma AllocateSpace_holds:
  assumes "holds rb bs" and "env_ok env sz"
  shows "\<exists>rb'. AllocateSpace env rb sz = Inr rb' \<and> holds rb' bs \<and> sz \<le> capacity_m rb' \<and> size_m rb' = size_m rb"
proof (cases "sz \<le> capacity_m rb")
  case False
  then show ?thesis using assms
    by (cases "data_m rb")
      (auto simp: AllocateSpace_def holds_def Data_def block_def malloc_def realloc_def Let_def)
qed (use assms in \<open>simp add: AllocateSpace_def\<close>)

lemma Push_holds:
  assumes h: "holds rb bs" and env: "env_ok env (size_m rb + serialized_size v)"
  shows "if storable v then \<exists>rb'. Push env rb v = Inr rb' \<and> holds rb' (bs @ encode v)
    else Push env rb v = Inl RuntimeError"
proof -
  obtain rb1 where r: "(if size_m rb + serialized_size v > capacity_m rb
      then AllocateSpace env rb (size_m rb + serialized_size v) else Inr rb) = Inr rb1"
    and h1: "holds rb1 bs" "size_m rb + serialized_size v \<le> capacity_m rb1" "size_m rb1 = size_m rb"
  proof (cases "size_m rb + serialized_size v > capacity_m rb")
    case True
    then show thesis using AllocateSpace_holds [OF h env] that by force
  next
    case False
    then show thesis using h that [of rb] by simp
  qed
  have cap: "size_m rb \<le> length (block rb1)" "serialized_size v \<le> length (block rb1) - size_m rb"
    and bs: "take (size_m rb) (block rb1) = bs"
    using h1 by (simp_all add: holds_def Data_def)
  show ?thesis
  proof (cases "storable v")
    case True
    let ?d = "bs @ encode v @ drop (serialized_size v) (drop (size_m rb) (block rb1))"
    have "Push env rb v = Inr (rb1\<lparr>data_m := Some ?d, size_m := size_m rb + serialized_size v\<rparr>)"
      using r h1(3) cap bs True by (simp add: Push_def to_bytes_eq)
    moreover have "length bs = size_m rb" using arg_cong [OF bs, of length] cap(1) by simp
    then have "holds (rb1\<lparr>data_m := Some ?d, size_m := size_m rb + serialized_size v\<rparr>) (bs @ encode v)"
      using cap h1(1,2) by (simp add: holds_def Data_def block_def)
    ultimately show ?thesis using True by auto
  next
    case False
    then show ?thesis using r h1(3) by (simp add: Push_def to_bytes_eq)
  qed
qed

text \<open>Every row within the limits of the schema and of memory is built.\<close>

definition fits_schema :: "Schema \<Rightarrow> Value list \<Rightarrow> bool" where
  "fits_schema schema vals \<longleftrightarrow> map TypeOf vals = map ra_type schema \<and> list_all storable vals"

lemma push_all:
  assumes "\<forall>n. env_ok env n" and "holds rb bs" and "length vals = length schema"
    and "n \<le> length vals"
  shows "let r = for_each (\<lambda>i rb.
       let expected_type = ra_type (schema ! i); actual_type = TypeOf (vals ! i)
       in if actual_type \<noteq> expected_type then Inl RuntimeError else Push env rb (vals ! i)) [n..<length vals] rb
     in if fits_schema (drop n schema) (drop n vals)
        then \<exists>rb'. r = Inr rb' \<and> holds rb' (bs @ concat (map encode (drop n vals)))
        else r = Inl RuntimeError"
  using assms(2,4)
proof (induction "length vals - n" arbitrary: n rb bs)
  case 0
  then show ?case using assms(3) by (simp add: fits_schema_def)
next
  case (Suc k)
  then have n: "n < length vals" "n < length schema" using assms(3) by auto
  have d: "drop n vals = vals ! n # drop (Suc n) vals" "drop n schema = schema ! n # drop (Suc n) schema"
    using n by (simp_all add: Cons_nth_drop_Suc)
  note p = Push_holds [OF Suc.prems(1), of env "vals ! n"]
  show ?case
  proof (cases "TypeOf (vals ! n) = ra_type (schema ! n) \<and> storable (vals ! n)")
    case True
    then obtain rb' where "Push env rb (vals ! n) = Inr rb'" "holds rb' (bs @ encode (vals ! n))"
      using p assms(1) by auto
    then show ?thesis
      using Suc.hyps(1) [of "Suc n" rb' "bs @ encode (vals ! n)"] Suc.hyps(2) n True
      by (auto simp: upt_conv_Cons d fits_schema_def Let_def)
  next
    case False
    then show ?thesis using p assms(1) n by (auto simp: upt_conv_Cons d fits_schema_def Let_def)
  qed
qed

lemma BuildRow_result:
  assumes "\<forall>n. env_ok env n"
  shows "if fits_schema schema vals
    then \<exists>rb. BuildRow env schema vals = Inr rb \<and> Data rb = concat (map encode vals)
    else BuildRow env schema vals = Inl RuntimeError"
proof (cases "length vals = length schema")
  case True
  then show ?thesis
    using push_all [OF assms holds_empty True, of 0] unfolding BuildRow_def Let_def
    by (auto simp: holds_def)
next
  case False
  then have "\<not> fits_schema schema vals" unfolding fits_schema_def by (metis length_map)
  then show ?thesis using False by (simp add: BuildRow_def)
qed

section \<open>Reading\<close>

lemma read_TypeOf:
  "read_size (TypeOf v) bs = (case serialized_size_at (alternative_of v) bs of
     Inl _ \<Rightarrow> Inl AssertionFailed | Inr n \<Rightarrow> Inr n)"
  "read_value (TypeOf v) bs = (case from_bytes (alternative_of v) bs of
     Inl _ \<Rightarrow> Inl AssertionFailed | Inr v \<Rightarrow> Inr v)"
  by (simp_all add: read_size_def read_value_def dispatch_valid)

lemma alternatives_type_id: "IsValidTypeId (uint i) \<Longrightarrow> type_id (alternatives ! unat i) = i"
proof -
  assume "IsValidTypeId (uint i)"
  then have "int (unat i) < 5" by (simp add: IsValidTypeId_def alternatives_def)
  then consider "unat i = 0" | "unat i = 1" | "unat i = 2" | "unat i = 3" | "unat i = 4" by linarith
  then show ?thesis by cases (simp_all add: alternatives_def word_unat_eq_iff)
qed

interpretation row_codec: tagged_codec encode TypeOf storable read_value read_size
proof unfold_locales
  show "read_value (TypeOf v) (encode v @ rest) = Inr v"
    and "read_size (TypeOf v) (encode v @ rest) = Inr (length (encode v))" if "storable v" for v rest
    using that by (simp_all add: read_TypeOf from_bytes_encode)
  show "storable v \<and> TypeOf v = i \<and> (\<exists>rest. bs = encode v @ rest)" if "read_value i bs = Inr v" for i bs v
  proof -
    have i: "IsValidTypeId (uint i)" and f: "from_bytes (alternatives ! unat i) bs = Inr v"
      using that by (auto simp: read_value_def dispatch_type_def andthen_eq_Inr outcome_simps split: sum.splits)
    show ?thesis
      using from_bytes_sound [OF f] alternatives_type_id [OF i] TypeOf_dispatch(3) [of v] by metis
  qed
qed

lemma SizeAt_eq:
  "IsValidTypeId (uint i) \<Longrightarrow>
     SizeAt data i off = (if length data < off then Inl Undefined else read_size i (drop off data))"
  by (simp add: SizeAt_def read_size_def dispatch_valid)

lemma for_each_map: "for_each f (map g xs) s = for_each (\<lambda>x. f (g x)) xs s"
  by (induction xs arbitrary: s) (simp_all add: andthen_def split: sum.splits)

lemma for_each_cong:
  "(\<And>x s. x \<in> set xs \<Longrightarrow> f x s = g x s) \<Longrightarrow> for_each f xs s = for_each g xs s"
  by (induction xs arbitrary: s) (simp_all add: andthen_def split: sum.splits)

lemma CalculateOffset_row:
  assumes fit: "fits_schema schema vals" and pos: "pos < length vals"
  shows "CalculateOffset (concat (map encode vals)) schema pos =
    Inr (length (concat (map encode (take pos vals))))"
proof -
  let ?data = "concat (map encode vals)"
  have t: "map ra_type schema = map TypeOf vals" and st: "list_all storable vals"
    using fit by (simp_all add: fits_schema_def)
  have valid: "IsValidTypeId (uint (ra_type a))" if "a \<in> set (take pos schema)" for a
  proof -
    have "ra_type a \<in> set (map TypeOf vals)" using that unfolding t [symmetric] by (auto dest: in_set_takeD)
    then show ?thesis by auto
  qed
  have "for_each (\<lambda>attr off. andthen (SizeAt ?data (ra_type attr) off) (\<lambda>n. Inr (off + n))) (take pos schema) 0 =
    for_each (\<lambda>i off. if length ?data < off then Inl Undefined
        else andthen (read_size i (drop off ?data)) (\<lambda>n. Inr (off + n))) (map ra_type (take pos schema)) 0"
    unfolding for_each_map using valid by (intro for_each_cong) (auto simp: SizeAt_eq)
  also have "\<dots> = Inr (length (concat (map encode (take pos vals))))"
    using row_codec.walk [OF st, of pos Undefined] pos by (simp add: take_map [symmetric] t)
  finally show ?thesis
    using pos arg_cong [OF t, of length] by (simp add: CalculateOffset_def)
qed

lemma row_prefix_le:
  "length (concat (map encode (take pos vals))) \<le> length (concat (map encode vals))"
proof -
  have "concat (map encode vals) = concat (map encode (take pos vals)) @ concat (map encode (drop pos vals))"
    by (simp flip: concat_append map_append)
  then show ?thesis by (metis length_append le_add1)
qed

lemma GetValue_row:
  assumes fit: "fits_schema schema vals" and pos: "pos < length vals"
  shows "GetValue (concat (map encode vals)) schema pos = Inr (vals ! pos)"
    and "GetSize (concat (map encode vals)) schema pos = Inr (serialized_size (vals ! pos))"
proof -
  let ?data = "concat (map encode vals)" and ?v = "vals ! pos"
  have t: "map ra_type schema = map TypeOf vals" and st: "list_all storable vals"
    using fit by (simp_all add: fits_schema_def)
  have n: "pos < length schema" using pos map_eq_imp_length_eq [OF t] by simp
  have ty: "ra_type (schema ! pos) = TypeOf ?v" using t pos n by (metis nth_map)
  note co = CalculateOffset_row [OF assms] and le = row_prefix_le [of pos vals]
  note d = row_codec.dec_nth [OF st pos]
  show "GetValue ?data schema pos = Inr ?v"
    using n ty co le d(1) by (simp add: GetValue_def Get_def dispatch_valid read_TypeOf split: sum.splits)
  show "GetSize ?data schema pos = Inr (serialized_size ?v)"
    using n ty co le d(2) by (simp add: GetSize_def SizeAt_eq)
qed

section \<open>Claims\<close>

text \<open>
  C17: a row holds the values it was built from. When memory suffices, \<open>BuildRow\<close> accepts exactly the
  value lists that match the schema in number and types and whose strings fit their length prefix;
  the row is as long as the sizes of its values, \<open>GetValue\<close> returns each of them, and \<open>GetOffset\<close> and
  \<open>GetSize\<close> cut the row into their encodings. Any other list raises a \<open>runtime_error\<close>.
\<close>

theorem BuildRow_roundtrip:
  assumes "\<forall>n. env_ok env n"
  shows "if fits_schema schema vals
    then \<exists>rb. BuildRow env schema vals = Inr rb \<and>
      length (Data rb) = sum_list (map serialized_size vals) \<and>
      (\<forall>pos < length vals. GetValue (Data rb) schema pos = Inr (vals ! pos) \<and>
         (\<exists>off. GetOffset (Data rb) schema pos = Inr off \<and>
            GetSize (Data rb) schema pos = Inr (serialized_size (vals ! pos)) \<and>
            mem_read off (serialized_size (vals ! pos)) (Data rb) = encode (vals ! pos)))
    else BuildRow env schema vals = Inl RuntimeError"
proof (cases "fits_schema schema vals")
  case True
  then obtain rb where rb: "BuildRow env schema vals = Inr rb" "Data rb = concat (map encode vals)"
    using BuildRow_result [OF assms, of schema vals] by auto
  have "length (Data rb) = sum_list (map serialized_size vals)"
    by (simp add: rb(2) length_concat comp_def)
  moreover have "mem_read (length (concat (map encode (take pos vals)))) (serialized_size (vals ! pos))
      (Data rb) = encode (vals ! pos)" if "pos < length vals" for pos
    using row_codec.row_split [OF that] by (simp add: rb(2) mem_read_def)
  ultimately show ?thesis
    using True rb GetValue_row [OF True] CalculateOffset_row [OF True] by (auto simp: GetOffset_def)
qed (use BuildRow_result [OF assms, of schema vals] in simp)

theorem BuildRow_roundtrip_witness:
  "let env = \<lparr>env_ok = (\<lambda>_. True), env_fresh = (\<lambda>_. 0)\<rparr>;
       schema = [\<lparr>ra_name = ''id'', ra_type = 0\<rparr>, \<lparr>ra_name = ''name'', ra_type = 1\<rparr>, \<lparr>ra_name = ''age'', ra_type = 0\<rparr>]
   in (\<exists>rb. BuildRow env schema [I32 7, String ''abc'', I32 9] = Inr rb \<and> length (Data rb) = 13 \<and>
        GetValue (Data rb) schema 2 = Inr (I32 9)) \<and>
      BuildRow env schema [I32 7, I32 9, I32 9] = Inl RuntimeError"
proof -
  let ?env = "\<lparr>env_ok = (\<lambda>_. True), env_fresh = (\<lambda>_. 0)\<rparr>"
  let ?schema = "[\<lparr>ra_name = ''id'', ra_type = 0\<rparr>, \<lparr>ra_name = ''name'', ra_type = 1\<rparr>, \<lparr>ra_name = ''age'', ra_type = 0\<rparr>]"
  have env: "\<forall>n. env_ok ?env n" by simp
  show ?thesis
    using BuildRow_roundtrip [OF env, of ?schema "[I32 7, String ''abc'', I32 9]"]
      BuildRow_roundtrip [OF env, of ?schema "[I32 7, I32 9, I32 9]"]
    by (auto simp: fits_schema_def)
qed

end
