(* ===== verification/Conditions.thy ===== *)
theory Conditions
  imports Row_Format
begin

text \<open>
  The conditions of \<open>WHERE\<close> clauses (the AST of \<open>Parser.y\<close>) and how \<open>SelectionIterator\<close> evaluates
  them on a serialized row (\<open>selection_iterator.cpp\<close>): literals take the type of the column they are
  compared with, \<open>AND\<close> and \<open>OR\<close> evaluate their right side only when they need it. A typing of
  conditions against a schema and a truth value of typed conditions are the specification.
\<close>

section \<open>The syntax tree\<close>

datatype ComparisonOp = EQ | NEQ | LT | GT | LE | GE
datatype LogicalOp = LogicalAnd | LogicalOr
datatype Operand = ColumnRef string | Literal string
datatype Condition = Comparison Operand ComparisonOp Operand | LogicalCondition Condition LogicalOp Condition

section \<open>Comparing values\<close>

text \<open>
  The defaulted three-way comparisons of the value types. Strings compare as sequences of unsigned
  characters. Doubles compare as IEEE 754 does: a NaN is unordered with everything, and the other
  representations are ordered by sign and magnitude, with both zeros equivalent.
\<close>

datatype partial_ordering = less_ordering | equivalent_ordering | greater_ordering | unordered_ordering

definition three_way :: "'a::linorder \<Rightarrow> 'a \<Rightarrow> partial_ordering" where
  "three_way a b = (if a < b then less_ordering else if b < a then greater_ordering else equivalent_ordering)"

fun compare_strings :: "string \<Rightarrow> string \<Rightarrow> partial_ordering" where
  "compare_strings [] [] = equivalent_ordering"
| "compare_strings [] (d # ds) = less_ordering"
| "compare_strings (c # cs) [] = greater_ordering"
| "compare_strings (c # cs) (d # ds) =
     (if c = d then compare_strings cs ds else three_way (of_char c :: nat) (of_char d))"

definition f64_magnitude :: "64 word \<Rightarrow> int" where "f64_magnitude w = uint (take_bit 63 w)"
definition f64_nan :: "64 word \<Rightarrow> bool" where "f64_nan w \<longleftrightarrow> f64_magnitude w > 0x7FF0000000000000"
definition f64_key :: "64 word \<Rightarrow> int" where "f64_key w = (if bit w 63 then - f64_magnitude w else f64_magnitude w)"

definition compare_f64 :: "64 word \<Rightarrow> 64 word \<Rightarrow> partial_ordering" where
  "compare_f64 a b = (if f64_nan a \<or> f64_nan b then unordered_ordering else three_way (f64_key a) (f64_key b))"

fun operator_spaceship :: "Value \<Rightarrow> Value \<Rightarrow> partial_ordering option" where
  "operator_spaceship (I32 a) (I32 b) = Some (three_way (sint a) (sint b))"
| "operator_spaceship (String a) (String b) = Some (compare_strings a b)"
| "operator_spaceship (U32 a) (U32 b) = Some (three_way (uint a) (uint b))"
| "operator_spaceship (I64 a) (I64 b) = Some (three_way (sint a) (sint b))"
| "operator_spaceship (F64 a) (F64 b) = Some (compare_f64 a b)"
| "operator_spaceship _ _ = None"

section \<open>Evaluation\<close>

definition compare_values :: "Value \<Rightarrow> ComparisonOp \<Rightarrow> Value \<Rightarrow> bool outcome" where
  "compare_values left op right =
     (case operator_spaceship left right of
        None \<Rightarrow> Inl RuntimeError
      | Some c \<Rightarrow> Inr (case op of
            EQ \<Rightarrow> c = equivalent_ordering
          | NEQ \<Rightarrow> c \<noteq> equivalent_ordering
          | LT \<Rightarrow> c = less_ordering
          | GT \<Rightarrow> c = greater_ordering
          | LE \<Rightarrow> c = less_ordering \<or> c = equivalent_ordering
          | GE \<Rightarrow> c = greater_ordering \<or> c = equivalent_ordering))"

primrec column_index_from :: "nat \<Rightarrow> Schema \<Rightarrow> string \<Rightarrow> nat outcome" where
  "column_index_from i [] column = Inl RuntimeError"
| "column_index_from i (a # schema) column =
     (if ra_name a = column then Inr i else column_index_from (Suc i) schema column)"

definition column_index :: "Schema \<Rightarrow> string \<Rightarrow> nat outcome" where
  "column_index schema column = column_index_from 0 schema column"

definition resolve_operand :: "f64_text \<Rightarrow> Schema \<Rightarrow> Operand \<Rightarrow> TypeId \<Rightarrow> byte list \<Rightarrow> Value outcome" where
  "resolve_operand fmt schema operand type tuple =
     (case operand of
        ColumnRef column \<Rightarrow> andthen (column_index schema column) (\<lambda>i. GetValue tuple schema i)
      | Literal lit \<Rightarrow> (case ValueFromString fmt type lit of Inl _ \<Rightarrow> Inl RuntimeError | Inr v \<Rightarrow> Inr v))"

definition evaluate_comparison ::
    "f64_text \<Rightarrow> Schema \<Rightarrow> Operand \<Rightarrow> ComparisonOp \<Rightarrow> Operand \<Rightarrow> byte list \<Rightarrow> bool outcome" where
  "evaluate_comparison fmt schema left op right tuple =
     andthen (case left of
         ColumnRef column \<Rightarrow> andthen (column_index schema column) (\<lambda>i. Inr (ra_type (schema ! i)))
       | Literal _ \<Rightarrow> (case right of
             ColumnRef column \<Rightarrow> andthen (column_index schema column) (\<lambda>i. Inr (ra_type (schema ! i)))
           | Literal _ \<Rightarrow> Inr (type_id String_type))) (\<lambda>type.
     andthen (resolve_operand fmt schema left type tuple) (\<lambda>left_val.
     andthen (resolve_operand fmt schema right type tuple) (\<lambda>right_val.
     compare_values left_val op right_val)))"

primrec evaluate_condition :: "f64_text \<Rightarrow> Schema \<Rightarrow> Condition \<Rightarrow> byte list \<Rightarrow> bool outcome" where
  "evaluate_condition fmt schema (Comparison left op right) tuple = evaluate_comparison fmt schema left op right tuple"
| "evaluate_condition fmt schema (LogicalCondition left op right) tuple =
     andthen (evaluate_condition fmt schema left tuple) (\<lambda>left_result.
     if op = LogicalAnd \<and> \<not> left_result then Inr False
     else if op = LogicalOr \<and> left_result then Inr True
     else andthen (evaluate_condition fmt schema right tuple) (\<lambda>right_result.
       if op = LogicalAnd then Inr (left_result \<and> right_result) else Inr (left_result \<or> right_result)))"

section \<open>Typing and truth\<close>

type_synonym typing = "string \<rightharpoonup> TypeId"
type_synonym valuation = "string \<rightharpoonup> Value"

text \<open>What a schema and a row say about a column name: of columns with one name the first counts.\<close>

definition column_types :: "Schema \<Rightarrow> typing" where
  "column_types schema = map_of (map (\<lambda>a. (ra_name a, ra_type a)) schema)"

definition row_env :: "Schema \<Rightarrow> Value list \<Rightarrow> valuation" where
  "row_env schema vals = map_of (zip (map ra_name schema) vals)"

fun comparison_type :: "typing \<Rightarrow> Operand \<Rightarrow> Operand \<Rightarrow> TypeId option" where
  "comparison_type \<Gamma> (ColumnRef c) _ = \<Gamma> c"
| "comparison_type \<Gamma> (Literal _) (ColumnRef c) = \<Gamma> c"
| "comparison_type \<Gamma> (Literal _) (Literal _) = Some (type_id String_type)"

primrec operand_typed :: "f64_text \<Rightarrow> typing \<Rightarrow> TypeId \<Rightarrow> Operand \<Rightarrow> bool" where
  "operand_typed fmt \<Gamma> t (ColumnRef c) \<longleftrightarrow> \<Gamma> c = Some t"
| "operand_typed fmt \<Gamma> t (Literal lit) \<longleftrightarrow> \<not> isl (ValueFromString fmt t lit)"

primrec cond_typed :: "f64_text \<Rightarrow> typing \<Rightarrow> Condition \<Rightarrow> bool" where
  "cond_typed fmt \<Gamma> (Comparison l op r) \<longleftrightarrow>
     (case comparison_type \<Gamma> l r of None \<Rightarrow> False | Some t \<Rightarrow> operand_typed fmt \<Gamma> t l \<and> operand_typed fmt \<Gamma> t r)"
| "cond_typed fmt \<Gamma> (LogicalCondition l op r) \<longleftrightarrow> cond_typed fmt \<Gamma> l \<and> cond_typed fmt \<Gamma> r"

text \<open>Equality and order of values of one type: integers by value, strings lexicographically.\<close>

fun value_eq :: "Value \<Rightarrow> Value \<Rightarrow> bool" where
  "value_eq (F64 a) (F64 b) \<longleftrightarrow> \<not> f64_nan a \<and> \<not> f64_nan b \<and> f64_key a = f64_key b"
| "value_eq v w \<longleftrightarrow> v = w"

fun value_less :: "Value \<Rightarrow> Value \<Rightarrow> bool" where
  "value_less (I32 a) (I32 b) \<longleftrightarrow> sint a < sint b"
| "value_less (String a) (String b) \<longleftrightarrow> ord_class.lexordp (map of_char a :: nat list) (map of_char b)"
| "value_less (U32 a) (U32 b) \<longleftrightarrow> uint a < uint b"
| "value_less (I64 a) (I64 b) \<longleftrightarrow> sint a < sint b"
| "value_less (F64 a) (F64 b) \<longleftrightarrow> \<not> f64_nan a \<and> \<not> f64_nan b \<and> f64_key a < f64_key b"
| "value_less _ _ \<longleftrightarrow> False"

primrec op_holds :: "ComparisonOp \<Rightarrow> Value \<Rightarrow> Value \<Rightarrow> bool" where
  "op_holds EQ v w \<longleftrightarrow> value_eq v w"
| "op_holds NEQ v w \<longleftrightarrow> \<not> value_eq v w"
| "op_holds LT v w \<longleftrightarrow> value_less v w"
| "op_holds GT v w \<longleftrightarrow> value_less w v"
| "op_holds LE v w \<longleftrightarrow> value_less v w \<or> value_eq v w"
| "op_holds GE v w \<longleftrightarrow> value_less w v \<or> value_eq v w"

primrec operand_value :: "f64_text \<Rightarrow> valuation \<Rightarrow> TypeId \<Rightarrow> Operand \<Rightarrow> Value" where
  "operand_value fmt \<rho> t (ColumnRef c) = the (\<rho> c)"
| "operand_value fmt \<rho> t (Literal lit) = projr (ValueFromString fmt t lit)"

primrec cond_true :: "f64_text \<Rightarrow> typing \<Rightarrow> valuation \<Rightarrow> Condition \<Rightarrow> bool" where
  "cond_true fmt \<Gamma> \<rho> (Comparison l op r) \<longleftrightarrow>
     (let t = the (comparison_type \<Gamma> l r) in op_holds op (operand_value fmt \<rho> t l) (operand_value fmt \<rho> t r))"
| "cond_true fmt \<Gamma> \<rho> (LogicalCondition l op r) \<longleftrightarrow>
     (case op of LogicalAnd \<Rightarrow> cond_true fmt \<Gamma> \<rho> l \<and> cond_true fmt \<Gamma> \<rho> r
      | LogicalOr \<Rightarrow> cond_true fmt \<Gamma> \<rho> l \<or> cond_true fmt \<Gamma> \<rho> r)"

section \<open>Comparisons compute the order\<close>

lemma three_way_eq [simp]:
  "three_way a b = less_ordering \<longleftrightarrow> a < b" "three_way a b = greater_ordering \<longleftrightarrow> b < a"
  "three_way a b = equivalent_ordering \<longleftrightarrow> a = b" "three_way a b \<noteq> unordered_ordering"
  by (auto simp: three_way_def)

lemma compare_strings_eq [simp]:
  "compare_strings a b = equivalent_ordering \<longleftrightarrow> a = b"
  "compare_strings a b = less_ordering \<longleftrightarrow> ord_class.lexordp (map of_char a :: nat list) (map of_char b)"
  "compare_strings a b = greater_ordering \<longleftrightarrow> ord_class.lexordp (map of_char b :: nat list) (map of_char a)"
proof (induction a b rule: compare_strings.induct)
  case (4 c cs d ds)
  have lt: "(of_char c :: nat) < of_char d \<or> (of_char d :: nat) < of_char c" if "c \<noteq> d"
    using that linorder_neq_iff [of "of_char c :: nat" "of_char d"] by simp
  show "compare_strings (c # cs) (d # ds) = equivalent_ordering \<longleftrightarrow> c # cs = d # ds"
    and "compare_strings (c # cs) (d # ds) = less_ordering \<longleftrightarrow> ord_class.lexordp (map of_char (c # cs) :: nat list) (map of_char (d # ds))"
    and "compare_strings (c # cs) (d # ds) = greater_ordering \<longleftrightarrow> ord_class.lexordp (map of_char (d # ds) :: nat list) (map of_char (c # cs))"
    by (insert 4 lt, cases "c = d", auto dest: order.asym)
qed auto

lemma integer_eq [simp]: "sint v = sint w \<longleftrightarrow> v = w" "uint v = uint w \<longleftrightarrow> v = w"
  by (rule word_eq_iff_signed [symmetric], rule word_uint_eq_iff [symmetric])

lemma compare_f64_eq [simp]:
  "compare_f64 a b = less_ordering \<longleftrightarrow> \<not> f64_nan a \<and> \<not> f64_nan b \<and> f64_key a < f64_key b"
  "compare_f64 a b = greater_ordering \<longleftrightarrow> \<not> f64_nan a \<and> \<not> f64_nan b \<and> f64_key b < f64_key a"
  "compare_f64 a b = equivalent_ordering \<longleftrightarrow> \<not> f64_nan a \<and> \<not> f64_nan b \<and> f64_key a = f64_key b"
  by (auto simp: compare_f64_def)

lemma spaceship_order:
  assumes "operator_spaceship v w = Some c"
  shows "c = equivalent_ordering \<longleftrightarrow> value_eq v w" and "c = less_ordering \<longleftrightarrow> value_less v w"
    and "c = greater_ordering \<longleftrightarrow> value_less w v"
  using assms by (cases v; cases w; force)+

lemma spaceship_typed: "TypeOf v = TypeOf w \<longleftrightarrow> (\<exists>c. operator_spaceship v w = Some c)"
  by (cases v; cases w; simp)

lemma compare_values_eq:
  "compare_values v op w = (if TypeOf v = TypeOf w then Inr (op_holds op v w) else Inl RuntimeError)"
proof (cases "operator_spaceship v w")
  case None
  then show ?thesis using spaceship_typed [of v w] by (simp add: compare_values_def)
next
  case (Some c)
  then show ?thesis using spaceship_typed [of v w] spaceship_order [OF Some]
    by (cases op) (auto simp: compare_values_def)
qed

section \<open>Columns\<close>

lemma column_index_from_eq:
  "column_index_from k schema c = (case column_types schema c of
     None \<Rightarrow> Inl RuntimeError | Some _ \<Rightarrow> Inr (k + length (takeWhile (\<lambda>a. ra_name a \<noteq> c) schema)))"
  by (induction schema arbitrary: k) (auto simp: column_types_def split: option.splits)

definition column_pos :: "Schema \<Rightarrow> string \<Rightarrow> nat" where
  "column_pos schema c = length (takeWhile (\<lambda>a. ra_name a \<noteq> c) schema)"

lemma column_index_eq:
  "column_index schema c = (case column_types schema c of None \<Rightarrow> Inl RuntimeError | Some _ \<Rightarrow> Inr (column_pos schema c))"
  by (simp add: column_index_def column_index_from_eq column_pos_def split: option.split)

lemma column_pos:
  assumes "column_types schema c = Some t"
  shows "column_pos schema c < length schema" and "ra_type (schema ! column_pos schema c) = t"
    and "ra_name (schema ! column_pos schema c) = c"
  using assms by (induction schema) (auto simp: column_types_def column_pos_def split: if_splits)

lemma row_env_eq:
  assumes "column_types schema c = Some t" and "length vals = length schema"
  shows "row_env schema vals c = Some (vals ! column_pos schema c)"
  using assms(2,1)
  by (induction vals schema rule: list_induct2) (auto simp: column_types_def column_pos_def row_env_def split: if_splits)

section \<open>Evaluation computes the truth value\<close>

lemma ValueFromString_TypeOf: "ValueFromString fmt t lit = Inr v \<Longrightarrow> TypeOf v = t"
proof -
  assume a: "ValueFromString fmt t lit = Inr v"
  then have i: "IsValidTypeId (uint t)" by (auto simp: ValueFromString_def split: if_splits)
  then have "ValueFromString fmt (type_id (alternatives ! unat t)) lit = Inr v"
    using a by (simp add: alternatives_type_id)
  then have "TypeOf v = type_id (alternatives ! unat t)"
    by (cases "alternatives ! unat t") (auto simp: andthen_eq_Inr)
  then show ?thesis using i by (simp add: alternatives_type_id)
qed

lemma fits_schemaD:
  assumes "fits_schema schema vals"
  shows "length vals = length schema" and "i < length schema \<Longrightarrow> TypeOf (vals ! i) = ra_type (schema ! i)"
proof -
  have e: "map TypeOf vals = map ra_type schema" using assms by (simp add: fits_schema_def)
  then show l: "length vals = length schema" by (metis length_map)
  show "TypeOf (vals ! i) = ra_type (schema ! i)" if "i < length schema" using e l that by (metis nth_map)
qed

lemma resolve_operand_eq:
  assumes fit: "fits_schema schema vals"
  shows "resolve_operand fmt schema (ColumnRef c) t (concat (map encode vals)) =
      (if column_types schema c = None then Inl RuntimeError else Inr (operand_value fmt (row_env schema vals) t (ColumnRef c)))"
    and "column_types schema c = Some u \<Longrightarrow> TypeOf (operand_value fmt (row_env schema vals) t (ColumnRef c)) = u"
    and "resolve_operand fmt schema (Literal lit) t tuple =
      (if isl (ValueFromString fmt t lit) then Inl RuntimeError else Inr (operand_value fmt \<rho> t (Literal lit)))"
    and "\<not> isl (ValueFromString fmt t lit) \<Longrightarrow> TypeOf (operand_value fmt \<rho> t (Literal lit)) = t"
proof -
  note f = fits_schemaD [OF fit]
  show "resolve_operand fmt schema (ColumnRef c) t (concat (map encode vals)) =
      (if column_types schema c = None then Inl RuntimeError else Inr (operand_value fmt (row_env schema vals) t (ColumnRef c)))"
    using column_pos [of schema c] GetValue_row(1) [OF fit] f(1) row_env_eq [OF _ f(1), of c]
    by (auto simp: resolve_operand_def column_index_eq)
  show "TypeOf (operand_value fmt (row_env schema vals) t (ColumnRef c)) = u" if "column_types schema c = Some u"
    using column_pos [OF that] f row_env_eq [OF that f(1)] by simp
  show "resolve_operand fmt schema (Literal lit) t tuple =
      (if isl (ValueFromString fmt t lit) then Inl RuntimeError else Inr (operand_value fmt \<rho> t (Literal lit)))"
    by (auto simp: resolve_operand_def split: sum.splits)
  show "TypeOf (operand_value fmt \<rho> t (Literal lit)) = t" if "\<not> isl (ValueFromString fmt t lit)"
    using that ValueFromString_TypeOf [of fmt t lit] by (cases "ValueFromString fmt t lit") auto
qed

lemma evaluate_comparison_eq:
  assumes fit: "fits_schema schema vals"
  shows "evaluate_comparison fmt schema l op r (concat (map encode vals)) =
    (if cond_typed fmt (column_types schema) (Comparison l op r)
     then Inr (cond_true fmt (column_types schema) (row_env schema vals) (Comparison l op r)) else Inl RuntimeError)"
proof -
  note r = resolve_operand_eq [OF fit]
  have ty: "ra_type (schema ! column_pos schema c) = u" if "column_types schema c = Some u" for c u
    using column_pos(2) [OF that] .
  show ?thesis
  proof (cases l)
    case (ColumnRef c)
    show ?thesis
    proof (cases "column_types schema c")
      case None
      then show ?thesis by (simp add: ColumnRef evaluate_comparison_def column_index_eq)
    next
      case (Some u)
      show ?thesis
      proof (cases r)
        case (ColumnRef d)
        show ?thesis
          by (cases "column_types schema d")
            (simp_all add: \<open>l = _\<close> ColumnRef Some evaluate_comparison_def column_index_eq ty r compare_values_eq
              del: operand_value.simps)
      next
        case (Literal lit)
        show ?thesis
          by (auto simp add: \<open>l = _\<close> Literal Some evaluate_comparison_def column_index_eq ty r(1,2) r(4)
              r(3) [where \<rho> = "row_env schema vals"] compare_values_eq simp del: operand_value.simps)
      qed
    qed
  next
    case (Literal lit)
    show ?thesis
    proof (cases r)
      case (ColumnRef d)
      show ?thesis
        by (cases "column_types schema d")
          (auto simp add: Literal ColumnRef evaluate_comparison_def column_index_eq ty r(1,2) r(4)
            r(3) [where \<rho> = "row_env schema vals"] compare_values_eq simp del: operand_value.simps)
    next
      case l': (Literal lit')
      have "resolve_operand fmt schema (Literal lit'') t tuple =
          (if isl (ValueFromString fmt t lit'') then Inl RuntimeError
           else Inr (operand_value fmt (row_env schema vals) t (Literal lit'')))" for lit'' t tuple
        using r(3) .
      then show ?thesis
        by (simp add: Literal l' evaluate_comparison_def r(4) compare_values_eq del: operand_value.simps)
    qed
  qed
qed

lemma evaluate_condition_typed:
  assumes "fits_schema schema vals" and "cond_typed fmt (column_types schema) cond"
  shows "evaluate_condition fmt schema cond (concat (map encode vals)) =
    Inr (cond_true fmt (column_types schema) (row_env schema vals) cond)"
  using assms(2)
proof (induction cond)
  case (Comparison l op r)
  then show ?case using evaluate_comparison_eq [OF assms(1)] by simp
next
  case (LogicalCondition l op r)
  then show ?case by (cases op) auto
qed

section \<open>Claims\<close>

text \<open>
  C15: on a row that fits the schema, a well-typed condition is evaluated without failure to its truth
  value: integers compare by value at their width and signedness, strings lexicographically, doubles
  as IEEE 754 numbers, and \<open>AND\<close> and \<open>OR\<close> are conjunction and disjunction. A comparison that is not
  well typed (an unknown column, a literal that does not parse at the column's type, columns of
  different types) raises a \<open>runtime_error\<close> on every row, and no condition fails in another way.
\<close>

theorem conditions_type_sound:
  assumes "fits_schema schema vals"
  shows "(cond_typed fmt (column_types schema) cond \<longrightarrow>
      evaluate_condition fmt schema cond (concat (map encode vals)) =
      Inr (cond_true fmt (column_types schema) (row_env schema vals) cond)) \<and>
    (\<not> cond_typed fmt (column_types schema) (Comparison l op r) \<longrightarrow>
      evaluate_condition fmt schema (Comparison l op r) (concat (map encode vals)) = Inl RuntimeError) \<and>
    (evaluate_condition fmt schema cond (concat (map encode vals)) = Inl e \<longrightarrow> e = RuntimeError)"
proof (intro conjI impI)
  show "evaluate_condition fmt schema cond (concat (map encode vals)) =
      Inr (cond_true fmt (column_types schema) (row_env schema vals) cond)" if "cond_typed fmt (column_types schema) cond"
    using evaluate_condition_typed [OF assms that] .
  show "evaluate_condition fmt schema (Comparison l op r) (concat (map encode vals)) = Inl RuntimeError"
    if "\<not> cond_typed fmt (column_types schema) (Comparison l op r)"
    unfolding evaluate_condition.simps evaluate_comparison_eq [OF assms] using that by (rule if_not_P)
  show "e = RuntimeError" if "evaluate_condition fmt schema cond (concat (map encode vals)) = Inl e"
    using that
  proof (induction cond)
    case (Comparison l op r)
    then show ?case using evaluate_comparison_eq [OF assms, of fmt l op r] by (simp split: if_splits)
  next
    case (LogicalCondition l op r)
    then show ?case by (auto simp: andthen_eq_Inl split: if_splits)
  qed
qed

theorem conditions_type_sound_witness:
  "let fmt = \<lparr>f64_from_chars = (\<lambda>s. (Inl invalid_argument, s)), f64_format = (\<lambda>_. [])\<rparr>;
       schema = [\<lparr>ra_name = ''id'', ra_type = 0\<rparr>, \<lparr>ra_name = ''name'', ra_type = 1\<rparr>];
       row = concat (map encode [I32 7, String ''bob''])
   in evaluate_condition fmt schema (LogicalCondition (Comparison (ColumnRef ''id'') LT (Literal ''10'')) LogicalAnd
        (Comparison (ColumnRef ''name'') GE (Literal ''b''))) row = Inr True \<and>
      evaluate_condition fmt schema (Comparison (ColumnRef ''id'') EQ (ColumnRef ''name'')) row = Inl RuntimeError"
proof -
  let ?fmt = "\<lparr>f64_from_chars = (\<lambda>s. (Inl invalid_argument, s)), f64_format = (\<lambda>_. [])\<rparr> :: f64_text"
  let ?schema = "[\<lparr>ra_name = ''id'', ra_type = 0\<rparr>, \<lparr>ra_name = ''name'', ra_type = 1\<rparr>]"
  let ?cond = "LogicalCondition (Comparison (ColumnRef ''id'') LT (Literal ''10'')) LogicalAnd
    (Comparison (ColumnRef ''name'') GE (Literal ''b''))"
  have fit: "fits_schema ?schema [I32 7, String ''bob'']" by (simp add: fits_schema_def)
  have ty: "column_types ?schema ''id'' = Some 0" "column_types ?schema ''name'' = Some 1"
    "row_env ?schema [I32 7, String ''bob''] ''id'' = Some (I32 7)"
    "row_env ?schema [I32 7, String ''bob''] ''name'' = Some (String ''bob'')"
    by (simp_all add: column_types_def row_env_def)
  have "cond_typed ?fmt (column_types ?schema) ?cond"
    "cond_true ?fmt (column_types ?schema) (row_env ?schema [I32 7, String ''bob'']) ?cond"
    "\<not> cond_typed ?fmt (column_types ?schema) (Comparison (ColumnRef ''id'') EQ (ColumnRef ''name''))"
    by (simp_all add: ty from_chars_int_def is_digit_def digits_value_def digit_value_def NumberFromString_def String_from_string_def)
  then show ?thesis
    using conditions_type_sound [OF fit, of ?fmt ?cond "ColumnRef ''id''" EQ "ColumnRef ''name''"] by simp
qed

end
