(* ===== verification/Table_Interface.thy ===== *)
theory Table_Interface
  imports Storage_Types Row_Format
begin

text \<open>
  The interfaces every storage engine implements and every client uses (\<open>table.h\<close>,
  \<open>table_iterator.h\<close>, \<open>table_cursor.h\<close>, \<open>table_handle.cpp\<close>). A polymorphic \<open>Table\<close> is a record of its
  virtual functions over a world \<open>'w\<close> in which tables of type \<open>'t\<close> and iterators of type \<open>'i\<close> live;
  every operation that can change the world returns it. The locales \<open>cursor\<close> and \<open>table\<close> are the
  contracts: a table is a list of rows with distinct ids, an iterator stands before the rest of one.
\<close>

section \<open>Virtual functions\<close>

type_synonym Row = "row_id_t \<times> byte list"

text \<open>The last constructor stands for a value of the enumeration type that no enumerator has, which a cast can make.\<close>

datatype TableType = InMemory | Disk | OtherTableType "32 word"

record ('w, 'i) TableIterator =
  ti_deref :: "'w \<Rightarrow> 'i \<Rightarrow> Row outcome"
  ti_next :: "'w \<Rightarrow> 'i \<Rightarrow> ('i \<times> 'w) outcome"
  ti_end :: "'w \<Rightarrow> 'i \<Rightarrow> bool"
  ti_seek :: "'w \<Rightarrow> 'i \<Rightarrow> row_id_t \<Rightarrow> ('i \<times> 'w) outcome"

record ('w, 't, 'i) Table =
  tb_iterator :: "('w, 'i) TableIterator"
  tb_begin :: "'w \<Rightarrow> 't \<Rightarrow> ('i \<times> 'w) outcome"
  tb_insert_row :: "'w \<Rightarrow> 't \<Rightarrow> byte list \<Rightarrow> (row_id_t \<times> 'w) outcome"
  tb_update_row :: "'w \<Rightarrow> 't \<Rightarrow> row_id_t \<Rightarrow> byte list \<Rightarrow> (row_id_t \<times> 'w) outcome"
  tb_delete_row :: "'w \<Rightarrow> 't \<Rightarrow> row_id_t \<Rightarrow> 'w outcome"
  tb_GetType :: "'t \<Rightarrow> TableType"

text \<open>
  A range-for over a \<open>TableCursor\<close>: compare with the sentinel, dereference, run the body, increment.
  The body may throw, and returns with its result whether it breaks out of the loop.
\<close>

partial_function (option) range_for :: "('w, 'i) TableIterator \<Rightarrow> (Row \<Rightarrow> 's \<Rightarrow> ('s \<times> bool) outcome) \<Rightarrow>
    'w \<Rightarrow> 'i \<Rightarrow> 's \<Rightarrow> ('s \<times> 'w) outcome option" where
  "range_for ops body w it s =
     (if ti_end ops w it then Some (Inr (s, w))
      else case andthen (ti_deref ops w it) (\<lambda>row. body row s) of
        Inl e \<Rightarrow> Some (Inl e)
      | Inr (s, stop) \<Rightarrow>
          if stop then Some (Inr (s, w))
          else case ti_next ops w it of
            Inl e \<Rightarrow> Some (Inl e)
          | Inr (it, w) \<Rightarrow> range_for ops body w it s)"

definition for_rows :: "('w, 't, 'i) Table \<Rightarrow> (Row \<Rightarrow> 's \<Rightarrow> ('s \<times> bool) outcome) \<Rightarrow> 'w \<Rightarrow> 't \<Rightarrow> 's \<Rightarrow>
    ('s \<times> 'w) outcome" where
  "for_rows ops body w t s =
     andthen (tb_begin ops w t) (\<lambda>(it, w).
     case range_for (tb_iterator ops) body w it s of None \<Rightarrow> Inl NoReturn | Some r \<Rightarrow> r)"

section \<open>TableHandle\<close>

record 't TableHandle =
  storage_m :: 't
  schema_m :: Schema

definition TableHandle_insert_row ::
  "heap_env \<Rightarrow> ('w, 't, 'i) Table \<Rightarrow> 'w \<Rightarrow> 't TableHandle \<Rightarrow> Value list \<Rightarrow> (row_id_t \<times> 'w) outcome" where
  "TableHandle_insert_row env ops w h vals =
     andthen (BuildRow env (schema_m h) vals) (\<lambda>rb. tb_insert_row ops w (storage_m h) (Data rb))"

definition TableHandle_update_row ::
  "heap_env \<Rightarrow> ('w, 't, 'i) Table \<Rightarrow> 'w \<Rightarrow> 't TableHandle \<Rightarrow> row_id_t \<Rightarrow> Value list \<Rightarrow> (row_id_t \<times> 'w) outcome" where
  "TableHandle_update_row env ops w h rid vals =
     andthen (BuildRow env (schema_m h) vals) (\<lambda>rb. tb_update_row ops w (storage_m h) rid (Data rb))"

definition TableHandle_delete_row ::
  "('w, 't, 'i) Table \<Rightarrow> 'w \<Rightarrow> 't TableHandle \<Rightarrow> row_id_t \<Rightarrow> 'w outcome" where
  "TableHandle_delete_row ops w h rid = tb_delete_row ops w (storage_m h) rid"

definition TableHandle_begin :: "('w, 't, 'i) Table \<Rightarrow> 'w \<Rightarrow> 't TableHandle \<Rightarrow> ('i \<times> 'w) outcome" where
  "TableHandle_begin ops w h = tb_begin ops w (storage_m h)"

section \<open>The contracts\<close>

text \<open>What a range-for over a list of rows computes.\<close>

fun row_loop :: "(Row \<Rightarrow> 's \<Rightarrow> ('s \<times> bool) outcome) \<Rightarrow> Row list \<Rightarrow> 's \<Rightarrow> 's outcome" where
  "row_loop body [] s = Inr s"
| "row_loop body (row # rs) s =
     andthen (body row s) (\<lambda>(s, stop). if stop then Inr s else row_loop body rs s)"

text \<open>
  An iterator: \<open>ready w it rs\<close> says that in world \<open>w\<close> the rows from the iterator's position on are
  \<open>rs\<close>. Moving it may change the world (a page may be fetched), but only as \<open>same\<close> allows.
\<close>

locale cursor =
  fixes iter :: "('w, 'i) TableIterator" and ready :: "'w \<Rightarrow> 'i \<Rightarrow> Row list \<Rightarrow> bool"
    and same :: "'w \<Rightarrow> 'w \<Rightarrow> bool"
  assumes same_refl: "same w w"
    and same_trans: "same w w' \<Longrightarrow> same w' w'' \<Longrightarrow> same w w''"
    and at_end: "ready w it rs \<Longrightarrow> ti_end iter w it \<longleftrightarrow> rs = []"
    and deref: "ready w it (row # rs) \<Longrightarrow> ti_deref iter w it = Inr row"
    and advance: "ready w it (row # rs) \<Longrightarrow>
      \<exists>it' w'. ti_next iter w it = Inr (it', w') \<and> ready w' it' rs \<and> same w w'"
begin

text \<open>A range-for returns, and computes what the loop over the remaining rows computes.\<close>

lemma range_for_ok:
  assumes "ready w it rs"
  shows "\<exists>w'. same w w' \<and> range_for iter body w it s = Some (andthen (row_loop body rs s) (\<lambda>s. Inr (s, w')))"
  using assms
proof (induction rs arbitrary: w it s)
  case Nil
  then have "range_for iter body w it s = Some (Inr (s, w))"
    using at_end by (subst range_for.simps) simp
  then show ?case using same_refl by fastforce
next
  case (Cons row rs)
  note d = deref [OF Cons.prems] and e = at_end [OF Cons.prems]
  obtain it' w' where n: "ti_next iter w it = Inr (it', w')" "ready w' it' rs" "same w w'"
    using advance [OF Cons.prems] by blast
  show ?case
  proof (cases "body row s")
    case (Inl f)
    then have "range_for iter body w it s = Some (Inl f)" using d e by (subst range_for.simps) simp
    then show ?thesis using Inl same_refl by auto
  next
    case (Inr r)
    obtain s' stop where r: "r = (s', stop)" by force
    show ?thesis
    proof (cases stop)
      case True
      then have "range_for iter body w it s = Some (Inr (s', w))"
        using d e Inr r by (subst range_for.simps) simp
      then show ?thesis using Inr r True same_refl by auto
    next
      case False
      then have "range_for iter body w it s = range_for iter body w' it' s'"
        using d e Inr r n(1) by (subst range_for.simps) simp
      then show ?thesis using Cons.IH [OF n(2), of s'] same_trans [OF n(3)] Inr r False by auto
    qed
  qed
qed

end

text \<open>
  A table: \<open>rows w t\<close> are its rows in iteration order, \<open>can_insert\<close> says when an insert is sure to
  find room. Inserting adds one row under a new id somewhere in the order, deleting removes one row.
\<close>

locale table = cursor "tb_iterator ops" ready same
  for ops :: "('w, 't, 'i) Table" and ready :: "'w \<Rightarrow> 'i \<Rightarrow> Row list \<Rightarrow> bool" and same :: "'w \<Rightarrow> 'w \<Rightarrow> bool" +
  fixes tinv :: "'w \<Rightarrow> bool" and rows :: "'w \<Rightarrow> 't \<rightharpoonup> Row list" and can_insert :: "'w \<Rightarrow> 't \<Rightarrow> byte list \<Rightarrow> bool"
  assumes sameD: "same w w' \<Longrightarrow> tinv w \<Longrightarrow> tinv w' \<and> rows w' = rows w \<and> (\<forall>t row. can_insert w t row \<longrightarrow> can_insert w' t row)"
    and distinct_ids: "tinv w \<Longrightarrow> rows w t = Some rs \<Longrightarrow> distinct (map fst rs)"
    and begin_ok: "tinv w \<Longrightarrow> rows w t = Some rs \<Longrightarrow>
      \<exists>it w'. tb_begin ops w t = Inr (it, w') \<and> ready w' it rs \<and> same w w'"
    and insert_ok: "tinv w \<Longrightarrow> rows w t = Some rs \<Longrightarrow> can_insert w t row \<Longrightarrow>
      \<exists>rid w' pre post. tb_insert_row ops w t row = Inr (rid, w') \<and> tinv w' \<and>
        rs = pre @ post \<and> rid \<notin> fst ` set rs \<and> rows w' = (rows w)(t \<mapsto> pre @ (rid, row) # post)"
    and delete_ok: "tinv w \<Longrightarrow> rows w t = Some rs \<Longrightarrow> rid \<in> fst ` set rs \<Longrightarrow>
      \<exists>w'. tb_delete_row ops w t rid = Inr w' \<and> tinv w' \<and> rows w' = (rows w)(t \<mapsto> filter (\<lambda>r. fst r \<noteq> rid) rs)"
    and update_def: "tb_update_row ops w t rid data = andthen (tb_delete_row ops w t rid) (\<lambda>w. tb_insert_row ops w t data)"
begin

lemma for_rows_ok:
  assumes "tinv w" and "rows w t = Some rs"
  shows "\<exists>w'. same w w' \<and> tinv w' \<and> rows w' = rows w \<and>
    for_rows ops body w t s = andthen (row_loop body rs s) (\<lambda>s. Inr (s, w'))"
proof -
  obtain it w1 where b: "tb_begin ops w t = Inr (it, w1)" "ready w1 it rs" "same w w1"
    using begin_ok [OF assms] by blast
  obtain w2 where r: "same w1 w2"
    "range_for (tb_iterator ops) body w1 it s = Some (andthen (row_loop body rs s) (\<lambda>s. Inr (s, w2)))"
    using range_for_ok [OF b(2), of body s] by blast
  have s: "same w w2" using same_trans [OF b(3) r(1)] .
  have "for_rows ops body w t s = andthen (row_loop body rs s) (\<lambda>s. Inr (s, w2))"
    unfolding for_rows_def b(1) andthen_simps prod.case r(2) option.case by (rule refl)
  then show ?thesis using sameD [OF s assms(1)] s by blast
qed

end

text \<open>
  A table whose room can be counted: \<open>room w k\<close> says that \<open>k\<close> more rows of up to \<open>max_row\<close> bytes are sure
  to fit into the tables of the world, however they are spread over them.
\<close>

locale roomy_table = table ops ready same tinv rows can_insert
  for ops :: "('w, 't, 'i) Table" and ready :: "'w \<Rightarrow> 'i \<Rightarrow> Row list \<Rightarrow> bool" and same :: "'w \<Rightarrow> 'w \<Rightarrow> bool"
    and tinv :: "'w \<Rightarrow> bool" and rows :: "'w \<Rightarrow> 't \<rightharpoonup> Row list" and can_insert :: "'w \<Rightarrow> 't \<Rightarrow> byte list \<Rightarrow> bool" +
  fixes room :: "'w \<Rightarrow> nat \<Rightarrow> bool" and max_row :: nat
  assumes room_same: "same w w' \<Longrightarrow> tinv w \<Longrightarrow> room w k \<Longrightarrow> room w' k"
    and room_le: "room w k \<Longrightarrow> j \<le> k \<Longrightarrow> room w j"
    and room_insert: "tinv w \<Longrightarrow> rows w t = Some rs \<Longrightarrow> room w (Suc k) \<Longrightarrow> length row \<le> max_row \<Longrightarrow> can_insert w t row"
    and insert_room: "tinv w \<Longrightarrow> rows w t = Some rs \<Longrightarrow> room w (Suc k) \<Longrightarrow> length row \<le> max_row \<Longrightarrow>
      tb_insert_row ops w t row = Inr (rid, w') \<Longrightarrow> room w' k"
    and delete_room: "tinv w \<Longrightarrow> rows w t = Some rs \<Longrightarrow> rid \<in> fst ` set rs \<Longrightarrow> room w k \<Longrightarrow>
      tb_delete_row ops w t rid = Inr w' \<Longrightarrow> room w' k"
begin

lemma roomy_insert:
  assumes "tinv w" and "rows w t = Some rs" and "room w (Suc k)" and "length row \<le> max_row"
  shows "\<exists>rid w' pre post. tb_insert_row ops w t row = Inr (rid, w') \<and> tinv w' \<and> room w' k \<and>
    rs = pre @ post \<and> rid \<notin> fst ` set rs \<and> rows w' = (rows w)(t \<mapsto> pre @ (rid, row) # post)"
  using insert_ok [OF assms(1,2) room_insert [OF assms]] insert_room [OF assms] by blast

end

end
