(* ===== verification/Query_Operators.thy ===== *)
theory Query_Operators
  imports Conditions Table_Interface
begin

text \<open>
  The operators of query plans (\<open>optimizer/operators\<close>): scans, selections and projections are
  iterators over serialized rows, each pulling rows from the one below it. The class hierarchy is a
  datatype whose values are the objects' states; the table cursor at the bottom is called through its
  virtual functions. Every operator computes one row ahead, in its constructor and in each increment,
  so a failure shows up when the row before it is left.

  Operators are specified on streams: a list of rows, possibly ended by a failure.
\<close>

section \<open>Iterators\<close>

datatype 'i Iterator =
    FileScanIterator 'i "byte list option"
  | SelectionIterator "'i Iterator" Schema Condition "byte list option"
  | ProjectionIterator "'i Iterator" Schema "nat list" Schema "byte list option"

primrec current_m :: "'i Iterator \<Rightarrow> byte list option" where
  "current_m (FileScanIterator c cur) = cur"
| "current_m (SelectionIterator input schema cond cur) = cur"
| "current_m (ProjectionIterator input schema selected out cur) = cur"

definition it_deref :: "'i Iterator \<Rightarrow> byte list outcome" where
  "it_deref it =
     andthen (YADB_ASSERT (current_m it \<noteq> None)) (\<lambda>_.
     case current_m it of None \<Rightarrow> Inl Undefined | Some row \<Rightarrow> Inr row)"

definition it_end :: "'i Iterator \<Rightarrow> bool" where
  "it_end it \<longleftrightarrow> current_m it = None"

section \<open>FileScanIterator\<close>

definition scan_load_current :: "('w, 'i) TableIterator \<Rightarrow> 'w \<Rightarrow> 'i \<Rightarrow> 'i Iterator outcome" where
  "scan_load_current ops w c =
     (if ti_end ops w c then Inr (FileScanIterator c None)
      else andthen (ti_deref ops w c) (\<lambda>(row_id, row_data). Inr (FileScanIterator c (Some row_data))))"

definition FileScanIterator_new :: "('w, 'i) TableIterator \<Rightarrow> 'w \<Rightarrow> 'i \<Rightarrow> 'i Iterator outcome" where
  "FileScanIterator_new ops w c = scan_load_current ops w c"

section \<open>ProjectionIterator\<close>

text \<open>A copy from outside the row would be undefined.\<close>

definition project :: "Schema \<Rightarrow> nat list \<Rightarrow> byte list \<Rightarrow> byte list outcome" where
  "project schema selected row =
     andthen (for_each (\<lambda>field total_size. andthen (GetSize row schema field) (\<lambda>n. Inr (total_size + n))) selected 0) (\<lambda>_.
     for_each (\<lambda>field data.
       andthen (GetOffset row schema field) (\<lambda>off.
       andthen (GetSize row schema field) (\<lambda>n.
       if length row < off + n then Inl Undefined else Inr (data @ mem_read off n row)))) selected [])"

definition projection_load_current :: "'i Iterator \<Rightarrow> Schema \<Rightarrow> nat list \<Rightarrow> Schema \<Rightarrow> 'i Iterator outcome" where
  "projection_load_current input schema selected out =
     (if it_end input then Inr (ProjectionIterator input schema selected out None)
      else andthen (it_deref input) (\<lambda>row. andthen (project schema selected row) (\<lambda>data.
        Inr (ProjectionIterator input schema selected out (Some data)))))"

definition ProjectionIterator_new :: "'i Iterator \<Rightarrow> Schema \<Rightarrow> nat list \<Rightarrow> 'i Iterator outcome" where
  "ProjectionIterator_new input schema selected =
     (if \<exists>field \<in> set selected. length schema \<le> field then Inl Undefined
      else projection_load_current input schema selected (map (\<lambda>field. schema ! field) selected))"

section \<open>Increments and SelectionIterator\<close>

text \<open>
  The increments of all operators and the search of a selection call each other, since a selection
  may read from any operator: they are one recursion, told apart by \<open>call\<close>.
\<close>

datatype iter_call = Increment | FindNextMatch

partial_function (option) iter_run :: "f64_text \<Rightarrow> ('w, 'i) TableIterator \<Rightarrow> iter_call \<Rightarrow> 'w \<Rightarrow> 'i Iterator \<Rightarrow>
    ('i Iterator \<times> 'w) outcome option" where
  "iter_run fmt ops call w it =
     (case it of
        FileScanIterator c cur \<Rightarrow>
          Some (andthen (ti_next ops w c) (\<lambda>(c, w). andthen (scan_load_current ops w c) (\<lambda>it. Inr (it, w))))
      | SelectionIterator input schema cond cur \<Rightarrow>
          if call = FindNextMatch \<and> it_end input then Some (Inr (SelectionIterator input schema cond None, w))
          else
            case if call = FindNextMatch then andthen (it_deref input) (evaluate_condition fmt schema cond) else Inr False of
              Inl e \<Rightarrow> Some (Inl e)
            | Inr matched \<Rightarrow>
                if matched
                then Some (andthen (it_deref input) (\<lambda>row. Inr (SelectionIterator input schema cond (Some row), w)))
                else Option.bind (iter_run fmt ops Increment w input) (\<lambda>r.
                  case r of
                    Inl e \<Rightarrow> Some (Inl e)
                  | Inr (input, w) \<Rightarrow> iter_run fmt ops FindNextMatch w (SelectionIterator input schema cond cur))
      | ProjectionIterator input schema selected out cur \<Rightarrow>
          Option.bind (iter_run fmt ops Increment w input) (\<lambda>r.
            Some (andthen r (\<lambda>(input, w). andthen (projection_load_current input schema selected out) (\<lambda>it. Inr (it, w))))))"

definition returned :: "'a outcome option \<Rightarrow> 'a outcome" where
  "returned r = (case r of None \<Rightarrow> Inl NoReturn | Some r \<Rightarrow> r)"

definition SelectionIterator_new :: "f64_text \<Rightarrow> ('w, 'i) TableIterator \<Rightarrow> 'w \<Rightarrow> 'i Iterator \<Rightarrow> Schema \<Rightarrow> Condition \<Rightarrow>
    ('i Iterator \<times> 'w) outcome" where
  "SelectionIterator_new fmt ops w input schema cond =
     returned (iter_run fmt ops FindNextMatch w (SelectionIterator input schema cond None))"

text \<open>The range-for over a plan that collects its rows.\<close>

partial_function (option) collect_rows :: "f64_text \<Rightarrow> ('w, 'i) TableIterator \<Rightarrow> 'w \<Rightarrow> 'i Iterator \<Rightarrow> byte list list \<Rightarrow>
    (byte list list \<times> 'w) outcome option" where
  "collect_rows fmt ops w it result_rows =
     (if it_end it then Some (Inr (result_rows, w))
      else case it_deref it of
        Inl e \<Rightarrow> Some (Inl e)
      | Inr row \<Rightarrow>
          Option.bind (iter_run fmt ops Increment w it) (\<lambda>r.
            case r of Inl e \<Rightarrow> Some (Inl e) | Inr (it, w) \<Rightarrow> collect_rows fmt ops w it (result_rows @ [row])))"

section \<open>Query plans\<close>

record SelectStmt =
  sel_table_name :: string
  sel_columns :: "string list"
  sel_select_all :: bool
  sel_where_clause :: "Condition option"

definition selected_indices :: "Schema \<Rightarrow> string list \<Rightarrow> nat list outcome" where
  "selected_indices schema columns =
     for_each (\<lambda>col_name selected. andthen (column_index schema col_name) (\<lambda>i. Inr (selected @ [i]))) columns []"

text \<open>What \<open>get_execution_iterator\<close> does once it has the table.\<close>

definition build_plan :: "f64_text \<Rightarrow> ('w, 't, 'i) Table \<Rightarrow> 'w \<Rightarrow> 't TableHandle \<Rightarrow> SelectStmt \<Rightarrow> ('i Iterator \<times> 'w) outcome" where
  "build_plan fmt ops w h stmt =
     andthen (TableHandle_begin ops w h) (\<lambda>(c, w).
     andthen (FileScanIterator_new (tb_iterator ops) w c) (\<lambda>it.
     andthen (case sel_where_clause stmt of
         None \<Rightarrow> Inr (it, w)
       | Some cond \<Rightarrow> SelectionIterator_new fmt (tb_iterator ops) w it (schema_m h) cond) (\<lambda>(it, w).
     if sel_select_all stmt then Inr (it, w)
     else andthen (selected_indices (schema_m h) (sel_columns stmt)) (\<lambda>selected.
          andthen (ProjectionIterator_new it (schema_m h) selected) (\<lambda>it. Inr (it, w))))))"

section \<open>Streams\<close>

type_synonym row_stream = "byte list outcome list"

fun select_stream :: "(byte list \<Rightarrow> bool outcome) \<Rightarrow> row_stream \<Rightarrow> row_stream" where
  "select_stream p [] = []"
| "select_stream p (Inl e # s) = [Inl e]"
| "select_stream p (Inr r # s) =
     (case p r of Inl e \<Rightarrow> [Inl e] | Inr b \<Rightarrow> if b then Inr r # select_stream p s else select_stream p s)"

fun project_stream :: "(byte list \<Rightarrow> byte list outcome) \<Rightarrow> row_stream \<Rightarrow> row_stream" where
  "project_stream f [] = []"
| "project_stream f (Inl e # s) = [Inl e]"
| "project_stream f (Inr r # s) = (case f r of Inl e \<Rightarrow> [Inl e] | Inr r' \<Rightarrow> Inr r' # project_stream f s)"

fun gather :: "row_stream \<Rightarrow> byte list list outcome" where
  "gather [] = Inr []"
| "gather (Inl e # s) = Inl e"
| "gather (Inr r # s) = andthen (gather s) (\<lambda>rs. Inr (r # rs))"

fun head_row :: "row_stream \<Rightarrow> byte list option" where
  "head_row (Inr r # s) = Some r"
| "head_row _ = None"

fun failing :: "row_stream \<Rightarrow> bool" where
  "failing (Inl e # s) \<longleftrightarrow> True"
| "failing [] \<longleftrightarrow> False"
| "failing (Inr r # s) \<longleftrightarrow> False"

text \<open>The stream an iterator is about to deliver, given the rows before the cursor below it.\<close>

primrec iter_ready :: "f64_text \<Rightarrow> ('w \<Rightarrow> 'i \<Rightarrow> Row list \<Rightarrow> bool) \<Rightarrow> 'w \<Rightarrow> 'i Iterator \<Rightarrow> row_stream \<Rightarrow> bool" where
  "iter_ready fmt ready w (FileScanIterator c cur) s \<longleftrightarrow>
     (\<exists>rs. ready w c rs \<and> s = map (Inr \<circ> snd) rs \<and> cur = head_row s)"
| "iter_ready fmt ready w (SelectionIterator input schema cond cur) s \<longleftrightarrow>
     (\<exists>s'. iter_ready fmt ready w input s' \<and> s = select_stream (evaluate_condition fmt schema cond) s' \<and> cur = head_row s \<and>
        (s' = [] \<or> (\<exists>r t. s' = Inr r # t \<and> evaluate_condition fmt schema cond r = Inr True)))"
| "iter_ready fmt ready w (ProjectionIterator input schema selected out cur) s \<longleftrightarrow>
     (\<exists>s'. iter_ready fmt ready w input s' \<and> s = project_stream (project schema selected) s' \<and> cur = head_row s \<and> \<not> failing s)"

primrec depth :: "'i Iterator \<Rightarrow> nat" where
  "depth (FileScanIterator c cur) = 0"
| "depth (SelectionIterator input schema cond cur) = Suc (depth input)"
| "depth (ProjectionIterator input schema selected out cur) = Suc (depth input)"

text \<open>A call that should leave an iterator before the stream \<open>s\<close>: it does, or it fails if \<open>s\<close> does.\<close>

definition arrives :: "f64_text \<Rightarrow> ('w \<Rightarrow> 'i \<Rightarrow> Row list \<Rightarrow> bool) \<Rightarrow> ('w \<Rightarrow> 'w \<Rightarrow> bool) \<Rightarrow> 'w \<Rightarrow> nat \<Rightarrow>
    ('i Iterator \<times> 'w) outcome option \<Rightarrow> row_stream \<Rightarrow> bool" where
  "arrives fmt ready same w d r s \<longleftrightarrow>
     (case s of Inl e # _ \<Rightarrow> r = Some (Inl e)
      | _ \<Rightarrow> \<exists>it w'. r = Some (Inr (it, w')) \<and> iter_ready fmt ready w' it s \<and> same w w' \<and> depth it = d)"

lemma arrives_cases [consumes 1, case_names fails arrives]:
  assumes "arrives fmt ready same w d r s"
  obtains e t where "s = Inl e # t" "r = Some (Inl e)"
  | it w' where "\<not> failing s" "r = Some (Inr (it, w'))" "iter_ready fmt ready w' it s" "same w w'" "depth it = d"
  using assms unfolding arrives_def by (cases s rule: failing.cases) auto

lemma arrivesI:
  "\<not> failing s \<Longrightarrow> iter_ready fmt ready w' it s \<Longrightarrow> same w w' \<Longrightarrow> depth it = d \<Longrightarrow>
     arrives fmt ready same w d (Some (Inr (it, w'))) s"
  "arrives fmt ready same w d (Some (Inl e)) (Inl e # t)"
  unfolding arrives_def by (cases s rule: failing.cases) auto

lemma iter_readyD:
  assumes "iter_ready fmt ready w it s"
  shows "current_m it = head_row s" and "\<not> failing s" and "it_end it \<longleftrightarrow> s = []"
proof -
  show c: "current_m it = head_row s" using assms by (cases it) auto
  show f: "\<not> failing s"
  proof (cases it)
    case (FileScanIterator c cur)
    then obtain rs :: "Row list" where "s = map (Inr \<circ> snd) rs" using assms by auto
    then show ?thesis by (cases rs) auto
  next
    case (SelectionIterator input schema cond cur)
    then show ?thesis using assms by auto
  next
    case (ProjectionIterator input schema selected out cur)
    then show ?thesis using assms by auto
  qed
  show "it_end it \<longleftrightarrow> s = []" using c f by (cases s rule: failing.cases) (auto simp: it_end_def)
qed

lemma it_deref_ready: "iter_ready fmt ready w it (Inr r # s) \<Longrightarrow> it_deref it = Inr r"
  using iter_readyD(1) [of fmt ready w it "Inr r # s"] by (simp add: it_deref_def)

context cursor
begin

abbreviation iter_at :: "f64_text \<Rightarrow> 'w \<Rightarrow> 'i Iterator \<Rightarrow> row_stream \<Rightarrow> bool" where
  "iter_at fmt \<equiv> iter_ready fmt ready"

abbreviation reaches :: "f64_text \<Rightarrow> 'w \<Rightarrow> nat \<Rightarrow> ('i Iterator \<times> 'w) outcome option \<Rightarrow> row_stream \<Rightarrow> bool" where
  "reaches fmt \<equiv> arrives fmt ready same"

lemma scan_ok:
  assumes "ready w c rs"
  shows "\<exists>it. scan_load_current iter w c = Inr it \<and> iter_at fmt w it (map (Inr \<circ> snd) rs) \<and> depth it = 0"
proof (cases rs)
  case Nil
  then show ?thesis using assms at_end [OF assms] by (auto simp: scan_load_current_def)
next
  case (Cons row rs')
  then have "scan_load_current iter w c = Inr (FileScanIterator c (Some (snd row)))"
    using assms at_end [OF assms] deref [of w c row rs'] by (simp add: scan_load_current_def split_beta)
  then show ?thesis using assms Cons by auto
qed

lemma projection_ok:
  assumes "iter_at fmt w input s"
  shows "reaches fmt w (Suc (depth input))
    (Some (andthen (projection_load_current input schema selected out) (\<lambda>it. Inr (it, w)))) (project_stream (project schema selected) s)"
proof (cases s rule: failing.cases)
  case (1 e s')
  then show ?thesis using iter_readyD(2) [OF assms] by simp
next
  case 2
  then show ?thesis
    using iter_readyD(3) [OF assms] assms same_refl
    by (auto simp: projection_load_current_def arrives_def)
next
  case (3 r s')
  have d: "it_deref input = Inr r" "\<not> it_end input" using it_deref_ready [OF assms [unfolded 3]] iter_readyD(3) [OF assms] 3 by auto
  show ?thesis
  proof (cases "project schema selected r")
    case (Inl e)
    then show ?thesis using d 3 by (simp add: projection_load_current_def arrives_def)
  next
    case (Inr r')
    have "iter_at fmt w (ProjectionIterator input schema selected out (Some r')) (project_stream (project schema selected) s)"
      using assms 3 Inr by auto
    then show ?thesis using d 3 Inr same_refl by (auto simp: projection_load_current_def arrives_def)
  qed
qed

lemma find_next_match_ok:
  assumes step: "\<And>w input r s. iter_at fmt w input (Inr r # s) \<Longrightarrow> depth input = n \<Longrightarrow>
      reaches fmt w n (iter_run fmt iter Increment w input) s"
    and "iter_at fmt w input s" and "depth input = n"
  shows "reaches fmt w (Suc n) (iter_run fmt iter FindNextMatch w (SelectionIterator input schema cond cur))
    (select_stream (evaluate_condition fmt schema cond) s)"
  using assms(2,3)
proof (induction s arbitrary: w input cur)
  case Nil
  then have "iter_run fmt iter FindNextMatch w (SelectionIterator input schema cond cur) =
      Some (Inr (SelectionIterator input schema cond None, w))"
    using iter_readyD(3) [OF Nil(1)] by (subst iter_run.simps) simp
  then show ?case using Nil same_refl by (auto simp: arrives_def)
next
  case (Cons x s)
  obtain r where x: "x = Inr r" using iter_readyD(2) [OF Cons.prems(1)] by (cases x) auto
  note at = Cons.prems(1) [unfolded x]
  have d: "it_deref input = Inr r" "\<not> it_end input" using it_deref_ready [OF at] iter_readyD(3) [OF at] by auto
  consider e where "evaluate_condition fmt schema cond r = Inl e" | "evaluate_condition fmt schema cond r = Inr True"
    | "evaluate_condition fmt schema cond r = Inr False"
    by (metis (full_types) sum.exhaust)
  then show ?case
  proof cases
    case 1
    then show ?thesis using d by (subst iter_run.simps) (simp add: x arrives_def)
  next
    case 2
    then have "iter_run fmt iter FindNextMatch w (SelectionIterator input schema cond cur) =
        Some (Inr (SelectionIterator input schema cond (Some r), w))" using d by (subst iter_run.simps) simp
    moreover have "iter_at fmt w (SelectionIterator input schema cond (Some r)) (select_stream (evaluate_condition fmt schema cond) (x # s))"
      using at 2 x by auto
    ultimately show ?thesis using 2 x Cons.prems(2) same_refl by (auto simp: arrives_def)
  next
    case 3
    have run: "iter_run fmt iter FindNextMatch w (SelectionIterator input schema cond cur) =
        Option.bind (iter_run fmt iter Increment w input) (\<lambda>r. case r of Inl e \<Rightarrow> Some (Inl e)
          | Inr (input, w) \<Rightarrow> iter_run fmt iter FindNextMatch w (SelectionIterator input schema cond cur))"
      using d 3 by (subst iter_run.simps) simp
    have sel: "select_stream (evaluate_condition fmt schema cond) (x # s) = select_stream (evaluate_condition fmt schema cond) s"
      using 3 x by simp
    show ?thesis
      using step [OF at Cons.prems(2)]
    proof (cases rule: arrives_cases)
      case (fails e t)
      then show ?thesis unfolding run sel by (simp add: arrives_def)
    next
      case (arrives input' w')
      have "reaches fmt w' (Suc n) (iter_run fmt iter FindNextMatch w' (SelectionIterator input' schema cond cur))
          (select_stream (evaluate_condition fmt schema cond) s)"
        using Cons.IH [OF arrives(3,5)] .
      then show ?thesis
        using run sel arrives(2) same_trans [OF arrives(4)]
        by (cases rule: arrives_cases) (auto simp: arrives_def split: list.splits sum.splits)
    qed
  qed
qed

lemma increment_ok:
  assumes "iter_at fmt w it (Inr r # s)"
  shows "reaches fmt w (depth it) (iter_run fmt iter Increment w it) s"
  using assms
proof (induction "depth it" arbitrary: it w r s)
  case 0
  then obtain c cur where it: "it = FileScanIterator c cur" by (cases it) auto
  then obtain row rs where rs: "ready w c (row # rs)" "s = map (Inr \<circ> snd) rs" using 0 by auto
  obtain c' w' where n: "ti_next iter w c = Inr (c', w')" "ready w' c' rs" "same w w'" using advance [OF rs(1)] by blast
  obtain it' where "scan_load_current iter w' c' = Inr it'" "iter_at fmt w' it' s" "depth it' = 0"
    using scan_ok [OF n(2)] rs(2) by blast
  moreover from this(2) have "\<not> failing s" by (rule iter_readyD(2))
  ultimately show ?case unfolding it
    by (subst iter_run.simps) (use n in \<open>auto intro!: arrivesI\<close>)
next
  case (Suc n)
  show ?case
  proof (cases it)
    case (FileScanIterator c cur)
    then show ?thesis using Suc.hyps(2) by simp
  next
    case (SelectionIterator input schema cond cur)
    then have d: "depth input = n" using Suc.hyps(2) by simp
    have step: "reaches fmt w n (iter_run fmt iter Increment w input) s" if "iter_at fmt w input (Inr r # s)" "depth input = n" for w input r s
      using Suc.hyps(1) [of input, OF _ that(1)] that(2) by simp
    obtain r' s' where i: "iter_at fmt w input (Inr r' # s')" "evaluate_condition fmt schema cond r' = Inr True"
      and s: "s = select_stream (evaluate_condition fmt schema cond) s'"
      using Suc.prems SelectionIterator by (auto split: sum.splits)
    have run: "iter_run fmt iter Increment w it =
        Option.bind (iter_run fmt iter Increment w input) (\<lambda>r. case r of Inl e \<Rightarrow> Some (Inl e)
          | Inr (input, w) \<Rightarrow> iter_run fmt iter FindNextMatch w (SelectionIterator input schema cond cur))"
      unfolding SelectionIterator by (subst iter_run.simps) simp
    show ?thesis
      using step [OF i(1) d]
    proof (cases rule: arrives_cases)
      case (fails e t)
      then show ?thesis unfolding run s by (simp add: arrives_def)
    next
      case (arrives input' w')
      from find_next_match_ok [where schema = schema and cond = cond and cur = cur, OF step arrives(3,5)]
      show ?thesis
        using run s arrives(2) same_trans [OF arrives(4)] Suc.hyps(2)
        by (cases rule: arrives_cases) (auto simp: arrives_def split: list.splits sum.splits)
    qed
  next
    case (ProjectionIterator input schema selected out cur)
    then have d: "depth input = n" using Suc.hyps(2) by simp
    obtain r' s' where i: "iter_at fmt w input (Inr r' # s')" and s: "s = project_stream (project schema selected) s'"
    proof -
      obtain s0 where "iter_at fmt w input s0" "Inr r # s = project_stream (project schema selected) s0"
        using Suc.prems ProjectionIterator by auto
      then show thesis using that by (cases s0 rule: failing.cases) (auto split: sum.splits)
    qed
    have run: "iter_run fmt iter Increment w it = Option.bind (iter_run fmt iter Increment w input) (\<lambda>r.
            Some (andthen r (\<lambda>(input, w). andthen (projection_load_current input schema selected out) (\<lambda>it. Inr (it, w)))))"
      unfolding ProjectionIterator by (subst iter_run.simps) simp
    have "reaches fmt w n (iter_run fmt iter Increment w input) s'"
      using Suc.hyps(1) [of input, OF _ i] d by simp
    then show ?thesis
    proof (cases rule: arrives_cases)
      case (fails e t)
      then show ?thesis unfolding run s by (simp add: arrives_def)
    next
      case (arrives input' w')
      from projection_ok [OF arrives(3), of schema selected out]
      show ?thesis
        using run s arrives(2,5) same_trans [OF arrives(4)] Suc.hyps(2)
        by (cases rule: arrives_cases) (auto simp: arrives_def split: list.splits sum.splits)
    qed
  qed
qed

text \<open>Collecting the rows of an iterator ends, with the rows of its stream or its failure.\<close>

lemma collect_rows_ok:
  assumes "iter_at fmt w it s"
  shows "\<exists>w'. same w w' \<and> collect_rows fmt iter w it acc = Some (andthen (gather s) (\<lambda>rs. Inr (acc @ rs, w')))"
  using assms
proof (induction s arbitrary: w it acc)
  case Nil
  then have "collect_rows fmt iter w it acc = Some (Inr (acc, w))"
    using iter_readyD(3) [OF Nil] by (subst collect_rows.simps) simp
  then show ?case using same_refl by auto
next
  case (Cons x s)
  obtain r where x: "x = Inr r" using iter_readyD(2) [OF Cons.prems] by (cases x) auto
  note at = Cons.prems [unfolded x]
  have run: "collect_rows fmt iter w it acc = Option.bind (iter_run fmt iter Increment w it) (\<lambda>r'.
      case r' of Inl e \<Rightarrow> Some (Inl e) | Inr (it, w) \<Rightarrow> collect_rows fmt iter w it (acc @ [r]))"
    using it_deref_ready [OF at] iter_readyD(3) [OF at] by (subst collect_rows.simps) simp
  from increment_ok [OF at] show ?case
  proof (cases rule: arrives_cases)
    case (fails e t)
    then show ?thesis unfolding run x using same_refl by auto
  next
    case (arrives it' w')
    then obtain w2 where "same w' w2"
      "collect_rows fmt iter w' it' (acc @ [r]) = Some (andthen (gather s) (\<lambda>rs. Inr ((acc @ [r]) @ rs, w2)))"
      using Cons.IH by blast
    then show ?thesis unfolding run x using arrives same_trans [OF arrives(4)]
      by (auto simp: andthen_assoc)
  qed
qed

end

end
