(* ===== verification/Table_Factory.thy ===== *)
theory Table_Factory
  imports Table_Interface
begin

text \<open>
  The factory interface (\<open>table_factory_interface.h\<close>): tables are created, looked up and deleted by
  name. A polymorphic \<open>ITableFactory\<close> is a record of its virtual functions over the world in which its
  tables live; the locale \<open>factory\<close> is its contract. Also here: reading typed columns of rows the
  engine keeps about itself, and searching a table for the first row that matches.
\<close>

section \<open>Virtual functions\<close>

record ('w, 't) TableFactory =
  fa_TableExists :: "'w \<Rightarrow> string \<Rightarrow> (bool \<times> 'w) outcome"
  fa_CreateTable :: "'w \<Rightarrow> string \<Rightarrow> (bool \<times> 'w) outcome"
  fa_GetTable :: "'w \<Rightarrow> string \<Rightarrow> ('t option \<times> 'w) outcome"
  fa_DeleteTable :: "'w \<Rightarrow> string \<Rightarrow> (bool \<times> 'w) outcome"

section \<open>Columns of a known type\<close>

text \<open>\<open>rr.Get<String>(i).value\<close> and its siblings; the last case cannot occur.\<close>

definition Get_String :: "byte list \<Rightarrow> Schema \<Rightarrow> nat \<Rightarrow> string outcome" where
  "Get_String data schema pos =
     andthen (Get String_type data schema pos) (\<lambda>v. case v of String s \<Rightarrow> Inr s | _ \<Rightarrow> Inl Undefined)"

definition Get_I32 :: "byte list \<Rightarrow> Schema \<Rightarrow> nat \<Rightarrow> 32 word outcome" where
  "Get_I32 data schema pos =
     andthen (Get I32_type data schema pos) (\<lambda>v. case v of I32 i \<Rightarrow> Inr i | _ \<Rightarrow> Inl Undefined)"

definition Get_U32 :: "byte list \<Rightarrow> Schema \<Rightarrow> nat \<Rightarrow> 32 word outcome" where
  "Get_U32 data schema pos =
     andthen (Get U32_type data schema pos) (\<lambda>v. case v of U32 i \<Rightarrow> Inr i | _ \<Rightarrow> Inl Undefined)"

abbreviation row_bytes :: "Value list \<Rightarrow> byte list" where
  "row_bytes vals \<equiv> concat (map encode vals)"

lemma Get_row:
  assumes fit: "fits_schema schema vals" and pos: "pos < length vals"
  shows "Get (alternative_of (vals ! pos)) (row_bytes vals) schema pos = Inr (vals ! pos)"
proof -
  have "map ra_type schema = map TypeOf vals" using fit by (simp add: fits_schema_def)
  then have "ra_type (schema ! pos) = TypeOf (vals ! pos)" "pos < length schema"
    using pos by (metis nth_map length_map)+
  then show ?thesis using GetValue_row(1) [OF assms] by (simp add: GetValue_def dispatch_valid)
qed

lemma Get_typed_row:
  assumes "fits_schema schema vals" and "pos < length vals"
  shows "vals ! pos = String s \<Longrightarrow> Get_String (row_bytes vals) schema pos = Inr s"
    and "vals ! pos = I32 i \<Longrightarrow> Get_I32 (row_bytes vals) schema pos = Inr i"
    and "vals ! pos = U32 i \<Longrightarrow> Get_U32 (row_bytes vals) schema pos = Inr i"
  using Get_row [OF assms] by (simp_all add: Get_String_def Get_I32_def Get_U32_def)

lemma insert_row_fits:
  assumes "\<forall>n. env_ok henv n" and "fits_schema (schema_m h) vals"
  shows "TableHandle_insert_row henv ops w h vals = tb_insert_row ops w (storage_m h) (row_bytes vals)"
  using BuildRow_result [OF assms(1), of "schema_m h" vals] assms(2) by (auto simp: TableHandle_insert_row_def)

section \<open>Searching\<close>

text \<open>A loop that looks for the first row with a property and breaks.\<close>

lemma row_loop_find:
  assumes "\<And>row. row \<in> set rs \<Longrightarrow> body row None = Inr (if P row then (Some (g row), True) else (None, False))"
  shows "row_loop body rs None = Inr (map_option g (List.find P rs))"
  using assms by (induction rs) auto

text \<open>A loop that visits all rows.\<close>

lemma row_loop_fold:
  assumes "\<And>row s. row \<in> set rs \<Longrightarrow> I s \<Longrightarrow> body row s = Inr (f row s, False) \<and> I (f row s)" and "I s"
  shows "row_loop body rs s = Inr (fold f rs s)"
  using assms
proof (induction rs arbitrary: s)
  case (Cons row rs)
  then have "body row s = Inr (f row s, False)" "I (f row s)" by auto
  then show ?case using Cons.IH [of "f row s"] Cons.prems by simp
qed simp

section \<open>The contract\<close>

text \<open>
  \<open>names w\<close> are the tables the factory knows, by name; \<open>internal\<close> are tables the factory keeps for
  itself, which nobody else changes. Creating a table adds an empty one under its name, deleting takes
  it away, and neither touches the rows of another table.
\<close>

locale factory = roomy_table ops ready same tinv rows can_insert room max_row
  for ops :: "('w, 't, 'i) Table" and ready :: "'w \<Rightarrow> 'i \<Rightarrow> Row list \<Rightarrow> bool" and same :: "'w \<Rightarrow> 'w \<Rightarrow> bool"
    and tinv :: "'w \<Rightarrow> bool" and rows :: "'w \<Rightarrow> 't \<rightharpoonup> Row list" and can_insert :: "'w \<Rightarrow> 't \<Rightarrow> byte list \<Rightarrow> bool"
    and room :: "'w \<Rightarrow> nat \<Rightarrow> bool" and max_row :: nat +
  fixes fa :: "('w, 't) TableFactory" and finv :: "'w \<Rightarrow> bool" and names :: "'w \<Rightarrow> string \<rightharpoonup> 't" and internal :: "'t set"
    and can_create :: "'w \<Rightarrow> bool" and can_drop :: "'w \<Rightarrow> bool" and max_name :: nat
  assumes finvD: "finv w \<Longrightarrow> tinv w"
    and names_rows: "finv w \<Longrightarrow> names w n = Some t \<Longrightarrow> rows w t \<noteq> None \<and> t \<notin> internal"
    and names_inj: "finv w \<Longrightarrow> names w n = Some t \<Longrightarrow> names w m = Some t \<Longrightarrow> n = m"
    and factory_same: "same w w' \<Longrightarrow> finv w \<Longrightarrow> finv w' \<and> names w' = names w"
    and can_create_same: "same w w' \<Longrightarrow> finv w \<Longrightarrow> can_create w \<Longrightarrow> can_create w'"
    and exists_ok: "finv w \<Longrightarrow> \<exists>w'. fa_TableExists fa w n = Inr (names w n \<noteq> None, w') \<and> same w w'"
    and get_ok: "finv w \<Longrightarrow> \<exists>w'. fa_GetTable fa w n = Inr (names w n, w') \<and> same w w'"
    and create_ok: "finv w \<Longrightarrow> names w n = None \<Longrightarrow> length n \<le> max_name \<Longrightarrow> room w (Suc (Suc k)) \<Longrightarrow> can_create w \<Longrightarrow>
      \<exists>w' t. fa_CreateTable fa w n = Inr (True, w') \<and> finv w' \<and> room w' k \<and> names w' = (names w)(n \<mapsto> t) \<and>
        rows w t = None \<and> rows w' t = Some [] \<and> (\<forall>t'. t' \<notin> insert t internal \<longrightarrow> rows w' t' = rows w t')"
    and drop_ok: "finv w \<Longrightarrow> names w n = Some t \<Longrightarrow> can_drop w \<Longrightarrow>
      \<exists>w'. fa_DeleteTable fa w n = Inr (True, w') \<and> finv w' \<and> (\<forall>k. room w k \<longrightarrow> room w' k) \<and>
        names w' = (names w)(n := None) \<and> (\<forall>t'. t' \<notin> insert t internal \<longrightarrow> rows w' t' = rows w t')"
    and drop_missing: "finv w \<Longrightarrow> names w n = None \<Longrightarrow> \<exists>w'. fa_DeleteTable fa w n = Inr (False, w') \<and> same w w'"
    and insert_names: "finv w \<Longrightarrow> rows w t = Some rs \<Longrightarrow> t \<notin> internal \<Longrightarrow> can_insert w t row \<Longrightarrow>
      tb_insert_row ops w t row = Inr (rid, w') \<Longrightarrow> finv w' \<and> names w' = names w"
    and delete_names: "finv w \<Longrightarrow> rows w t = Some rs \<Longrightarrow> t \<notin> internal \<Longrightarrow> rid \<in> fst ` set rs \<Longrightarrow>
      tb_delete_row ops w t rid = Inr w' \<Longrightarrow> finv w' \<and> names w' = names w"
begin

lemma factory_insert:
  assumes "finv w" and "rows w t = Some rs" and "t \<notin> internal" and "room w (Suc k)" and "length row \<le> max_row"
  shows "\<exists>rid w' pre post. tb_insert_row ops w t row = Inr (rid, w') \<and> finv w' \<and> room w' k \<and> names w' = names w \<and>
    rs = pre @ post \<and> rid \<notin> fst ` set rs \<and> rows w' = (rows w)(t \<mapsto> pre @ (rid, row) # post)"
  using roomy_insert [OF finvD [OF assms(1)] assms(2,4,5)]
    insert_names [OF assms(1-3) room_insert [OF finvD [OF assms(1)] assms(2,4,5)]] by blast

lemma factory_delete:
  assumes "finv w" and "rows w t = Some rs" and "t \<notin> internal" and "rid \<in> fst ` set rs" and "room w k"
  shows "\<exists>w'. tb_delete_row ops w t rid = Inr w' \<and> finv w' \<and> room w' k \<and> names w' = names w \<and>
    rows w' = (rows w)(t \<mapsto> filter (\<lambda>r. fst r \<noteq> rid) rs)"
  using delete_ok [OF finvD [OF assms(1)] assms(2,4)] delete_names [OF assms(1-4)]
    delete_room [OF finvD [OF assms(1)] assms(2,4,5)] by blast

lemma factory_loop:
  assumes "finv w" and "rows w t = Some rs"
  shows "\<exists>w'. for_rows ops body w t s = andthen (row_loop body rs s) (\<lambda>s. Inr (s, w')) \<and>
    same w w' \<and> finv w' \<and> (\<forall>k. room w k \<longrightarrow> room w' k) \<and> names w' = names w \<and> rows w' = rows w"
proof -
  obtain w' where w': "same w w'" "rows w' = rows w" "for_rows ops body w t s = andthen (row_loop body rs s) (\<lambda>s. Inr (s, w'))"
    using for_rows_ok [OF finvD [OF assms(1)] assms(2), of body s] by blast
  then show ?thesis using factory_same [OF w'(1) assms(1)] room_same [OF w'(1) finvD [OF assms(1)]] by blast
qed

end

end
