(* ===== verification/Query_Plans.thy ===== *)
theory Query_Plans
  imports Query_Operators Table_Factory
begin

text \<open>
  Query plans (\<open>Optimizer::get_execution_iterator\<close>) against their meaning: on any table that keeps the
  contract of the table interface, running the plan of a well-typed \<open>SELECT\<close> delivers the projections
  of exactly the rows on which the condition is true, in the order of the table.
\<close>

section \<open>The plan of a statement as a stream\<close>

definition where_stream :: "f64_text \<Rightarrow> Schema \<Rightarrow> SelectStmt \<Rightarrow> byte list list \<Rightarrow> row_stream" where
  "where_stream fmt schema stmt rows =
     (case sel_where_clause stmt of
        None \<Rightarrow> map Inr rows
      | Some cond \<Rightarrow> select_stream (evaluate_condition fmt schema cond) (map Inr rows))"

definition query_stream :: "f64_text \<Rightarrow> Schema \<Rightarrow> SelectStmt \<Rightarrow> byte list list \<Rightarrow> row_stream" where
  "query_stream fmt schema stmt rows =
     (let s = where_stream fmt schema stmt rows
      in if sel_select_all stmt \<or> failing s then s
         else case selected_indices schema (sel_columns stmt) of
             Inl e \<Rightarrow> [Inl e]
           | Inr selected \<Rightarrow> project_stream (project schema selected) s)"

definition run_plan :: "f64_text \<Rightarrow> ('w, 't, 'i) Table \<Rightarrow> 'w \<Rightarrow> 't TableHandle \<Rightarrow> SelectStmt \<Rightarrow>
    (byte list list \<times> 'w) outcome" where
  "run_plan fmt ops w h stmt =
     andthen (build_plan fmt ops w h stmt) (\<lambda>(it, w). returned (collect_rows fmt (tb_iterator ops) w it []))"

lemma returned_arrives: "arrives fmt ready same w d r s \<Longrightarrow> arrives fmt ready same w d (Some (returned r)) s"
  by (cases r) (auto simp: returned_def arrives_def split: list.splits sum.splits)

lemma selected_indices_eq:
  "selected_indices schema columns =
     (if \<exists>c \<in> set columns. column_types schema c = None then Inl RuntimeError else Inr (map (column_pos schema) columns))"
proof -
  have "for_each (\<lambda>col_name selected. andthen (column_index schema col_name) (\<lambda>i. Inr (selected @ [i]))) columns acc =
     (if \<exists>c \<in> set columns. column_types schema c = None then Inl RuntimeError else Inr (acc @ map (column_pos schema) columns))" for acc
    by (induction columns arbitrary: acc) (auto simp: column_index_eq split: option.splits)
  then show ?thesis by (simp add: selected_indices_def)
qed

lemma selected_indices_ok:
  "\<not> (\<exists>c \<in> set columns. column_types schema c = None) \<Longrightarrow> selected_indices schema columns = Inr (map (column_pos schema) columns)"
  unfolding selected_indices_eq by (rule if_not_P)

context table
begin

lemma build_plan_ok:
  assumes "tinv w" and "rows w (storage_m h) = Some rs"
  shows "\<exists>d. arrives fmt ready same w d (Some (build_plan fmt ops w h stmt)) (query_stream fmt (schema_m h) stmt (map snd rs))"
proof -
  let ?s = "where_stream fmt (schema_m h) stmt (map snd rs)"
  obtain c w1 where b: "tb_begin ops w (storage_m h) = Inr (c, w1)" "ready w1 c rs" "same w w1" using begin_ok [OF assms] by blast
  obtain it where sc: "FileScanIterator_new (tb_iterator ops) w1 c = Inr it" "iter_ready fmt ready w1 it (map (Inr \<circ> snd) rs)" "depth it = 0"
    using scan_ok [OF b(2)] unfolding FileScanIterator_new_def by blast
  define sel where "sel = (case sel_where_clause stmt of None \<Rightarrow> Inr (it, w1)
    | Some cond \<Rightarrow> SelectionIterator_new fmt (tb_iterator ops) w1 it (schema_m h) cond)"
  obtain d where at: "arrives fmt ready same w1 d (Some sel) ?s"
  proof (cases "sel_where_clause stmt")
    case None
    then have "arrives fmt ready same w1 0 (Some sel) ?s"
      using iter_readyD(2) [OF sc(2)] sc(2,3) same_refl [of w1]
      unfolding sel_def where_stream_def None option.case map_map by (intro arrivesI(1)) simp_all
    then show thesis by (rule that)
  next
    case (Some cond)
    have "arrives fmt ready same w1 (Suc 0) (iter_run fmt (tb_iterator ops) FindNextMatch w1 (SelectionIterator it (schema_m h) cond None))
        (select_stream (evaluate_condition fmt (schema_m h) cond) (map (Inr \<circ> snd) rs))"
      using increment_ok by (intro find_next_match_ok [OF _ sc(2,3)]) metis
    then have "arrives fmt ready same w1 (Suc 0) (Some sel) ?s"
      using returned_arrives by (simp add: sel_def Some where_stream_def SelectionIterator_new_def)
    then show thesis by (rule that)
  qed
  have plan: "build_plan fmt ops w h stmt = andthen sel (\<lambda>(it, w). if sel_select_all stmt then Inr (it, w)
      else andthen (selected_indices (schema_m h) (sel_columns stmt)) (\<lambda>selected.
        andthen (ProjectionIterator_new it (schema_m h) selected) (\<lambda>it. Inr (it, w))))"
    by (simp add: build_plan_def TableHandle_begin_def b(1) sc(1) sel_def)
  from at show ?thesis
  proof (cases rule: arrives_cases)
    case (fails e t)
    then have "query_stream fmt (schema_m h) stmt (map snd rs) = Inl e # t" by (simp add: query_stream_def)
    then show ?thesis using fails plan by (simp add: arrives_def)
  next
    case (arrives it' w')
    then have sw: "same w w'" using same_trans [OF b(3)] by blast
    show ?thesis
    proof (cases "sel_select_all stmt")
      case True
      have "arrives fmt ready same w d (Some (Inr (it', w'))) ?s" using arrives(1,3) sw arrives(5) by (rule arrivesI(1))
      then show ?thesis using arrives(2) plan True by (auto simp: query_stream_def)
    next
      case nall: False
      show ?thesis
      proof (cases "\<exists>c \<in> set (sel_columns stmt). column_types (schema_m h) c = None")
        case True
        then show ?thesis using arrives(1,2) nall plan by (simp add: query_stream_def selected_indices_eq arrives_def)
      next
        case False
        let ?sel = "map (column_pos (schema_m h)) (sel_columns stmt)"
        have q: "query_stream fmt (schema_m h) stmt (map snd rs) = project_stream (project (schema_m h) ?sel) ?s"
          using arrives(1) nall by (simp add: query_stream_def selected_indices_ok [OF False])
        have lt: "column_pos (schema_m h) c < length (schema_m h)" if "c \<in> set (sel_columns stmt)" for c
          using that False column_pos(1) by (metis not_None_eq)
        have new: "ProjectionIterator_new it' (schema_m h) ?sel =
            projection_load_current it' (schema_m h) ?sel (map (\<lambda>field. schema_m h ! field) ?sel)"
          using lt by (force simp: ProjectionIterator_new_def)
        have p: "build_plan fmt ops w h stmt =
            andthen (projection_load_current it' (schema_m h) ?sel (map (\<lambda>field. schema_m h ! field) ?sel)) (\<lambda>it. Inr (it, w'))"
          using arrives(2) nall plan new by (simp add: selected_indices_ok [OF False])
        from projection_ok [OF arrives(3), of "schema_m h" ?sel "map (\<lambda>field. schema_m h ! field) ?sel"]
        have "arrives fmt ready same w (Suc (depth it')) (Some (build_plan fmt ops w h stmt)) (project_stream (project (schema_m h) ?sel) ?s)"
          unfolding p using same_trans [OF sw] by (cases rule: arrives_cases) (auto simp: arrives_def split: list.splits sum.splits)
        then show ?thesis unfolding q by blast
      qed
    qed
  qed
qed

lemma run_plan_ok:
  assumes "tinv w" and "rows w (storage_m h) = Some rs"
  shows "\<exists>w'. same w w' \<and> run_plan fmt ops w h stmt =
    andthen (gather (query_stream fmt (schema_m h) stmt (map snd rs))) (\<lambda>result. Inr (result, w'))"
proof -
  obtain d where "arrives fmt ready same w d (Some (build_plan fmt ops w h stmt)) (query_stream fmt (schema_m h) stmt (map snd rs))"
    using build_plan_ok [OF assms] by blast
  then show ?thesis
  proof (cases rule: arrives_cases)
    case (fails e t)
    then show ?thesis using same_refl by (auto simp: run_plan_def)
  next
    case (arrives it w')
    from collect_rows_ok [OF arrives(3), of "[]"] obtain w2 where c: "same w' w2"
      "collect_rows fmt (tb_iterator ops) w' it [] =
        Some (andthen (gather (query_stream fmt (schema_m h) stmt (map snd rs))) (\<lambda>rs. Inr ([] @ rs, w2)))" by blast
    show ?thesis
      using same_trans [OF arrives(4) c(1)] arrives(2) c(2) by (intro exI [of _ w2]) (simp add: run_plan_def returned_def)
  qed
qed

end

section \<open>The meaning of a statement\<close>



definition query_typed :: "f64_text \<Rightarrow> Schema \<Rightarrow> SelectStmt \<Rightarrow> bool" where
  "query_typed fmt schema stmt \<longleftrightarrow>
     (case sel_where_clause stmt of None \<Rightarrow> True | Some cond \<Rightarrow> cond_typed fmt (column_types schema) cond) \<and>
     (sel_select_all stmt \<or> (\<forall>c \<in> set (sel_columns stmt). column_types schema c \<noteq> None))"

definition where_true :: "f64_text \<Rightarrow> Schema \<Rightarrow> SelectStmt \<Rightarrow> Value list \<Rightarrow> bool" where
  "where_true fmt schema stmt vals \<longleftrightarrow>
     (case sel_where_clause stmt of None \<Rightarrow> True | Some cond \<Rightarrow> cond_true fmt (column_types schema) (row_env schema vals) cond)"

definition chosen :: "Schema \<Rightarrow> SelectStmt \<Rightarrow> Value list \<Rightarrow> Value list" where
  "chosen schema stmt vals =
     (if sel_select_all stmt then vals else map (\<lambda>c. the (row_env schema vals c)) (sel_columns stmt))"

definition query :: "f64_text \<Rightarrow> Schema \<Rightarrow> SelectStmt \<Rightarrow> Value list list \<Rightarrow> Value list list" where
  "query fmt schema stmt valss = map (chosen schema stmt) (filter (where_true fmt schema stmt) valss)"

lemma project_row:
  assumes fit: "fits_schema schema vals" and "\<forall>i \<in> set selected. i < length schema"
  shows "project schema selected (row_bytes vals) = Inr (concat (map (\<lambda>i. encode (vals ! i)) selected))"
proof -
  let ?row = "row_bytes vals"
  have g: "GetOffset ?row schema i = Inr (length (row_bytes (take i vals)))" "GetSize ?row schema i = Inr (serialized_size (vals ! i))"
    "mem_read (length (row_bytes (take i vals))) (serialized_size (vals ! i)) ?row = encode (vals ! i)"
    "length (row_bytes (take i vals)) + serialized_size (vals ! i) \<le> length ?row" if "i < length schema" for i
  proof -
    have i: "i < length vals" using that fits_schemaD(1) [OF fit] by simp
    show "GetOffset ?row schema i = Inr (length (row_bytes (take i vals)))" using CalculateOffset_row [OF fit i] by (simp add: GetOffset_def)
    show "GetSize ?row schema i = Inr (serialized_size (vals ! i))" using GetValue_row(2) [OF fit i] .
    have sp: "drop (length (row_bytes (take i vals))) ?row = encode (vals ! i) @ row_bytes (drop (Suc i) vals)"
      using row_codec.row_split [OF i] .
    then show "mem_read (length (row_bytes (take i vals))) (serialized_size (vals ! i)) ?row = encode (vals ! i)"
      by (simp add: mem_read_def)
    show "length (row_bytes (take i vals)) + serialized_size (vals ! i) \<le> length ?row"
      using arg_cong [OF sp, of length] row_prefix_le [of i vals] by simp
  qed
  have "for_each (\<lambda>field total. andthen (GetSize ?row schema field) (\<lambda>n. Inr (total + n))) selected t =
      Inr (t + sum_list (map (\<lambda>i. serialized_size (vals ! i)) selected))" for t
    using assms(2) by (induction selected arbitrary: t) (simp_all add: g add.assoc)
  moreover have "for_each (\<lambda>field data. andthen (GetOffset ?row schema field) (\<lambda>off. andthen (GetSize ?row schema field) (\<lambda>n.
       if length ?row < off + n then Inl Undefined else Inr (data @ mem_read off n ?row)))) selected acc =
      Inr (acc @ concat (map (\<lambda>i. encode (vals ! i)) selected))" for acc
    using assms(2) by (induction selected arbitrary: acc) (simp_all add: g leD)
  ultimately show ?thesis by (simp add: project_def)
qed

lemma select_stream_map:
  assumes "\<And>x. x \<in> set xs \<Longrightarrow> p (f x) = Inr (q x)"
  shows "select_stream p (map Inr (map f xs)) = map Inr (map f (filter q xs))"
  using assms by (induction xs) simp_all

lemma project_stream_map:
  assumes "\<And>x. x \<in> set xs \<Longrightarrow> g (f x) = Inr (h x)"
  shows "project_stream g (map Inr (map f xs)) = map Inr (map h xs)"
  using assms by (induction xs) simp_all

lemma gather_map [simp]: "gather (map Inr rs) = Inr rs"
  by (induction rs) simp_all

lemma failing_map [simp]: "\<not> failing (map Inr rs)"
  by (cases rs) simp_all

lemma query_stream_typed:
  assumes fit: "\<And>vals. vals \<in> set valss \<Longrightarrow> fits_schema schema vals" and ty: "query_typed fmt schema stmt"
  shows "query_stream fmt schema stmt (map row_bytes valss) = map Inr (map row_bytes (query fmt schema stmt valss))"
proof -
  have w: "where_stream fmt schema stmt (map row_bytes valss) = map Inr (map row_bytes (filter (where_true fmt schema stmt) valss))"
  proof (cases "sel_where_clause stmt")
    case None
    then show ?thesis by (simp add: where_stream_def where_true_def)
  next
    case (Some cond)
    have "select_stream (evaluate_condition fmt schema cond) (map Inr (map row_bytes valss)) =
        map Inr (map row_bytes (filter (\<lambda>vals. cond_true fmt (column_types schema) (row_env schema vals) cond) valss))"
      using ty Some evaluate_condition_typed [OF fit] by (intro select_stream_map) (simp add: query_typed_def)
    then show ?thesis using Some by (simp add: where_stream_def where_true_def cong: filter_cong)
  qed
  show ?thesis
  proof (cases "sel_select_all stmt")
    case True
    then show ?thesis by (simp add: query_stream_def w query_def chosen_def comp_def del: map_map cong: map_cong)
  next
    case False
    let ?sel = "map (column_pos schema) (sel_columns stmt)"
    have cols: "column_types schema c \<noteq> None" if "c \<in> set (sel_columns stmt)" for c
      using that ty False by (simp add: query_typed_def)
    have ok: "\<forall>i \<in> set ?sel. i < length schema" using cols column_pos(1) by fastforce
    have "project schema ?sel (row_bytes vals) = Inr (row_bytes (chosen schema stmt vals))" if "fits_schema schema vals" for vals
    proof -
      have "row_env schema vals c = Some (vals ! column_pos schema c)" if "c \<in> set (sel_columns stmt)" for c
        using cols [OF that] row_env_eq fits_schemaD(1) [OF \<open>fits_schema schema vals\<close>] by fastforce
      then have "map (\<lambda>i. encode (vals ! i)) ?sel = map encode (chosen schema stmt vals)"
        using False by (auto simp: chosen_def)
      then show ?thesis using project_row [OF that ok] by (simp only:)
    qed
    then have "project_stream (project schema ?sel) (map Inr (map row_bytes (filter (where_true fmt schema stmt) valss))) =
        map Inr (map (\<lambda>vals. row_bytes (chosen schema stmt vals)) (filter (where_true fmt schema stmt) valss))"
      using fit by (intro project_stream_map) auto
    moreover have "map row_bytes (query fmt schema stmt valss) =
        map (\<lambda>vals. row_bytes (chosen schema stmt vals)) (filter (where_true fmt schema stmt) valss)"
      by (simp add: query_def comp_def)
    moreover have "selected_indices schema (sel_columns stmt) = Inr ?sel" using cols by (intro selected_indices_ok) blast
    ultimately show ?thesis
      using False by (simp add: query_stream_def w Let_def del: map_map)
  qed
qed

end
