(* ===== verification/Page_Vacuum.thy ===== *)
theory Page_Vacuum
  imports Page_Layout
begin

text \<open>
  \<open>VacuumPage\<close> keeps every record: the first loop gives deleted slots size zero and queues the live
  ones, the second moves records towards the end of the page, greatest offset first, so that a move
  never overwrites a record that has not moved yet. All the space that records do not use ends up in
  the free area.
\<close>

section \<open>The first loop\<close>

text \<open>The page after the first loop has passed the slots below \<open>m\<close>, and the queue it has built.\<close>

definition shrunk :: "FullPage \<Rightarrow> nat \<Rightarrow> FullPage \<Rightarrow> bool" where
  "shrunk page m page' \<longleftrightarrow>
     length page' = 4096 \<and> free_start page' = free_start page \<and> free_end page' = free_end page \<and>
     GetNumTuples page' = GetNumTuples page \<and>
     (\<forall>j. slot_del page' j = slot_del page j) \<and> (\<forall>j. slot_off page' j = slot_off page j) \<and>
     (\<forall>j. slot_sz page' j = (if j < m \<and> slot_del page j then 0 else slot_sz page j)) \<and>
     (\<forall>off n. free_start page \<le> off \<longrightarrow> mem_read off n page' = mem_read off n page)"

definition queue_of :: "FullPage \<Rightarrow> nat \<Rightarrow> SlotEntry list" where
  "queue_of page m = map (\<lambda>j. \<lparr>se_slot_id = of_nat j, se_offset = of_nat (slot_off page j),
     se_size = of_nat (slot_sz page j)\<rparr>) (filter (\<lambda>j. \<not> slot_del page j) [0..<m])"

lemma shrunk_num_slots: "shrunk page m page' \<Longrightarrow> num_slots page' = num_slots page"
  by (simp add: shrunk_def num_slots_def)

lemma shrunk_directory_ok: "shrunk page m page' \<Longrightarrow> directory_ok page \<Longrightarrow> directory_ok page'"
  using shrunk_num_slots [of page m page'] by (auto simp: shrunk_def directory_ok_def)

lemma vacuum_collect_from:
  assumes dir: "directory_ok page0" and "shrunk page0 (unat slot) page" and "unat slot \<le> num_slots page0"
  shows "\<exists>page'. vacuum_collect slot page (queue_of page0 (unat slot)) =
    Inr (page', queue_of page0 (num_slots page0)) \<and> shrunk page0 (num_slots page0) page'"
  using assms(2,3)
proof (induction "num_slots page0 - unat slot" arbitrary: slot page)
  case 0
  then have "unat slot = num_slots page0" by simp
  then show ?case
    using shrunk_directory_ok [OF "0.prems"(1) dir] shrunk_num_slots [OF "0.prems"(1)] "0.prems"(1)
    by (simp add: vacuum_collect.simps slot_less_capacity)
next
  case (Suc n)
  note sh = Suc.prems(1)
  have i: "unat slot < num_slots page0" using Suc.hyps(2) by simp
  have dir': "directory_ok page" and ns: "num_slots page = num_slots page0"
    using shrunk_directory_ok [OF sh dir] shrunk_num_slots [OF sh] by simp_all
  have slot1: "unat (slot + 1) = unat slot + 1"
    using i directory_okD(3) [OF dir] by (simp add: unat_word_ariths)
  have n: "n = num_slots page0 - unat (slot + 1)" using Suc.hyps(2) slot1 by simp
  have i': "unat slot < num_slots page" using i ns by simp
  note get = slot_getters [OF dir' i'] and set = slot_setters [OF dir' i']
  have lt: "slot < GetPageCapacity page" using i' dir' by (simp add: slot_less_capacity)
  have views: "slot_del page (unat slot) = slot_del page0 (unat slot)"
    "slot_off page (unat slot) = slot_off page0 (unat slot)"
    "slot_sz page (unat slot) = slot_sz page0 (unat slot)"
    using sh by (simp_all add: shrunk_def)
  show ?case
  proof (cases "slot_del page0 (unat slot)")
    case True
    have "shrunk page0 (unat (slot + 1)) (put_sz page (unat slot) 0)"
      using sh True directory_okD [OF dir'] directory_okD(2) [OF dir] i i' slot1
      unfolding shrunk_def by (auto simp: page_simps slot_frame)
    moreover have "queue_of page0 (unat (slot + 1)) = queue_of page0 (unat slot)"
      using slot1 True by (simp add: queue_of_def)
    ultimately show ?thesis
      using Suc.hyps(1) [OF n, of "put_sz page (unat slot) 0"] i slot1 lt get set views True
      by (simp add: vacuum_collect.simps [of slot])
  next
    case False
    have "shrunk page0 (unat (slot + 1)) page"
      using sh False slot1 unfolding shrunk_def by (auto simp: less_Suc_eq)
    moreover have "queue_of page0 (unat (slot + 1)) = queue_of page0 (unat slot) @
        [\<lparr>se_slot_id = slot, se_offset = of_nat (slot_off page0 (unat slot)),
          se_size = of_nat (slot_sz page0 (unat slot))\<rparr>]"
      using slot1 False by (simp add: queue_of_def)
    ultimately show ?thesis
      using Suc.hyps(1) [OF n, of page] i slot1 lt get views False
      by (simp add: vacuum_collect.simps [of slot])
  qed
qed

section \<open>The second loop\<close>

lemma pq_pop_max:
  "pq_pop pq = Some (e, rest) \<Longrightarrow> \<forall>x \<in> set pq. se_offset x \<le> se_offset e"
  by (induction pq arbitrary: e rest)
    (fastforce split: option.splits if_splits)+

definition pending :: "SlotEntry list \<Rightarrow> nat set" where
  "pending pq = (\<lambda>e. unat (se_slot_id e)) ` set pq"

text \<open>
  The loop invariant: \<open>rec\<close> gives each live slot's record, \<open>fe\<close> is \<open>freespace_end\<close>. Records still
  queued lie below \<open>fe\<close> with the queued offset and size, records already moved lie above it and fill
  the page to its end.
\<close>

definition vacuum_inv :: "(nat \<Rightarrow> byte list) \<Rightarrow> SlotEntry list \<Rightarrow> nat \<Rightarrow> FullPage \<Rightarrow> bool" where
  "vacuum_inv rec pq fe page \<longleftrightarrow>
     directory_ok page \<and> free_start page \<le> fe \<and> fe \<le> 4096 \<and>
     distinct (map (\<lambda>e. unat (se_slot_id e)) pq) \<and> pending pq \<subseteq> live_slots page \<and>
     (\<forall>e \<in> set pq. unat (se_offset e) = slot_off page (unat (se_slot_id e)) \<and>
        unat (se_size e) = slot_sz page (unat (se_slot_id e))) \<and>
     (\<forall>i < num_slots page. slot_off page i + slot_sz page i \<le> 4096 \<and>
        (slot_del page i \<longrightarrow> slot_sz page i = 0)) \<and>
     (\<forall>i \<in> pending pq. slot_sz page i = 0 \<or>
        free_start page \<le> slot_off page i \<and> slot_off page i + slot_sz page i \<le> fe) \<and>
     (\<forall>i \<in> live_slots page - pending pq. slot_sz page i = 0 \<or> fe \<le> slot_off page i) \<and>
     (\<forall>i < num_slots page. \<forall>j < num_slots page. i \<noteq> j \<longrightarrow> apart page i j) \<and>
     (\<forall>i \<in> live_slots page. record_at page i = rec i) \<and>
     fe + (\<Sum>i \<in> live_slots page - pending pq. slot_sz page i) = 4096"

lemma vacuum_invI:
  assumes "directory_ok page" and "free_start page \<le> fe" and "fe \<le> 4096"
    and "distinct (map (\<lambda>e. unat (se_slot_id e)) pq)" and "pending pq \<subseteq> live_slots page"
    and "\<And>e. e \<in> set pq \<Longrightarrow> unat (se_offset e) = slot_off page (unat (se_slot_id e)) \<and>
      unat (se_size e) = slot_sz page (unat (se_slot_id e))"
    and "\<And>i. i < num_slots page \<Longrightarrow> slot_off page i + slot_sz page i \<le> 4096 \<and>
      (slot_del page i \<longrightarrow> slot_sz page i = 0)"
    and "\<And>i. i \<in> pending pq \<Longrightarrow> slot_sz page i = 0 \<or>
      free_start page \<le> slot_off page i \<and> slot_off page i + slot_sz page i \<le> fe"
    and "\<And>i. i \<in> live_slots page - pending pq \<Longrightarrow> slot_sz page i = 0 \<or> fe \<le> slot_off page i"
    and "\<And>i j. i < num_slots page \<Longrightarrow> j < num_slots page \<Longrightarrow> i \<noteq> j \<Longrightarrow> apart page i j"
    and "\<And>i. i \<in> live_slots page \<Longrightarrow> record_at page i = rec i"
    and "fe + (\<Sum>i \<in> live_slots page - pending pq. slot_sz page i) = 4096"
  shows "vacuum_inv rec pq fe page"
  using assms unfolding vacuum_inv_def by blast

lemma pq_pop_pending:
  assumes "pq_pop pq = Some (e, rest)" and "distinct (map (\<lambda>e. unat (se_slot_id e)) pq)"
  shows "set pq = insert e (set rest)" and "pending pq = insert (unat (se_slot_id e)) (pending rest)"
    and "unat (se_slot_id e) \<notin> pending rest"
    and "distinct (map (\<lambda>e. unat (se_slot_id e)) rest)"
proof -
  note m = pq_pop_mset [OF assms(1)]
  then show s: "set pq = insert e (set rest)" by (metis set_mset_add_mset_insert set_mset_mset)
  then show "pending pq = insert (unat (se_slot_id e)) (pending rest)" by (auto simp: pending_def)
  have "mset (map (\<lambda>e. unat (se_slot_id e)) pq) = mset (map (\<lambda>e. unat (se_slot_id e)) (e # rest))"
    using m by simp
  then have "distinct (map (\<lambda>e. unat (se_slot_id e)) (e # rest))"
    using assms(2) by (metis mset_eq_imp_distinct_iff)
  then show "unat (se_slot_id e) \<notin> pending rest" "distinct (map (\<lambda>e. unat (se_slot_id e)) rest)"
    by (auto simp: pending_def)
qed

text \<open>One move, on the page alone: the record of slot \<open>i\<close> goes to \<open>[to, to + size)\<close>.\<close>

definition moved :: "FullPage \<Rightarrow> nat \<Rightarrow> nat \<Rightarrow> FullPage" where
  "moved page i to = put_off (mem_write to (record_at page i) page) i (of_nat to)"

lemma moved_views:
  assumes dir: "directory_ok page" and i: "i < num_slots page"
    and fits: "slot_off page i + slot_sz page i \<le> 4096" "to + slot_sz page i \<le> 4096"
    and above: "free_start page \<le> to"
  shows "length (moved page i to) = 4096" and "free_start (moved page i to) = free_start page"
    and "num_slots (moved page i to) = num_slots page"
    and "GetNumTuples (moved page i to) = GetNumTuples page"
    and "j < num_slots page \<Longrightarrow> slot_del (moved page i to) j = slot_del page j"
    and "j < num_slots page \<Longrightarrow>
      slot_off (moved page i to) j = (if j = i then to else slot_off page j)"
    and "j < num_slots page \<Longrightarrow> slot_sz (moved page i to) j = slot_sz page j"
    and "mem_read to (slot_sz page i) (moved page i to) = record_at page i"
    and "free_start page \<le> off \<Longrightarrow> off + n \<le> to \<or> to + slot_sz page i \<le> off \<Longrightarrow>
      mem_read off n (moved page i to) = mem_read off n page"
proof -
  note d = directory_okD [OF dir]
  have len: "length (record_at page i) = slot_sz page i"
    using fits d(1) by (simp add: record_at_def)
  have above': "15 \<le> to" "20 + 5 * i \<le> to" "\<And>j. j < num_slots page \<Longrightarrow> 20 + 5 * j \<le> to"
    using above d(2) i by auto
  have to: "unat (of_nat to :: 16 word) = to" using fits by (simp add: unat_of_nat_16)
  show "length (moved page i to) = 4096" "free_start (moved page i to) = free_start page"
    "num_slots (moved page i to) = num_slots page"
    "GetNumTuples (moved page i to) = GetNumTuples page"
    using len fits d(1) d(4) [OF i] above' by (simp_all add: moved_def page_simps)
  show "slot_del (moved page i to) j = slot_del page j"
    "slot_off (moved page i to) j = (if j = i then to else slot_off page j)"
    "slot_sz (moved page i to) j = slot_sz page j" if "j < num_slots page" for j
    using len fits d(1) d(4) [OF i] above' to that by (simp_all add: moved_def page_simps)
  show "mem_read to (slot_sz page i) (moved page i to) = record_at page i"
    using len fits d(1) d(4) [OF i] above' by (simp add: moved_def page_simps slot_frame mem_simps)
  show "mem_read off n (moved page i to) = mem_read off n page"
    if "free_start page \<le> off" "off + n \<le> to \<or> to + slot_sz page i \<le> off" for off n
  proof -
    have "20 + 5 * i \<le> off" using that(1) d(2) i by simp
    then show ?thesis
      using len fits d(1) d(4) [OF i] above' that(2)
      by (auto simp: moved_def page_simps slot_frame mem_read_write_other)
  qed
qed

text \<open>The entry on top of the queue, and the room above its record.\<close>

lemma vacuum_inv_top:
  assumes inv: "vacuum_inv rec pq fe page" and pop: "pq_pop pq = Some (e, rest)"
    and i: "i = unat (se_slot_id e)"
  shows "i \<in> live_slots page" and "i < num_slots page" and "unat (se_offset e) = slot_off page i"
    and "unat (se_size e) = slot_sz page i" and "slot_sz page i \<le> fe"
    and "slot_off page i + slot_sz page i \<le> 4096" and "free_start page \<le> fe - slot_sz page i"
    and "slot_sz page i = 0 \<or> slot_off page i \<le> fe - slot_sz page i"
    and "pending pq = insert i (pending rest)" and "i \<notin> pending rest"
    and "k \<in> pending rest \<Longrightarrow> slot_sz page k = 0 \<or>
      free_start page \<le> slot_off page k \<and> slot_off page k + slot_sz page k \<le> fe - slot_sz page i"
proof -
  note I = inv [unfolded vacuum_inv_def]
  have dist: "distinct (map (\<lambda>e. unat (se_slot_id e)) pq)" using I by blast
  note pp = pq_pop_pending [OF pop dist, folded i]
  show live: "i \<in> live_slots page" using I pp(2) by blast
  then show lt: "i < num_slots page" by (simp add: live_slots_def)
  show eo: "unat (se_offset e) = slot_off page i" and "unat (se_size e) = slot_sz page i"
    using I pp(1) by (auto simp: i)
  have room: "slot_sz page i = 0 \<or>
      free_start page \<le> slot_off page i \<and> slot_off page i + slot_sz page i \<le> fe"
    using I pp(2) by auto
  show "slot_sz page i \<le> fe" "slot_off page i + slot_sz page i \<le> 4096"
    "free_start page \<le> fe - slot_sz page i"
    "slot_sz page i = 0 \<or> slot_off page i \<le> fe - slot_sz page i"
    using room I lt by auto
  show "pending pq = insert i (pending rest)" "i \<notin> pending rest" using pp by auto
  show "slot_sz page k = 0 \<or> free_start page \<le> slot_off page k \<and>
      slot_off page k + slot_sz page k \<le> fe - slot_sz page i" if k: "k \<in> pending rest" for k
  proof -
    have kin: "k \<in> pending pq" "k \<noteq> i" using k pp by auto
    then have klive: "k < num_slots page" using I by (auto simp: live_slots_def)
    obtain x where x: "x \<in> set pq" "k = unat (se_slot_id x)" using kin by (auto simp: pending_def)
    then have "slot_off page k \<le> slot_off page i"
      using pq_pop_max [OF pop] I eo by (force simp: word_le_nat_alt)
    moreover have "apart page i k" using I lt klive kin(2) by auto
    ultimately show ?thesis using I kin(1) room by (fastforce simp: apart_def)
  qed
qed

text \<open>No record loses a byte to the move.\<close>

lemma vacuum_inv_records:
  assumes inv: "vacuum_inv rec pq fe page" and pop: "pq_pop pq = Some (e, rest)"
    and i: "i = unat (se_slot_id e)" and j: "j \<in> live_slots page"
  shows "record_at (moved page i (fe - slot_sz page i)) j = rec j"
proof -
  note I = inv [unfolded vacuum_inv_def] and top = vacuum_inv_top [OF inv pop i]
  let ?fe = "fe - slot_sz page i"
  have dir: "directory_ok page" and fe: "?fe + slot_sz page i \<le> 4096" using I top by auto
  note mv = moved_views [OF dir top(2) top(6) fe top(7)]
  have jn: "j < num_slots page" and rj: "record_at page j = rec j" using j I by (auto simp: live_slots_def)
  show ?thesis
  proof (cases "j = i")
    case True
    then show ?thesis using mv(6,7,8) jn rj by (simp add: record_at_def)
  next
    case False
    have "slot_sz page j = 0 \<or> free_start page \<le> slot_off page j \<and>
        (slot_off page j + slot_sz page j \<le> ?fe \<or> ?fe + slot_sz page i \<le> slot_off page j)"
    proof (cases "j \<in> pending rest")
      case True
      then show ?thesis using top(11) [of j] by auto
    next
      case False
      then have "slot_sz page j = 0 \<or> fe \<le> slot_off page j" using I j top(9) \<open>j \<noteq> i\<close> by auto
      then show ?thesis using I top(5) by auto
    qed
    then have "slot_sz page j = 0 \<or> mem_read (slot_off page j) (slot_sz page j) (moved page i ?fe) =
        mem_read (slot_off page j) (slot_sz page j) page"
      using mv(9) by auto
    then show ?thesis using record_at_eq [of "moved page i ?fe" j page] mv(6,7) jn rj False by auto
  qed
qed

lemma vacuum_inv_step:
  assumes inv: "vacuum_inv rec pq fe page" and pop: "pq_pop pq = Some (e, rest)"
    and i: "i = unat (se_slot_id e)"
  shows "vacuum_inv rec rest (fe - slot_sz page i) (moved page i (fe - slot_sz page i))"
proof -
  note I = inv [unfolded vacuum_inv_def] and top = vacuum_inv_top [OF inv pop i]
  let ?fe = "fe - slot_sz page i" and ?p = "moved page i (fe - slot_sz page i)"
  have dir: "directory_ok page" and fe: "?fe + slot_sz page i \<le> 4096" using I top by auto
  have dist: "distinct (map (\<lambda>e. unat (se_slot_id e)) pq)" using I by blast
  note pp = pq_pop_pending [OF pop dist, folded i]
  note mv = moved_views [OF dir top(2) top(6) fe top(7)]
  have live: "live_slots ?p = live_slots page" using mv by (auto simp: live_slots_def)
  have lt: "j < num_slots page" if "j \<in> live_slots page" for j using that by (simp add: live_slots_def)
  have sub: "pending rest \<subseteq> live_slots page" "j \<in> pending rest \<Longrightarrow> j < num_slots page \<and> j \<noteq> i" for j
    using I pp lt by auto
  have entries: "unat (se_offset x) = slot_off ?p (unat (se_slot_id x)) \<and>
      unat (se_size x) = slot_sz ?p (unat (se_slot_id x))" if "x \<in> set rest" for x
    using that I pp(1) sub(2) [of "unat (se_slot_id x)"] mv(6,7) by (auto simp: pending_def)
  have extents: "slot_off ?p j + slot_sz ?p j \<le> 4096 \<and> (slot_del ?p j \<longrightarrow> slot_sz ?p j = 0)"
    if "j < num_slots page" for j
    using that I mv(5-7) fe by auto
  have waiting: "slot_sz ?p j = 0 \<or> free_start page \<le> slot_off ?p j \<and> slot_off ?p j + slot_sz ?p j \<le> ?fe"
    if "j \<in> pending rest" for j
    using top(11) [OF that] sub(2) [OF that] mv(2,6,7) by auto
  have settled: "slot_sz ?p j = 0 \<or> ?fe \<le> slot_off ?p j" if "j \<in> live_slots page - pending rest" for j
    using that I top(9) lt [of j] mv(6,7) by (cases "j = i") auto
  have apt_i: "apart ?p i k" if k: "k < num_slots page" "k \<noteq> i" for k
  proof -
    consider "slot_del page k" | "k \<in> pending rest" | "k \<in> live_slots page - pending pq"
      using k top(9) by (auto simp: live_slots_def)
    then have "slot_sz page k = 0 \<or> slot_off page k + slot_sz page k \<le> ?fe \<or> fe \<le> slot_off page k"
    proof cases
      case 1
      then show ?thesis using I k(1) by auto
    next
      case 2
      then show ?thesis using top(11) [of k] by auto
    next
      case 3
      then have "slot_sz page k = 0 \<or> fe \<le> slot_off page k" using I by blast
      then show ?thesis by auto
    qed
    then show ?thesis using k top(2,5) mv(6,7) by (auto simp: apart_def)
  qed
  have apt: "apart ?p j k" if "j < num_slots page" "k < num_slots page" "j \<noteq> k" for j k
  proof (cases "j = i \<or> k = i")
    case True
    then show ?thesis using apt_i [of j] apt_i [of k] that by (auto simp: apart_def)
  next
    case False
    then show ?thesis using I that mv(6,7) by (simp add: apart_def)
  qed
  have split: "live_slots page - pending rest = insert i (live_slots page - pending pq)"
    and fresh: "i \<notin> live_slots page - pending pq"
    using top(1,9,10) by auto
  have "(\<Sum>j \<in> live_slots page - pending rest. slot_sz ?p j) =
      slot_sz ?p i + (\<Sum>j \<in> live_slots page - pending pq. slot_sz ?p j)"
    unfolding split using fresh by (intro sum.insert) simp_all
  also have "slot_sz ?p i = slot_sz page i" using mv(7) [OF top(2)] .
  also have "(\<Sum>j \<in> live_slots page - pending pq. slot_sz ?p j) =
      (\<Sum>j \<in> live_slots page - pending pq. slot_sz page j)"
    by (intro sum.cong refl) (use mv(7) lt in auto)
  finally have total: "?fe + (\<Sum>j \<in> live_slots page - pending rest. slot_sz ?p j) = 4096"
    using I top(5) by auto
  have dir': "directory_ok ?p" using dir mv(1-3) by (simp add: directory_ok_def)
  have fe': "?fe \<le> 4096" using fe by simp
  note rec' = vacuum_inv_records [OF inv pop i]
  show ?thesis
  proof (rule vacuum_invI, unfold live mv(2,3))
  qed (fact dir' top(7) fe' sub(1) pp(4) total entries extents waiting settled apt rec')+
qed

lemma vacuum_move_correct:
  assumes "vacuum_inv rec pq (unat fe) page"
  shows "\<exists>page' fe'. vacuum_move pq fe page = Inr (SetEndFreeSpace page' fe') \<and>
    vacuum_inv rec [] (unat fe') page' \<and> num_slots page' = num_slots page \<and>
    GetNumTuples page' = GetNumTuples page \<and>
    (\<forall>j < num_slots page. slot_del page' j = slot_del page j \<and> slot_sz page' j = slot_sz page j)"
  using assms
proof (induction "length pq" arbitrary: pq fe page rule: less_induct)
  case less
  note inv = less.prems
  show ?case
  proof (cases "pq_pop pq")
    case None
    then show ?thesis using inv by (auto simp: vacuum_move.simps)
  next
    case (Some x)
    then obtain e rest where pop: "pq_pop pq = Some (e, rest)" by (cases x) auto
    define i where "i = unat (se_slot_id e)"
    note top = vacuum_inv_top [OF inv pop i_def]
    have dir: "directory_ok page" and le: "unat fe \<le> 4096"
      using inv by (auto simp: vacuum_inv_def)
    have fe': "unat (fe - se_size e) = unat fe - slot_sz page i"
      using top(4,5) by (simp add: unat_sub word_le_nat_alt)
    let ?to = "unat fe - slot_sz page i"
    have fits: "?to + slot_sz page i \<le> 4096" using top(5) le by simp
    note mv = moved_views [OF dir top(2,6) fits top(7)] and d = directory_okD [OF dir]
    let ?bytes = "mem_read (slot_off page i) (slot_sz page i) page"
    have len: "length ?bytes = slot_sz page i" using top(6) d(1) by simp
    have "15 \<le> ?to" using top(7) d(2) by simp
    then have dir2: "directory_ok (mem_write ?to ?bytes page)" "num_slots (mem_write ?to ?bytes page) = num_slots page"
      using dir d(1) fits len by (simp_all add: page_simps)
    have moved: "put_off (mem_write ?to ?bytes page) i (fe - se_size e) = moved page i ?to"
      unfolding moved_def record_at_def using fe' by (metis of_nat_unat ucast_id)
    have "vacuum_move pq fe page = vacuum_move rest (fe - se_size e) (moved page i ?to)"
      using pop top(2-6) d(1) fits len fe' dir2 moved slot_setters(2) [OF dir2(1), of "se_slot_id e"]
      by (simp add: vacuum_move.simps [of pq] load_def store_def Let_def i_def)
    moreover have "vacuum_inv rec rest (unat (fe - se_size e)) (moved page i ?to)"
      using vacuum_inv_step [OF inv pop i_def] fe' by simp
    moreover have "length rest < length pq"
      using pq_pop_mset [OF pop] by (metis lessI size_add_mset size_mset)
    ultimately show ?thesis
      using less.hyps [of rest "fe - se_size e" "moved page i ?to"] mv(3,4,5,7) by fastforce
  qed
qed

section \<open>Claims\<close>

lemma page_ok_shrunk:
  assumes ok: "page_ok 4096 page" and sh: "shrunk page (num_slots page) page'"
  shows "vacuum_inv (record_at page) (queue_of page (num_slots page)) 4096 page'"
proof -
  note d = directory_okD [OF page_okD(1) [OF ok]] and ns = shrunk_num_slots [OF sh]
  let ?q = "queue_of page (num_slots page)"
  have idx: "unat (of_nat j :: 16 word) = j" if "j < num_slots page" for j
    using that d(3) by (simp add: unat_of_nat_16)
  have live: "live_slots page' = live_slots page" using sh ns by (auto simp: live_slots_def shrunk_def)
  have "map (\<lambda>e. unat (se_slot_id e)) ?q = filter (\<lambda>j. \<not> slot_del page j) [0..<num_slots page]"
    using idx by (auto simp: queue_of_def intro: map_idI)
  then have dist: "distinct (map (\<lambda>e. unat (se_slot_id e)) ?q)" and pend: "pending ?q = live_slots page"
    by (auto simp: pending_def live_slots_def simp flip: set_map)
  have entries: "unat (se_offset e) = slot_off page' (unat (se_slot_id e)) \<and>
      unat (se_size e) = slot_sz page' (unat (se_slot_id e))" if "e \<in> set ?q" for e
    using that sh idx slot_off_less [of page] slot_sz_less [of page]
    by (auto simp: queue_of_def shrunk_def unat_of_nat_16)
  have ext: "extent_ok 4096 page j" if "j < num_slots page" for j by (rule page_okD(5) [OF ok that])
  have views: "slot_off page' j = slot_off page j"
    "slot_sz page' j = (if j < num_slots page \<and> slot_del page j then 0 else slot_sz page j)" for j
    using sh by (auto simp: shrunk_def)
  have apt: "apart page' j k" if "j < num_slots page" "k < num_slots page" "j \<noteq> k" for j k
    using page_okD(6) [OF ok that] views by (auto simp: apart_def)
  have rec: "record_at page' j = record_at page j" if "j \<in> live_slots page" for j
  proof (rule record_at_eq)
    have j: "j < num_slots page" "\<not> slot_del page j" using that by (auto simp: live_slots_def)
    show "slot_off page' j = slot_off page j" "slot_sz page' j = slot_sz page j" using views j by auto
    show "slot_sz page j = 0 \<or> mem_read (slot_off page j) (slot_sz page j) page' =
        mem_read (slot_off page j) (slot_sz page j) page"
      using ext [OF j(1)] page_okD(3) [OF ok] sh by (auto simp: extent_ok_def shrunk_def)
  qed
  have waiting: "slot_sz page' j = 0 \<or>
      free_start page' \<le> slot_off page' j \<and> slot_off page' j + slot_sz page' j \<le> 4096"
    if "j < num_slots page" for j
    using ext [OF that] views page_okD(3) [OF ok] sh by (auto simp: extent_ok_def shrunk_def)
  have off_le: "slot_off page' j + slot_sz page' j \<le> 4096 \<and> (slot_del page' j \<longrightarrow> slot_sz page' j = 0)"
    if "j < num_slots page" for j
    using ext [OF that] views sh that by (auto simp: extent_ok_def shrunk_def)
  have start: "free_start page' \<le> 4096" using sh d(2,3) by (simp add: shrunk_def)
  have lt: "j \<in> live_slots page \<Longrightarrow> j < num_slots page" for j by (simp add: live_slots_def)
  note dir' = shrunk_directory_ok [OF sh page_okD(1) [OF ok]]
  show ?thesis
  proof (rule vacuum_invI, unfold ns live pend)
  qed (fact dir' start dist entries off_le apt rec waiting [OF lt] | simp)+
qed

lemma sum_list_live:
  "sum_list (map length (List.map_filter id (map f [0..<n]))) =
     (\<Sum>j \<in> {j. j < n \<and> f j \<noteq> None}. length (the (f j)))"
proof (induction n)
  case (Suc n)
  have "{j. j < Suc n \<and> f j \<noteq> None} =
      (if f n = None then {} else {n}) \<union> {j. j < n \<and> f j \<noteq> None}"
    by (auto simp: less_Suc_eq)
  then show ?case using Suc by (simp add: List.map_filter_def)
qed (simp add: List.map_filter_def)

lemma vacuum_finish:
  assumes ok: "page_ok 4096 page" and inv: "vacuum_inv (record_at page) [] (unat fe) page2"
    and ns: "num_slots page2 = num_slots page" and nt: "GetNumTuples page2 = GetNumTuples page"
    and del: "\<And>j. j < num_slots page \<Longrightarrow> slot_del page2 j = slot_del page j"
  shows "page_ok 4096 (SetEndFreeSpace page2 fe) \<and>
    page_records (SetEndFreeSpace page2 fe) = page_records page \<and>
    GetNumTuples (SetEndFreeSpace page2 fe) = GetNumTuples page \<and>
    unat (GetFreeSpaceSize (SetEndFreeSpace page2 fe)) + 15 + 5 * length (page_records page) +
      sum_list (map length (List.map_filter id (page_records page))) = 4096"
proof -
  note I = inv [unfolded vacuum_inv_def]
  have dir: "directory_ok page2" using I by blast
  note d = directory_okD [OF dir]
  let ?p = "SetEndFreeSpace page2 fe"
  have views: "free_start ?p = free_start page2" "free_end ?p = unat fe" "num_slots ?p = num_slots page2"
    "GetNumTuples ?p = GetNumTuples page2" "slot_del ?p j = slot_del page2 j"
    "slot_off ?p j = slot_off page2 j" "slot_sz ?p j = slot_sz page2 j" for j
    using d(1) by (simp_all add: page_simps)
  have live2: "live_slots page2 = live_slots page" using ns del by (auto simp: live_slots_def)
  have live: "live_slots ?p = live_slots page2" using views by (simp add: live_slots_def)
  have ext: "extent_ok 4096 ?p j" if "j < num_slots page2" for j
    using I that views by (cases "slot_del page2 j") (auto simp: extent_ok_def live_slots_def pending_def)
  have ok': "page_ok 4096 ?p"
    using ok I ext views live live2 nt dir page_simps d(1)
    by (auto simp: page_ok_def apart_def page_simps)
  have rec: "record_at ?p j = record_at page j" if "j < num_slots page" "\<not> slot_del page j" for j
  proof -
    have "record_at page2 j = record_at page j" using I that ns del by (auto simp: live_slots_def)
    moreover have "slot_sz page2 j = 0 \<or> 15 \<le> slot_off page2 j"
      using I that ns del d(2) by (auto simp: live_slots_def pending_def)
    ultimately show ?thesis
      using record_at_eq [of ?p j page2] views d(1) by (auto simp: header_frame)
  qed
  have recs: "page_records ?p = page_records page"
    using ns del rec views by (intro nth_equalityI) (auto simp: nth_page_records)
  have total: "unat fe + (\<Sum>j \<in> live_slots page2. slot_sz page2 j) = 4096"
    using I by (simp add: pending_def)
  have "sum_list (map length (List.map_filter id (page_records ?p))) =
      (\<Sum>j \<in> live_slots page2. slot_sz page2 j)"
  proof -
    have "length (record_at ?p j) = slot_sz page2 j" if "j \<in> live_slots page2" for j
    proof -
      have "slot_off page2 j + slot_sz page2 j \<le> 4096"
        using ok' that unfolding page_ok_def extent_ok_def by (auto simp: live_slots_def views)
      then show ?thesis using d(1) by (simp add: record_at_def views page_simps)
    qed
    then show ?thesis
      unfolding page_records_def sum_list_live
      by (intro sum.cong) (auto simp: live_slots_def views split: if_splits)
  qed
  then show ?thesis
    using ok' recs total views nt unat_GetFreeSpaceSize [OF page_okD(3) [OF ok']] d(2) I ns
    by simp
qed

lemma VacuumPage_result:
  assumes "page_ok 4096 page"
  shows "\<exists>page'. VacuumPage page = Inr page' \<and> page_ok 4096 page' \<and>
    page_records page' = page_records page \<and> GetNumTuples page' = GetNumTuples page \<and>
    unat (GetFreeSpaceSize page') + 15 + 5 * length (page_records page) +
      sum_list (map length (List.map_filter id (page_records page))) = 4096"
proof -
  note ok = assms and dir = page_okD(1) [OF assms]
  have "shrunk page 0 page" using directory_okD [OF dir] by (simp add: shrunk_def)
  then obtain page1 where c: "vacuum_collect 0 page [] = Inr (page1, queue_of page (num_slots page))"
    and sh: "shrunk page (num_slots page) page1"
    using vacuum_collect_from [OF dir, of 0 page] by (auto simp: queue_of_def)
  obtain page2 fe where m:
    "vacuum_move (queue_of page (num_slots page)) 4096 page1 = Inr (SetEndFreeSpace page2 fe)"
    and inv: "vacuum_inv (record_at page) [] (unat fe) page2"
    and same: "num_slots page2 = num_slots page1" "GetNumTuples page2 = GetNumTuples page1"
      "\<forall>j < num_slots page1. slot_del page2 j = slot_del page1 j \<and> slot_sz page2 j = slot_sz page1 j"
    using vacuum_move_correct [of "record_at page" "queue_of page (num_slots page)" 4096 page1]
      page_ok_shrunk [OF ok sh] by auto
  have ns: "num_slots page2 = num_slots page" using same(1) shrunk_num_slots [OF sh] by simp
  have nt: "GetNumTuples page2 = GetNumTuples page" using same(2) sh by (simp add: shrunk_def)
  have del: "slot_del page2 j = slot_del page j" if "j < num_slots page" for j
    using same(3) that ns same(1) sh by (simp add: shrunk_def)
  have "VacuumPage page = Inr (SetEndFreeSpace page2 fe)"
    using c m by (simp add: VacuumPage_def PAGE_SIZE_def)
  moreover note vacuum_finish [OF ok inv ns nt del]
  ultimately show ?thesis by blast
qed

text \<open>
  C20: \<open>VacuumPage\<close> on a well-formed page whose records may use the whole page succeeds, keeps every
  slot id, every record's bytes and the tuple count, leaves the page well formed, and gives all the
  space not taken by the header, the directory and live records back to the free area.
\<close>

theorem VacuumPage_correct:
  assumes "page_ok 4096 page"
  shows "\<exists>page'. VacuumPage page = Inr page' \<and> page_ok 4096 page' \<and>
    page_records page' = page_records page \<and> GetNumTuples page' = GetNumTuples page \<and>
    unat (GetFreeSpaceSize page') + 15 + 5 * length (page_records page) +
      sum_list (map length (List.map_filter id (page_records page))) = 4096"
  by (rule VacuumPage_result [OF assms])

theorem VacuumPage_correct_witness:
  "\<exists>page page'. page_records page = [None, Some [7, 8]] \<and> VacuumPage page = Inr page' \<and>
     page_records page' = [None, Some [7, 8]] \<and> unat (GetFreeSpaceSize page') = 4069"
proof -
  obtain page1 where p1: "page_ok 4096 page1" "page_records page1 = [Some [5]]"
    "free_end page1 - free_start page1 = 4075"
    using store_record_fits [OF empty_page_ok(1), of "[5]"] by (auto simp: empty_page_ok)
  obtain page2 where p2: "page_ok 4096 page2" "page_records page2 = [Some [5], Some [7, 8]]"
    using store_record_fits [OF p1(1), of "[7, 8]"] p1 by auto
  have "\<not> slot_del page2 0" and n: "num_slots page2 = 2"
    using arg_cong [OF p2(2), of length] arg_cong [OF p2(2), of "\<lambda>xs. xs ! 0"]
    by (auto simp: nth_page_records split: if_splits)
  then obtain page where page: "page_ok 4096 page" "page_records page = [None, Some [7, 8]]"
    using DeleteSlot_live [OF p2(1), of 0] p2(2) by auto
  then show ?thesis
    using VacuumPage_correct [OF page(1)] by (auto simp: List.map_filter_def)
qed

end
