(* ===== verification/Heap_Page.thy ===== *)
theory Heap_Page
  imports Page_Vacuum
begin

text \<open>
  Heap pages (\<open>heap_page.h\<close>, \<open>heap_page.cpp\<close>): slotted pages whose last eight bytes hold the
  previous and the next page of a doubly linked list. A heap page is well formed when it is a
  well-formed slotted page whose records end before the links (\<open>heap_ok\<close>, limit 4088). The claims say
  that the row operations and the link operations do not disturb each other.
\<close>

section \<open>Links\<close>

definition SetNextPage :: "FullPage \<Rightarrow> page_id_t \<Rightarrow> FullPage" where
  "SetNextPage page page_id = mem_write (PAGE_SIZE - 4) (word_bytes 4 page_id) page"

definition SetPrevPage :: "FullPage \<Rightarrow> page_id_t \<Rightarrow> FullPage" where
  "SetPrevPage page page_id = mem_write (PAGE_SIZE - 4 * 2) (word_bytes 4 page_id) page"

definition GetNextPage :: "FullPage \<Rightarrow> page_id_t" where
  "GetNextPage page = bytes_word (mem_read (PAGE_SIZE - 4) 4 page)"

definition GetPrevPage :: "FullPage \<Rightarrow> page_id_t" where
  "GetPrevPage page = bytes_word (mem_read (PAGE_SIZE - 4 * 2) 4 page)"

definition GetFullPagesHead :: "FullPage \<Rightarrow> page_id_t" where
  "GetFullPagesHead page = GetNextPage page"

definition GetPartialPagesHead :: "FullPage \<Rightarrow> page_id_t" where
  "GetPartialPagesHead page = GetPrevPage page"

text \<open>\<open>heap_page::InitPage\<close>: the subtraction is \<open>size_t\<close> arithmetic, cast back to an offset.\<close>

definition heap_InitPage :: "FullPage \<Rightarrow> FullPage" where
  "heap_InitPage page =
     (let page = InitPage page PageType_Data;
          page = SetEndFreeSpace page (ucast (ucast (GetEndFreeSpace page) - 4 * 2 :: size_t));
          page = SetNextPage page NULL_PAGE_ID
      in SetPrevPage page NULL_PAGE_ID)"

section \<open>Invariant\<close>

definition heap_ok :: "FullPage \<Rightarrow> bool" where
  "heap_ok page \<longleftrightarrow> page_ok 4088 page"

definition links :: "FullPage \<Rightarrow> page_id_t \<times> page_id_t" where
  "links page = (GetPrevPage page, GetNextPage page)"

lemma heap_okD:
  assumes "heap_ok page"
  shows "page_ok 4088 page" and "length page = 4096"
  using assms directory_okD(1) [OF page_okD(1)] by (auto simp: heap_ok_def)

lemma page_ok_mono: "page_ok limit page \<Longrightarrow> limit \<le> limit' \<Longrightarrow> limit' \<le> 4096 \<Longrightarrow> page_ok limit' page"
  unfolding page_ok_def extent_ok_def by fastforce

lemmas link_defs = SetNextPage_def SetPrevPage_def GetNextPage_def GetPrevPage_def PAGE_SIZE_def

lemma link_views:
  assumes "length page = 4096"
  shows "links (SetNextPage page q) = (fst (links page), q)"
    and "links (SetPrevPage page q) = (q, snd (links page))"
  using assms by (simp_all add: links_def link_defs mem_simps)

text \<open>A write at or after the limit changes nothing the slotted page holds.\<close>

lemma page_ok_tail_write:
  assumes ok: "page_ok limit page" and off: "limit \<le> off" "off + length bs \<le> 4096"
  shows "page_ok limit (mem_write off bs page)"
    and "page_records (mem_write off bs page) = page_records page"
    and "free_end (mem_write off bs page) = free_end page"
    and "GetNumTuples (mem_write off bs page) = GetNumTuples page"
proof -
  note d = directory_okD [OF page_okD(1) [OF ok]] and b = page_okD(2-4) [OF ok]
  let ?p = "mem_write off bs page"
  have lo: "15 + 5 * num_slots page \<le> off" using d b off by simp
  then have views: "length ?p = 4096" "num_slots ?p = num_slots page" "free_start ?p = free_start page"
    "free_end ?p = free_end page" "GetNumTuples ?p = GetNumTuples page"
    using d(1) off by (simp_all add: page_simps)
  have slots: "slot_del ?p j = slot_del page j" "slot_off ?p j = slot_off page j"
    "slot_sz ?p j = slot_sz page j" if "j < num_slots page" for j
    using that lo d(1) off by (simp_all add: page_simps)
  have live: "live_slots ?p = live_slots page" using views slots by (auto simp: live_slots_def)
  show "page_ok limit ?p"
    using ok views slots live by (auto simp: page_ok_def directory_ok_def extent_ok_def apart_def)
  have "record_at ?p j = record_at page j" if "j < num_slots page" for j
    using record_at_eq [of ?p j page] slots [OF that] page_okD(5) [OF ok that] off d(1)
    by (auto simp: extent_ok_def mem_simps)
  then show "page_records ?p = page_records page"
    using views slots by (intro nth_equalityI) (auto simp: nth_page_records)
  show "free_end ?p = free_end page" and "GetNumTuples ?p = GetNumTuples page" by (rule views)+
qed

lemma heap_ok_links:
  assumes "heap_ok page"
  shows "heap_ok (SetNextPage page q)" "heap_ok (SetPrevPage page q)"
    "page_records (SetNextPage page q) = page_records page"
    "page_records (SetPrevPage page q) = page_records page"
    "free_end (SetNextPage page q) = free_end page" "free_end (SetPrevPage page q) = free_end page"
  using page_ok_tail_write [OF heap_okD(1) [OF assms], of 4088 "word_bytes 4 q"]
    page_ok_tail_write [OF heap_okD(1) [OF assms], of 4092 "word_bytes 4 q"]
  by (simp_all add: heap_ok_def link_defs)

text \<open>A heap page keeps its links under every write below them.\<close>

lemma links_frame:
  assumes "mem_read 4088 4 page' = mem_read 4088 4 page" and "mem_read 4092 4 page' = mem_read 4092 4 page"
  shows "links page' = links page"
  using assms by (simp add: links_def link_defs)

lemma alloc_result_links:
  assumes "heap_ok page" and "alloc_result page n (r, page')"
  shows "links page' = links page"
proof -
  have "free_end page \<le> 4088" using page_okD(4) [OF heap_okD(1) [OF assms(1)]] .
  then show ?thesis using assms(2)
    by (intro links_frame) (auto simp: alloc_result_def takes_space_def reuses_space_def split: option.splits)
qed

lemma write_record_links:
  assumes ok: "heap_ok page" and i: "unat slot < num_slots page" "\<not> slot_del page (unat slot)"
    and len: "length row = slot_sz page (unat slot)" and w: "write_record page slot row = Inr page'"
  shows "links page' = links page"
proof -
  have "page' = mem_write (slot_off page (unat slot)) row page"
    using write_record_live [OF heap_okD(1) [OF ok] i len] w by simp
  moreover have "slot_off page (unat slot) + length row \<le> 4088"
    using page_okD(5) [OF heap_okD(1) [OF ok] i(1)] len by (simp add: extent_ok_def)
  ultimately show ?thesis using heap_okD(2) [OF ok] by (intro links_frame) (simp_all add: mem_simps)
qed

lemma DeleteSlot_links:
  assumes "heap_ok page" and "unat slot < num_slots page" and "DeleteSlot page slot = Inr page'"
  shows "links page' = links page"
proof -
  note d = directory_okD [OF page_okD(1) [OF heap_okD(1) [OF assms(1)]]]
  have "20 + 5 * unat slot \<le> 4088"
    using d(2) page_okD(3,4) [OF heap_okD(1) [OF assms(1)]] assms(2) by simp
  then show ?thesis
    using DeleteSlot_in_range [OF page_okD(1) [OF heap_okD(1) [OF assms(1)]] assms(2)] assms(3) d(1)
    by (intro links_frame) (auto simp: slot_frame header_frame page_simps)
qed

text \<open>Storing and deleting rows on a heap page, with the links.\<close>

lemma heap_store_record:
  assumes ok: "heap_ok page" and res: "alloc_result page (length row) (Some s, page')"
  shows "\<exists>page''. write_record page' s row = Inr page'' \<and> heap_ok page'' \<and> links page'' = links page \<and>
    page_records page'' =
      (if unat s = num_slots page then page_records page @ [Some row]
       else (page_records page)[unat s := Some row])"
proof -
  let ?i = "unat s"
  have i: "?i = num_slots page \<or> ?i < num_slots page \<and> slot_del page ?i"
    and sp: "takes_space page ?i (length row) page' \<or>
      ?i < num_slots page \<and> reuses_space page ?i (length row) page'"
    using res by (auto simp: alloc_result_def)
  note a = page_ok_allocated [OF heap_okD(1) [OF ok] i sp]
  have ok': "heap_ok page'" and i': "?i < num_slots page'" using a by (simp_all add: heap_ok_def)
  obtain page'' where w: "write_record page' s row = Inr page''" "page_ok 4088 page''"
    "page_records page'' = (if ?i = num_slots page then page_records page @ [Some row]
       else (page_records page)[?i := Some row])"
    using alloc_then_write [OF heap_okD(1) [OF ok] res] by auto
  then show ?thesis
    using write_record_links [OF ok' i' a(5) a(4) [symmetric] w(1)] alloc_result_links [OF ok res]
    by (auto simp: heap_ok_def)
qed

lemma heap_ok_InitPage:
  assumes "length page = 4096"
  shows "heap_ok (heap_InitPage page)" and "page_records (heap_InitPage page) = []"
    and "links (heap_InitPage page) = (NULL_PAGE_ID, NULL_PAGE_ID)"
    and "free_end (heap_InitPage page) = 4088" and "free_start (heap_InitPage page) = 15"
proof -
  let ?p = "SetEndFreeSpace (InitPage page PageType_Data) 4088"
  note v = InitPage_views [OF assms, of PageType_Data]
  have ok: "heap_ok ?p" and recs: "page_records ?p = []" and len: "length ?p = 4096"
    and fe: "free_end ?p = 4088"
    using v by (simp_all add: heap_ok_def page_ok_def directory_ok_def live_slots_def page_records_def
        num_slots_def free_start_def free_end_def page_simps)
  have eq: "heap_InitPage page = SetPrevPage (SetNextPage ?p NULL_PAGE_ID) NULL_PAGE_ID"
    using v by (simp add: heap_InitPage_def Let_def)
  note l = heap_ok_links [OF ok, of NULL_PAGE_ID]
  note l2 = heap_ok_links [OF l(1), of NULL_PAGE_ID]
  show "heap_ok (heap_InitPage page)" and "page_records (heap_InitPage page) = []"
    and "free_end (heap_InitPage page) = 4088"
    using l l2 eq recs fe by simp_all
  show "links (heap_InitPage page) = (NULL_PAGE_ID, NULL_PAGE_ID)"
    using link_views [OF len] link_views [OF heap_okD(2) [OF l(1)]] eq by simp
  have "num_slots (heap_InitPage page) = 0"
    using length_page_records [of "heap_InitPage page"] l l2 eq recs by simp
  then show "free_start (heap_InitPage page) = 15"
    using directory_okD(2) [OF page_okD(1) [OF heap_okD(1) [OF l2(2)]]] eq by simp
qed

section \<open>Claims\<close>

text \<open>
  \<open>heap_page::InitPage\<close> turns any page buffer into a well-formed empty heap page with both links
  null, and setting a link afterwards changes that link and nothing else: the page stays well formed
  and keeps all of its records.
\<close>

lemma heap_page_links:
  assumes "length page = 4096"
  shows "heap_ok (heap_InitPage page) \<and> page_records (heap_InitPage page) = [] \<and>
      links (heap_InitPage page) = (NULL_PAGE_ID, NULL_PAGE_ID) \<and>
    (\<forall>p q. heap_ok p \<longrightarrow>
      heap_ok (SetNextPage p q) \<and> page_records (SetNextPage p q) = page_records p \<and>
      GetNextPage (SetNextPage p q) = q \<and> GetPrevPage (SetNextPage p q) = GetPrevPage p \<and>
      heap_ok (SetPrevPage p q) \<and> page_records (SetPrevPage p q) = page_records p \<and>
      GetPrevPage (SetPrevPage p q) = q \<and> GetNextPage (SetPrevPage p q) = GetNextPage p)"
  using heap_ok_InitPage [OF assms] heap_ok_links link_views [OF heap_okD(2)]
  by (simp add: links_def)

text \<open>
  C22: the row operations leave the list links alone: on a well-formed heap page, allocating or
  reusing a slot and writing the row there keeps the page a well-formed heap page with the same
  previous and next page, and so does deleting a live slot.
\<close>

theorem heap_page_rows_keep_links:
  assumes "heap_ok page" and "length row + 5 < 2 ^ 64"
  shows "(\<forall>slot page'. AllocateSlotOrReuseSlot page (of_nat (length row)) = Inr (Some slot, page') \<longrightarrow>
      (\<exists>page''. write_record page' slot row = Inr page'' \<and> heap_ok page'' \<and>
         GetNextPage page'' = GetNextPage page \<and> GetPrevPage page'' = GetPrevPage page)) \<and>
    (\<forall>slot. unat slot < length (page_records page) \<and> page_records page ! unat slot \<noteq> None \<longrightarrow>
      (\<exists>page'. DeleteSlot page slot = Inr page' \<and> heap_ok page' \<and>
         GetNextPage page' = GetNextPage page \<and> GetPrevPage page' = GetPrevPage page))"
proof -
  have n: "unat (of_nat (length row) :: size_t) = length row"
    using assms(2) by (simp add: unat_of_nat_64)
  have "alloc_result page (length row) r"
    if "AllocateSlotOrReuseSlot page (of_nat (length row)) = Inr r" for r
    using reuse_from_result [OF heap_okD(1) [OF assms(1)], of "of_nat (length row)" 0] n assms(2) that
    unfolding AllocateSlotOrReuseSlot_def by auto
  then show ?thesis
    using heap_store_record [OF assms(1), of row] DeleteSlot_live [OF heap_okD(1) [OF assms(1)]]
      DeleteSlot_links [OF assms(1)]
    by (fastforce simp: links_def heap_ok_def nth_page_records split: if_splits)
qed

theorem heap_page_rows_keep_links_witness:
  "\<exists>slot page' page''.
     AllocateSlotOrReuseSlot (heap_InitPage (replicate 4096 0)) (of_nat (length [3 :: byte])) =
       Inr (Some slot, page') \<and>
     write_record page' slot [3] = Inr page'' \<and> heap_ok page'' \<and> GetNextPage page'' = NULL_PAGE_ID"
proof -
  let ?p = "heap_InitPage (replicate 4096 0)"
  note h = heap_ok_InitPage [of "replicate 4096 0"]
  have ok: "heap_ok ?p" and nx: "GetNextPage ?p = NULL_PAGE_ID" using h by (simp_all add: links_def)
  obtain r page' where al: "AllocateSlotOrReuseSlot ?p (of_nat (length [3 :: byte])) = Inr (r, page')"
    and res: "alloc_result ?p 1 (r, page')"
    using reuse_from_result [OF heap_okD(1) [OF ok], of "of_nat (length [3 :: byte])" 0]
    unfolding AllocateSlotOrReuseSlot_def by auto
  obtain slot where "r = Some slot"
    using res h by (cases r) (simp_all add: alloc_result_def)
  then show ?thesis using heap_page_rows_keep_links [OF ok, of "[3]"] al nx by fastforce
qed

text \<open>
  C23: \<open>VacuumPage\<close> is not safe on heap pages, although their records end at byte 4088: it packs the
  records against the end of the whole page. A heap page whose only record has four bytes has that
  record as its next page id afterwards.
\<close>

theorem VacuumPage_overwrites_links:
  assumes "heap_ok page" and "page_records page = [Some row]" and "length row = 4"
  shows "\<exists>page'. VacuumPage page = Inr page' \<and> GetNextPage page' = bytes_word row"
proof -
  have ok: "page_ok 4096 page" using page_ok_mono [OF heap_okD(1) [OF assms(1)]] by simp
  obtain page' where v: "VacuumPage page = Inr page'" "page_ok 4096 page'"
    "page_records page' = [Some row]" "unat (GetFreeSpaceSize page') + 20 + length row = 4096"
    using VacuumPage_result [OF ok] assms(2) by (auto simp: List.map_filter_def)
  have n: "num_slots page' = 1" using arg_cong [OF v(3), of length] by simp
  have rec: "record_at page' 0 = row" and "\<not> slot_del page' 0"
    using arg_cong [OF v(3), of "\<lambda>xs. xs ! 0"] n by (auto simp: nth_page_records split: if_splits)
  note d = directory_okD [OF page_okD(1) [OF v(2)]] and b = page_okD(3,4) [OF v(2)]
  have ext: "slot_off page' 0 + slot_sz page' 0 \<le> 4096"
    "slot_sz page' 0 = 0 \<or> free_end page' \<le> slot_off page' 0"
    using page_okD(5) [OF v(2), of 0] n by (auto simp: extent_ok_def)
  then have sz: "slot_sz page' 0 = 4"
    using arg_cong [OF rec, of length] d(1) assms(3) by (simp add: record_at_def)
  have "free_end page' = 4092"
    using v(4) unat_GetFreeSpaceSize [OF b(1)] d(2) n b assms(3) by simp
  then have "slot_off page' 0 = 4092" using ext sz by simp
  then show ?thesis using v(1) rec sz by (auto simp: record_at_def GetNextPage_def PAGE_SIZE_def)
qed

theorem VacuumPage_overwrites_links_witness:
  "\<exists>page page'. heap_ok page \<and> GetNextPage page = NULL_PAGE_ID \<and> VacuumPage page = Inr page' \<and>
     GetNextPage page' = 0x04030201"
proof -
  let ?p = "heap_InitPage (replicate 4096 0)" and ?row = "[1, 2, 3, 4 :: byte]"
  note h = heap_ok_InitPage [of "replicate 4096 0"]
  have ok: "heap_ok ?p" and nx: "links ?p = (NULL_PAGE_ID, NULL_PAGE_ID)" using h by simp_all
  obtain r page' where res: "alloc_result ?p 4 (r, page')"
    using reuse_from_result [OF heap_okD(1) [OF ok], of 4 0] by auto
  obtain slot where "r = Some slot" using res h by (cases r) (simp_all add: alloc_result_def)
  have n: "length ?row = 4" by simp
  have res': "alloc_result ?p (length ?row) (Some slot, page')" unfolding n using res \<open>r = _\<close> by simp
  have "unat slot = num_slots ?p"
    using res' h(2) length_page_records [of ?p] by (auto simp: alloc_result_def)
  then obtain page where page: "heap_ok page" "links page = links ?p" "page_records page = [Some ?row]"
    using heap_store_record [OF ok res'] h(2) by auto
  then show ?thesis using VacuumPage_overwrites_links [OF page(1,3)] nx by (auto simp: links_def)
qed

end
