(* ===== verification/Disk_Table.thy ===== *)
theory Disk_Table
  imports Heap_Page Buffer_Claims Table_Interface
begin

text \<open>
  Disk tables (\<open>disk_table.cpp\<close>, \<open>disk_table_iterator.cpp\<close>): a table is a file whose root page heads a
  linked list of heap pages with room (the partial list) and one of full pages, which nothing ever
  fills. The world is the buffer pool; \<open>env\<close> is the environment of its disk accesses. The locks of
  the pages are never contended here, since one operation runs at a time.
\<close>

section \<open>Scopes of page handles\<close>

definition MustGetPage ::
    "io_env \<Rightarrow> PageBufferManager \<Rightarrow> file_page_id_t \<Rightarrow> (frame_id_t \<times> PageBufferManager) outcome" where
  "MustGetPage env p fp_id =
     andthen (GetPage env p fp_id) (\<lambda>(r, p). case r of Inl _ \<Rightarrow> Inl AssertionFailed | Inr i \<Rightarrow> Inr (i, p))"

text \<open>A block that declares a page handle: the handle is released when the block is left.\<close>

definition in_scope :: "io_env \<Rightarrow> PageBufferManager \<Rightarrow> file_page_id_t \<Rightarrow>
    (frame_id_t \<Rightarrow> PageBufferManager \<Rightarrow> ('a \<times> PageBufferManager) outcome) \<Rightarrow> ('a \<times> PageBufferManager) outcome" where
  "in_scope env p fp_id body =
     andthen (MustGetPage env p fp_id) (\<lambda>(i, p).
     andthen (body i p) (\<lambda>(x, p). andthen (Page_destroy p (Some i)) (\<lambda>p. Inr (x, p))))"

section \<open>DiskTable\<close>

definition write_row :: "slot_id_t \<Rightarrow> byte list \<Rightarrow> FullPage \<Rightarrow> (unit \<times> FullPage) outcome" where
  "write_row slot row page = andthen (write_record page slot row) (\<lambda>page. Inr ((), page))"

text \<open>The body of the walk over the partial list: insert here, or tell the next page.\<close>

definition insert_here :: "page_id_t \<Rightarrow> byte list \<Rightarrow> frame_id_t \<Rightarrow> PageBufferManager \<Rightarrow>
    ((row_id_t + page_id_t) \<times> PageBufferManager) outcome" where
  "insert_here page_id row i p =
     andthen (modify_page p i (\<lambda>page. AllocateSlot page (of_nat (length row)))) (\<lambda>(insert_loc, p).
     case insert_loc of
       Some slot \<Rightarrow>
         andthen (modify_page p i (write_row slot row)) (\<lambda>(_, p). Inr (Inl (MakeRowId page_id slot), p))
     | None \<Rightarrow> andthen (view_page p i (\<lambda>page. Inr (GetNextPage page))) (\<lambda>(next, p). Inr (Inr next, p)))"

text \<open>The walk: a row id, or the last page of the list when no page had room.\<close>

partial_function (option) insert_walk :: "io_env \<Rightarrow> file_id_t \<Rightarrow> byte list \<Rightarrow> page_id_t \<Rightarrow> page_id_t \<Rightarrow>
    PageBufferManager \<Rightarrow> ((row_id_t + page_id_t) \<times> PageBufferManager) outcome option" where
  "insert_walk env file_id row last_partial_id next_page_id p =
     (if next_page_id = NULL_PAGE_ID then Some (Inr (Inr last_partial_id, p))
      else case in_scope env p (FilePageId file_id next_page_id) (insert_here next_page_id row) of
        Inl e \<Rightarrow> Some (Inl e)
      | Inr (Inl rid, p) \<Rightarrow> Some (Inr (Inl rid, p))
      | Inr (Inr next, p) \<Rightarrow> insert_walk env file_id row next_page_id next p)"

text \<open>Reading an empty \<open>optional\<close> is undefined, which is what a row too long for a page runs into.\<close>

definition insert_fresh :: "page_id_t \<Rightarrow> byte list \<Rightarrow> frame_id_t \<Rightarrow> PageBufferManager \<Rightarrow>
    (row_id_t \<times> PageBufferManager) outcome" where
  "insert_fresh page_id row i p =
     andthen (modify_page p i (\<lambda>page. Inr ((), heap_InitPage page))) (\<lambda>(_, p).
     andthen (modify_page p i (\<lambda>page. AllocateSlot page (of_nat (length row)))) (\<lambda>(insert_loc, p).
     case insert_loc of
       None \<Rightarrow> Inl Undefined
     | Some slot \<Rightarrow> andthen (modify_page p i (write_row slot row)) (\<lambda>(_, p). Inr (MakeRowId page_id slot, p))))"

definition link_page :: "io_env \<Rightarrow> file_id_t \<Rightarrow> page_id_t \<Rightarrow> page_id_t \<Rightarrow> PageBufferManager \<Rightarrow> (unit \<times> PageBufferManager) outcome" where
  "link_page env file_id last_partial_id new_page_id p =
     (if last_partial_id = NULL_PAGE_ID
      then in_scope env p (FilePageId file_id ROOT_PAGE_ID) (\<lambda>i p.
             modify_page p i (\<lambda>page. Inr ((), SetPrevPage page new_page_id)))
      else in_scope env p (FilePageId file_id last_partial_id) (\<lambda>i p.
             modify_page p i (\<lambda>page. Inr ((), SetNextPage page new_page_id))))"

definition disk_insert_row ::
    "io_env \<Rightarrow> PageBufferManager \<Rightarrow> file_id_t \<Rightarrow> byte list \<Rightarrow> (row_id_t \<times> PageBufferManager) outcome" where
  "disk_insert_row env p file_id row =
     andthen (in_scope env p (FilePageId file_id ROOT_PAGE_ID) (\<lambda>i p.
       view_page p i (\<lambda>root. Inr (GetPartialPagesHead root)))) (\<lambda>(head, p).
     case insert_walk env file_id row NULL_PAGE_ID head p of
       None \<Rightarrow> Inl NoReturn
     | Some r \<Rightarrow> andthen r (\<lambda>(found, p).
         case found of
           Inl rid \<Rightarrow> Inr (rid, p)
         | Inr last_partial_id \<Rightarrow>
             andthen (pool_AllocatePage env p file_id) (\<lambda>(alloc, p).
             case alloc of
               Inl _ \<Rightarrow> Inl AssertionFailed
             | Inr new_page_id \<Rightarrow>
                 andthen (in_scope env p (FilePageId file_id new_page_id) (insert_fresh new_page_id row)) (\<lambda>(rid, p).
                 andthen (link_page env file_id last_partial_id new_page_id p) (\<lambda>(_, p). Inr (rid, p))))))"

definition disk_delete_row ::
    "io_env \<Rightarrow> PageBufferManager \<Rightarrow> file_id_t \<Rightarrow> row_id_t \<Rightarrow> PageBufferManager outcome" where
  "disk_delete_row env p file_id rid =
     andthen (in_scope env p (FilePageId file_id (GetPageIdFromRowId rid)) (\<lambda>i p.
       modify_page p i (\<lambda>page. andthen (DeleteSlot page (GetSlotIdFromRowId rid)) (\<lambda>page. Inr ((), page)))))
     (\<lambda>(_, p). Inr p)"

definition disk_update_row ::
    "io_env \<Rightarrow> PageBufferManager \<Rightarrow> file_id_t \<Rightarrow> row_id_t \<Rightarrow> byte list \<Rightarrow> (row_id_t \<times> PageBufferManager) outcome" where
  "disk_update_row env p file_id rid data =
     andthen (disk_delete_row env p file_id rid) (\<lambda>p. disk_insert_row env p file_id data)"

section \<open>DiskTableIterator\<close>

record DiskTableIterator =
  file_id_m :: file_id_t
  current_page_id_m :: page_id_t
  current_slot_m :: slot_id_t
  partial_pages_head_m :: page_id_t
  in_partial_list_m :: bool
  row_buffer_m :: "byte list"

text \<open>The inner loop: the first live slot from \<open>slot\<close> on, with its record.\<close>

function live_from :: "FullPage \<Rightarrow> slot_id_t \<Rightarrow> (slot_id_t \<times> byte list) option outcome" where
  "live_from view slot =
     (if slot < GetPageCapacity view then
        andthen (IsSlotDeleted view slot) (\<lambda>deleted.
        if \<not> deleted then andthen (ReadRecord view slot) (\<lambda>record. Inr (Some (slot, record)))
        else live_from view (slot + 1))
      else Inr None)"
  by pat_completeness auto
termination
  by (relation "measure (\<lambda>(view, slot). 65536 - unat slot)") (auto intro: slot_step_measure)

declare live_from.simps [simp del]

partial_function (option) advance_to_next_valid :: "io_env \<Rightarrow> PageBufferManager \<Rightarrow> DiskTableIterator \<Rightarrow>
    (DiskTableIterator \<times> PageBufferManager) outcome option" where
  "advance_to_next_valid env p it =
     (if current_page_id_m it = NULL_PAGE_ID then Some (Inr (it, p))
      else case in_scope env p (FilePageId (file_id_m it) (current_page_id_m it)) (\<lambda>i p.
          view_page p i (\<lambda>view. andthen (live_from view (current_slot_m it)) (\<lambda>r. Inr (r, GetNextPage view)))) of
        Inl e \<Rightarrow> Some (Inl e)
      | Inr ((Some (slot, record), _), p) \<Rightarrow> Some (Inr (it\<lparr>current_slot_m := slot, row_buffer_m := record\<rparr>, p))
      | Inr ((None, next_page_id), p) \<Rightarrow>
          advance_to_next_valid env p
            (if next_page_id \<noteq> NULL_PAGE_ID then it\<lparr>current_page_id_m := next_page_id, current_slot_m := 0\<rparr>
             else if \<not> in_partial_list_m it \<and> partial_pages_head_m it \<noteq> NULL_PAGE_ID
             then it\<lparr>in_partial_list_m := True, current_page_id_m := partial_pages_head_m it, current_slot_m := 0\<rparr>
             else it\<lparr>current_page_id_m := NULL_PAGE_ID, current_slot_m := 0\<rparr>))"

definition advance :: "io_env \<Rightarrow> PageBufferManager \<Rightarrow> DiskTableIterator \<Rightarrow> (DiskTableIterator \<times> PageBufferManager) outcome" where
  "advance env p it = (case advance_to_next_valid env p it of None \<Rightarrow> Inl NoReturn | Some r \<Rightarrow> r)"

text \<open>The root page stays pinned while the constructor looks for the first row.\<close>

definition DiskTableIterator_new ::
    "io_env \<Rightarrow> PageBufferManager \<Rightarrow> file_id_t \<Rightarrow> (DiskTableIterator \<times> PageBufferManager) outcome" where
  "DiskTableIterator_new env p file_id =
     in_scope env p (FilePageId file_id ROOT_PAGE_ID) (\<lambda>i p.
     andthen (view_page p i (\<lambda>root. Inr (GetFullPagesHead root, GetPartialPagesHead root))) (\<lambda>((full_head, partial_head), p).
     let it = \<lparr>file_id_m = file_id, current_page_id_m = NULL_PAGE_ID, current_slot_m = 0,
               partial_pages_head_m = partial_head, in_partial_list_m = False, row_buffer_m = []\<rparr>;
         it = (if full_head \<noteq> NULL_PAGE_ID then it\<lparr>current_page_id_m := full_head\<rparr>
               else if partial_head \<noteq> NULL_PAGE_ID
               then it\<lparr>current_page_id_m := partial_head, in_partial_list_m := True\<rparr> else it)
     in advance env p it))"

definition disk_deref :: "DiskTableIterator \<Rightarrow> Row outcome" where
  "disk_deref it =
     andthen (YADB_ASSERT (current_page_id_m it \<noteq> NULL_PAGE_ID)) (\<lambda>_.
     Inr (MakeRowId (current_page_id_m it) (current_slot_m it), row_buffer_m it))"

definition disk_next ::
    "io_env \<Rightarrow> PageBufferManager \<Rightarrow> DiskTableIterator \<Rightarrow> (DiskTableIterator \<times> PageBufferManager) outcome" where
  "disk_next env p it = advance env p (it\<lparr>current_slot_m := current_slot_m it + 1\<rparr>)"

definition disk_end :: "DiskTableIterator \<Rightarrow> bool" where
  "disk_end it \<longleftrightarrow> current_page_id_m it = NULL_PAGE_ID"

definition disk_seek ::
    "io_env \<Rightarrow> PageBufferManager \<Rightarrow> DiskTableIterator \<Rightarrow> row_id_t \<Rightarrow> (DiskTableIterator \<times> PageBufferManager) outcome" where
  "disk_seek env p it rid =
     (let page_id = GetPageIdFromRowId rid; slot_id = GetSlotIdFromRowId rid
      in andthen (in_scope env p (FilePageId (file_id_m it) page_id) (\<lambda>i p.
           view_page p i (\<lambda>view.
             andthen (if slot_id \<ge> GetPageCapacity view then Inr True else IsSlotDeleted view slot_id) (\<lambda>bad.
             if bad then Inl InvalidArgument else ReadRecord view slot_id)))) (\<lambda>(record, p).
         Inr (it\<lparr>row_buffer_m := record, current_page_id_m := page_id, current_slot_m := slot_id\<rparr>, p)))"

section \<open>The virtual functions\<close>

definition DiskIterator_ops :: "io_env \<Rightarrow> (PageBufferManager, DiskTableIterator) TableIterator" where
  "DiskIterator_ops env =
     \<lparr>ti_deref = (\<lambda>p it. disk_deref it), ti_next = disk_next env, ti_end = (\<lambda>p it. disk_end it), ti_seek = disk_seek env\<rparr>"

definition DiskTable_ops :: "io_env \<Rightarrow> (PageBufferManager, file_id_t, DiskTableIterator) Table" where
  "DiskTable_ops env =
     \<lparr>tb_iterator = DiskIterator_ops env, tb_begin = DiskTableIterator_new env, tb_insert_row = disk_insert_row env,
      tb_update_row = disk_update_row env, tb_delete_row = disk_delete_row env, tb_GetType = (\<lambda>_. Disk)\<rparr>"

end
