(* ===== verification/Heap_File.thy ===== *)
theory Heap_File
  imports Heap_Page
begin

text \<open>
  The abstract structure of a disk table: which page contents make up a well-formed heap file, and
  which rows it holds. A heap file is a root page and a null-terminated chain of heap pages; its rows
  are the records of the chain's pages, page by page and slot by slot. \<open>c\<close> is the map from page ids to
  contents.
\<close>

section \<open>Rows of a page\<close>

definition rows_from :: "page_id_t \<Rightarrow> FullPage \<Rightarrow> nat \<Rightarrow> (row_id_t \<times> byte list) list" where
  "rows_from x pg k = concat (map (\<lambda>j. case page_records pg ! j of None \<Rightarrow> [] | Some r \<Rightarrow> [(MakeRowId x (of_nat j), r)])
     [k..<length (page_records pg)])"

abbreviation page_rows :: "page_id_t \<Rightarrow> FullPage \<Rightarrow> (row_id_t \<times> byte list) list" where
  "page_rows x pg \<equiv> rows_from x pg 0"

lemma rows_from_step:
  "k < num_slots pg \<Longrightarrow> rows_from x pg k =
     (case page_records pg ! k of None \<Rightarrow> rows_from x pg (Suc k) | Some r \<Rightarrow> (MakeRowId x (of_nat k), r) # rows_from x pg (Suc k))"
  by (simp add: rows_from_def upt_conv_Cons split: option.split)

lemma rows_from_end [simp]: "num_slots pg \<le> k \<Longrightarrow> rows_from x pg k = []"
  by (simp add: rows_from_def)

lemma page_rows_cong: "page_records pg' = page_records pg \<Longrightarrow> page_rows x pg' = page_rows x pg"
  by (simp add: rows_from_def)

lemma page_rows_append:
  assumes "page_records pg' = page_records pg @ [Some row]" and "unat slot = num_slots pg"
  shows "page_rows x pg' = page_rows x pg @ [(MakeRowId x slot, row)]"
proof -
  have "slot = of_nat (num_slots pg)" using assms(2) by (metis of_nat_unat ucast_id)
  moreover have "concat (map (\<lambda>j. case page_records pg' ! j of None \<Rightarrow> [] | Some r \<Rightarrow> [(MakeRowId x (of_nat j), r)]) [0..<num_slots pg]) =
      concat (map (\<lambda>j. case page_records pg ! j of None \<Rightarrow> [] | Some r \<Rightarrow> [(MakeRowId x (of_nat j), r)]) [0..<num_slots pg])"
    using assms(1) by (intro arg_cong [where f = concat] map_cong refl) (simp add: nth_append)
  moreover have "page_records pg' ! num_slots pg = Some row" "length (page_records pg') = Suc (num_slots pg)"
    using assms(1) by (simp_all add: nth_append)
  ultimately show ?thesis by (simp add: rows_from_def)
qed

lemma slot_of_nat_inject:
  "i < num_slots pg \<Longrightarrow> j < num_slots pg \<Longrightarrow> heap_ok pg \<Longrightarrow> (of_nat i :: slot_id_t) = of_nat j \<longleftrightarrow> i = j"
proof -
  assume a: "i < num_slots pg" "j < num_slots pg" "heap_ok pg"
  then have "i < 65536" "j < 65536" using directory_okD(3) [OF page_okD(1) [OF heap_okD(1) [OF a(3)]]] by simp_all
  then show ?thesis by (metis unat_of_nat_16)
qed

lemma set_rows_from:
  "set (rows_from x pg k) = {(MakeRowId x (of_nat j), r) | j r. k \<le> j \<and> j < num_slots pg \<and> page_records pg ! j = Some r}"
  by (force simp: rows_from_def split: option.splits)

lemma page_rows_ids: "rid \<in> fst ` set (rows_from x pg k) \<Longrightarrow> GetPageIdFromRowId rid = x"
  by (auto simp: set_rows_from)

lemma rows_from_ge:
  assumes "heap_ok pg" and "j < k" and "j < num_slots pg"
  shows "MakeRowId x (of_nat j) \<notin> fst ` set (rows_from x pg k)"
proof
  assume "MakeRowId x (of_nat j) \<in> fst ` set (rows_from x pg k)"
  then obtain i where "k \<le> i" "i < num_slots pg" "(of_nat j :: slot_id_t) = of_nat i" by (auto simp: set_rows_from)
  then show False using slot_of_nat_inject [OF assms(3) _ assms(1), of i] assms(2) by simp
qed

lemma distinct_rows_from: "heap_ok pg \<Longrightarrow> distinct (map fst (rows_from x pg k))"
proof (induction "num_slots pg - k" arbitrary: k)
  case (Suc n)
  then have k: "k < num_slots pg" by simp
  have "distinct (map fst (rows_from x pg (Suc k)))" using Suc by simp
  then show ?case using rows_from_ge [OF Suc.prems, of k "Suc k"] k
    by (auto simp: rows_from_step [OF k] split: option.split)
qed simp

lemma page_rows_delete:
  assumes ok: "heap_ok pg" and s: "s < num_slots pg" and r: "page_records pg' = (page_records pg)[s := None]"
  shows "rows_from x pg' k = filter (\<lambda>r. fst r \<noteq> MakeRowId x (of_nat s)) (rows_from x pg k)"
proof -
  have len: "num_slots pg' = num_slots pg" using arg_cong [OF r, of length] by simp
  show ?thesis
  proof (induction "num_slots pg - k" arbitrary: k)
    case 0
    then show ?case using len by simp
  next
    case (Suc n)
    then have k: "k < num_slots pg" "k < num_slots pg'" using len by simp_all
    have IH: "rows_from x pg' (Suc k) = filter (\<lambda>r. fst r \<noteq> MakeRowId x (of_nat s)) (rows_from x pg (Suc k))"
      using Suc by simp
    show ?case
      using IH slot_of_nat_inject [OF k(1) s ok] k s
      by (auto simp: rows_from_step [OF k(1)] rows_from_step [OF k(2)] r split: option.split)
  qed
qed

section \<open>Chains of pages\<close>

fun chain :: "(file_page_id_t \<rightharpoonup> FullPage) \<Rightarrow> file_id_t \<Rightarrow> page_id_t \<Rightarrow> page_id_t list \<Rightarrow> bool" where
  "chain c f h [] \<longleftrightarrow> h = NULL_PAGE_ID"
| "chain c f h (x # xs) \<longleftrightarrow> h = x \<and> x \<noteq> NULL_PAGE_ID \<and>
     (case c (FilePageId f x) of None \<Rightarrow> False | Some pg \<Rightarrow> heap_ok pg \<and> chain c f (GetNextPage pg) xs)"

definition chain_rows :: "(file_page_id_t \<rightharpoonup> FullPage) \<Rightarrow> file_id_t \<Rightarrow> page_id_t list \<Rightarrow> (row_id_t \<times> byte list) list" where
  "chain_rows c f xs = concat (map (\<lambda>x. page_rows x (the (c (FilePageId f x)))) xs)"

lemma chain_rows_simps [simp]:
  "chain_rows c f [] = []"
  "chain_rows c f (x # xs) = page_rows x (the (c (FilePageId f x))) @ chain_rows c f xs"
  "chain_rows c f (xs @ ys) = chain_rows c f xs @ chain_rows c f ys"
  by (simp_all add: chain_rows_def)

lemma chain_unique: "chain c f h xs \<Longrightarrow> chain c f h ys \<Longrightarrow> xs = ys"
proof (induction c f h xs arbitrary: ys rule: chain.induct)
  case (1 c f h)
  then show ?case by (cases ys) auto
next
  case (2 c f h x xs)
  then show ?case by (cases ys) (auto split: option.splits)
qed

lemma chain_page:
  assumes "chain c f h xs" and "x \<in> set xs"
  shows "\<exists>pg. c (FilePageId f x) = Some pg \<and> heap_ok pg" and "x \<noteq> NULL_PAGE_ID"
proof -
  have "(\<exists>pg. c (FilePageId f x) = Some pg \<and> heap_ok pg) \<and> x \<noteq> NULL_PAGE_ID"
    using assms by (induction c f h xs rule: chain.induct) (auto split: option.splits)
  then show "\<exists>pg. c (FilePageId f x) = Some pg \<and> heap_ok pg" and "x \<noteq> NULL_PAGE_ID" by simp_all
qed

lemma chain_head: "chain c f h xs \<Longrightarrow> h = (case xs of [] \<Rightarrow> NULL_PAGE_ID | x # _ \<Rightarrow> x)"
  by (cases xs) auto

lemma chain_cong:
  assumes "\<And>x. x \<in> set xs \<Longrightarrow> c' (FilePageId f x) = c (FilePageId f x)"
  shows "chain c' f h xs = chain c f h xs" and "chain_rows c' f xs = chain_rows c f xs"
proof -
  show "chain c' f h xs = chain c f h xs"
    using assms by (induction xs arbitrary: h) (auto split: option.splits)
  show "chain_rows c' f xs = chain_rows c f xs" using assms by (induction xs) simp_all
qed

text \<open>Replacing a page of the chain by one with the same successor.\<close>

lemma chain_update:
  assumes "chain c f h xs" and "c (FilePageId f x) = Some pg" and "heap_ok pg'" and "GetNextPage pg' = GetNextPage pg"
  shows "chain (c(FilePageId f x \<mapsto> pg')) f h xs"
  using assms(1)
proof (induction xs arbitrary: h)
  case (Cons y ys)
  then show ?case using assms(2-4) by (cases "y = x") (auto split: option.splits)
qed simp

lemma chain_rows_update:
  assumes "distinct (as @ x # bs)"
  shows "chain_rows (c(FilePageId f x \<mapsto> pg')) f (as @ x # bs) = chain_rows c f as @ page_rows x pg' @ chain_rows c f bs"
proof -
  have "chain_rows (c(FilePageId f x \<mapsto> pg')) f as = chain_rows c f as"
    "chain_rows (c(FilePageId f x \<mapsto> pg')) f bs = chain_rows c f bs"
    using assms by (auto intro!: chain_cong(2))
  then show ?thesis by simp
qed

text \<open>Appending a page to the chain.\<close>

lemma chain_snoc:
  assumes "chain c f h (xs @ [x])" and "distinct (xs @ [x, n])" and "c (FilePageId f x) = Some pg"
    and "c (FilePageId f n) = Some np" "heap_ok np" "GetNextPage np = NULL_PAGE_ID" "n \<noteq> NULL_PAGE_ID"
  shows "chain (c(FilePageId f x \<mapsto> SetNextPage pg n)) f h (xs @ [x, n])"
  using assms(1,2)
proof (induction xs arbitrary: h)
  case Nil
  then have "heap_ok pg" using assms(3) by simp
  then have "heap_ok (SetNextPage pg n)" "GetNextPage (SetNextPage pg n) = n"
    using heap_ok_links(1) link_views(1) [OF heap_okD(2)] by (simp_all add: links_def)
  then show ?case using Nil assms(3-7) by auto
next
  case (Cons y ys)
  then show ?case by (auto split: option.splits)
qed

section \<open>Heap files\<close>

definition heap_file :: "(file_page_id_t \<rightharpoonup> FullPage) \<Rightarrow> file_id_t \<Rightarrow> page_id_t list \<Rightarrow> bool" where
  "heap_file c f ps \<longleftrightarrow> (\<exists>root. c (FilePageId f ROOT_PAGE_ID) = Some root \<and> heap_ok root \<and>
     GetNextPage root = NULL_PAGE_ID \<and> chain c f (GetPrevPage root) ps) \<and> distinct ps \<and> ROOT_PAGE_ID \<notin> set ps"

definition file_rows :: "(file_page_id_t \<rightharpoonup> FullPage) \<Rightarrow> file_id_t \<Rightarrow> (row_id_t \<times> byte list) list option" where
  "file_rows c f = (if \<exists>ps. heap_file c f ps then Some (chain_rows c f (THE ps. heap_file c f ps)) else None)"

lemma file_rows_eq:
  assumes "heap_file c f ps"
  shows "file_rows c f = Some (chain_rows c f ps)"
proof -
  have "(THE ps. heap_file c f ps) = ps" using assms chain_unique by (auto simp: heap_file_def)
  then show ?thesis using assms by (auto simp: file_rows_def)
qed

lemma file_rowsE:
  assumes "file_rows c f = Some rs"
  obtains ps where "heap_file c f ps" "rs = chain_rows c f ps"
proof -
  obtain ps where ps: "heap_file c f ps" using assms by (auto simp: file_rows_def split: if_splits)
  then show thesis using that assms file_rows_eq [OF ps] by simp
qed

lemma file_rows_cong:
  assumes "\<And>x. c' (FilePageId f x) = c (FilePageId f x)"
  shows "file_rows c' f = file_rows c f"
proof -
  have "heap_file c' f = heap_file c f"
    using assms chain_cong(1) [of _ c' f c] by (auto simp: heap_file_def fun_eq_iff)
  then show ?thesis using assms chain_cong(2) [of _ c' f c] by (simp add: file_rows_def)
qed

lemma chain_rows_ids:
  assumes "rid \<in> fst ` set (chain_rows c f xs)"
  shows "GetPageIdFromRowId rid \<in> set xs"
  using assms page_rows_ids by (fastforce simp: chain_rows_def)

lemma distinct_chain_rows:
  assumes "chain c f h xs" and "distinct xs"
  shows "distinct (map fst (chain_rows c f xs))"
  using assms
proof (induction xs arbitrary: h)
  case (Cons x xs)
  then obtain pg where pg: "c (FilePageId f x) = Some pg" "heap_ok pg" "chain c f (GetNextPage pg) xs"
    by (auto split: option.splits)
  have "fst ` set (page_rows x pg) \<inter> fst ` set (chain_rows c f xs) = {}"
    using chain_rows_ids page_rows_ids Cons.prems(2) by fastforce
  then show ?case using Cons pg distinct_rows_from [OF pg(2), of x 0] by simp
qed simp

end
