(* ===== verification/Disk_Table_Spec.thy ===== *)
theory Disk_Table_Spec
  imports Disk_Table Heap_File
begin

text \<open>
  Disk tables implement the table contract: inserting, deleting and iterating over the buffer pool
  act on the rows of the heap file (\<open>file_rows\<close>) as the contract asks, whatever is evicted on the way.
\<close>

section \<open>Scopes\<close>

lemma in_scope_ok: "with_page env p fp body = Inr (Inr x, p') \<Longrightarrow> in_scope env p fp body = Inr (x, p')"
  by (auto simp: with_page_def in_scope_def MustGetPage_def andthen_def split: sum.splits prod.splits)

lemma scope_touched:
  assumes "calm p" and "contents p fp = Some old" and "unpinned p fp" and "no_fault env"
    and "\<And>i p1. pool_ok p1 \<Longrightarrow> page_frame p1 fp = Some i \<Longrightarrow> fr_data (frame p1 i) = old \<Longrightarrow>
      \<exists>p2. body i p1 = Inr (x, p2) \<and> touched p1 i fp new p2"
  shows "\<exists>p'. in_scope env p fp body = Inr (x, p') \<and> tidy p p' \<and> contents p' = (contents p)(fp \<mapsto> new)"
proof -
  obtain p' where "with_page env p fp body = Inr (Inr x, p')" "tidy p p'" "contents p' = (contents p)(fp \<mapsto> new)"
    using with_page_touched [OF assms(1-4), of body x new] assms(5) by blast
  then show ?thesis using in_scope_ok [of env p fp body x p'] by blast
qed

lemma scope_view:
  assumes "calm p" and "contents p fp = Some pg" and "unpinned p fp" and "no_fault env" and "f pg = Inr x"
  shows "\<exists>p'. in_scope env p fp (\<lambda>i p. view_page p i f) = Inr (x, p') \<and> tidy p p' \<and> contents p' = contents p"
proof -
  have "\<exists>p2. view_page p1 i f = Inr (x, p2) \<and> touched p1 i fp pg p2"
    if "pool_ok p1" "page_frame p1 fp = Some i" "fr_data (frame p1 i) = pg" for i p1
    using view_page_ok [OF that(1,2), of f x] held_page(2) [OF that(1,2)] that(3) assms(5) by simp
  from scope_touched [OF assms(1-4), of "\<lambda>i p. view_page p i f", OF this]
  show ?thesis unfolding fun_upd_idem [of "contents p" fp, OF assms(2)] .
qed

lemma scope_modify:
  assumes "calm p" and "contents p fp = Some pg" and "unpinned p fp" and "no_fault env"
    and "f pg = Inr (x, new)" and "length new = 4096"
  shows "\<exists>p'. in_scope env p fp (\<lambda>i p. modify_page p i f) = Inr (x, p') \<and> tidy p p' \<and>
    contents p' = (contents p)(fp \<mapsto> new)"
proof -
  have "\<exists>p2. modify_page p1 i f = Inr (x, p2) \<and> touched p1 i fp new p2"
    if "pool_ok p1" "page_frame p1 fp = Some i" "fr_data (frame p1 i) = pg" for i p1
    using modify_page_ok [OF that(1,2), of f x new] that(3) assms(5,6) by simp
  from scope_touched [OF assms(1-4), of "\<lambda>i p. modify_page p i f", OF this] show ?thesis .
qed

section \<open>Pages of a heap file\<close>

lemma heap_insert_cases:
  assumes ok: "heap_ok pg" and small: "length row + 5 < 2 ^ 64"
  obtains (room) slot pg' new where "AllocateSlot pg (of_nat (length row)) = Inr (Some slot, pg')" "length pg' = 4096"
      "write_record pg' slot row = Inr new" "heap_ok new" "GetNextPage new = GetNextPage pg"
      "GetPrevPage new = GetPrevPage pg" "page_records new = page_records pg @ [Some row]" "unat slot = num_slots pg"
  | (full) "AllocateSlot pg (of_nat (length row)) = Inr (None, pg)" "free_end pg - free_start pg < length row + 5"
proof (cases "length row + 5 \<le> free_end pg - free_start pg")
  case True
  have n: "unat (of_nat (length row) :: size_t) = length row" using small by (simp add: unat_of_nat_64)
  obtain slot pg' where a: "AllocateSlot pg (of_nat (length row)) = Inr (Some slot, pg')" "unat slot = num_slots pg"
    using store_record_fits [OF heap_okD(1) [OF ok] True] by blast
  have res: "alloc_result pg (length row) (Some slot, pg')"
    using AllocateSlot_result [OF heap_okD(1) [OF ok], of "of_nat (length row)"] small n a(1) by auto
  have "takes_space pg (unat slot) (length row) pg'" using res a(2) by (auto simp: alloc_result_def)
  then have "length pg' = 4096"
    using page_ok_allocated(1) [OF heap_okD(1) [OF ok], of "unat slot" "length row" pg'] a(2)
      directory_okD(1) [OF page_okD(1)] by blast
  then show thesis using room a heap_store_record [OF ok res] by (auto simp: links_def)
next
  case False
  have "unat (of_nat (length row) :: size_t) = length row" using small by (simp add: unat_of_nat_64)
  then show thesis using full False AllocateSlot_full [OF heap_okD(1) [OF ok], of "of_nat (length row)"] small by simp
qed

lemma insert_here_room:
  assumes "pool_ok p" and "page_frame p fp = Some i" and "fr_data (frame p i) = pg"
    and "AllocateSlot pg (of_nat (length row)) = Inr (Some slot, pg')" and "length pg' = 4096"
    and "write_record pg' slot row = Inr new" and "length new = 4096"
  shows "\<exists>p'. insert_here x row i p = Inr (Inl (MakeRowId x slot), p') \<and> touched p i fp new p'"
proof -
  obtain p1 where 1: "modify_page p i (\<lambda>page. AllocateSlot page (of_nat (length row))) = Inr (Some slot, p1)"
    "touched p i fp pg' p1"
    using modify_page_ok [OF assms(1,2), of "\<lambda>page. AllocateSlot page (of_nat (length row))"] assms(3-5) by blast
  then have p1: "pool_ok p1" "page_frame p1 fp = Some i" "fr_data (frame p1 i) = pg'"
    using assms(2) by (simp_all add: touched_def)
  obtain p2 where 2: "modify_page p1 i (write_row slot row) = Inr ((), p2)" "touched p1 i fp new p2"
    using modify_page_ok [OF p1(1,2), of "write_row slot row" "()" new] assms(6,7) p1(3) by (auto simp: write_row_def)
  then show ?thesis using 1 touched_trans [OF 1(2) 2(2)] by (auto simp: insert_here_def)
qed

lemma insert_here_full:
  assumes "pool_ok p" and "page_frame p fp = Some i" and "fr_data (frame p i) = pg" and "length pg = 4096"
    and "AllocateSlot pg (of_nat (length row)) = Inr (None, pg)"
  shows "\<exists>p'. insert_here x row i p = Inr (Inr (GetNextPage pg), p') \<and> touched p i fp pg p'"
proof -
  obtain p1 where 1: "modify_page p i (\<lambda>page. AllocateSlot page (of_nat (length row))) = Inr (None, p1)"
    "touched p i fp pg p1"
    using modify_page_ok [OF assms(1,2), of "\<lambda>page. AllocateSlot page (of_nat (length row))"] assms(3-5) by blast
  then have p1: "pool_ok p1" "page_frame p1 fp = Some i" "fr_data (frame p1 i) = pg"
    using assms(2) by (simp_all add: touched_def)
  then show ?thesis
    using 1 view_page_ok [OF p1(1,2), of "\<lambda>page. Inr (GetNextPage page)"] by (auto simp: insert_here_def)
qed

lemma insert_fresh_ok:
  assumes "pool_ok p" and "page_frame p fp = Some i" and "fr_data (frame p i) = pg" and "length pg = 4096"
    and "AllocateSlot (heap_InitPage pg) (of_nat (length row)) = Inr (Some slot, pg')" and "length pg' = 4096"
    and "write_record pg' slot row = Inr new" and "length new = 4096"
  shows "\<exists>p'. insert_fresh x row i p = Inr (MakeRowId x slot, p') \<and> touched p i fp new p'"
proof -
  have "length (heap_InitPage pg) = 4096" using heap_ok_InitPage(1) [OF assms(4)] heap_okD(2) by blast
  then obtain p0 where 0: "modify_page p i (\<lambda>page. Inr ((), heap_InitPage page)) = Inr ((), p0)"
    "touched p i fp (heap_InitPage pg) p0"
    using modify_page_ok [OF assms(1,2), of "\<lambda>page. Inr ((), heap_InitPage page)" "()" "heap_InitPage pg"] assms(3) by blast
  then have p0: "pool_ok p0" "page_frame p0 fp = Some i" "fr_data (frame p0 i) = heap_InitPage pg"
    using assms(2) by (simp_all add: touched_def)
  obtain p2 where 2: "insert_here x row i p0 = Inr (Inl (MakeRowId x slot), p2)" "touched p0 i fp new p2"
    using insert_here_room [OF p0 assms(5-8)] by blast
  obtain q p1 where "modify_page p0 i (\<lambda>page. AllocateSlot page (of_nat (length row))) = Inr (Some slot, p1)"
    "modify_page p1 i (write_row slot row) = Inr (q, p2)"
    using 2(1) by (auto simp: insert_here_def andthen_eq_Inr split: option.splits)
  then show ?thesis using 0 touched_trans [OF 0(2) 2(2)] by (auto simp: insert_fresh_def)
qed

section \<open>Inserting\<close>

text \<open>The row was added to page \<open>x\<close> of the file, in the next slot of the page.\<close>

definition row_added :: "file_id_t \<Rightarrow> page_id_t \<Rightarrow> slot_id_t \<Rightarrow> byte list \<Rightarrow>
    (file_page_id_t \<rightharpoonup> FullPage) \<Rightarrow> (file_page_id_t \<rightharpoonup> FullPage) \<Rightarrow> bool" where
  "row_added f x slot row c c' \<longleftrightarrow> (\<exists>pg new. c (FilePageId f x) = Some pg \<and> c' = c(FilePageId f x \<mapsto> new) \<and>
     heap_ok new \<and> GetNextPage new = GetNextPage pg \<and> page_records new = page_records pg @ [Some row] \<and>
     unat slot = num_slots pg)"

definition all_unpinned :: "PageBufferManager \<Rightarrow> bool" where
  "all_unpinned p \<longleftrightarrow> (\<forall>i. is_frame p i \<longrightarrow> fr_pin_count (frame p i) = 0)"

lemma all_unpinned_tidy: "all_unpinned p \<Longrightarrow> tidy p p' \<Longrightarrow> all_unpinned p'"
  by (simp add: all_unpinned_def tidy_def)

lemma all_unpinnedD: "pool_ok p \<Longrightarrow> all_unpinned p \<Longrightarrow> unpinned p fp"
  using pool_okD(2) [of p fp] by (auto simp: all_unpinned_def unpinned_def entry_ok_def)

text \<open>A page whose frame is not pinned: after visits to other pages it is still so.\<close>

lemma tidy_unpinned:
  assumes ok: "pool_ok p" and t: "tidy p p'" and u: "unpinned p fp"
  shows "unpinned p' fp"
  unfolding unpinned_def
proof (intro allI impI)
  fix i assume m: "page_frame p' fp = Some i"
  have ok': "pool_ok p'" using t by (simp add: tidy_def)
  have i: "is_frame p' i" "is_frame p i" "fr_fp_id (frame p' i) = fp"
    using pool_okD(2) [OF ok' m] t by (simp_all add: entry_ok_def tidy_def)
  show "fr_pin_count (frame p' i) = 0"
  proof (rule ccontr)
    assume "fr_pin_count (frame p' i) \<noteq> 0"
    then have pin: "fr_pin_count (frame p i) \<noteq> 0" using t i by (simp add: tidy_def)
    have "\<not> idle p i" using pool_okD(1) [OF ok i(2)] pin by (auto simp: frame_ok_def)
    then have q: "page_frame p (fr_fp_id (frame p i)) = Some i" by (simp add: idle_def)
    then have "page_frame p' (fr_fp_id (frame p i)) = Some i" using t pin by (simp add: tidy_def)
    then have "fr_fp_id (frame p i) = fp" using page_frame_inj [OF ok' _ m] by blast
    then show False using u q pin by (simp add: unpinned_def)
  qed
qed

lemma insert_walk_ok:
  assumes "calm p" and "all_unpinned p" and "no_fault env" and "chain (contents p) f h xs" and "length row + 5 < 2 ^ 64"
  shows "(\<exists>x \<in> set xs. \<exists>slot p'. insert_walk env f row l0 h p = Some (Inr (Inl (MakeRowId x slot), p')) \<and>
      tidy p p' \<and> row_added f x slot row (contents p) (contents p')) \<or>
    (\<exists>p'. insert_walk env f row l0 h p = Some (Inr (Inr (if xs = [] then l0 else last xs), p')) \<and>
      tidy p p' \<and> contents p' = contents p)"
  using assms
proof (induction xs arbitrary: h p l0)
  case Nil
  then have "insert_walk env f row l0 h p = Some (Inr (Inr l0, p))"
    by (subst insert_walk.simps) simp
  then show ?case using Nil tidy_refl [of p] by (auto simp: calm_def)
next
  case (Cons x xs)
  have ok: "pool_ok p" using Cons.prems(1) by (simp add: calm_def)
  obtain pg where h: "h = x" "x \<noteq> NULL_PAGE_ID" and pg: "contents p (FilePageId f x) = Some pg" "heap_ok pg"
    and ch: "chain (contents p) f (GetNextPage pg) xs"
    using Cons.prems(4) by (auto split: option.splits)
  note sc = scope_touched [OF Cons.prems(1) pg(1) all_unpinnedD [OF ok Cons.prems(2)] Cons.prems(3), of "insert_here x row"]
  from pg(2) Cons.prems(5) show ?case
  proof (cases rule: heap_insert_cases)
    case (room slot pg' new)
    obtain p' where p': "in_scope env p (FilePageId f x) (insert_here x row) = Inr (Inl (MakeRowId x slot), p')" "tidy p p'"
      "contents p' = (contents p)(FilePageId f x \<mapsto> new)"
      using sc [of "Inl (MakeRowId x slot)" new] insert_here_room [OF _ _ _ room(1-3) heap_okD(2) [OF room(4)]] by blast
    have "insert_walk env f row l0 h p = Some (Inr (Inl (MakeRowId x slot), p'))"
      using h p'(1) by (subst insert_walk.simps) simp
    moreover have "row_added f x slot row (contents p) (contents p')"
      using pg p'(3) room unfolding row_added_def by blast
    ultimately show ?thesis using p'(2) by auto
  next
    case full
    obtain p1 where s: "in_scope env p (FilePageId f x) (insert_here x row) = Inr (Inr (GetNextPage pg), p1)" "tidy p p1"
      "contents p1 = (contents p)(FilePageId f x \<mapsto> pg)"
      using sc [of "Inr (GetNextPage pg)" pg] insert_here_full [OF _ _ _ heap_okD(2) [OF pg(2)] full(1)] by blast
    have c1: "contents p1 = contents p" unfolding s(3) using pg(1) by (rule fun_upd_idem)
    have w: "insert_walk env f row l0 h p = insert_walk env f row x (GetNextPage pg) p1"
      using h s(1) by (subst insert_walk.simps) simp
    have "calm p1" using calm_tidy [OF Cons.prems(1) s(2)] c1 by simp
    then show ?thesis
      using Cons.IH [of p1 "GetNextPage pg" x] all_unpinned_tidy [OF Cons.prems(2) s(2)] Cons.prems(3,5) ch
        tidy_trans [OF ok s(2)] unfolding c1 w by fastforce
  qed
qed

lemma row_added_file:
  assumes hf: "heap_file c f ps" and x: "x \<in> set ps" and ra: "row_added f x slot row c c'"
  shows "heap_file c' f ps"
    and "\<exists>pre post. chain_rows c f ps = pre @ post \<and> chain_rows c' f ps = pre @ (MakeRowId x slot, row) # post"
    and "MakeRowId x slot \<notin> fst ` set (chain_rows c f ps)"
proof -
  obtain root where root: "c (FilePageId f ROOT_PAGE_ID) = Some root" "heap_ok root" "GetNextPage root = NULL_PAGE_ID"
    "chain c f (GetPrevPage root) ps" and ps: "distinct ps" "ROOT_PAGE_ID \<notin> set ps"
    using hf by (auto simp: heap_file_def)
  obtain pg new where a: "c (FilePageId f x) = Some pg" "c' = c(FilePageId f x \<mapsto> new)" "heap_ok new"
    "GetNextPage new = GetNextPage pg" "page_records new = page_records pg @ [Some row]" "unat slot = num_slots pg"
    using ra by (auto simp: row_added_def)
  have hp: "heap_ok pg" using chain_page(1) [OF root(4) x] a(1) by simp
  then have nr: "num_slots pg < 65536" using directory_okD(3) [OF page_okD(1) [OF heap_okD(1) [OF hp]]] by simp
  show "heap_file c' f ps"
    using root ps x chain_update [OF root(4) a(1,3,4)] a(2) by (auto simp: heap_file_def)
  obtain as bs where sp: "ps = as @ x # bs" using x by (auto dest: split_list)
  have "chain_rows c f ps = (chain_rows c f as @ page_rows x pg) @ chain_rows c f bs" using sp a(1) by simp
  moreover have "chain_rows c' f ps = (chain_rows c f as @ page_rows x pg) @ (MakeRowId x slot, row) # chain_rows c f bs"
    using chain_rows_update [of as x bs c f new] ps(1) page_rows_append [OF a(5,6), of x] by (simp add: sp a(2))
  ultimately show "\<exists>pre post. chain_rows c f ps = pre @ post \<and> chain_rows c' f ps = pre @ (MakeRowId x slot, row) # post"
    by blast
  have "MakeRowId x slot \<notin> fst ` set (page_rows x pg)"
  proof
    assume "MakeRowId x slot \<in> fst ` set (page_rows x pg)"
    then obtain j where "j < num_slots pg" "slot = of_nat j" by (auto simp: set_rows_from)
    then show False using a(6) nr by (simp add: unat_of_nat_16)
  qed
  moreover have "MakeRowId x slot \<notin> fst ` set (chain_rows c f as)" "MakeRowId x slot \<notin> fst ` set (chain_rows c f bs)"
    using chain_rows_ids [of "MakeRowId x slot" c f] ps(1) by (auto simp: sp)
  ultimately show "MakeRowId x slot \<notin> fst ` set (chain_rows c f ps)"
    using a(1) by (auto simp: sp)
qed

text \<open>A new page with one row, linked behind the last page of the chain or under the root.\<close>

definition link_to :: "page_id_t list \<Rightarrow> page_id_t" where
  "link_to ps = (if ps = [] then ROOT_PAGE_ID else last ps)"

definition set_link :: "page_id_t list \<Rightarrow> FullPage \<Rightarrow> page_id_t \<Rightarrow> FullPage" where
  "set_link ps pg n = (if ps = [] then SetPrevPage pg n else SetNextPage pg n)"

lemma new_page_file:
  assumes hf: "heap_file c f ps" and n: "c (FilePageId f n) = None" "n \<noteq> NULL_PAGE_ID"
    and new: "heap_ok new" "GetNextPage new = NULL_PAGE_ID"
    and pg: "c (FilePageId f (link_to ps)) = Some pg"
  defines "c' \<equiv> c(FilePageId f n \<mapsto> new, FilePageId f (link_to ps) \<mapsto> set_link ps pg n)"
  shows "heap_file c' f (ps @ [n])" and "chain_rows c' f (ps @ [n]) = chain_rows c f ps @ page_rows n new"
proof -
  let ?c = "c(FilePageId f n \<mapsto> new)"
  obtain root where root: "c (FilePageId f ROOT_PAGE_ID) = Some root" "heap_ok root" "GetNextPage root = NULL_PAGE_ID"
    "chain c f (GetPrevPage root) ps" and ps: "distinct ps" "ROOT_PAGE_ID \<notin> set ps"
    using hf by (auto simp: heap_file_def)
  have nn: "n \<notin> set ps" "n \<noteq> ROOT_PAGE_ID" "n \<noteq> link_to ps"
    using chain_page(1) [OF root(4)] root(1) n(1) pg by fastforce+
  have "chain ?c f (GetPrevPage root) ps = chain c f (GetPrevPage root) ps" using nn(1) by (intro chain_cong(1)) auto
  then have "chain ?c f (GetPrevPage root) ps" using root(4) by simp
  then have "heap_file c' f (ps @ [n]) \<and> chain_rows c' f ps = chain_rows c f ps"
  proof (cases ps rule: rev_cases)
    case Nil
    then have r: "pg = root" "link_to ps = ROOT_PAGE_ID" using pg root(1) by (simp_all add: link_to_def)
    have "heap_ok (SetPrevPage root n)" "GetPrevPage (SetPrevPage root n) = n"
      "GetNextPage (SetPrevPage root n) = NULL_PAGE_ID"
      using heap_ok_links(2) [OF root(2)] link_views(2) [OF heap_okD(2) [OF root(2)]] root(3) by (simp_all add: links_def)
    then show ?thesis using Nil r nn n(2) new by (simp add: heap_file_def c'_def set_link_def)
  next
    case (snoc qs x)
    then have l: "link_to ps = x" "x \<noteq> ROOT_PAGE_ID" "n \<noteq> x" using ps(2) nn(3) by (auto simp: link_to_def)
    have c': "c' = ?c(FilePageId f x \<mapsto> SetNextPage pg n)" using snoc l(1) by (simp add: c'_def set_link_def)
    have hp: "heap_ok pg" using chain_page(1) [OF root(4), of x] snoc pg l(1) by simp
    have ch: "chain c' f (GetPrevPage root) (qs @ [x, n])"
      unfolding c' using snoc \<open>chain ?c f (GetPrevPage root) ps\<close> ps(1) nn l pg new n(2)
      by (intro chain_snoc) auto
    have "page_rows x (SetNextPage pg n) = page_rows x pg"
      using heap_ok_links(3) [OF hp] by (rule page_rows_cong)
    moreover have "chain_rows ?c f qs = chain_rows c f qs"
      using nn(1) snoc by (intro chain_cong(2)) auto
    ultimately have "chain_rows c' f ps = chain_rows c f ps"
      using chain_rows_update [of qs x "[]" ?c f "SetNextPage pg n"] nn(1) ps(1) pg l(1)
      by (auto simp: c' snoc)
    then show ?thesis using ch root ps snoc l nn by (auto simp: heap_file_def c')
  qed
  then show "heap_file c' f (ps @ [n])" and "chain_rows c' f (ps @ [n]) = chain_rows c f ps @ page_rows n new"
    using nn(3) by (simp_all add: c'_def)
qed

definition disk_inv :: "io_env \<Rightarrow> PageBufferManager \<Rightarrow> bool" where
  "disk_inv env p \<longleftrightarrow> no_fault env \<and> quiet p \<and> 1 < GetEvictableCount (replacer_m p) \<and>
     (\<exists>i j. i \<noteq> j \<and> is_frame p i \<and> is_frame p j) \<and> pool_sizes p INVALID_FILE_ID = None"

definition disk_can_insert :: "PageBufferManager \<Rightarrow> file_id_t \<Rightarrow> byte list \<Rightarrow> bool" where
  "disk_can_insert p f row \<longleftrightarrow> length row \<le> 4068 \<and> (\<exists>n. pool_sizes p f = Some n \<and> n \<le> 2 ^ 19 * 4096) \<and>
     (\<forall>j. is_frame p j \<and> idle p j \<longrightarrow> fp_file_id (fr_fp_id (frame p j)) \<noteq> f)"

lemma disk_invD:
  assumes "disk_inv env p"
  shows "no_fault env" and "quiet p" and "calm p" and "pool_ok p" and "all_unpinned p"
  using assms quiet_calm(1) by (auto simp: disk_inv_def quiet_def all_unpinned_def)

lemma disk_inv_tidy:
  assumes "disk_inv env p" and "tidy p p'" and "\<forall>fp. contents p fp = None \<longrightarrow> contents p' fp = None"
  shows "disk_inv env p'"
  using assms quiet_tidy [of p p'] by (auto simp: disk_inv_def tidy_def)

lemma disk_can_insert_tidy: "tidy p p' \<Longrightarrow> disk_can_insert p f row \<Longrightarrow> disk_can_insert p' f row"
  by (auto simp: tidy_def disk_can_insert_def)

text \<open>
  What an insert may do to the files: at most one more page of file \<open>f\<close> is used, the file grows as
  little as \<open>AllocatePage\<close> makes it, the other files keep their sizes and no frame becomes idle.
\<close>

definition grown :: "file_id_t \<Rightarrow> PageBufferManager \<Rightarrow> PageBufferManager \<Rightarrow> bool" where
  "grown f p p' \<longleftrightarrow> (\<forall>j. is_frame p' j = is_frame p j) \<and>
     (\<forall>j. is_frame p' j \<and> idle p' j \<longrightarrow> idle p j \<and> frame p' j = frame p j) \<and>
     (\<forall>g. g \<noteq> f \<longrightarrow> pool_sizes p' g = pool_sizes p g \<and> used (contents p') g = used (contents p) g) \<and>
     used (contents p') f \<le> used (contents p) f + 1 \<and>
     (\<forall>n. pool_sizes p f = Some n \<longrightarrow>
        (\<exists>n'. pool_sizes p' f = Some n' \<and> n' \<le> max n (8192 * used (contents p) f + 4096)))"

lemma used_dom: "(\<And>fp. c' fp = None \<longleftrightarrow> c fp = None) \<Longrightarrow> used c' = used c"
  by (intro ext) (simp add: used_def)

lemma tidy_grown:
  assumes "tidy p p'" and "\<And>fp. contents p' fp = None \<longleftrightarrow> contents p fp = None"
  shows "grown f p p'"
proof -
  have "used (contents p') = used (contents p)" using assms(2) by (rule used_dom)
  then show ?thesis using assms(1) by (auto simp: grown_def tidy_def)
qed

lemma grown_tidy:
  assumes g: "grown f p p'" and t: "tidy p' p''" and "\<And>fp. contents p'' fp = None \<longleftrightarrow> contents p' fp = None"
  shows "grown f p p''"
proof -
  have u: "used (contents p'') = used (contents p')" using assms(3) by (rule used_dom)
  have s: "pool_sizes p'' = pool_sizes p'" "\<forall>j. is_frame p'' j = is_frame p' j"
    and "\<forall>j. is_frame p'' j \<and> idle p'' j \<longrightarrow> idle p' j \<and> frame p'' j = frame p' j"
    using t by (simp_all add: tidy_def)
  then have "\<forall>j. is_frame p'' j \<and> idle p'' j \<longrightarrow> idle p j \<and> frame p'' j = frame p j"
    using g by (simp add: grown_def)
  then show ?thesis using g unfolding grown_def u s(1) using s(2) by simp
qed

lemma tidy_then_grown:
  assumes t: "tidy p p'" and c: "contents p' = contents p" and g: "grown f p' p''"
  shows "grown f p p''"
proof -
  have s: "pool_sizes p' = pool_sizes p" "\<forall>j. is_frame p' j = is_frame p j"
    and "\<forall>j. is_frame p' j \<and> idle p' j \<longrightarrow> idle p j \<and> frame p' j = frame p j"
    using t by (simp_all add: tidy_def)
  then have "\<forall>j. is_frame p'' j \<and> idle p'' j \<longrightarrow> idle p j \<and> frame p'' j = frame p j"
    using g by (simp add: grown_def)
  then show ?thesis using g unfolding grown_def c s(1) using s(2) by simp
qed

lemma used_new_page:
  assumes "c (FilePageId f n) = None"
  shows "used (c(FilePageId f n \<mapsto> pg)) f = used c f + 1" and "g \<noteq> f \<Longrightarrow> used (c(FilePageId f n \<mapsto> pg)) g = used c g"
proof -
  have "{x. (c(FilePageId f n \<mapsto> pg)) (FilePageId f x) \<noteq> None} = insert n {x. c (FilePageId f x) \<noteq> None}" by auto
  then show "used (c(FilePageId f n \<mapsto> pg)) f = used c f + 1" using assms by (simp add: used_def)
  show "g \<noteq> f \<Longrightarrow> used (c(FilePageId f n \<mapsto> pg)) g = used c g" by (simp add: used_def)
qed

text \<open>The new page, when no page of the chain has room.\<close>

lemma insert_new_page:
  assumes c: "calm p" "all_unpinned p" "no_fault env" and hf: "heap_file (contents p) f ps" and can: "disk_can_insert p f row"
  shows "\<exists>n p1 p2 p3 rid new pg. pool_AllocatePage env p f = Inr (Inr n, p1) \<and>
    in_scope env p1 (FilePageId f n) (insert_fresh n row) = Inr (rid, p2) \<and>
    link_page env f (if ps = [] then NULL_PAGE_ID else last ps) n p2 = Inr ((), p3) \<and>
    contents p (FilePageId f n) = None \<and> n \<noteq> NULL_PAGE_ID \<and> heap_ok new \<and> GetNextPage new = NULL_PAGE_ID \<and>
    page_rows n new = [(rid, row)] \<and> contents p (FilePageId f (link_to ps)) = Some pg \<and>
    contents p3 = (contents p)(FilePageId f n \<mapsto> new, FilePageId f (link_to ps) \<mapsto> set_link ps pg n) \<and>
    calm p3 \<and> all_unpinned p3 \<and> (\<forall>j. is_frame p3 j = is_frame p j) \<and>
    GetEvictableCount (replacer_m p3) = GetEvictableCount (replacer_m p) \<and> grown f p p3"
proof -
  obtain sz where sz: "pool_sizes p f = Some sz" "sz \<le> 2 ^ 19 * 4096"
    and nidle: "\<forall>j. is_frame p j \<and> idle p j \<longrightarrow> fp_file_id (fr_fp_id (frame p j)) \<noteq> f"
    using can by (auto simp: disk_can_insert_def)
  obtain n p1 raw sz' where a: "pool_AllocatePage env p f = Inr (Inr n, p1)" "calm p1"
    "contents p (FilePageId f n) = None" "contents p1 = (contents p)(FilePageId f n \<mapsto> raw)" "length raw = 4096"
    "n \<noteq> NULL_PAGE_ID" "replacer_m p1 = replacer_m p"
    "\<forall>j. is_frame p1 j = is_frame p j \<and> frame p1 j = frame p j \<and> idle p1 j = idle p j"
    and gs: "pool_sizes p1 = (pool_sizes p)(f \<mapsto> sz')" "sz' \<le> max sz (8192 * used (contents p) f + 4096)"
    using pool_AllocatePage_ok [OF c(1,3) sz nidle] by (elim exE conjE) (rule that; assumption)
  have gr1: "grown f p p1"
    using a(3,4,8) gs sz(1) used_new_page [where c = "contents p" and f = f and n = n and pg = raw] by (auto simp: grown_def)
  have ok1: "pool_ok p1" and un1: "all_unpinned p1" using a(2,8) c(2) by (simp_all add: calm_def all_unpinned_def)
  note init = heap_ok_InitPage [OF a(5)]
  have len: "length row + 5 < 2 ^ 64" "length row + 5 \<le> 4073" using can by (simp_all add: disk_can_insert_def)
  from init(1) len(1) obtain slot pg' new where al: "AllocateSlot (heap_InitPage raw) (of_nat (length row)) = Inr (Some slot, pg')"
    "length pg' = 4096" "write_record pg' slot row = Inr new" "heap_ok new" "GetNextPage new = NULL_PAGE_ID"
    "page_records new = [Some row]" "unat slot = 0"
    using init(2-5) len(2) length_page_records [of "heap_InitPage raw"]
    by (cases rule: heap_insert_cases) (auto simp: links_def)
  have "contents p1 (FilePageId f n) = Some raw" by (simp add: a(4))
  from scope_touched [OF a(2) this all_unpinnedD [OF ok1 un1] c(3), of "insert_fresh n row"]
    insert_fresh_ok [OF _ _ _ a(5) al(1-3) heap_okD(2) [OF al(4)]]
  obtain p2 where s: "in_scope env p1 (FilePageId f n) (insert_fresh n row) = Inr (MakeRowId n slot, p2)"
    "tidy p1 p2" "contents p2 = (contents p1)(FilePageId f n \<mapsto> new)" by blast
  have c2: "contents p2 = (contents p)(FilePageId f n \<mapsto> new)" using s(3) a(4) by simp
  have calm2: "calm p2" using calm_tidy [OF a(2) s(2)] a(4) c2 by (auto split: if_splits)
  note un2 = all_unpinned_tidy [OF un1 s(2)]
  have ok2: "pool_ok p2" using calm2 by (simp add: calm_def)
  obtain root where root: "contents p (FilePageId f ROOT_PAGE_ID) = Some root" "heap_ok root"
    "chain (contents p) f (GetPrevPage root) ps"
    using hf by (auto simp: heap_file_def)
  obtain pg where pg: "contents p (FilePageId f (link_to ps)) = Some pg" "heap_ok pg" "ps \<noteq> [] \<Longrightarrow> last ps \<noteq> NULL_PAGE_ID"
    using root chain_page [OF root(3), of "last ps"] by (cases "ps = []") (auto simp: link_to_def)
  have ne: "link_to ps \<noteq> n" using pg(1) a(3) by auto
  have len2: "length (set_link ps pg n) = 4096"
    using heap_ok_links(1,2) [OF pg(2)] heap_okD(2) by (simp add: set_link_def)
  have pg2: "contents p2 (FilePageId f (link_to ps)) = Some pg" using pg(1) ne by (simp add: c2)
  obtain p3 where l: "in_scope env p2 (FilePageId f (link_to ps))
      (\<lambda>i p. modify_page p i (\<lambda>page. Inr ((), set_link ps page n))) = Inr ((), p3)" "tidy p2 p3"
    "contents p3 = (contents p2)(FilePageId f (link_to ps) \<mapsto> set_link ps pg n)"
    using scope_modify [OF calm2 pg2 all_unpinnedD [OF ok2 un2] c(3), of "\<lambda>page. Inr ((), set_link ps page n)" "()"] len2 by auto
  have link: "link_page env f (if ps = [] then NULL_PAGE_ID else last ps) n p2 = Inr ((), p3)"
    using l(1) pg(3) by (auto simp: link_page_def link_to_def set_link_def)
  have "grown f p p2" using grown_tidy [OF gr1 s(2)] s(3) a(4) by auto
  from grown_tidy [OF this l(2)] have gr3: "grown f p p3" using l(3) pg2 by auto
  have "calm p3" using calm_tidy [OF calm2 l(2)] l(3) pg2 by (auto split: if_splits)
  moreover have "page_rows n new = [(MakeRowId n slot, row)]"
    using page_rows_append [of new "heap_InitPage raw" row slot n] al(6,7) init(2) length_page_records [of "heap_InitPage raw"]
    by simp
  moreover have "\<forall>j. is_frame p3 j = is_frame p j" "GetEvictableCount (replacer_m p3) = GetEvictableCount (replacer_m p)"
    using a(7,8) s(2) l(2) by (simp_all add: tidy_def)
  ultimately show ?thesis
    using a(1,3,6) s(1) link al(4,5) pg(1) l(3) all_unpinned_tidy [OF un2 l(2)] gr3 unfolding c2 by blast
qed

lemma disk_insert_ok:
  assumes inv: "disk_inv env p" and hf: "heap_file (contents p) f ps" and can: "disk_can_insert p f row"
  shows "\<exists>rid p' ps' pre post. disk_insert_row env p f row = Inr (rid, p') \<and> disk_inv env p' \<and>
    heap_file (contents p') f ps' \<and> chain_rows (contents p) f ps = pre @ post \<and>
    rid \<notin> fst ` set (chain_rows (contents p) f ps) \<and> chain_rows (contents p') f ps' = pre @ (rid, row) # post \<and>
    (\<forall>g x. g \<noteq> f \<longrightarrow> contents p' (FilePageId g x) = contents p (FilePageId g x)) \<and> grown f p p'"
proof -
  note d = disk_invD [OF inv]
  obtain root where root: "contents p (FilePageId f ROOT_PAGE_ID) = Some root" "chain (contents p) f (GetPrevPage root) ps"
    using hf by (auto simp: heap_file_def)
  obtain p0 where h: "in_scope env p (FilePageId f ROOT_PAGE_ID) (\<lambda>i p.
      view_page p i (\<lambda>root. Inr (GetPartialPagesHead root))) = Inr (GetPrevPage root, p0)" "tidy p p0" "contents p0 = contents p"
    using scope_view [OF d(3) root(1) all_unpinnedD [OF d(4,5)] d(1), of "\<lambda>root. Inr (GetPartialPagesHead root)"]
    by (auto simp: GetPartialPagesHead_def)
  have inv0: "disk_inv env p0" using disk_inv_tidy [OF inv h(2)] h(3) by simp
  note d0 = disk_invD [OF inv0]
  have len: "length row + 5 < 2 ^ 64" using can by (simp add: disk_can_insert_def)
  have ch0: "chain (contents p0) f (GetPrevPage root) ps" using root(2) h(3) by simp
  from insert_walk_ok [OF d0(3,5,1) ch0 len, of NULL_PAGE_ID] show ?thesis
  proof (elim disjE bexE exE conjE)
    fix x slot p'
    assume x: "x \<in> set ps" and w: "insert_walk env f row NULL_PAGE_ID (GetPrevPage root) p0 = Some (Inr (Inl (MakeRowId x slot), p'))"
      and t: "tidy p0 p'" and ra: "row_added f x slot row (contents p0) (contents p')"
    have ra': "row_added f x slot row (contents p) (contents p')" using ra h(3) by simp
    have ins: "disk_insert_row env p f row = Inr (MakeRowId x slot, p')" using h(1) w by (simp add: disk_insert_row_def)
    have "disk_inv env p'"
      using disk_inv_tidy [OF inv0 t] ra by (auto simp: row_added_def split: if_splits)
    moreover have "\<forall>g y. g \<noteq> f \<longrightarrow> contents p' (FilePageId g y) = contents p (FilePageId g y)"
      using ra' by (auto simp: row_added_def)
    moreover have "grown f p p'"
      using tidy_then_grown [OF h(2,3) tidy_grown [OF t, of f]] ra by (auto simp: row_added_def)
    ultimately show ?thesis using row_added_file [OF hf x ra'] ins by blast
  next
    fix p1
    assume w: "insert_walk env f row NULL_PAGE_ID (GetPrevPage root) p0 =
        Some (Inr (Inr (if ps = [] then NULL_PAGE_ID else last ps), p1))" and t: "tidy p0 p1" and c1: "contents p1 = contents p0"
    have inv1: "disk_inv env p1" using disk_inv_tidy [OF inv0 t] c1 by simp
    note d1 = disk_invD [OF inv1]
    have cc: "contents p1 = contents p" using c1 h(3) by simp
    have hf1: "heap_file (contents p1) f ps" using hf cc by simp
    have can1: "disk_can_insert p1 f row"
      using disk_can_insert_tidy [OF t disk_can_insert_tidy [OF h(2) can]] .
    obtain n p2 p3 p4 rid new pg where a: "pool_AllocatePage env p1 f = Inr (Inr n, p2)"
      "in_scope env p2 (FilePageId f n) (insert_fresh n row) = Inr (rid, p3)"
      "link_page env f (if ps = [] then NULL_PAGE_ID else last ps) n p3 = Inr ((), p4)"
      and np: "contents p1 (FilePageId f n) = None" "n \<noteq> NULL_PAGE_ID" "heap_ok new" "GetNextPage new = NULL_PAGE_ID"
      "contents p1 (FilePageId f (link_to ps)) = Some pg" and rows: "page_rows n new = [(rid, row)]"
      and c4: "contents p4 = (contents p1)(FilePageId f n \<mapsto> new, FilePageId f (link_to ps) \<mapsto> set_link ps pg n)"
      and p4: "calm p4" "all_unpinned p4" "\<forall>j. is_frame p4 j = is_frame p1 j"
      "GetEvictableCount (replacer_m p4) = GetEvictableCount (replacer_m p1)" and gr: "grown f p1 p4"
      using insert_new_page [OF d1(3,5,1) hf1 can1] by (elim exE conjE) (rule that; assumption)
    have ins: "disk_insert_row env p f row = Inr (rid, p4)" using h(1) w a by (simp add: disk_insert_row_def)
    have inv4: "disk_inv env p4"
    proof -
      have "f \<noteq> INVALID_FILE_ID" using can1 inv1 by (auto simp: disk_can_insert_def disk_inv_def)
      then have "pool_sizes p4 INVALID_FILE_ID = None" using gr inv1 by (simp add: grown_def disk_inv_def)
      then show ?thesis using inv1 p4 by (auto simp: disk_inv_def quiet_def calm_def all_unpinned_def)
    qed
    note nf = new_page_file [OF hf1 np(1,2,3,4,5)]
    have id: "GetPageIdFromRowId rid = n" using page_rows_ids [of rid n new 0] rows by simp
    have "n \<notin> set ps" using chain_page(1) [OF root(2), of n] np(1) cc by auto
    then have fresh: "rid \<notin> fst ` set (chain_rows (contents p) f ps)" using chain_rows_ids id by blast
    have "chain_rows (contents p4) f (ps @ [n]) = chain_rows (contents p) f ps @ (rid, row) # []"
      using nf(2) rows c4 cc by simp
    moreover have "heap_file (contents p4) f (ps @ [n])" using nf(1) c4 by simp
    moreover have "\<forall>g y. g \<noteq> f \<longrightarrow> contents p4 (FilePageId g y) = contents p (FilePageId g y)" using c4 cc by auto
    moreover have "grown f p p4" using tidy_then_grown [OF h(2,3) tidy_then_grown [OF t c1 gr]] .
    ultimately show ?thesis using ins inv4 fresh by (metis append_Nil2)
  qed
qed

section \<open>Deleting\<close>

lemma disk_delete_ok:
  assumes inv: "disk_inv env p" and hf: "heap_file (contents p) f ps" and rid: "rid \<in> fst ` set (chain_rows (contents p) f ps)"
  shows "\<exists>p'. disk_delete_row env p f rid = Inr p' \<and> disk_inv env p' \<and> heap_file (contents p') f ps \<and>
    chain_rows (contents p') f ps = filter (\<lambda>r. fst r \<noteq> rid) (chain_rows (contents p) f ps) \<and>
    (\<forall>g x. g \<noteq> f \<longrightarrow> contents p' (FilePageId g x) = contents p (FilePageId g x)) \<and>
    tidy p p' \<and> (\<forall>fp. contents p' fp = None \<longleftrightarrow> contents p fp = None)"
proof -
  note d = disk_invD [OF inv]
  let ?c = "contents p" and ?x = "GetPageIdFromRowId rid" and ?s = "GetSlotIdFromRowId rid"
  obtain root where root: "?c (FilePageId f ROOT_PAGE_ID) = Some root" "heap_ok root" "GetNextPage root = NULL_PAGE_ID"
    "chain ?c f (GetPrevPage root) ps" and ps: "distinct ps" "ROOT_PAGE_ID \<notin> set ps"
    using hf by (auto simp: heap_file_def)
  have x: "?x \<in> set ps" using chain_rows_ids [OF rid] .
  obtain pg where pg: "?c (FilePageId f ?x) = Some pg" "heap_ok pg" using chain_page(1) [OF root(4) x] by blast
  obtain as bs where sp: "ps = as @ ?x # bs" using x by (meson split_list)
  have no: "rid \<notin> fst ` set (chain_rows ?c f as)" "rid \<notin> fst ` set (chain_rows ?c f bs)"
    using chain_rows_ids [of rid ?c f] ps(1) sp by (metis distinct_append distinct.simps(2) not_distinct_conv_prefix
        disjoint_iff list.set_intros(1))+
  then have "rid \<in> fst ` set (page_rows ?x pg)" using rid pg(1) by (subst (asm) sp) auto
  then obtain j r where j: "j < num_slots pg" "page_records pg ! j = Some r" "rid = MakeRowId ?x (of_nat j)"
    by (auto simp: set_rows_from)
  have "j < 65536" using j(1) directory_okD(3) [OF page_okD(1) [OF heap_okD(1) [OF pg(2)]]] by simp
  then have s: "unat ?s = j" by (subst j(3)) (simp add: unat_of_nat_16)
  have live: "\<not> slot_del pg (unat ?s)" using j s by (auto simp: nth_page_records split: if_splits)
  obtain new where del: "DeleteSlot pg ?s = Inr new" "page_ok 4088 new" "page_records new = (page_records pg)[j := None]"
    using DeleteSlot_live [OF heap_okD(1) [OF pg(2)], of ?s] j(1) s live by auto
  have new: "heap_ok new" "GetNextPage new = GetNextPage pg"
    using del(2) DeleteSlot_links [OF pg(2) _ del(1)] j(1) s by (simp_all add: heap_ok_def links_def)
  obtain p' where p': "in_scope env p (FilePageId f ?x) (\<lambda>i p. modify_page p i (\<lambda>page.
      andthen (DeleteSlot page ?s) (\<lambda>page. Inr ((), page)))) = Inr ((), p')" "tidy p p'" "contents p' = ?c(FilePageId f ?x \<mapsto> new)"
    using scope_modify [OF d(3) pg(1) all_unpinnedD [OF d(4,5)] d(1),
        of "\<lambda>page. andthen (DeleteSlot page ?s) (\<lambda>page. Inr ((), page))" "()" new] del(1) heap_okD(2) [OF new(1)] by auto
  have "disk_inv env p'" using disk_inv_tidy [OF inv p'(2)] p'(3) pg(1) by (auto split: if_splits)
  moreover have "heap_file (contents p') f ps"
    using root ps x chain_update [OF root(4) pg(1) new] p'(3) by (auto simp: heap_file_def)
  moreover have "chain_rows (contents p') f ps = filter (\<lambda>r. fst r \<noteq> rid) (chain_rows ?c f ps)"
  proof -
    have "page_rows ?x new = filter (\<lambda>r. fst r \<noteq> rid) (page_rows ?x pg)"
      using page_rows_delete [OF pg(2) j(1) del(3), of ?x 0] j(3) by simp
    moreover have "filter (\<lambda>r. fst r \<noteq> rid) (chain_rows ?c f zs) = chain_rows ?c f zs"
      if "rid \<notin> fst ` set (chain_rows ?c f zs)" for zs
      using that by (intro filter_True) auto
    moreover have "distinct (as @ ?x # bs)" using ps(1) sp by simp
    from chain_rows_update [OF this, of ?c f new]
    have "chain_rows (contents p') f ps = chain_rows ?c f as @ page_rows ?x new @ chain_rows ?c f bs"
      unfolding p'(3) sp [symmetric] .
    moreover have "chain_rows ?c f ps = chain_rows ?c f as @ page_rows ?x pg @ chain_rows ?c f bs"
      using pg(1) by (subst sp) simp
    ultimately show ?thesis using no by simp
  qed
  moreover have "\<forall>fp. contents p' fp = None \<longleftrightarrow> ?c fp = None" using p'(3) pg(1) by auto
  ultimately show ?thesis using p'(1,2,3) by (auto simp: disk_delete_row_def)
qed

section \<open>Iterating\<close>

text \<open>The inner loop finds the first record from a slot on.\<close>

lemma live_from_ok:
  assumes ok: "heap_ok pg" and "unat slot \<le> num_slots pg"
  shows "(live_from pg slot = Inr None \<and> rows_from x pg (unat slot) = []) \<or>
    (\<exists>s r. live_from pg slot = Inr (Some (s, r)) \<and> unat s < num_slots pg \<and> page_records pg ! unat s = Some r \<and>
      rows_from x pg (unat slot) = (MakeRowId x s, r) # rows_from x pg (Suc (unat s)))"
  using assms
proof (induction pg slot rule: live_from.induct)
  case (1 pg slot)
  note dir = page_okD(1) [OF heap_okD(1) [OF "1.prems"(1)]]
  have n: "num_slots pg < 65536" using directory_okD(3) [OF dir] by simp
  show ?case
  proof (cases "unat slot < num_slots pg")
    case True
    have cap: "slot < GetPageCapacity pg" using True slot_less_capacity [OF dir] by simp
    have step: "rows_from x pg (unat slot) = (case page_records pg ! unat slot of None \<Rightarrow> rows_from x pg (Suc (unat slot))
        | Some r \<Rightarrow> (MakeRowId x slot, r) # rows_from x pg (Suc (unat slot)))"
      using rows_from_step [OF True, of x] unfolding of_nat_unat ucast_id .
    show ?thesis
    proof (cases "slot_del pg (unat slot)")
      case deleted: True
      have u: "unat (slot + 1) = Suc (unat slot)" using True n by (simp add: unat_word_ariths)
      have "live_from pg slot = live_from pg (slot + 1)"
        using cap slot_getters(1) [OF dir True] deleted by (subst live_from.simps) simp
      moreover have "rows_from x pg (unat slot) = rows_from x pg (unat (slot + 1))"
        using step deleted True u by (simp add: nth_page_records)
      ultimately show ?thesis
        using "1.IH" [OF cap, of True] slot_getters(1) [OF dir True] deleted True u "1.prems"(1) by simp
    next
      case False
      then have "live_from pg slot = Inr (Some (slot, record_at pg (unat slot)))"
        using cap slot_getters(1) [OF dir True] ReadRecord_live [OF heap_okD(1) [OF "1.prems"(1)] True]
        by (subst live_from.simps) simp
      then show ?thesis using step True False by (simp add: nth_page_records)
    qed
  next
    case False
    then have "live_from pg slot = Inr None" using slot_less_capacity [OF dir] by (subst live_from.simps) simp
    then show ?thesis using False by simp
  qed
qed

text \<open>Where an iterator stands: at the end, or on a live slot of a page of the chain.\<close>

definition positioned :: "(file_page_id_t \<rightharpoonup> FullPage) \<Rightarrow> DiskTableIterator \<Rightarrow> Row list \<Rightarrow> bool" where
  "positioned c it rs \<longleftrightarrow> (current_page_id_m it = NULL_PAGE_ID \<and> rs = []) \<or>
     (\<exists>x post pg. current_page_id_m it = x \<and> chain c (file_id_m it) x (x # post) \<and> in_partial_list_m it \<and>
        c (FilePageId (file_id_m it) x) = Some pg \<and> unat (current_slot_m it) < num_slots pg \<and>
        rs = (MakeRowId x (current_slot_m it), row_buffer_m it) # rows_from x pg (Suc (unat (current_slot_m it))) @
          chain_rows c (file_id_m it) post)"

lemma advance_ok:
  assumes "calm p" and "\<forall>x \<in> set xs. unpinned p (FilePageId (file_id_m it) x)" and "no_fault env"
    and "chain (contents p) (file_id_m it) (current_page_id_m it) xs" and "xs \<noteq> [] \<Longrightarrow> in_partial_list_m it"
    and "xs \<noteq> [] \<Longrightarrow> unat (current_slot_m it) \<le> num_slots (the (contents p (FilePageId (file_id_m it) (hd xs))))"
    and "rs = (case xs of [] \<Rightarrow> [] | x # post \<Rightarrow>
      rows_from x (the (contents p (FilePageId (file_id_m it) x))) (unat (current_slot_m it)) @ chain_rows (contents p) (file_id_m it) post)"
  shows "\<exists>it' p'. advance_to_next_valid env p it = Some (Inr (it', p')) \<and> tidy p p' \<and> contents p' = contents p \<and>
    file_id_m it' = file_id_m it \<and> positioned (contents p) it' rs"
  using assms
proof (induction xs arbitrary: p it rs)
  case Nil
  then have "advance_to_next_valid env p it = Some (Inr (it, p))" by (subst advance_to_next_valid.simps) simp
  then show ?case using Nil tidy_refl [of p] by (auto simp: positioned_def calm_def)
next
  case (Cons x xs)
  let ?f = "file_id_m it" and ?c = "contents p"
  have ok: "pool_ok p" using Cons.prems(1) by (simp add: calm_def)
  obtain pg where x: "current_page_id_m it = x" "x \<noteq> NULL_PAGE_ID" and pg: "?c (FilePageId ?f x) = Some pg" "heap_ok pg"
    and ch: "chain ?c ?f (GetNextPage pg) xs"
    using Cons.prems(4) by (auto split: option.splits)
  have slot: "unat (current_slot_m it) \<le> num_slots pg" and part: "in_partial_list_m it" using Cons.prems(5,6) pg(1) by simp_all
  have rs: "rs = rows_from x pg (unat (current_slot_m it)) @ chain_rows ?c ?f xs" using Cons.prems(7) pg(1) by simp
  let ?view = "\<lambda>view. andthen (live_from view (current_slot_m it)) (\<lambda>r. Inr (r, GetNextPage view))"
  have un: "unpinned p (FilePageId ?f x)" using Cons.prems(2) by simp
  note sc = scope_view [OF Cons.prems(1) pg(1) un Cons.prems(3), of ?view]
  from live_from_ok [OF pg(2) slot, of x] show ?case
  proof (elim disjE exE conjE)
    assume l: "live_from pg (current_slot_m it) = Inr None" and e: "rows_from x pg (unat (current_slot_m it)) = []"
    obtain p1 where s: "in_scope env p (FilePageId ?f x) (\<lambda>i p. view_page p i ?view) = Inr ((None, GetNextPage pg), p1)"
      "tidy p p1" "contents p1 = ?c" using sc l by fastforce
    define it1 where "it1 = (if GetNextPage pg \<noteq> NULL_PAGE_ID then it\<lparr>current_page_id_m := GetNextPage pg, current_slot_m := 0\<rparr>
      else it\<lparr>current_page_id_m := NULL_PAGE_ID, current_slot_m := 0\<rparr>)"
    have it1: "current_page_id_m it1 = GetNextPage pg" "file_id_m it1 = ?f" "current_slot_m it1 = 0" "in_partial_list_m it1"
      using part by (simp_all add: it1_def)
    have a: "advance_to_next_valid env p it = advance_to_next_valid env p1 it1"
      using x s(1) part by (subst advance_to_next_valid.simps) (simp add: it1_def)
    have un1: "\<forall>y \<in> set xs. unpinned p1 (FilePageId (file_id_m it1) y)"
      using Cons.prems(2) tidy_unpinned [OF ok s(2)] it1(2) by auto
    have calm1: "calm p1" using calm_tidy [OF Cons.prems(1) s(2)] s(3) by simp
    have "\<exists>it' p'. advance_to_next_valid env p1 it1 = Some (Inr (it', p')) \<and> tidy p1 p' \<and>
        contents p' = contents p1 \<and> file_id_m it' = file_id_m it1 \<and> positioned (contents p1) it' rs"
    proof (rule Cons.IH [OF calm1 un1 Cons.prems(3)])
      show "chain (contents p1) (file_id_m it1) (current_page_id_m it1) xs" using ch s(3) it1 by simp
      show "rs = (case xs of [] \<Rightarrow> [] | x # post \<Rightarrow>
          rows_from x (the (contents p1 (FilePageId (file_id_m it1) x))) (unat (current_slot_m it1)) @
            chain_rows (contents p1) (file_id_m it1) post)"
        using rs e s(3) it1 by (cases xs) simp_all
    qed (use it1 in simp_all)
    then obtain it' p' where r: "advance_to_next_valid env p1 it1 = Some (Inr (it', p'))" "tidy p1 p'"
      "contents p' = contents p1" "file_id_m it' = file_id_m it1" "positioned (contents p1) it' rs" by blast
    then show ?case using a s(3) it1(2) tidy_trans [OF ok s(2) r(2)] by auto
  next
    fix s r
    assume l: "live_from pg (current_slot_m it) = Inr (Some (s, r))" "unat s < num_slots pg" "page_records pg ! unat s = Some r"
      and rf: "rows_from x pg (unat (current_slot_m it)) = (MakeRowId x s, r) # rows_from x pg (Suc (unat s))"
    obtain p1 where sp: "in_scope env p (FilePageId ?f x) (\<lambda>i p. view_page p i ?view) = Inr ((Some (s, r), GetNextPage pg), p1)"
      "tidy p p1" "contents p1 = ?c" using sc l by fastforce
    have "advance_to_next_valid env p it = Some (Inr (it\<lparr>current_slot_m := s, row_buffer_m := r\<rparr>, p1))"
      using x sp(1) by (subst advance_to_next_valid.simps) simp
    moreover have "positioned ?c (it\<lparr>current_slot_m := s, row_buffer_m := r\<rparr>) rs"
      unfolding positioned_def using x pg ch part l rf rs by auto
    ultimately show ?case using sp by auto
  qed
qed

lemma disk_begin_ok:
  assumes inv: "disk_inv env p" and hf: "heap_file (contents p) f ps"
  shows "\<exists>it p'. DiskTableIterator_new env p f = Inr (it, p') \<and> tidy p p' \<and> contents p' = contents p \<and>
    positioned (contents p) it (chain_rows (contents p) f ps)"
proof -
  note d = disk_invD [OF inv]
  let ?c = "contents p" and ?fp = "FilePageId f ROOT_PAGE_ID"
  obtain root where root: "?c ?fp = Some root" "GetNextPage root = NULL_PAGE_ID" "chain ?c f (GetPrevPage root) ps"
    and ps: "ROOT_PAGE_ID \<notin> set ps" using hf by (auto simp: heap_file_def)
  define it0 where "it0 = \<lparr>file_id_m = f, current_page_id_m = GetPrevPage root, current_slot_m = 0,
    partial_pages_head_m = GetPrevPage root, in_partial_list_m = (GetPrevPage root \<noteq> NULL_PAGE_ID), row_buffer_m = []\<rparr>"
  define body where "body = (\<lambda>i p. andthen (view_page p i (\<lambda>root. Inr (GetFullPagesHead root, GetPartialPagesHead root)))
    (\<lambda>((full_head, partial_head), p).
     let it = \<lparr>file_id_m = f, current_page_id_m = NULL_PAGE_ID, current_slot_m = 0,
               partial_pages_head_m = partial_head, in_partial_list_m = False, row_buffer_m = []\<rparr>;
         it = (if full_head \<noteq> NULL_PAGE_ID then it\<lparr>current_page_id_m := full_head\<rparr>
               else if partial_head \<noteq> NULL_PAGE_ID
               then it\<lparr>current_page_id_m := partial_head, in_partial_list_m := True\<rparr> else it)
     in advance env p it))"
  have ex: "\<exists>it p2. body i p1 = Inr (it, p2) \<and> tidy p1 p2 \<and> contents p2 = ?c \<and> positioned ?c it (chain_rows ?c f ps)"
    if fe: "fetched p ?fp i p1" for i p1
  proof -
    have p1: "pool_ok p1" "contents p1 = ?c" "page_frame p1 ?fp = Some i" "fr_data (frame p1 i) = root"
      using fe root(1) by (simp_all add: fetched_def)
    have "\<exists>j. j \<noteq> i \<and> is_frame p j" using inv unfolding disk_inv_def by metis
    moreover have "GetEvictableCount (replacer_m p1) > 0"
      using fe inv by (simp add: fetched_def disk_inv_def word_less_nat_alt unat_sub word_le_nat_alt)
    moreover have "contents p1 (fr_fp_id (frame p1 j)) = None" if "is_frame p1 j" "idle p1 j" for j
    proof -
      have "\<not> idle p1 i" using p1(3) pool_okD(2) [OF p1(1,3)] by (simp add: idle_def entry_ok_def)
      then have "j \<noteq> i" using that(2) by auto
      then have "is_frame p j" "frame p1 j = frame p j" "idle p j" using fe that by (auto simp: fetched_def)
      then show ?thesis using d(3) p1(2) by (simp add: calm_def)
    qed
    ultimately have calm1: "calm p1" using p1(1) fe d(5) unfolding calm_def fetched_def all_unpinned_def by metis
    have un1: "\<forall>x \<in> set ps. unpinned p1 (FilePageId (file_id_m it0) x)"
    proof (intro ballI, unfold unpinned_def, intro allI impI)
      fix x j assume x: "x \<in> set ps" and m: "page_frame p1 (FilePageId (file_id_m it0) x) = Some j"
      have "j \<noteq> i" using page_frame_inj [OF p1(1,3)] m x ps by (auto simp: it0_def)
      moreover have "is_frame p j" using pool_okD(2) [OF p1(1) m] fe by (simp add: entry_ok_def fetched_def)
      ultimately show "fr_pin_count (frame p1 j) = 0" using fe d(5) by (simp add: fetched_def all_unpinned_def)
    qed
    have "\<exists>it' p'. advance_to_next_valid env p1 it0 = Some (Inr (it', p')) \<and> tidy p1 p' \<and> contents p' = contents p1 \<and>
        file_id_m it' = file_id_m it0 \<and> positioned (contents p1) it' (chain_rows ?c f ps)"
    proof (rule advance_ok [OF calm1 un1 d(1)])
      show "chain (contents p1) (file_id_m it0) (current_page_id_m it0) ps" using root(3) p1(2) by (simp add: it0_def)
      show "in_partial_list_m it0" if "ps \<noteq> []" using that root(3) by (cases ps) (auto simp: it0_def)
      show "chain_rows ?c f ps = (case ps of [] \<Rightarrow> [] | x # post \<Rightarrow>
          rows_from x (the (contents p1 (FilePageId (file_id_m it0) x))) (unat (current_slot_m it0)) @
            chain_rows (contents p1) (file_id_m it0) post)"
        using p1(2) by (cases ps) (simp_all add: it0_def)
    qed (simp add: it0_def)
    moreover have "body i p1 = advance env p1 it0"
      using view_page_ok [OF p1(1,3), of "\<lambda>root. Inr (GetFullPagesHead root, GetPartialPagesHead root)"] p1(4) root(2)
      by (cases "GetPrevPage root = NULL_PAGE_ID")
        (simp_all add: body_def it0_def GetFullPagesHead_def GetPartialPagesHead_def Let_def)
    ultimately show ?thesis using p1(2) by (auto simp: advance_def)
  qed
  have ne: "?c ?fp \<noteq> None" using root(1) by simp
  obtain it p' where "with_page env p ?fp body = Inr (Inr it, p')" "positioned ?c it (chain_rows ?c f ps)" "tidy p p'" "contents p' = ?c"
    using with_page_tidy [OF d(3) ne all_unpinnedD [OF d(4,5)] d(1), of body "\<lambda>it. positioned ?c it (chain_rows ?c f ps)"] ex
    by blast
  then show ?thesis using in_scope_ok [of env p ?fp body it p'] by (auto simp: DiskTableIterator_new_def body_def)
qed

section \<open>The table contract\<close>

definition disk_same :: "PageBufferManager \<Rightarrow> PageBufferManager \<Rightarrow> bool" where
  "disk_same p p' \<longleftrightarrow> (pool_ok p \<longrightarrow> tidy p p' \<and> contents p' = contents p)"

definition disk_ready :: "io_env \<Rightarrow> PageBufferManager \<Rightarrow> DiskTableIterator \<Rightarrow> Row list \<Rightarrow> bool" where
  "disk_ready env p it rs \<longleftrightarrow> disk_inv env p \<and> positioned (contents p) it rs"

abbreviation disk_rows :: "PageBufferManager \<Rightarrow> file_id_t \<rightharpoonup> Row list" where
  "disk_rows p f \<equiv> file_rows (contents p) f"

lemma disk_inv_same: "disk_inv env p \<Longrightarrow> disk_same p p' \<Longrightarrow> disk_inv env p'"
  using disk_inv_tidy [of env p p'] disk_invD(4) [of env p] by (simp add: disk_same_def)

lemmas disk_ops_defs = DiskTable_ops_def DiskIterator_ops_def

lemma disk_next_ok:
  assumes "disk_ready env p it (row # rs)"
  shows "\<exists>it' p'. disk_next env p it = Inr (it', p') \<and> disk_ready env p' it' rs \<and> disk_same p p'"
proof -
  have inv: "disk_inv env p" using assms by (simp add: disk_ready_def)
  note d = disk_invD [OF inv]
  let ?c = "contents p" and ?f = "file_id_m it" and ?it = "it\<lparr>current_slot_m := current_slot_m it + 1\<rparr>"
  obtain x post pg where x: "current_page_id_m it = x" "chain ?c ?f x (x # post)" "in_partial_list_m it"
    "?c (FilePageId ?f x) = Some pg" "unat (current_slot_m it) < num_slots pg"
    "rs = rows_from x pg (Suc (unat (current_slot_m it))) @ chain_rows ?c ?f post"
    using assms by (auto simp: disk_ready_def positioned_def)
  have "heap_ok pg" using x(2,4) by simp
  then have "num_slots pg < 65536" using directory_okD(3) [OF page_okD(1) [OF heap_okD(1)]] by fastforce
  then have u: "unat (current_slot_m ?it) = Suc (unat (current_slot_m it))" using x(5) by (simp add: unat_word_ariths)
  have un: "\<forall>y \<in> set (x # post). unpinned p (FilePageId (file_id_m ?it) y)" using all_unpinnedD [OF d(4,5)] by blast
  have "\<exists>it' p'. advance_to_next_valid env p ?it = Some (Inr (it', p')) \<and> tidy p p' \<and> contents p' = ?c \<and>
      file_id_m it' = file_id_m ?it \<and> positioned ?c it' rs"
    by (rule advance_ok [OF d(3) un d(1)]) (use x u in simp_all)
  then obtain it' p' where a: "disk_next env p it = Inr (it', p')" "tidy p p'" "contents p' = ?c" "positioned ?c it' rs"
    by (auto simp: disk_next_def advance_def)
  then have "disk_same p p'" by (simp add: disk_same_def)
  then show ?thesis using a disk_inv_same [OF inv] by (auto simp: disk_ready_def)
qed

interpretation disk_table: table "DiskTable_ops env" "disk_ready env" disk_same "disk_inv env" disk_rows disk_can_insert for env
proof unfold_locales
  show "disk_same p p" for p by (simp add: disk_same_def tidy_refl)
  show "disk_same p p''" if "disk_same p p'" "disk_same p' p''" for p p' p''
    using that tidy_trans [of p p' p''] by (auto simp: disk_same_def tidy_def)
  show "ti_end (tb_iterator (DiskTable_ops env)) p it \<longleftrightarrow> rs = []" if "disk_ready env p it rs" for p it rs
    using that by (auto simp: disk_ops_defs disk_end_def disk_ready_def positioned_def)
  show "ti_deref (tb_iterator (DiskTable_ops env)) p it = Inr row" if "disk_ready env p it (row # rs)" for p it row rs
    using that by (auto simp: disk_ops_defs disk_deref_def disk_ready_def positioned_def)
  show "\<exists>it' p'. ti_next (tb_iterator (DiskTable_ops env)) p it = Inr (it', p') \<and> disk_ready env p' it' rs \<and> disk_same p p'"
    if "disk_ready env p it (row # rs)" for p it row rs
    using disk_next_ok [OF that] by (simp add: disk_ops_defs)
  show "disk_inv env p' \<and> disk_rows p' = disk_rows p \<and> (\<forall>t row. disk_can_insert p t row \<longrightarrow> disk_can_insert p' t row)"
    if "disk_same p p'" "disk_inv env p" for p p'
    using that disk_inv_same [OF that(2,1)] disk_invD(4) [OF that(2)] disk_can_insert_tidy [of p p']
    by (auto simp: disk_same_def)
  show "distinct (map fst rs)" if "disk_inv env p" "disk_rows p f = Some rs" for p f rs
    using that(2) distinct_chain_rows by (elim file_rowsE) (auto simp: heap_file_def)
  show "\<exists>it p'. tb_begin (DiskTable_ops env) p f = Inr (it, p') \<and> disk_ready env p' it rs \<and> disk_same p p'"
    if "disk_inv env p" "disk_rows p f = Some rs" for p f rs
  proof -
    note prems = that
    obtain ps where ps: "heap_file (contents p) f ps" "rs = chain_rows (contents p) f ps"
      using file_rowsE [OF prems(2)] by blast
    obtain it p' where "DiskTableIterator_new env p f = Inr (it, p')" "tidy p p'" "contents p' = contents p"
      "positioned (contents p) it rs"
      using disk_begin_ok [OF prems(1) ps(1)] ps(2) by blast
    moreover from this(2,3) have "disk_same p p'" by (simp add: disk_same_def)
    ultimately show ?thesis using disk_inv_same [OF that(1)] by (auto simp: disk_ops_defs disk_ready_def)
  qed
  show "\<exists>rid p' pre post. tb_insert_row (DiskTable_ops env) p f row = Inr (rid, p') \<and> disk_inv env p' \<and>
      rs = pre @ post \<and> rid \<notin> fst ` set rs \<and> disk_rows p' = (disk_rows p)(f \<mapsto> pre @ (rid, row) # post)"
    if "disk_inv env p" "disk_rows p f = Some rs" "disk_can_insert p f row" for p f rs row
  proof -
    note prems = that
    obtain ps where ps: "heap_file (contents p) f ps" "rs = chain_rows (contents p) f ps"
      using file_rowsE [OF prems(2)] by blast
    obtain rid p' ps' pre post where i: "disk_insert_row env p f row = Inr (rid, p')" "disk_inv env p'"
      "heap_file (contents p') f ps'" "rs = pre @ post" "rid \<notin> fst ` set rs"
      "chain_rows (contents p') f ps' = pre @ (rid, row) # post"
      "\<forall>g x. g \<noteq> f \<longrightarrow> contents p' (FilePageId g x) = contents p (FilePageId g x)"
      using disk_insert_ok [OF prems(1) ps(1) prems(3)] unfolding ps(2) by blast
    have "disk_rows p' g = ((disk_rows p)(f \<mapsto> pre @ (rid, row) # post)) g" for g
      using file_rows_eq [OF i(3)] i(6,7) file_rows_cong [of "contents p'" g "contents p"] by auto
    then have "disk_rows p' = (disk_rows p)(f \<mapsto> pre @ (rid, row) # post)" by blast
    then show ?thesis using i by (auto simp: disk_ops_defs)
  qed
  show "\<exists>p'. tb_delete_row (DiskTable_ops env) p f rid = Inr p' \<and> disk_inv env p' \<and>
      disk_rows p' = (disk_rows p)(f \<mapsto> filter (\<lambda>r. fst r \<noteq> rid) rs)"
    if "disk_inv env p" "disk_rows p f = Some rs" "rid \<in> fst ` set rs" for p f rs rid
  proof -
    note prems = that
    obtain ps where ps: "heap_file (contents p) f ps" "rs = chain_rows (contents p) f ps"
      using file_rowsE [OF prems(2)] by blast
    obtain p' where d: "disk_delete_row env p f rid = Inr p'" "disk_inv env p'" "heap_file (contents p') f ps"
      "chain_rows (contents p') f ps = filter (\<lambda>r. fst r \<noteq> rid) rs"
      "\<forall>g x. g \<noteq> f \<longrightarrow> contents p' (FilePageId g x) = contents p (FilePageId g x)"
      using disk_delete_ok [OF prems(1) ps(1)] prems(3) unfolding ps(2) by blast
    have "disk_rows p' g = ((disk_rows p)(f \<mapsto> filter (\<lambda>r. fst r \<noteq> rid) rs)) g" for g
      using file_rows_eq [OF d(3)] d(4,5) file_rows_cong [of "contents p'" g "contents p"] by auto
    then have "disk_rows p' = (disk_rows p)(f \<mapsto> filter (\<lambda>r. fst r \<noteq> rid) rs)" by blast
    then show ?thesis using d by (simp add: disk_ops_defs)
  qed
  show "tb_update_row (DiskTable_ops env) p f rid data =
      andthen (tb_delete_row (DiskTable_ops env) p f rid) (\<lambda>p. tb_insert_row (DiskTable_ops env) p f data)" for p f rid data
    by (simp add: disk_ops_defs disk_update_row_def)
qed

section \<open>Room\<close>

text \<open>
  Every insert takes up at most one page of its file. A file of \<open>2^19\<close> pages can still double, and it
  only doubles when all its pages are in use, so \<open>2^18\<close> pages in use are always possible.
\<close>

definition file_room :: "PageBufferManager \<Rightarrow> file_id_t \<Rightarrow> nat \<Rightarrow> bool" where
  "file_room p f k \<longleftrightarrow> (\<exists>n. pool_sizes p f = Some n \<and> n \<le> 2 ^ 19 * 4096) \<and> used (contents p) f + k \<le> 2 ^ 18 \<and>
     (\<forall>j. is_frame p j \<and> idle p j \<longrightarrow> fp_file_id (fr_fp_id (frame p j)) \<noteq> f)"

definition disk_room :: "PageBufferManager \<Rightarrow> nat \<Rightarrow> bool" where
  "disk_room p k \<longleftrightarrow> (\<forall>f. disk_rows p f \<noteq> None \<longrightarrow> file_room p f k)"

lemma file_room_tidy:
  assumes t: "tidy p p'" and c: "\<And>fp. contents p' fp = None \<longleftrightarrow> contents p fp = None" and r: "file_room p f k"
  shows "file_room p' f k"
proof -
  have "used (contents p') = used (contents p)" using c by (rule used_dom)
  then show ?thesis using t r by (auto simp: file_room_def tidy_def)
qed

lemma file_room_grown:
  assumes g: "grown f p p'" and r: "file_room p h (Suc k)"
  shows "file_room p' h k"
proof -
  obtain n where n: "pool_sizes p h = Some n" "n \<le> 2 ^ 19 * 4096" "used (contents p) h + Suc k \<le> 2 ^ 18"
    and idle: "\<forall>j. is_frame p j \<and> idle p j \<longrightarrow> fp_file_id (fr_fp_id (frame p j)) \<noteq> h"
    using r by (auto simp: file_room_def)
  have "\<forall>j. is_frame p' j \<and> idle p' j \<longrightarrow> fp_file_id (fr_fp_id (frame p' j)) \<noteq> h"
    using idle g by (auto simp: grown_def)
  moreover have "(\<exists>n. pool_sizes p' h = Some n \<and> n \<le> 2 ^ 19 * 4096) \<and> used (contents p') h + k \<le> 2 ^ 18"
  proof (cases "h = f")
    case True
    obtain n' where n': "pool_sizes p' h = Some n'" "n' \<le> max n (8192 * used (contents p) h + 4096)"
      using g n(1) True unfolding grown_def by blast
    then have "n' \<le> 2 ^ 19 * 4096" using n(2,3) by simp
    moreover have "used (contents p') h \<le> used (contents p) h + 1" using g True by (simp add: grown_def)
    ultimately show ?thesis using n'(1) n(3) by simp
  qed (use g n in \<open>simp add: grown_def\<close>)
  ultimately show ?thesis by (simp add: file_room_def)
qed

interpretation disk_roomy: roomy_table "DiskTable_ops env" "disk_ready env" disk_same "disk_inv env" disk_rows disk_can_insert
  disk_room 4068 for env
proof unfold_locales
  show "disk_room p' k" if "disk_same p p'" "disk_inv env p" "disk_room p k" for p p' k
  proof -
    have "tidy p p'" "contents p' = contents p" using that(1) disk_invD(4) [OF that(2)] by (simp_all add: disk_same_def)
    then show ?thesis using that(3) file_room_tidy [of p p'] by (simp add: disk_room_def)
  qed
  show "disk_room p j" if "disk_room p k" "j \<le> k" for p j k
    using that by (force simp: disk_room_def file_room_def)
  show "disk_can_insert p f row" if "disk_rows p f = Some rs" "disk_room p (Suc k)" "length row \<le> 4068" for p f rs k row
    using that by (auto simp: disk_room_def file_room_def disk_can_insert_def)
  show "disk_room p' k" if inv: "disk_inv env p" and f: "disk_rows p f = Some rs" and room: "disk_room p (Suc k)"
    and len: "length row \<le> 4068" and ins: "tb_insert_row (DiskTable_ops env) p f row = Inr (rid, p')" for p f rs k row rid p'
  proof -
    have can: "disk_can_insert p f row" using f room len by (auto simp: disk_room_def file_room_def disk_can_insert_def)
    obtain ps where ps: "heap_file (contents p) f ps" using file_rowsE [OF f] by blast
    have "grown f p p'" using disk_insert_ok [OF inv ps can] ins by (auto simp: disk_ops_defs)
    moreover have "disk_rows p' g = None \<longleftrightarrow> disk_rows p g = None" for g
      using disk_table.insert_ok [OF inv f can] ins f by (auto split: if_splits)
    ultimately show ?thesis using room file_room_grown by (simp add: disk_room_def)
  qed
  show "disk_room p' k" if inv: "disk_inv env p" and f: "disk_rows p f = Some rs" and rid: "rid \<in> fst ` set rs"
    and room: "disk_room p k" and del: "tb_delete_row (DiskTable_ops env) p f rid = Inr p'" for p f rs rid k p'
  proof -
    obtain ps where ps: "heap_file (contents p) f ps" "rs = chain_rows (contents p) f ps" using file_rowsE [OF f] by blast
    have "tidy p p'" "\<And>fp. contents p' fp = None \<longleftrightarrow> contents p fp = None"
      using disk_delete_ok [OF inv ps(1) rid [unfolded ps(2)]] del by (auto simp: disk_ops_defs)
    moreover have "disk_rows p' g = None \<longleftrightarrow> disk_rows p g = None" for g
      using disk_table.delete_ok [OF inv f rid] del f by (auto split: if_splits)
    ultimately show ?thesis using room file_room_tidy by (simp add: disk_room_def)
  qed
qed

end
