(* ===== verification/Disk_Table_Claims.thy ===== *)
theory Disk_Table_Claims
  imports Disk_Table_Spec
begin

text \<open>The claims about disk tables, and what happens with a row that is too long for a page.\<close>

section \<open>Rows that do not fit\<close>

lemma heap_record_length:
  assumes ok: "heap_ok pg" and j: "j < num_slots pg" "page_records pg ! j = Some r"
  shows "length r \<le> 4068"
proof -
  note p = heap_okD(1) [OF ok]
  have live: "\<not> slot_del pg j" and r: "r = record_at pg j" using j by (auto simp: nth_page_records split: if_splits)
  have e: "extent_ok 4088 pg j" using page_okD(5) [OF p j(1)] .
  have "20 \<le> free_end pg" using page_okD(3) [OF p] directory_okD(2) [OF page_okD(1) [OF p]] j(1) by simp
  then show ?thesis using e r directory_okD(1) [OF page_okD(1) [OF p]] by (auto simp: extent_ok_def record_at_def)
qed

lemma heap_free_space: "heap_ok pg \<Longrightarrow> free_end pg - free_start pg \<le> 4073"
  using page_okD(4) [OF heap_okD(1), of pg] directory_okD(2) [OF page_okD(1) [OF heap_okD(1)], of pg] by simp

lemma row_too_long:
  assumes inv: "disk_inv env p" and hf: "heap_file (contents p) f ps" and can: "disk_can_insert p f []"
    and long: "4068 < length row" "length row + 5 < 2 ^ 64"
  shows "disk_insert_row env p f row = Inl Undefined"
proof -
  note d = disk_invD [OF inv]
  obtain root where root: "contents p (FilePageId f ROOT_PAGE_ID) = Some root" "chain (contents p) f (GetPrevPage root) ps"
    using hf by (auto simp: heap_file_def)
  obtain p0 where h: "in_scope env p (FilePageId f ROOT_PAGE_ID) (\<lambda>i p.
      view_page p i (\<lambda>root. Inr (GetPartialPagesHead root))) = Inr (GetPrevPage root, p0)" "tidy p p0" "contents p0 = contents p"
    using scope_view [OF d(3) root(1) all_unpinnedD [OF d(4,5)] d(1), of "\<lambda>root. Inr (GetPartialPagesHead root)"]
    by (auto simp: GetPartialPagesHead_def)
  have inv0: "disk_inv env p0" using disk_inv_tidy [OF inv h(2)] h(3) by simp
  note d0 = disk_invD [OF inv0]
  have ch0: "chain (contents p0) f (GetPrevPage root) ps" using root(2) h(3) by simp
  have no: "\<not> row_added f x slot row c c'" for x slot c c'
  proof
    assume "row_added f x slot row c c'"
    then obtain pg new where n: "heap_ok new" "page_records new = page_records pg @ [Some row]" by (auto simp: row_added_def)
    have "num_slots pg < num_slots new" using arg_cong [OF n(2), of length] by simp
    then show False using heap_record_length [OF n(1), of "num_slots pg" row] n(2) long(1) by (simp add: nth_append)
  qed
  obtain l p1 where w: "insert_walk env f row NULL_PAGE_ID (GetPrevPage root) p0 = Some (Inr (Inr l, p1))"
    "tidy p0 p1" "contents p1 = contents p0"
    using insert_walk_ok [OF d0(3,5,1) ch0 long(2), of NULL_PAGE_ID] no by blast
  have inv1: "disk_inv env p1" using disk_inv_tidy [OF inv0 w(2)] w(3) by simp
  note d1 = disk_invD [OF inv1]
  have "disk_can_insert p1 f []" using disk_can_insert_tidy [OF w(2) disk_can_insert_tidy [OF h(2) can]] .
  then obtain n p2 raw where a: "pool_AllocatePage env p1 f = Inr (Inr n, p2)" "calm p2"
    "contents p2 = (contents p1)(FilePageId f n \<mapsto> raw)" "length raw = 4096"
    "\<forall>j. is_frame p2 j = is_frame p1 j \<and> frame p2 j = frame p1 j \<and> idle p2 j = idle p1 j"
    using pool_AllocatePage_ok [OF d1(3,1)] unfolding disk_can_insert_def by (elim exE conjE) blast
  have ok2: "pool_ok p2" and un2: "all_unpinned p2" using a(2,5) d1(5) by (simp_all add: calm_def all_unpinned_def)
  have "contents p2 (FilePageId f n) \<noteq> None" by (simp add: a(3))
  from GetPage_fetched [OF a(2) this all_unpinnedD [OF ok2 un2] d(1)]
  obtain i p3 where g: "GetPage env p2 (FilePageId f n) = Inr (Inr i, p3)" "pool_ok p3"
    "page_frame p3 (FilePageId f n) = Some i" "fr_data (frame p3 i) = raw"
    by (auto simp: fetched_def a(3))
  note init = heap_ok_InitPage [OF a(4)]
  obtain p4 where m: "modify_page p3 i (\<lambda>page. Inr ((), heap_InitPage page)) = Inr ((), p4)"
    "touched p3 i (FilePageId f n) (heap_InitPage raw) p4"
    using modify_page_ok [OF g(2,3), of "\<lambda>page. Inr ((), heap_InitPage page)" "()" "heap_InitPage raw"] g(4)
      heap_okD(2) [OF init(1)] by auto
  have m4: "pool_ok p4" "page_frame p4 (FilePageId f n) = Some i" "fr_data (frame p4 i) = heap_InitPage raw"
    using m(2) g(3) by (simp_all add: touched_def)
  have full: "AllocateSlot (heap_InitPage raw) (of_nat (length row)) = Inr (None, heap_InitPage raw)"
    using init(1) long(2)
  proof (cases rule: heap_insert_cases)
    case (room slot pg' new)
    have "num_slots (heap_InitPage raw) < num_slots new" using arg_cong [OF room(7), of length] by simp
    then show ?thesis
      using heap_record_length [OF room(4), of "num_slots (heap_InitPage raw)" row] room(7) long(1) by (simp add: nth_append)
  qed
  then obtain p5 where "modify_page p4 i (\<lambda>page. AllocateSlot page (of_nat (length row))) = Inr (None, p5)"
    using modify_page_ok [OF m4(1,2), of "\<lambda>page. AllocateSlot page (of_nat (length row))" None "heap_InitPage raw"] m4(3)
      heap_okD(2) [OF init(1)] by auto
  then have "in_scope env p2 (FilePageId f n) (insert_fresh n row) = Inl Undefined"
    using g(1) m(1) by (simp add: in_scope_def MustGetPage_def insert_fresh_def)
  then show ?thesis using h(1) w(1) a(1) by (simp add: disk_insert_row_def)
qed

section \<open>A pool with one table\<close>

abbreviation table_files :: "string \<rightharpoonup> byte list" where
  "table_files \<equiv> [GetFilePath 7 \<mapsto> heap_InitPage (replicate 4096 0)]"

abbreviation table_pool :: PageBufferManager where
  "table_pool \<equiv> PageBufferManager_init (\<lambda>_. replicate 4096 0) table_files 2"

lemma table_pool:
  "disk_inv lucky_env table_pool" "heap_file (contents table_pool) 7 []" "disk_rows table_pool 7 = Some []"
  "length row \<le> 4068 \<Longrightarrow> disk_can_insert table_pool 7 row"
proof -
  let ?root = "heap_InitPage (replicate 4096 0)"
  note root = heap_ok_InitPage [of "replicate 4096 0", simplified]
  have len: "length ?root = 4096" using heap_okD(2) [OF root(1)] .
  have ne: "INVALID_FILE_ID \<noteq> 7" by (simp add: INVALID_FILE_ID_def)
  have f: "table_files (GetFilePath INVALID_FILE_ID) = None"
    "table_files (GetFilePath i) = Some content \<Longrightarrow> length content \<le> 2 ^ 20 * 4096" for i content
    using ne len by (auto split: if_splits)
  have b: "\<And>i :: nat. length (replicate 4096 (0 :: byte)) = 4096" by simp
  note i = pool_init [where buffer = "\<lambda>_. replicate 4096 0" and files = table_files and n = 2, OF _ _ b f(2) f(1), simplified]
  have c: "contents table_pool (FilePageId 7 0) = Some ?root"
    using i(2) len by (simp add: disk_pages_def free_of_def DiskManager_init_def mem_read_def)
  have "is_frame table_pool 0" "is_frame table_pool 1" by (simp_all add: is_frame_def PageBufferManager_init_def)
  then have "\<exists>i j. i \<noteq> j \<and> is_frame table_pool i \<and> is_frame table_pool j" by (intro exI [of _ 0] exI [of _ 1]) simp
  moreover have "GetEvictableCount (replacer_m table_pool) = of_nat 2"
    by (rule pool_init(3) [where buffer = "\<lambda>_. replicate 4096 0" and files = table_files and n = 2])
      (use f in \<open>auto\<close>)
  then have "1 < GetEvictableCount (replacer_m table_pool)" by simp
  ultimately show "disk_inv lucky_env table_pool"
    using i(1) no_fault_lucky f(1) unfolding disk_inv_def by (intro conjI) (simp_all add: sizes_def PageBufferManager_init_def DiskManager_init_def)
  show hf: "heap_file (contents table_pool) 7 []"
    using c root by (simp add: heap_file_def ROOT_PAGE_ID_def links_def)
  show "disk_rows table_pool 7 = Some []" using file_rows_eq [OF hf] by simp
  have "frame table_pool j = new_Frame j (replicate 4096 0)" if "is_frame table_pool j" for j
  proof -
    have "unat j = 0 \<or> unat j = 1" using that by (auto simp: is_frame_def PageBufferManager_init_def)
    then have "(of_nat (unat j) :: frame_id_t) = of_nat 0 \<or> (of_nat (unat j) :: frame_id_t) = of_nat 1" by (elim disjE) simp_all
    then consider "j = 0" | "j = 1" by auto
    then show ?thesis by cases (simp_all add: frame_def PageBufferManager_init_def)
  qed
  then show "disk_can_insert table_pool 7 row" if "length row \<le> 4068"
    using that len ne by (auto simp: disk_can_insert_def sizes_def PageBufferManager_init_def DiskManager_init_def new_Frame_def)
qed

section \<open>Claims\<close>

text \<open>
  C3: a disk table is a list of rows with distinct ids, whatever the buffer pool evicts on the way.
  On a heap file with rows \<open>rs\<close>, without I/O faults: inserting a row of at most 4068 bytes puts it
  into the table under a new id and keeps all other rows in order; deleting removes exactly the row
  with that id; iterating terminates and visits exactly the rows, once each; and the rows of every
  other file stay as they are.
\<close>

theorem disk_table_correct:
  assumes "disk_inv env p" and "disk_rows p f = Some rs"
  shows "(disk_can_insert p f row \<longrightarrow> (\<exists>rid p' pre post. disk_insert_row env p f row = Inr (rid, p') \<and> disk_inv env p' \<and>
      rs = pre @ post \<and> rid \<notin> fst ` set rs \<and> disk_rows p' = (disk_rows p)(f \<mapsto> pre @ (rid, row) # post))) \<and>
    (rid \<in> fst ` set rs \<longrightarrow> (\<exists>p'. disk_delete_row env p f rid = Inr p' \<and> disk_inv env p' \<and>
      disk_rows p' = (disk_rows p)(f \<mapsto> filter (\<lambda>r. fst r \<noteq> rid) rs))) \<and>
    (\<exists>p'. for_rows (DiskTable_ops env) (\<lambda>r acc. Inr (acc @ [r], False)) p f [] = Inr (rs, p') \<and> disk_inv env p' \<and>
      disk_rows p' = disk_rows p)"
proof -
  have "row_loop (\<lambda>r acc. Inr (acc @ [r], False)) rs acc = Inr (acc @ rs)" for rs acc :: "Row list"
    by (induction rs arbitrary: acc) simp_all
  then have "\<exists>p'. for_rows (DiskTable_ops env) (\<lambda>r acc. Inr (acc @ [r], False)) p f [] = Inr (rs, p') \<and> disk_inv env p' \<and>
      disk_rows p' = disk_rows p"
    using disk_table.for_rows_ok [OF assms, of "\<lambda>r acc. Inr (acc @ [r], False)" "[]"] by auto
  moreover have "\<exists>rid p' pre post. disk_insert_row env p f row = Inr (rid, p') \<and> disk_inv env p' \<and>
      rs = pre @ post \<and> rid \<notin> fst ` set rs \<and> disk_rows p' = (disk_rows p)(f \<mapsto> pre @ (rid, row) # post)"
    if "disk_can_insert p f row"
    using disk_table.insert_ok [OF assms that] by (simp add: disk_ops_defs)
  moreover have "\<exists>p'. disk_delete_row env p f rid = Inr p' \<and> disk_inv env p' \<and>
      disk_rows p' = (disk_rows p)(f \<mapsto> filter (\<lambda>r. fst r \<noteq> rid) rs)" if "rid \<in> fst ` set rs"
    using disk_table.delete_ok [OF assms that] by (simp add: disk_ops_defs)
  ultimately show ?thesis by simp
qed

theorem disk_table_correct_witness:
  "\<exists>rid p'. disk_insert_row lucky_env table_pool 7 [1, 2, 3] = Inr (rid, p') \<and> disk_rows p' 7 = Some [(rid, [1, 2, 3])]"
proof -
  have "disk_can_insert table_pool 7 [1, 2, 3]" by (rule table_pool(4)) simp
  from conjunct1 [OF disk_table_correct [OF table_pool(1,3), of "[1, 2, 3]" 0], THEN mp, OF this]
  obtain rid p' pre post where
    "disk_insert_row lucky_env table_pool 7 [1, 2, 3] = Inr (rid, p')" "[] = pre @ post"
    "disk_rows p' = (disk_rows table_pool)(7 \<mapsto> pre @ (rid, [1, 2, 3]) # post)" by blast
  then show ?thesis by auto
qed

text \<open>
  C38: a row that is longer than 4068 bytes does not fit into any heap page. Inserting one into a disk
  table is not refused: the insert grows the file and then dereferences an empty \<open>optional\<close>, which is
  undefined behaviour.
\<close>

theorem disk_insert_row_too_long:
  assumes "disk_inv env p" and "disk_rows p f = Some rs" and "disk_can_insert p f []"
    and "4068 < length row" and "length row + 5 < 2 ^ 64"
  shows "disk_insert_row env p f row = Inl Undefined"
  using assms(2) row_too_long [OF assms(1) _ assms(3,4,5)] by (elim file_rowsE) blast

theorem disk_insert_row_too_long_witness:
  "disk_insert_row lucky_env table_pool 7 (replicate 5000 0) = Inl Undefined"
  by (rule disk_insert_row_too_long [OF table_pool(1,3)]) (simp_all add: table_pool(4))

end
