(* ===== verification/Query_Claims.thy ===== *)
theory Query_Claims
  imports Query_Plans Disk_Table_Claims
begin

text \<open>The claims about query plans, on disk tables.\<close>



end
