(* ===== verification/Ephemeral_Table.thy ===== *)
theory Ephemeral_Table
  imports Table_Interface
begin

text \<open>
  In-memory tables (\<open>storage/ephemeral\<close>): the table, its iterator and its factory. A \<open>std::map\<close> is the
  list of its entries in key order. Tables are heap objects behind \<open>shared_ptr\<close>s, so the world is a
  map from addresses to tables, a table is its address, and an iterator refers to its map by address.
  The factory's mutex is held around each of its operations.
\<close>

section \<open>Ordered maps\<close>

text \<open>\<open>std::map::insert\<close> keeps an entry that is already there.\<close>

fun map_insert :: "'k::linorder \<Rightarrow> 'v \<Rightarrow> ('k \<times> 'v) list \<Rightarrow> ('k \<times> 'v) list" where
  "map_insert k v [] = [(k, v)]"
| "map_insert k v ((k', v') # xs) =
     (if k < k' then (k, v) # (k', v') # xs
      else if k = k' then (k', v') # xs
      else (k', v') # map_insert k v xs)"

definition map_erase :: "'k \<Rightarrow> ('k \<times> 'v) list \<Rightarrow> ('k \<times> 'v) list" where
  "map_erase k xs = filter (\<lambda>r. fst r \<noteq> k) xs"

section \<open>EphemeralTable\<close>

record EphemeralTable =
  table_data_m :: "(row_id_t \<times> byte list) list"
  next_page_id_m :: "32 word"
  next_slot_id_m :: "16 word"

definition EphemeralTable_new :: EphemeralTable where
  "EphemeralTable_new = \<lparr>table_data_m = [], next_page_id_m = 0, next_slot_id_m = 0\<rparr>"

definition GenerateRowId :: "EphemeralTable \<Rightarrow> row_id_t \<times> EphemeralTable" where
  "GenerateRowId t =
     (let page_id = next_page_id_m t;
          slot_id = next_slot_id_m t;
          t = t\<lparr>next_slot_id_m := next_slot_id_m t + 1\<rparr>;
          t = (if next_slot_id_m t = 0 then t\<lparr>next_page_id_m := next_page_id_m t + 1\<rparr> else t)
      in (MakeRowId page_id slot_id, t))"

definition eph_insert_row :: "EphemeralTable \<Rightarrow> byte list \<Rightarrow> row_id_t \<times> EphemeralTable" where
  "eph_insert_row t row =
     (let (rid, t) = GenerateRowId t in (rid, t\<lparr>table_data_m := map_insert rid row (table_data_m t)\<rparr>))"

definition eph_delete_row :: "EphemeralTable \<Rightarrow> row_id_t \<Rightarrow> EphemeralTable outcome" where
  "eph_delete_row t rid =
     (case map_of (table_data_m t) rid of
        None \<Rightarrow> Inl InvalidArgument
      | Some _ \<Rightarrow> Inr (t\<lparr>table_data_m := map_erase rid (table_data_m t)\<rparr>))"

definition eph_update_row :: "EphemeralTable \<Rightarrow> row_id_t \<Rightarrow> byte list \<Rightarrow> (row_id_t \<times> EphemeralTable) outcome" where
  "eph_update_row t rid data = andthen (eph_delete_row t rid) (\<lambda>t. Inr (eph_insert_row t data))"

section \<open>EphemeralTableIterator\<close>

text \<open>
  \<open>iterator_m\<close> is the key of the entry it points to, \<open>None\<close> at the end. Incrementing the end iterator,
  or one whose entry was erased, is undefined. Entries are never modified in place, so the span in
  \<open>current_m\<close> is the row as it was loaded.
\<close>

record EphemeralTableIterator =
  ei_data_m :: nat
  ei_iterator_m :: "row_id_t option"
  ei_current_m :: "Row option"

definition load_current :: "(row_id_t \<times> byte list) list \<Rightarrow> EphemeralTableIterator \<Rightarrow> EphemeralTableIterator" where
  "load_current data it =
     it\<lparr>ei_current_m := (case ei_iterator_m it of
        None \<Rightarrow> None
      | Some k \<Rightarrow> (case map_of data k of None \<Rightarrow> None | Some row_data \<Rightarrow> Some (k, row_data)))\<rparr>"

definition EphemeralTableIterator_new :: "nat \<Rightarrow> (row_id_t \<times> byte list) list \<Rightarrow> EphemeralTableIterator" where
  "EphemeralTableIterator_new a data =
     load_current data \<lparr>ei_data_m = a, ei_iterator_m = (case data of [] \<Rightarrow> None | r # _ \<Rightarrow> Some (fst r)), ei_current_m = None\<rparr>"

definition eph_deref :: "EphemeralTableIterator \<Rightarrow> Row outcome" where
  "eph_deref it =
     andthen (YADB_ASSERT (ei_current_m it \<noteq> None)) (\<lambda>_.
     case ei_current_m it of None \<Rightarrow> Inl Undefined | Some row \<Rightarrow> Inr row)"

definition eph_next :: "(row_id_t \<times> byte list) list \<Rightarrow> EphemeralTableIterator \<Rightarrow> EphemeralTableIterator outcome" where
  "eph_next data it =
     (case ei_iterator_m it of
        None \<Rightarrow> Inl Undefined
      | Some k \<Rightarrow>
          if map_of data k = None then Inl Undefined
          else Inr (load_current data
            (it\<lparr>ei_iterator_m := map_option fst (List.find (\<lambda>r. k < fst r) data)\<rparr>)))"

definition eph_end :: "EphemeralTableIterator \<Rightarrow> bool" where
  "eph_end it \<longleftrightarrow> ei_iterator_m it = None"

definition eph_seek ::
  "(row_id_t \<times> byte list) list \<Rightarrow> EphemeralTableIterator \<Rightarrow> row_id_t \<Rightarrow> EphemeralTableIterator outcome" where
  "eph_seek data it rid =
     (if map_of data rid = None then Inl InvalidArgument
      else Inr (load_current data (it\<lparr>ei_iterator_m := Some rid\<rparr>)))"

section \<open>The tables of a heap\<close>

type_synonym eph_heap = "nat \<rightharpoonup> EphemeralTable"

definition at_address :: "eph_heap \<Rightarrow> nat \<Rightarrow> EphemeralTable outcome" where
  "at_address w a = (case w a of None \<Rightarrow> Inl Undefined | Some t \<Rightarrow> Inr t)"

definition EphemeralIterator_ops :: "(eph_heap, EphemeralTableIterator) TableIterator" where
  "EphemeralIterator_ops =
     \<lparr>ti_deref = (\<lambda>w it. eph_deref it),
      ti_next = (\<lambda>w it. andthen (at_address w (ei_data_m it)) (\<lambda>t.
        andthen (eph_next (table_data_m t) it) (\<lambda>it. Inr (it, w)))),
      ti_end = (\<lambda>w it. eph_end it),
      ti_seek = (\<lambda>w it rid. andthen (at_address w (ei_data_m it)) (\<lambda>t.
        andthen (eph_seek (table_data_m t) it rid) (\<lambda>it. Inr (it, w))))\<rparr>"

definition EphemeralTable_ops :: "(eph_heap, nat, EphemeralTableIterator) Table" where
  "EphemeralTable_ops =
     \<lparr>tb_iterator = EphemeralIterator_ops,
      tb_begin = (\<lambda>w a. andthen (at_address w a) (\<lambda>t. Inr (EphemeralTableIterator_new a (table_data_m t), w))),
      tb_insert_row = (\<lambda>w a row. andthen (at_address w a) (\<lambda>t.
        let (rid, t) = eph_insert_row t row in Inr (rid, w(a \<mapsto> t)))),
      tb_update_row = (\<lambda>w a rid data. andthen (at_address w a) (\<lambda>t.
        andthen (eph_update_row t rid data) (\<lambda>(rid, t). Inr (rid, w(a \<mapsto> t))))),
      tb_delete_row = (\<lambda>w a rid. andthen (at_address w a) (\<lambda>t.
        andthen (eph_delete_row t rid) (\<lambda>t. Inr (w(a \<mapsto> t))))),
      tb_GetType = (\<lambda>_. InMemory)\<rparr>"

section \<open>EphemeralTableFactory\<close>

text \<open>\<open>tables_m\<close> maps names to the addresses of tables; \<open>next\<close> is the address a \<open>new\<close> returns.\<close>

record EphemeralTableFactory =
  tables_m :: "(string \<times> nat) list"

definition EphemeralTableFactory_new :: EphemeralTableFactory where
  "EphemeralTableFactory_new = \<lparr>tables_m = []\<rparr>"

definition eph_TableExists :: "EphemeralTableFactory \<Rightarrow> string \<Rightarrow> bool" where
  "eph_TableExists f table_name \<longleftrightarrow> map_of (tables_m f) table_name \<noteq> None"

definition eph_CreateTable ::
  "nat \<Rightarrow> eph_heap \<Rightarrow> EphemeralTableFactory \<Rightarrow> string \<Rightarrow> bool \<times> EphemeralTableFactory \<times> eph_heap" where
  "eph_CreateTable fresh w f table_name =
     (if map_of (tables_m f) table_name \<noteq> None then (False, f, w)
      else (True, f\<lparr>tables_m := (table_name, fresh) # tables_m f\<rparr>, w(fresh \<mapsto> EphemeralTable_new)))"

definition eph_GetTable :: "EphemeralTableFactory \<Rightarrow> string \<Rightarrow> nat option" where
  "eph_GetTable f table_name = map_of (tables_m f) table_name"

definition eph_DeleteTable :: "EphemeralTableFactory \<Rightarrow> string \<Rightarrow> bool \<times> EphemeralTableFactory" where
  "eph_DeleteTable f table_name =
     (case map_of (tables_m f) table_name of
        None \<Rightarrow> (False, f)
      | Some _ \<Rightarrow> (True, f\<lparr>tables_m := map_erase table_name (tables_m f)\<rparr>))"

section \<open>Ordered maps as maps\<close>

definition map_ok :: "('k::linorder \<times> 'v) list \<Rightarrow> bool" where
  "map_ok xs \<longleftrightarrow> sorted_wrt (<) (map fst xs)"

lemma map_insert_above:
  "\<forall>r \<in> set xs. fst r < k \<Longrightarrow> map_insert k v xs = xs @ [(k, v)]"
  by (induction xs) auto

lemma map_insert_present:
  "map_ok xs \<Longrightarrow> k \<in> fst ` set xs \<Longrightarrow> map_insert k v xs = xs"
proof (induction xs)
  case (Cons r xs)
  then show ?case by (cases r) (fastforce simp: map_ok_def)
qed simp

lemma map_ok_erase: "map_ok xs \<Longrightarrow> map_ok (map_erase k xs)"
  by (simp add: map_ok_def map_erase_def sorted_wrt_map sorted_wrt_filter)

lemma map_ok_distinct: "map_ok xs \<Longrightarrow> distinct (map fst xs)"
  by (simp add: map_ok_def strict_sorted_iff)

lemma map_ok_snoc: "map_ok (xs @ [r]) \<longleftrightarrow> map_ok xs \<and> (\<forall>r' \<in> set xs. fst r' < fst r)"
  by (auto simp: map_ok_def sorted_wrt_append)

lemma map_of_present: "map_of xs k \<noteq> None \<longleftrightarrow> k \<in> fst ` set xs"
  by (metis map_of_eq_None_iff)

text \<open>The successor of an entry is the next one of the list.\<close>

lemma find_successor:
  assumes "map_ok (pre @ r # post)"
  shows "List.find (\<lambda>r'. fst r < fst r') (pre @ r # post) = (case post of [] \<Rightarrow> None | r' # _ \<Rightarrow> Some r')"
proof -
  have pre: "\<forall>r' \<in> set (pre @ [r]). \<not> fst r < fst r'" and post: "\<forall>r' \<in> set post. fst r < fst r'"
    using assms by (auto simp: map_ok_def sorted_wrt_append)
  have "List.find P (ys @ zs) = List.find P zs" if "\<forall>y \<in> set ys. \<not> P y" for P and ys zs :: "('a \<times> 'b) list"
    using that by (induction ys) auto
  from this [OF pre, of post] show ?thesis using post by (cases post) auto
qed

section \<open>Row ids\<close>

text \<open>The two counters together count the rows inserted so far, modulo \<open>2^48\<close>.\<close>

definition next_id :: "EphemeralTable \<Rightarrow> nat" where
  "next_id t = unat (next_page_id_m t) * 65536 + unat (next_slot_id_m t)"

lemma unat_plus_one: "unat (w + 1) = (if w + 1 = 0 then 0 else unat w + 1)" for w :: "'a::len word"
  using unatSuc [of w] by (auto simp: add.commute)

lemma word_plus_one_eq_0: "w + 1 = 0 \<longleftrightarrow> unat w = 2 ^ LENGTH('a) - 1" for w :: "'a::len word"
proof -
  have "w + 1 = 0 \<longleftrightarrow> w = - 1" by (metis add_eq_0_iff2)
  then show ?thesis by (simp add: word_unat_eq_iff unsigned_minus_1_eq_mask mask_eq_exp_minus_1)
qed

lemma GenerateRowId_ok:
  assumes "GenerateRowId t = (rid, t')"
  shows "unat rid = next_id t" and "next_id t' = (next_id t + 1) mod 2 ^ 48"
    and "table_data_m t' = table_data_m t"
proof -
  have id: "rid = MakeRowId (next_page_id_m t) (next_slot_id_m t)" and data: "table_data_m t' = table_data_m t"
    and slot: "next_slot_id_m t' = next_slot_id_m t + 1"
    and page: "next_page_id_m t' = (if next_slot_id_m t + 1 = 0 then next_page_id_m t + 1 else next_page_id_m t)"
    using assms by (auto simp: GenerateRowId_def Let_def)
  show "unat rid = next_id t" by (simp add: id unat_MakeRowId next_id_def)
  show "table_data_m t' = table_data_m t" by (rule data)
  note s = unat_less_16 [of "next_slot_id_m t"] and p = unat_less_32 [of "next_page_id_m t"]
  have full: "next_slot_id_m t + 1 = 0 \<longleftrightarrow> unat (next_slot_id_m t) = 65535"
    using s by (subst word_plus_one_eq_0) simp
  have full': "next_page_id_m t + 1 = 0 \<longleftrightarrow> unat (next_page_id_m t) = 4294967295"
    using p by (subst word_plus_one_eq_0) simp
  show "next_id t' = (next_id t + 1) mod 2 ^ 48"
    unfolding next_id_def slot page unat_plus_one [of "next_slot_id_m t"] full
    using s p by (auto simp: unat_plus_one [of "next_page_id_m t"] full')
qed

section \<open>Invariant\<close>

definition eph_ok :: "EphemeralTable \<Rightarrow> bool" where
  "eph_ok t \<longleftrightarrow> map_ok (table_data_m t) \<and> (\<forall>r \<in> set (table_data_m t). unat (fst r) < next_id t)"

lemma eph_ok_new: "eph_ok EphemeralTable_new"
  by (simp add: eph_ok_def EphemeralTable_new_def map_ok_def)

lemma eph_insert_ok:
  assumes ok: "eph_ok t" and ins: "eph_insert_row t row = (rid, t')"
  shows "unat rid = next_id t" and "rid \<notin> fst ` set (table_data_m t)"
    and "table_data_m t' = table_data_m t @ [(rid, row)]" and "next_id t' = (next_id t + 1) mod 2 ^ 48"
    and "next_id t + 1 < 2 ^ 48 \<Longrightarrow> eph_ok t'"
proof -
  obtain t1 where g: "GenerateRowId t = (rid, t1)" and t': "t' = t1\<lparr>table_data_m := map_insert rid row (table_data_m t1)\<rparr>"
    using ins by (auto simp: eph_insert_row_def split: prod.splits)
  note g' = GenerateRowId_ok [OF g]
  have lt: "\<forall>r \<in> set (table_data_m t). fst r < rid"
    using ok g'(1) by (simp add: eph_ok_def word_less_nat_alt)
  show u: "unat rid = next_id t" by (rule g'(1))
  show "rid \<notin> fst ` set (table_data_m t)" using lt by auto
  show d: "table_data_m t' = table_data_m t @ [(rid, row)]" using lt by (simp add: t' g'(3) map_insert_above)
  show n: "next_id t' = (next_id t + 1) mod 2 ^ 48" using g'(2) by (simp add: t' next_id_def)
  show "eph_ok t'" if "next_id t + 1 < 2 ^ 48"
    using that ok lt u n unfolding eph_ok_def d by (auto simp: map_ok_snoc)
qed

lemma eph_delete_ok:
  assumes "eph_ok t"
  shows "eph_delete_row t rid = (if rid \<in> fst ` set (table_data_m t)
    then Inr (t\<lparr>table_data_m := map_erase rid (table_data_m t)\<rparr>) else Inl InvalidArgument)"
    and "eph_ok (t\<lparr>table_data_m := map_erase rid (table_data_m t)\<rparr>)"
proof -
  show "eph_delete_row t rid = (if rid \<in> fst ` set (table_data_m t)
      then Inr (t\<lparr>table_data_m := map_erase rid (table_data_m t)\<rparr>) else Inl InvalidArgument)"
    using map_of_present [of "table_data_m t" rid] by (auto simp: eph_delete_row_def split: option.splits)
  show "eph_ok (t\<lparr>table_data_m := map_erase rid (table_data_m t)\<rparr>)"
    using assms map_ok_erase by (auto simp: eph_ok_def next_id_def map_erase_def)
qed

section \<open>The table contract\<close>

text \<open>The iterator stands before the rows \<open>rs\<close>: the entries of its map from its own entry on.\<close>

definition eph_ready :: "eph_heap \<Rightarrow> EphemeralTableIterator \<Rightarrow> Row list \<Rightarrow> bool" where
  "eph_ready w it rs \<longleftrightarrow>
     (\<exists>t pre. w (ei_data_m it) = Some t \<and> map_ok (table_data_m t) \<and> table_data_m t = pre @ rs \<and>
        ei_iterator_m it = (case rs of [] \<Rightarrow> None | r # _ \<Rightarrow> Some (fst r)) \<and>
        ei_current_m it = (case rs of [] \<Rightarrow> None | r # _ \<Rightarrow> Some r))"

definition eph_inv :: "eph_heap \<Rightarrow> bool" where
  "eph_inv w \<longleftrightarrow> (\<forall>a t. w a = Some t \<longrightarrow> eph_ok t)"

definition eph_rows :: "eph_heap \<Rightarrow> nat \<rightharpoonup> Row list" where
  "eph_rows w a = map_option table_data_m (w a)"

definition eph_can_insert :: "eph_heap \<Rightarrow> nat \<Rightarrow> byte list \<Rightarrow> bool" where
  "eph_can_insert w a row \<longleftrightarrow> (case w a of None \<Rightarrow> False | Some t \<Rightarrow> next_id t + 1 < 2 ^ 48)"

lemma map_of_mid: "map_ok (pre @ r # post) \<Longrightarrow> map_of (pre @ r # post) (fst r) = Some (snd r)"
  using map_ok_distinct [of "pre @ r # post"] by (intro map_of_is_SomeI) simp_all

lemma load_current_head:
  assumes "map_ok (pre @ rs)"
  shows "load_current (pre @ rs) (it\<lparr>ei_iterator_m := (case rs of [] \<Rightarrow> None | r # _ \<Rightarrow> Some (fst r))\<rparr>) =
    it\<lparr>ei_iterator_m := (case rs of [] \<Rightarrow> None | r # _ \<Rightarrow> Some (fst r)),
       ei_current_m := (case rs of [] \<Rightarrow> None | r # _ \<Rightarrow> Some r)\<rparr>"
proof (cases rs)
  case (Cons r post)
  then show ?thesis using map_of_mid [of pre r post] assms by (simp add: load_current_def)
qed (simp add: load_current_def)

lemma eph_next_ok:
  assumes ok: "map_ok (pre @ r # post)" and "ei_iterator_m it = Some (fst r)"
  shows "eph_next (pre @ r # post) it = Inr (it\<lparr>
    ei_iterator_m := (case post of [] \<Rightarrow> None | r # _ \<Rightarrow> Some (fst r)),
    ei_current_m := (case post of [] \<Rightarrow> None | r # _ \<Rightarrow> Some r)\<rparr>)"
proof -
  have "map_option fst (List.find (\<lambda>r'. fst r < fst r') (pre @ r # post)) =
      (case post of [] \<Rightarrow> None | r # _ \<Rightarrow> Some (fst r))"
    by (simp add: find_successor [OF ok] split: list.splits)
  then show ?thesis
    using assms(2) map_of_mid [OF ok] load_current_head [of "pre @ [r]" post it] ok by (simp add: eph_next_def)
qed

lemmas eph_ops_defs = EphemeralTable_ops_def EphemeralIterator_ops_def at_address_def

interpretation eph: table EphemeralTable_ops eph_ready "(=)" eph_inv eph_rows eph_can_insert
proof unfold_locales
  show "ti_end (tb_iterator EphemeralTable_ops) w it \<longleftrightarrow> rs = []" if "eph_ready w it rs" for w it rs
    using that by (auto simp: eph_ops_defs eph_end_def eph_ready_def split: list.splits)
  show "ti_deref (tb_iterator EphemeralTable_ops) w it = Inr row" if "eph_ready w it (row # rs)" for w it row rs
    using that by (auto simp: eph_ops_defs eph_deref_def eph_ready_def)
  show "\<exists>it' w'. ti_next (tb_iterator EphemeralTable_ops) w it = Inr (it', w') \<and> eph_ready w' it' rs \<and> w = w'"
    if "eph_ready w it (row # rs)" for w it row rs
  proof -
    note prem = that
    obtain t pre where t: "w (ei_data_m it) = Some t" "map_ok (pre @ row # rs)" "table_data_m t = pre @ row # rs"
      "ei_iterator_m it = Some (fst row)"
      using prem unfolding eph_ready_def by force
    have "eph_ready w (it\<lparr>ei_iterator_m := (case rs of [] \<Rightarrow> None | r # _ \<Rightarrow> Some (fst r)),
        ei_current_m := (case rs of [] \<Rightarrow> None | r # _ \<Rightarrow> Some r)\<rparr>) rs"
      using t by (auto simp: eph_ready_def intro!: exI [of _ t] exI [of _ "pre @ [row]"])
    then show ?thesis using t eph_next_ok [OF t(2,4)] by (simp add: eph_ops_defs)
  qed
  show "distinct (map fst rs)" if "eph_inv w" "eph_rows w t = Some rs" for w t rs
    using that map_ok_distinct by (auto simp: eph_inv_def eph_rows_def eph_ok_def)
  show "\<exists>it w'. tb_begin EphemeralTable_ops w a = Inr (it, w') \<and> eph_ready w' it rs \<and> w = w'"
    if "eph_inv w" "eph_rows w a = Some rs" for w a rs
  proof -
    note prems = that
    obtain t where t: "w a = Some t" "table_data_m t = rs" using prems(2) by (auto simp: eph_rows_def)
    then have ok: "map_ok rs" using that(1) by (auto simp: eph_inv_def eph_ok_def)
    have "eph_ready w (EphemeralTableIterator_new a rs) rs"
      using t ok load_current_head [of "[]" rs "\<lparr>ei_data_m = a, ei_iterator_m = None, ei_current_m = None\<rparr>"]
      by (auto simp: eph_ready_def EphemeralTableIterator_new_def)
    then show ?thesis using t by (simp add: eph_ops_defs)
  qed
  show "\<exists>rid w' pre post. tb_insert_row EphemeralTable_ops w a row = Inr (rid, w') \<and> eph_inv w' \<and>
      rs = pre @ post \<and> rid \<notin> fst ` set rs \<and> eph_rows w' = (eph_rows w)(a \<mapsto> pre @ (rid, row) # post)"
    if "eph_inv w" "eph_rows w a = Some rs" "eph_can_insert w a row" for w a rs row
  proof -
    note prems = that
    obtain t where t: "w a = Some t" "table_data_m t = rs" "next_id t + 1 < 2 ^ 48"
      using prems(2,3) by (auto simp: eph_rows_def eph_can_insert_def)
    obtain rid t' where i: "eph_insert_row t row = (rid, t')" by force
    have "eph_ok t" using that(1) t(1) by (simp add: eph_inv_def)
    note e = eph_insert_ok [OF this i]
    have "eph_rows (w(a \<mapsto> t')) = (eph_rows w)(a \<mapsto> rs @ [(rid, row)])"
      using e(3) t by (auto simp: eph_rows_def)
    moreover have "eph_inv (w(a \<mapsto> t'))" using that(1) e(5) [OF t(3)] by (simp add: eph_inv_def)
    ultimately show ?thesis using t i e(2) by (auto simp: eph_ops_defs)
  qed
  show "\<exists>w'. tb_delete_row EphemeralTable_ops w a rid = Inr w' \<and> eph_inv w' \<and>
      eph_rows w' = (eph_rows w)(a \<mapsto> filter (\<lambda>r. fst r \<noteq> rid) rs)"
    if "eph_inv w" "eph_rows w a = Some rs" "rid \<in> fst ` set rs" for w a rs rid
  proof -
    note prems = that
    obtain t where t: "w a = Some t" "table_data_m t = rs" using prems(2) by (auto simp: eph_rows_def)
    have "eph_ok t" using that(1) t(1) by (simp add: eph_inv_def)
    note d = eph_delete_ok [OF this, of rid]
    have "eph_inv (w(a \<mapsto> t\<lparr>table_data_m := map_erase rid rs\<rparr>))"
      using that(1) d(2) t(2) by (simp add: eph_inv_def)
    then show ?thesis using t d(1) that(3) by (auto simp: eph_ops_defs eph_rows_def map_erase_def)
  qed
  show "tb_update_row EphemeralTable_ops w t rid data =
      andthen (tb_delete_row EphemeralTable_ops w t rid) (\<lambda>w. tb_insert_row EphemeralTable_ops w t data)" for w t rid data
    by (auto simp: eph_ops_defs eph_update_row_def andthen_assoc andthen_def split: option.splits sum.splits prod.splits)
qed auto

text \<open>Every insert uses up one of the \<open>2^48\<close> row ids of its table, and rows can have any length.\<close>

definition eph_room :: "eph_heap \<Rightarrow> nat \<Rightarrow> bool" where
  "eph_room w k \<longleftrightarrow> k < 2 ^ 48 \<and> (\<forall>a t. w a = Some t \<longrightarrow> next_id t + k < 2 ^ 48)"

interpretation eph_roomy: roomy_table EphemeralTable_ops eph_ready "(=)" eph_inv eph_rows eph_can_insert eph_room max_row for max_row
proof unfold_locales
  show "eph_room w j" if "eph_room w k" "j \<le> k" for w k j
    using that unfolding eph_room_def by (meson add_left_mono le_less_trans)
  show "eph_can_insert w a row" if "eph_rows w a = Some rs" "eph_room w (Suc k)" for w a rs k row
    using that by (fastforce simp: eph_can_insert_def eph_room_def eph_rows_def)
  show "eph_room w' k" if inv: "eph_inv w" and a: "eph_rows w a = Some rs" and room: "eph_room w (Suc k)"
    and ins: "tb_insert_row EphemeralTable_ops w a row = Inr (rid, w')" for w a rs k row rid w'
  proof -
    obtain t t' where t: "w a = Some t" "eph_insert_row t row = (rid, t')" "w' = w(a \<mapsto> t')"
      using a ins by (auto simp: eph_ops_defs eph_rows_def split: prod.splits)
    have "next_id t' = (next_id t + 1) mod 2 ^ 48" using eph_insert_ok(4) [OF _ t(2)] inv t(1) by (simp add: eph_inv_def)
    moreover have "next_id t + Suc k < 2 ^ 48" using room t(1) unfolding eph_room_def by blast
    ultimately have "next_id t' + k < 2 ^ 48" by simp
    moreover have "next_id u + k < 2 ^ 48" if "w b = Some u" for b u
      using room that unfolding eph_room_def by (metis Suc_lessD add_Suc_right)
    ultimately show ?thesis using room unfolding t(3) eph_room_def by simp
  qed
  show "eph_room w' k" if inv: "eph_inv w" and a: "eph_rows w a = Some rs" and room: "eph_room w k"
    and del: "tb_delete_row EphemeralTable_ops w a rid = Inr w'" for w a rs k rid w'
  proof -
    obtain t t' where t: "w a = Some t" "eph_delete_row t rid = Inr t'" "w' = w(a \<mapsto> t')"
      using a del by (auto simp: eph_ops_defs eph_rows_def andthen_eq_Inr)
    have "next_id t' = next_id t" using t(2) by (auto simp: eph_delete_row_def next_id_def split: option.splits)
    then show ?thesis using room t(1) unfolding t(3) eph_room_def by simp
  qed
qed auto

section \<open>Claims\<close>

text \<open>
  C9: an in-memory table is a list of rows in insertion order. Until \<open>2^48\<close> rows have been inserted,
  \<open>insert_row\<close> appends the row under an id that no row of the table ever had; \<open>delete_row\<close> removes
  exactly the row with the id and throws \<open>invalid_argument\<close> when there is none; \<open>update_row\<close> moves the
  row to the end under a new id; and iterating visits every row once, in order, and stops. No other
  table is touched.
\<close>

theorem ephemeral_table_correct:
  assumes "eph_inv w" and "w a = Some t" and "next_id t + 1 < 2 ^ 48"
  shows "(\<exists>rid w'. tb_insert_row EphemeralTable_ops w a row = Inr (rid, w') \<and> eph_inv w' \<and> unat rid = next_id t \<and>
      eph_rows w' = (eph_rows w)(a \<mapsto> table_data_m t @ [(rid, row)])) \<and>
    (if rid \<in> fst ` set (table_data_m t)
      then \<exists>w'. tb_delete_row EphemeralTable_ops w a rid = Inr w' \<and> eph_inv w' \<and>
        eph_rows w' = (eph_rows w)(a \<mapsto> filter (\<lambda>r. fst r \<noteq> rid) (table_data_m t))
      else tb_delete_row EphemeralTable_ops w a rid = Inl InvalidArgument) \<and>
    (if rid \<in> fst ` set (table_data_m t)
      then \<exists>new w'. tb_update_row EphemeralTable_ops w a rid row = Inr (new, w') \<and> eph_inv w' \<and> unat new = next_id t \<and>
        eph_rows w' = (eph_rows w)(a \<mapsto> filter (\<lambda>r. fst r \<noteq> rid) (table_data_m t) @ [(new, row)])
      else tb_update_row EphemeralTable_ops w a rid row = Inl InvalidArgument) \<and>
    for_rows EphemeralTable_ops (\<lambda>r rs. Inr (rs @ [r], False)) w a [] = Inr (table_data_m t, w)"
proof -
  have ok: "eph_ok t" using assms(1,2) by (simp add: eph_inv_def)
  have ins: "\<exists>new w'. tb_insert_row EphemeralTable_ops v a row = Inr (new, w') \<and> eph_inv w' \<and> unat new = next_id u \<and>
      eph_rows w' = (eph_rows v)(a \<mapsto> table_data_m u @ [(new, row)])"
    if "eph_inv v" "v a = Some u" "next_id u + 1 < 2 ^ 48" for v u
  proof -
    obtain new u' where i: "eph_insert_row u row = (new, u')" by force
    have "eph_ok u" using that(1,2) by (simp add: eph_inv_def)
    note e = eph_insert_ok [OF this i]
    have "eph_rows (v(a \<mapsto> u')) = (eph_rows v)(a \<mapsto> table_data_m u @ [(new, row)])" "eph_inv (v(a \<mapsto> u'))"
      using that(1) e(3) e(5) [OF that(3)] by (auto simp: eph_rows_def eph_inv_def)
    then show ?thesis using that(2) i e(1) by (simp add: eph_ops_defs)
  qed
  have 1: "\<exists>rid w'. tb_insert_row EphemeralTable_ops w a row = Inr (rid, w') \<and> eph_inv w' \<and> unat rid = next_id t \<and>
      eph_rows w' = (eph_rows w)(a \<mapsto> table_data_m t @ [(rid, row)])"
    using ins [OF assms] .
  let ?t = "t\<lparr>table_data_m := map_erase rid (table_data_m t)\<rparr>"
  note d = eph_delete_ok [OF ok, of rid]
  have inv: "eph_inv (w(a \<mapsto> ?t))" using assms(1) d(2) by (simp add: eph_inv_def)
  have rows: "eph_rows (w(a \<mapsto> ?t)) = (eph_rows w)(a \<mapsto> filter (\<lambda>r. fst r \<noteq> rid) (table_data_m t))"
    by (auto simp: eph_rows_def map_erase_def)
  have 2: "if rid \<in> fst ` set (table_data_m t)
      then \<exists>w'. tb_delete_row EphemeralTable_ops w a rid = Inr w' \<and> eph_inv w' \<and>
        eph_rows w' = (eph_rows w)(a \<mapsto> filter (\<lambda>r. fst r \<noteq> rid) (table_data_m t))
      else tb_delete_row EphemeralTable_ops w a rid = Inl InvalidArgument"
    using assms(2) d(1) inv rows by (simp add: eph_ops_defs)
  have "next_id ?t + 1 < 2 ^ 48" using assms(3) by (simp add: next_id_def)
  from ins [OF inv _ this] rows
  have 3: "if rid \<in> fst ` set (table_data_m t)
      then \<exists>new w'. tb_update_row EphemeralTable_ops w a rid row = Inr (new, w') \<and> eph_inv w' \<and> unat new = next_id t \<and>
        eph_rows w' = (eph_rows w)(a \<mapsto> filter (\<lambda>r. fst r \<noteq> rid) (table_data_m t) @ [(new, row)])
      else tb_update_row EphemeralTable_ops w a rid row = Inl InvalidArgument"
    using assms(2) d(1) unfolding eph.update_def by (simp add: eph_ops_defs map_erase_def next_id_def)
  have "row_loop (\<lambda>r rs. Inr (rs @ [r], False)) rs acc = Inr (acc @ rs)" for rs acc :: "Row list"
    by (induction rs arbitrary: acc) simp_all
  then have "for_rows EphemeralTable_ops (\<lambda>r rs. Inr (rs @ [r], False)) w a [] = Inr (table_data_m t, w)"
    using eph.for_rows_ok [OF assms(1), of a "table_data_m t" "\<lambda>r rs. Inr (rs @ [r], False)" "[]"] assms(2)
    by (simp add: eph_rows_def)
  with 1 2 3 show ?thesis by blast
qed

theorem ephemeral_table_correct_witness:
  "\<exists>rid w'. tb_insert_row EphemeralTable_ops [0 \<mapsto> EphemeralTable_new] 0 [1, 2] = Inr (rid, w') \<and>
     eph_rows w' 0 = Some [(rid, [1, 2])]"
proof -
  have "eph_inv [0 \<mapsto> EphemeralTable_new]" by (simp add: eph_inv_def eph_ok_new)
  from ephemeral_table_correct [OF this, of 0 EphemeralTable_new "[1, 2]" 0] show ?thesis
    by (auto simp: next_id_def EphemeralTable_new_def)
qed

text \<open>
  C39: row ids are unique for the first \<open>2^48\<close> inserts only. The insert that uses the last id makes the
  counters wrap around, and from then on an insert whose id is still taken returns that id but
  stores nothing: the row is lost without an error.
\<close>

theorem row_ids_wrap_around:
  assumes "eph_ok t" and "next_id t = 2 ^ 48 - 1" and "0 \<in> fst ` set (table_data_m t)"
  shows "\<exists>t1 t2. eph_insert_row t row1 = (of_nat (2 ^ 48 - 1), t1) \<and> eph_insert_row t1 row2 = (0, t2) \<and>
    table_data_m t2 = table_data_m t1"
proof -
  obtain r1 t1 where i: "eph_insert_row t row1 = (r1, t1)" by force
  note e = eph_insert_ok [OF assms(1) i]
  obtain r2 t2 where g: "GenerateRowId t1 = (r2, t2)" by force
  note g' = GenerateRowId_ok [OF g]
  have "next_id t1 = 0" using e(4) assms(2) by simp
  then have r2: "r2 = 0" using g'(1) by (simp add: unat_eq_0)
  have r1: "r1 = of_nat (2 ^ 48 - 1)" using e(1) assms(2) by (metis of_nat_unat ucast_id)
  have "map_ok (table_data_m t1)"
    using assms(1) e(1,3) by (auto simp: eph_ok_def map_ok_snoc word_less_nat_alt)
  then have "map_insert r2 row2 (table_data_m t1) = table_data_m t1"
    using map_insert_present [of "table_data_m t1" r2 row2] e(3) assms(3) r2 by auto
  then show ?thesis using i g r1 r2 g'(3) by (simp add: eph_insert_row_def)
qed

theorem row_ids_wrap_around_witness:
  "\<exists>t1 t2. eph_insert_row \<lparr>table_data_m = [(0, [7])], next_page_id_m = 0xFFFFFFFF, next_slot_id_m = 0xFFFF\<rparr> [8] =
     (of_nat (2 ^ 48 - 1), t1) \<and> eph_insert_row t1 [9] = (0, t2) \<and> table_data_m t2 = table_data_m t1"
  by (rule row_ids_wrap_around) (simp_all add: eph_ok_def map_ok_def next_id_def)

end
