(* ===== verification/Storage_Engine.thy ===== *)
theory Storage_Engine
  imports Ephemeral_Table Disk_Table_Spec
begin

text \<open>
  The two storage engines side by side. The objects a \<open>TableManager\<close> owns live in one world: the
  in-memory tables behind their \<open>shared_ptr\<close>s, the in-memory factory, and the buffer pool of the disk
  factory; a factory that was not created yet is \<open>None\<close>. A \<open>Table\<close> or \<open>TableIterator\<close> reference is a
  tagged one, and the operations dispatch on the tag as the virtual calls do. The section at the end
  shows that the combination keeps the table contract because both engines do.
\<close>

section \<open>The world\<close>

record Storage =
  heap :: eph_heap
  next_address :: nat
  in_memory_m :: "EphemeralTableFactory option"
  on_disk_m :: "PageBufferManager option"

type_synonym any_table = "nat + file_id_t"
type_synonym any_iterator = "EphemeralTableIterator + DiskTableIterator"

definition on_heap :: "Storage \<Rightarrow> (eph_heap \<Rightarrow> ('a \<times> eph_heap) outcome) \<Rightarrow> ('a \<times> Storage) outcome" where
  "on_heap w f = andthen (f (heap w)) (\<lambda>(x, h). Inr (x, w\<lparr>heap := h\<rparr>))"

text \<open>The pool is gone, and using it undefined, unless the disk factory exists.\<close>

definition on_pool :: "Storage \<Rightarrow> (PageBufferManager \<Rightarrow> ('a \<times> PageBufferManager) outcome) \<Rightarrow> ('a \<times> Storage) outcome" where
  "on_pool w f =
     (case on_disk_m w of
        None \<Rightarrow> Inl Undefined
      | Some p \<Rightarrow> andthen (f p) (\<lambda>(x, p). Inr (x, w\<lparr>on_disk_m := Some p\<rparr>)))"

section \<open>Virtual calls\<close>

definition AnyIterator_ops :: "io_env \<Rightarrow> (Storage, any_iterator) TableIterator" where
  "AnyIterator_ops env =
     \<lparr>ti_deref = (\<lambda>w it. case it of Inl it \<Rightarrow> eph_deref it | Inr it \<Rightarrow> disk_deref it),
      ti_next = (\<lambda>w it. case it of
          Inl it \<Rightarrow> andthen (on_heap w (\<lambda>h. ti_next EphemeralIterator_ops h it)) (\<lambda>(it, w). Inr (Inl it, w))
        | Inr it \<Rightarrow> andthen (on_pool w (\<lambda>p. disk_next env p it)) (\<lambda>(it, w). Inr (Inr it, w))),
      ti_end = (\<lambda>w it. case it of Inl it \<Rightarrow> eph_end it | Inr it \<Rightarrow> disk_end it),
      ti_seek = (\<lambda>w it rid. case it of
          Inl it \<Rightarrow> andthen (on_heap w (\<lambda>h. ti_seek EphemeralIterator_ops h it rid)) (\<lambda>(it, w). Inr (Inl it, w))
        | Inr it \<Rightarrow> andthen (on_pool w (\<lambda>p. disk_seek env p it rid)) (\<lambda>(it, w). Inr (Inr it, w)))\<rparr>"

definition AnyTable_ops :: "io_env \<Rightarrow> (Storage, any_table, any_iterator) Table" where
  "AnyTable_ops env =
     \<lparr>tb_iterator = AnyIterator_ops env,
      tb_begin = (\<lambda>w t. case t of
          Inl a \<Rightarrow> andthen (on_heap w (\<lambda>h. tb_begin EphemeralTable_ops h a)) (\<lambda>(it, w). Inr (Inl it, w))
        | Inr f \<Rightarrow> andthen (on_pool w (\<lambda>p. DiskTableIterator_new env p f)) (\<lambda>(it, w). Inr (Inr it, w))),
      tb_insert_row = (\<lambda>w t row. case t of
          Inl a \<Rightarrow> on_heap w (\<lambda>h. tb_insert_row EphemeralTable_ops h a row)
        | Inr f \<Rightarrow> on_pool w (\<lambda>p. disk_insert_row env p f row)),
      tb_update_row = (\<lambda>w t rid data. case t of
          Inl a \<Rightarrow> on_heap w (\<lambda>h. tb_update_row EphemeralTable_ops h a rid data)
        | Inr f \<Rightarrow> on_pool w (\<lambda>p. disk_update_row env p f rid data)),
      tb_delete_row = (\<lambda>w t rid. andthen (case t of
          Inl a \<Rightarrow> on_heap w (\<lambda>h. andthen (tb_delete_row EphemeralTable_ops h a rid) (\<lambda>h. Inr ((), h)))
        | Inr f \<Rightarrow> on_pool w (\<lambda>p. andthen (disk_delete_row env p f rid) (\<lambda>p. Inr ((), p)))) (\<lambda>(_, w). Inr w)),
      tb_GetType = (\<lambda>t. case t of Inl _ \<Rightarrow> InMemory | Inr _ \<Rightarrow> Disk)\<rparr>"

section \<open>The combined contract\<close>

definition any_same :: "Storage \<Rightarrow> Storage \<Rightarrow> bool" where
  "any_same w w' \<longleftrightarrow> heap w' = heap w \<and> next_address w' = next_address w \<and> in_memory_m w' = in_memory_m w \<and>
     rel_option disk_same (on_disk_m w) (on_disk_m w')"

primrec any_ready :: "io_env \<Rightarrow> Storage \<Rightarrow> any_iterator \<Rightarrow> Row list \<Rightarrow> bool" where
  "any_ready env w (Inl it) rs \<longleftrightarrow> eph_ready (heap w) it rs"
| "any_ready env w (Inr it) rs \<longleftrightarrow> (\<exists>p. on_disk_m w = Some p \<and> disk_ready env p it rs)"

definition any_inv :: "io_env \<Rightarrow> Storage \<Rightarrow> bool" where
  "any_inv env w \<longleftrightarrow> eph_inv (heap w) \<and> (\<forall>p. on_disk_m w = Some p \<longrightarrow> disk_inv env p)"

definition any_rows :: "Storage \<Rightarrow> any_table \<rightharpoonup> Row list" where
  "any_rows w t =
     (case t of Inl a \<Rightarrow> eph_rows (heap w) a
      | Inr f \<Rightarrow> (case on_disk_m w of None \<Rightarrow> None | Some p \<Rightarrow> disk_rows p f))"

definition any_can_insert :: "Storage \<Rightarrow> any_table \<Rightarrow> byte list \<Rightarrow> bool" where
  "any_can_insert w t row \<longleftrightarrow>
     (case t of Inl a \<Rightarrow> eph_can_insert (heap w) a row
      | Inr f \<Rightarrow> (case on_disk_m w of None \<Rightarrow> False | Some p \<Rightarrow> disk_can_insert p f row))"

definition any_room :: "Storage \<Rightarrow> nat \<Rightarrow> bool" where
  "any_room w k \<longleftrightarrow> eph_room (heap w) k \<and> (\<forall>p. on_disk_m w = Some p \<longrightarrow> disk_room p k)"

lemmas any_ops_defs = AnyTable_ops_def AnyIterator_ops_def on_heap_def on_pool_def

lemma any_rows_simps [simp]:
  "any_rows w (Inl a) = eph_rows (heap w) a"
  "on_disk_m w = Some p \<Longrightarrow> any_rows w (Inr f) = disk_rows p f"
  "any_rows (w\<lparr>in_memory_m := m\<rparr>) = any_rows w"
  "any_rows (w\<lparr>next_address := n\<rparr>) = any_rows w"
  by (simp_all add: any_rows_def fun_eq_iff split: sum.split)

lemma any_rows_heap:
  "eph_rows h = (eph_rows (heap w))(a \<mapsto> rs) \<Longrightarrow> any_rows (w\<lparr>heap := h\<rparr>) = (any_rows w)(Inl a \<mapsto> rs)"
  by (auto simp: any_rows_def fun_eq_iff split: sum.split)

lemma any_rows_pool:
  "on_disk_m w = Some p \<Longrightarrow> disk_rows p' = (disk_rows p)(f \<mapsto> rs) \<Longrightarrow>
     any_rows (w\<lparr>on_disk_m := Some p'\<rparr>) = (any_rows w)(Inr f \<mapsto> rs)"
  by (auto simp: any_rows_def fun_eq_iff split: sum.split)

lemma any_rows_InrD: "any_rows w (Inr f) = Some rs \<Longrightarrow> \<exists>p. on_disk_m w = Some p \<and> disk_rows p f = Some rs"
  by (auto simp: any_rows_def split: option.splits)

text \<open>Leaving the heap as it is, and replacing the pool by one that is the same.\<close>

lemma any_same_pool: "on_disk_m w = Some p \<Longrightarrow> disk_same p p' \<Longrightarrow> any_same w (w\<lparr>on_disk_m := Some p'\<rparr>)"
  by (simp add: any_same_def)

lemma rel_option_disk_same:
  "rel_option disk_same o1 o1" "rel_option disk_same o1 o2 \<Longrightarrow> rel_option disk_same o2 o3 \<Longrightarrow> rel_option disk_same o1 o3"
proof -
  show "rel_option disk_same o1 o1" by (rule option.rel_refl) (rule disk_table.same_refl)
  show "rel_option disk_same o1 o2 \<Longrightarrow> rel_option disk_same o2 o3 \<Longrightarrow> rel_option disk_same o1 o3"
    by (cases o1; cases o2; cases o3) (simp_all, rule disk_table.same_trans)
qed

lemma any_same_cases:
  assumes "any_same w w'" and "any_inv env w"
  obtains (none) "heap w' = heap w" "on_disk_m w = None" "on_disk_m w' = None"
    | (some) p p' where "heap w' = heap w" "on_disk_m w = Some p" "on_disk_m w' = Some p'" "disk_same p p'" "disk_inv env p"
      "disk_inv env p'" "disk_rows p' = disk_rows p"
proof (cases "on_disk_m w")
  case None
  then show thesis using assms(1) by (intro none) (simp_all add: any_same_def)
next
  case (Some p)
  then obtain p' where p': "on_disk_m w' = Some p'" "disk_same p p'"
    using assms(1) by (auto simp: any_same_def option_rel_Some1)
  moreover have "disk_inv env p" using assms(2) Some by (simp add: any_inv_def)
  ultimately show thesis
    using assms(1) Some disk_table.sameD [of p p' env] by (intro some [of p p']) (simp_all add: any_same_def)
qed

lemma any_sameD:
  assumes "any_same w w'" and "any_inv env w"
  shows "any_inv env w'" and "any_rows w' = any_rows w" and "any_can_insert w t row \<Longrightarrow> any_can_insert w' t row"
    and "any_room w k \<Longrightarrow> any_room w' k"
proof -
  show "any_inv env w'" using assms by (cases rule: any_same_cases [OF assms]) (simp_all add: any_inv_def)
  show "any_rows w' = any_rows w"
    by (intro ext, cases rule: any_same_cases [OF assms]) (simp_all add: any_rows_def split: sum.split)
  show "any_can_insert w t row \<Longrightarrow> any_can_insert w' t row"
    using assms
  proof (cases rule: any_same_cases)
    case (some p p')
    then have "disk_can_insert p f row \<Longrightarrow> disk_can_insert p' f row" for f using disk_table.sameD [OF some(4,5)] by simp
    then show "any_can_insert w t row \<Longrightarrow> any_can_insert w' t row" using some by (cases t) (simp_all add: any_can_insert_def)
  qed (simp add: any_can_insert_def split: sum.splits)
  show "any_room w k \<Longrightarrow> any_room w' k"
    using disk_roomy.room_same [where env = env] by (cases rule: any_same_cases [OF assms]) (auto simp: any_room_def)
qed

lemma any_next:
  assumes "any_ready env w it (row # rs)"
  shows "\<exists>it' w'. ti_next (tb_iterator (AnyTable_ops env)) w it = Inr (it', w') \<and> any_ready env w' it' rs \<and> any_same w w'"
proof (cases it)
  case (Inl e)
  then obtain e' where "ti_next EphemeralIterator_ops (heap w) e = Inr (e', heap w)" "eph_ready (heap w) e' rs"
    using eph.advance [of "heap w" e row rs] assms by (auto simp: EphemeralTable_ops_def)
  then show ?thesis using Inl by (auto simp: any_ops_defs any_same_def rel_option_disk_same)
next
  case (Inr d)
  then obtain p where p: "on_disk_m w = Some p" "disk_ready env p d (row # rs)" using assms by auto
  then obtain d' p' where "disk_next env p d = Inr (d', p')" "disk_ready env p' d' rs" "disk_same p p'"
    using disk_next_ok by blast
  then show ?thesis using Inr p(1) by (auto simp: any_ops_defs any_same_pool)
qed

lemma any_begin:
  assumes "any_inv env w" and "any_rows w t = Some rs"
  shows "\<exists>it w'. tb_begin (AnyTable_ops env) w t = Inr (it, w') \<and> any_ready env w' it rs \<and> any_same w w'"
proof (cases t)
  case (Inl a)
  then obtain e where "tb_begin EphemeralTable_ops (heap w) a = Inr (e, heap w)" "eph_ready (heap w) e rs"
    using eph.begin_ok [of "heap w" a rs] assms by (auto simp: any_inv_def)
  then show ?thesis using Inl by (auto simp: any_ops_defs any_same_def rel_option_disk_same)
next
  case (Inr f)
  then obtain p where p: "on_disk_m w = Some p" "disk_rows p f = Some rs" using any_rows_InrD assms(2) by blast
  moreover have "disk_inv env p" using assms(1) p(1) by (simp add: any_inv_def)
  ultimately obtain d p' where "DiskTableIterator_new env p f = Inr (d, p')" "disk_ready env p' d rs" "disk_same p p'"
    using disk_table.begin_ok [of env p f rs] by (auto simp: disk_ops_defs)
  then show ?thesis using Inr p(1) by (auto simp: any_ops_defs any_same_pool)
qed

lemma any_insert:
  assumes "any_inv env w" and "any_rows w t = Some rs" and "any_can_insert w t row"
  shows "\<exists>rid w' pre post. tb_insert_row (AnyTable_ops env) w t row = Inr (rid, w') \<and> any_inv env w' \<and>
    rs = pre @ post \<and> rid \<notin> fst ` set rs \<and> any_rows w' = (any_rows w)(t \<mapsto> pre @ (rid, row) # post)"
proof (cases t)
  case (Inl a)
  then obtain rid h pre post where "tb_insert_row EphemeralTable_ops (heap w) a row = Inr (rid, h)" "eph_inv h"
    "rs = pre @ post" "rid \<notin> fst ` set rs" "eph_rows h = (eph_rows (heap w))(a \<mapsto> pre @ (rid, row) # post)"
    using eph.insert_ok [of "heap w" a rs row] assms by (auto simp: any_inv_def any_can_insert_def)
  then show ?thesis using Inl assms(1) any_rows_heap [of h w a] by (auto simp: any_ops_defs any_inv_def)
next
  case (Inr f)
  then obtain p where p: "on_disk_m w = Some p" "disk_rows p f = Some rs" "disk_can_insert p f row"
    using any_rows_InrD assms(2,3) by (force simp: any_can_insert_def)
  moreover have "disk_inv env p" using assms(1) p(1) by (simp add: any_inv_def)
  ultimately obtain rid p' pre post where i: "disk_insert_row env p f row = Inr (rid, p')" "disk_inv env p'"
    "rs = pre @ post" "rid \<notin> fst ` set rs" "disk_rows p' = (disk_rows p)(f \<mapsto> pre @ (rid, row) # post)"
    using disk_table.insert_ok [of env p f rs row] by (auto simp: disk_ops_defs)
  then show ?thesis using Inr assms(1) p(1) any_rows_pool [OF p(1) i(5)] by (auto simp: any_ops_defs any_inv_def)
qed

lemma any_delete:
  assumes "any_inv env w" and "any_rows w t = Some rs" and "rid \<in> fst ` set rs"
  shows "\<exists>w'. tb_delete_row (AnyTable_ops env) w t rid = Inr w' \<and> any_inv env w' \<and>
    any_rows w' = (any_rows w)(t \<mapsto> filter (\<lambda>r. fst r \<noteq> rid) rs)"
proof (cases t)
  case (Inl a)
  then obtain h where "tb_delete_row EphemeralTable_ops (heap w) a rid = Inr h" "eph_inv h"
    "eph_rows h = (eph_rows (heap w))(a \<mapsto> filter (\<lambda>r. fst r \<noteq> rid) rs)"
    using eph.delete_ok [of "heap w" a rs rid] assms by (auto simp: any_inv_def)
  then show ?thesis using Inl assms(1) any_rows_heap [of h w a] by (auto simp: any_ops_defs any_inv_def)
next
  case (Inr f)
  then obtain p where p: "on_disk_m w = Some p" "disk_rows p f = Some rs" using any_rows_InrD assms(2) by blast
  moreover have "disk_inv env p" using assms(1) p(1) by (simp add: any_inv_def)
  ultimately obtain p' where d: "disk_delete_row env p f rid = Inr p'" "disk_inv env p'"
    "disk_rows p' = (disk_rows p)(f \<mapsto> filter (\<lambda>r. fst r \<noteq> rid) rs)"
    using disk_table.delete_ok [of env p f rs rid] assms(3) by (auto simp: disk_ops_defs)
  then show ?thesis using Inr assms(1) p(1) any_rows_pool [OF p(1) d(3)] by (auto simp: any_ops_defs any_inv_def)
qed

lemma any_update:
  "tb_update_row (AnyTable_ops env) w t rid data =
     andthen (tb_delete_row (AnyTable_ops env) w t rid) (\<lambda>w. tb_insert_row (AnyTable_ops env) w t data)"
proof (cases t)
  case (Inl a)
  then show ?thesis
    using eph.update_def [of "heap w" a rid data]
    by (cases "tb_delete_row EphemeralTable_ops (heap w) a rid") (simp_all add: any_ops_defs)
next
  case (Inr f)
  then show ?thesis by (auto simp: any_ops_defs disk_update_row_def andthen_def split: option.split sum.split prod.split)
qed

lemma any_insert_room:
  assumes "any_inv env w" and "any_rows w t = Some rs" and "any_room w (Suc k)" and "length row \<le> 4068"
    and ins: "tb_insert_row (AnyTable_ops env) w t row = Inr (rid, w')"
  shows "any_room w' k"
proof (cases t)
  case (Inl a)
  then obtain h where h: "tb_insert_row EphemeralTable_ops (heap w) a row = Inr (rid, h)" "w' = w\<lparr>heap := h\<rparr>"
    using ins by (auto simp: any_ops_defs andthen_eq_Inr)
  then have "eph_room h k"
    using eph_roomy.insert_room [of "heap w" a rs k row] Inl assms(1-3) by (auto simp: any_inv_def any_room_def)
  then show ?thesis using h(2) assms(3) disk_roomy.room_le [of _ "Suc k" k] by (auto simp: any_room_def)
next
  case (Inr f)
  then obtain p where p: "on_disk_m w = Some p" "disk_rows p f = Some rs" using any_rows_InrD assms(2) by blast
  then obtain p' where p': "disk_insert_row env p f row = Inr (rid, p')" "w' = w\<lparr>on_disk_m := Some p'\<rparr>"
    using ins Inr by (auto simp: any_ops_defs andthen_eq_Inr)
  have "disk_room p' k"
    using disk_roomy.insert_room [of env p f rs k row rid p'] p p'(1) assms(1,3,4)
    by (auto simp: disk_ops_defs any_inv_def any_room_def)
  then show ?thesis using p'(2) assms(3) eph_roomy.room_le [of _ "Suc k" k] by (auto simp: any_room_def)
qed

lemma any_delete_room:
  assumes "any_inv env w" and "any_rows w t = Some rs" and "rid \<in> fst ` set rs" and "any_room w k"
    and del: "tb_delete_row (AnyTable_ops env) w t rid = Inr w'"
  shows "any_room w' k"
proof (cases t)
  case (Inl a)
  then obtain h where h: "tb_delete_row EphemeralTable_ops (heap w) a rid = Inr h" "w' = w\<lparr>heap := h\<rparr>"
    using del by (auto simp: any_ops_defs andthen_eq_Inr)
  then have "eph_room h k"
    using eph_roomy.delete_room [of "heap w" a rs rid k] Inl assms(1-4) by (auto simp: any_inv_def any_room_def)
  then show ?thesis using h(2) assms(4) by (auto simp: any_room_def)
next
  case (Inr f)
  then obtain p where p: "on_disk_m w = Some p" "disk_rows p f = Some rs" using any_rows_InrD assms(2) by blast
  then obtain p' where p': "disk_delete_row env p f rid = Inr p'" "w' = w\<lparr>on_disk_m := Some p'\<rparr>"
    using del Inr by (auto simp: any_ops_defs andthen_eq_Inr)
  have "disk_room p' k"
    using disk_roomy.delete_room [of env p f rs rid k p'] p p'(1) assms(1,3,4)
    by (auto simp: disk_ops_defs any_inv_def any_room_def)
  then show ?thesis using p'(2) assms(4) by (auto simp: any_room_def)
qed

interpretation any: roomy_table "AnyTable_ops env" "any_ready env" any_same "any_inv env" any_rows any_can_insert any_room 4068 for env
proof unfold_locales
  show "any_same w w" for w by (simp add: any_same_def rel_option_disk_same)
  show "any_same w w''" if "any_same w w'" "any_same w' w''" for w w' w''
    using that rel_option_disk_same(2) [of "on_disk_m w" "on_disk_m w'" "on_disk_m w''"] by (simp add: any_same_def)
  show "ti_end (tb_iterator (AnyTable_ops env)) w it \<longleftrightarrow> rs = []" if "any_ready env w it rs" for w it rs
    using that eph.at_end [of "heap w" _ rs] disk_table.at_end [of env _ _ rs]
    by (cases it) (auto simp: any_ops_defs eph_ops_defs disk_ops_defs)
  show "ti_deref (tb_iterator (AnyTable_ops env)) w it = Inr row" if "any_ready env w it (row # rs)" for w it row rs
    using that eph.deref [of "heap w" _ row rs] disk_table.deref [of env _ _ row rs]
    by (cases it) (auto simp: any_ops_defs eph_ops_defs disk_ops_defs)
  show "distinct (map fst rs)" if "any_inv env w" "any_rows w t = Some rs" for w t rs
    using that eph.distinct_ids disk_table.distinct_ids
    by (cases t) (auto simp: any_inv_def any_rows_def split: option.splits)
  show "any_can_insert w t row" if "any_rows w t = Some rs" "any_room w (Suc k)" "any_inv env w" "length row \<le> 4068" for w t rs k row
    using that eph_roomy.room_insert [where w = "heap w"] disk_roomy.room_insert [where env = env]
    by (cases t) (auto simp: any_inv_def any_room_def any_can_insert_def any_rows_def split: option.splits)
  show "any_room w j" if "any_room w k" "j \<le> k" for w j k
    using that eph_roomy.room_le disk_roomy.room_le by (auto simp: any_room_def)
  show "any_inv env w' \<and> any_rows w' = any_rows w \<and> (\<forall>t row. any_can_insert w t row \<longrightarrow> any_can_insert w' t row)"
    if "any_same w w'" "any_inv env w" for w w'
    using any_sameD(1-3) [OF that] by blast
qed (fact any_sameD(4) any_next any_begin any_insert any_delete any_update any_insert_room any_delete_room)+

end
