(* ===== verification/Disk_Factory.thy ===== *)
theory Disk_Factory
  imports Table_Factory Disk_Table_Spec
begin

text \<open>
  The disk table factory (\<open>disk_table_factory.h\<close>, \<open>disk_table_factory.cpp\<close>): table names are mapped to
  file ids by the rows of a mapping table, itself a disk table in the reserved file 0. The state of the
  factory is its buffer pool; the mapping manager's handle never changes after construction.
\<close>

section \<open>MappingManager\<close>

definition MAPPING_SCHEMA :: Schema where
  "MAPPING_SCHEMA =
     [\<lparr>ra_name = ''file_name'', ra_type = type_id String_type\<rparr>,
      \<lparr>ra_name = ''file_id'', ra_type = type_id U32_type\<rparr>]"

definition mapping_table_m :: "file_id_t TableHandle" where
  "mapping_table_m = \<lparr>storage_m = DISK_TABLE_MAPPING_FILE_ID, schema_m = MAPPING_SCHEMA\<rparr>"

definition GetFileId :: "io_env \<Rightarrow> PageBufferManager \<Rightarrow> string \<Rightarrow> (file_id_t option \<times> PageBufferManager) outcome" where
  "GetFileId env p table_name =
     for_rows (DiskTable_ops env) (\<lambda>(row_id, data) found.
       andthen (Get_String data MAPPING_SCHEMA 0) (\<lambda>name.
       if name = table_name
       then andthen (Get_U32 data MAPPING_SCHEMA 1) (\<lambda>file_id. Inr (Some file_id, True))
       else Inr (found, False))) p (storage_m mapping_table_m) None"

definition SaveMapping ::
    "heap_env \<Rightarrow> io_env \<Rightarrow> PageBufferManager \<Rightarrow> string \<Rightarrow> file_id_t \<Rightarrow> (bool \<times> PageBufferManager) outcome" where
  "SaveMapping henv env p table_name file_id =
     andthen (TableHandle_insert_row henv (DiskTable_ops env) p mapping_table_m [String table_name, U32 file_id])
       (\<lambda>(_, p). Inr (True, p))"

definition DeleteMapping :: "io_env \<Rightarrow> PageBufferManager \<Rightarrow> string \<Rightarrow> (bool \<times> PageBufferManager) outcome" where
  "DeleteMapping env p table_name =
     andthen (for_rows (DiskTable_ops env) (\<lambda>(row_id, data) found_rid.
       andthen (Get_String data MAPPING_SCHEMA 0) (\<lambda>name.
       if name = table_name then Inr (Some row_id, True) else Inr (found_rid, False))) p (storage_m mapping_table_m) None)
     (\<lambda>(found_rid, p).
       case found_rid of
         Some rid \<Rightarrow> andthen (TableHandle_delete_row (DiskTable_ops env) p mapping_table_m rid) (\<lambda>p. Inr (True, p))
       | None \<Rightarrow> Inr (False, p))"

section \<open>DiskTableFactory\<close>

definition disk_TableExists :: "io_env \<Rightarrow> PageBufferManager \<Rightarrow> string \<Rightarrow> (bool \<times> PageBufferManager) outcome" where
  "disk_TableExists env p table_name =
     andthen (GetFileId env p table_name) (\<lambda>(file_id, p). Inr (file_id \<noteq> None, p))"

definition InitTableRootPage :: "io_env \<Rightarrow> PageBufferManager \<Rightarrow> file_id_t \<Rightarrow> PageBufferManager outcome" where
  "InitTableRootPage env p file_id =
     andthen (pool_AllocatePage env p file_id) (\<lambda>(alloc, p).
     case alloc of
       Inl _ \<Rightarrow> Inl AssertionFailed
     | Inr page_id \<Rightarrow>
         andthen (YADB_ASSERT (page_id = ROOT_PAGE_ID)) (\<lambda>_.
         andthen (in_scope env p (FilePageId file_id ROOT_PAGE_ID) (\<lambda>i p.
           modify_page p i (\<lambda>page. Inr ((), heap_InitPage page)))) (\<lambda>(_, p). Inr p)))"

definition CreateTableFile :: "heap_env \<Rightarrow> io_env \<Rightarrow> PageBufferManager \<Rightarrow> string \<Rightarrow> file_id_t option \<Rightarrow>
    (bool \<times> PageBufferManager) outcome" where
  "CreateTableFile henv env p table_name file_id =
     andthen (case file_id of
         Some actual_file_id \<Rightarrow>
           (case pool_CreateFileWithId env p actual_file_id of
              (Some err, p) \<Rightarrow> Inl AssertionFailed
            | (None, p) \<Rightarrow> Inr (actual_file_id, p))
       | None \<Rightarrow>
           (case pool_CreateFile env p of
              (Inl err, p) \<Rightarrow> Inl AssertionFailed
            | (Inr actual_file_id, p) \<Rightarrow> Inr (actual_file_id, p))) (\<lambda>(actual_file_id, p).
     andthen (if \<not> IsReservedFileId actual_file_id then SaveMapping henv env p table_name actual_file_id
              else Inr (True, p)) (\<lambda>(_, p).
     andthen (InitTableRootPage env p actual_file_id) (\<lambda>p. Inr (True, p))))"

definition OpenOrCreateMappingTable :: "io_env \<Rightarrow> PageBufferManager \<Rightarrow> (file_id_t TableHandle \<times> PageBufferManager) outcome" where
  "OpenOrCreateMappingTable env p =
     andthen (if \<not> pool_FileExists p DISK_TABLE_MAPPING_FILE_ID then
                case pool_CreateFileWithId env p DISK_TABLE_MAPPING_FILE_ID of
                  (Some err, p) \<Rightarrow> Inl AssertionFailed
                | (None, p) \<Rightarrow> InitTableRootPage env p DISK_TABLE_MAPPING_FILE_ID
              else Inr p) (\<lambda>p.
     Inr (\<lparr>storage_m = DISK_TABLE_MAPPING_FILE_ID, schema_m = MAPPING_SCHEMA\<rparr>, p))"

text \<open>
  The constructor, on a pool of 128 frames over the files of the working directory. The handle it
  stores in \<open>mapping_manager_m\<close> is \<open>mapping_table_m\<close>.
\<close>

definition DiskTableFactory_new ::
    "io_env \<Rightarrow> (nat \<Rightarrow> FullPage) \<Rightarrow> (string \<rightharpoonup> byte list) \<Rightarrow> PageBufferManager outcome" where
  "DiskTableFactory_new env buffer files =
     andthen (OpenOrCreateMappingTable env (PageBufferManager_init buffer files 128)) (\<lambda>(mapping_table, p). Inr p)"

definition disk_CreateTable :: "heap_env \<Rightarrow> io_env \<Rightarrow> PageBufferManager \<Rightarrow> string \<Rightarrow> (bool \<times> PageBufferManager) outcome" where
  "disk_CreateTable henv env p table_name = CreateTableFile henv env p table_name None"

definition disk_GetTable :: "io_env \<Rightarrow> PageBufferManager \<Rightarrow> string \<Rightarrow> (file_id_t option \<times> PageBufferManager) outcome" where
  "disk_GetTable env p table_name =
     andthen (GetFileId env p table_name) (\<lambda>(file_id, p).
     case file_id of None \<Rightarrow> Inr (None, p) | Some f \<Rightarrow> Inr (Some f, p))"

definition disk_DeleteTable :: "io_env \<Rightarrow> PageBufferManager \<Rightarrow> string \<Rightarrow> (bool \<times> PageBufferManager) outcome" where
  "disk_DeleteTable env p table_name =
     andthen (GetFileId env p table_name) (\<lambda>(file_id, p).
     case file_id of
       None \<Rightarrow> Inr (False, p)
     | Some f \<Rightarrow>
         andthen (pool_DeleteFile env p f) (\<lambda>(err, p).
         andthen (YADB_ASSERT (err = None)) (\<lambda>_.
         andthen (DeleteMapping env p table_name) (\<lambda>(_, p). Inr (True, p)))))"

end
