(* ===== verification/Disk_Factory_Spec.thy ===== *)
theory Disk_Factory_Spec
  imports Disk_Factory
begin

text \<open>
  What the disk table factory promises, in terms of the buffer pool: the rows of the mapping table are
  a finite map from names to files, each of which is a heap file, and the factory's operations look
  up, extend and shrink that map.
\<close>

section \<open>The mapping table as a map\<close>

abbreviation mapping_row :: "string \<Rightarrow> file_id_t \<Rightarrow> byte list" where
  "mapping_row n f \<equiv> row_bytes [String n, U32 f]"

definition mapping_data :: "byte list \<Rightarrow> bool" where
  "mapping_data data \<longleftrightarrow> (\<exists>n f. length n \<le> 65535 \<and> data = mapping_row n f)"

definition decode_mapping :: "byte list \<Rightarrow> string \<times> file_id_t" where
  "decode_mapping data =
     (case (Get_String data MAPPING_SCHEMA 0, Get_U32 data MAPPING_SCHEMA 1) of
        (Inr n, Inr f) \<Rightarrow> (n, f)
      | _ \<Rightarrow> ([], 0))"

definition mapping_entries :: "PageBufferManager \<Rightarrow> (string \<times> file_id_t) list" where
  "mapping_entries p =
     (case disk_rows p DISK_TABLE_MAPPING_FILE_ID of None \<Rightarrow> [] | Some rs \<Rightarrow> map (\<lambda>r. decode_mapping (snd r)) rs)"

definition disk_names :: "PageBufferManager \<Rightarrow> string \<rightharpoonup> file_id_t" where
  "disk_names p = map_of (mapping_entries p)"

text \<open>The invariant: every row of the mapping table is a mapping, names and files are distinct, and each file is a table.\<close>

definition mapping_inv :: "PageBufferManager \<Rightarrow> bool" where
  "mapping_inv p \<longleftrightarrow> (\<exists>rs. disk_rows p DISK_TABLE_MAPPING_FILE_ID = Some rs \<and> (\<forall>r \<in> set rs. mapping_data (snd r))) \<and>
     distinct (map fst (mapping_entries p)) \<and> distinct (map snd (mapping_entries p)) \<and>
     (\<forall>f \<in> snd ` set (mapping_entries p). f \<noteq> DISK_TABLE_MAPPING_FILE_ID \<and> disk_rows p f \<noteq> None)"

lemma mapping_fits: "length n \<le> 65535 \<Longrightarrow> fits_schema (schema_m mapping_table_m) [String n, U32 f]"
  by (simp add: fits_schema_def mapping_table_m_def MAPPING_SCHEMA_def)

lemma storage_mapping [simp]: "storage_m mapping_table_m = DISK_TABLE_MAPPING_FILE_ID"
  by (simp add: mapping_table_m_def)

lemma mapping_columns:
  assumes "mapping_data data"
  shows "Get_String data MAPPING_SCHEMA 0 = Inr (fst (decode_mapping data))"
    and "Get_U32 data MAPPING_SCHEMA 1 = Inr (snd (decode_mapping data))"
proof -
  obtain n f where nf: "length n \<le> 65535" "data = mapping_row n f" using assms by (auto simp: mapping_data_def)
  have fit: "fits_schema MAPPING_SCHEMA [String n, U32 f]" using mapping_fits [OF nf(1)] by (simp add: mapping_table_m_def)
  have "Get_String data MAPPING_SCHEMA 0 = Inr n" "Get_U32 data MAPPING_SCHEMA 1 = Inr f"
    unfolding nf(2) using Get_typed_row(1,3) [OF fit] by simp_all
  then show "Get_String data MAPPING_SCHEMA 0 = Inr (fst (decode_mapping data))"
    "Get_U32 data MAPPING_SCHEMA 1 = Inr (snd (decode_mapping data))"
    by (simp_all add: decode_mapping_def)
qed

lemma decode_mapping_row [simp]: "length n \<le> 65535 \<Longrightarrow> decode_mapping (mapping_row n f) = (n, f)"
  using Get_typed_row(1,3) [OF mapping_fits [of n f]] by (simp add: decode_mapping_def mapping_table_m_def)

lemma find_map_of: "map_option (\<lambda>r. snd (h r)) (List.find (\<lambda>r. fst (h r) = n) rs) = map_of (map h rs) n"
proof (induction rs)
  case (Cons r rs)
  then show ?case by (cases "h r") auto
qed simp

lemma map_of_insert_middle:
  "n \<notin> fst ` set (pre @ post) \<Longrightarrow> map_of (pre @ (n, f) # post) = (map_of (pre @ post))(n \<mapsto> f)"
proof -
  assume "n \<notin> fst ` set (pre @ post)"
  then have "map_of pre n = None" by (auto simp: map_of_eq_None_iff)
  then show ?thesis by (auto simp: map_add_def fun_eq_iff split: option.splits)
qed

lemma mapping_entries_eq:
  "disk_rows p DISK_TABLE_MAPPING_FILE_ID = Some rs \<Longrightarrow> mapping_entries p = map (\<lambda>r. decode_mapping (snd r)) rs"
  by (simp add: mapping_entries_def)

text \<open>The lookup reads the map.\<close>

lemma GetFileId_ok:
  assumes inv: "disk_inv env p" and m: "mapping_inv p"
  shows "\<exists>p'. GetFileId env p n = Inr (disk_names p n, p') \<and> disk_same p p'"
proof -
  obtain rs where rs: "disk_rows p DISK_TABLE_MAPPING_FILE_ID = Some rs" "\<forall>r \<in> set rs. mapping_data (snd r)"
    using m by (auto simp: mapping_inv_def)
  define body :: "Row \<Rightarrow> file_id_t option \<Rightarrow> (file_id_t option \<times> bool) outcome" where
    "body = (\<lambda>(row_id, data) found. andthen (Get_String data MAPPING_SCHEMA 0) (\<lambda>name.
       if name = n then andthen (Get_U32 data MAPPING_SCHEMA 1) (\<lambda>file_id. Inr (Some file_id, True)) else Inr (found, False)))"
  have "row_loop body rs None =
      Inr (map_option (\<lambda>r. snd (decode_mapping (snd r))) (List.find (\<lambda>r. fst (decode_mapping (snd r)) = n) rs))"
  proof (rule row_loop_find)
    fix row assume "row \<in> set rs"
    then have "mapping_data (snd row)" using rs(2) by blast
    from mapping_columns [OF this]
    show "body row None = Inr (if fst (decode_mapping (snd row)) = n then (Some (snd (decode_mapping (snd row))), True) else (None, False))"
      by (cases row) (simp add: body_def)
  qed
  then have "row_loop body rs None = Inr (disk_names p n)"
    by (simp add: find_map_of [of "\<lambda>r. decode_mapping (snd r)"] disk_names_def mapping_entries_eq [OF rs(1)])
  moreover obtain p' where "disk_same p p'"
    "for_rows (DiskTable_ops env) body p DISK_TABLE_MAPPING_FILE_ID None = andthen (row_loop body rs None) (\<lambda>s. Inr (s, p'))"
    using disk_table.for_rows_ok [OF inv rs(1), of body None] by blast
  ultimately show ?thesis by (auto simp: GetFileId_def body_def)
qed

lemma mapping_inv_same:
  assumes "disk_rows p' = disk_rows p"
  shows "mapping_inv p' = mapping_inv p" and "disk_names p' = disk_names p" and "mapping_entries p' = mapping_entries p"
  using assms by (simp_all add: mapping_inv_def disk_names_def mapping_entries_def)

section \<open>New files\<close>

lemma new_file_disk:
  assumes ok: "disk_ok d" and new: "fs d (GetFilePath f) = None"
  defines "d' \<equiv> d\<lparr>fs := (fs d)(GetFilePath f \<mapsto> [])\<rparr>"
  shows "disk_ok d'" and "disk_pages d' = disk_pages d" and "sizes d' = (sizes d)(f \<mapsto> 0)"
    and "disk_pages d (FilePageId f x) = None"
proof -
  have "handle_ok d' i h" if "id_map_m d i = Some h" for i h
    using disk_okD [OF ok that] new by (auto simp: handle_ok_def d'_def)
  then show "disk_ok d'" using ok by (auto simp: disk_ok_def d'_def)
  show "disk_pages d' = disk_pages d" using new by (auto simp: disk_pages_def free_of_def d'_def fun_eq_iff split: option.splits)
  show "sizes d' = (sizes d)(f \<mapsto> 0)" by (auto simp: sizes_def d'_def)
  show "disk_pages d (FilePageId f x) = None" using new by (simp add: disk_pages_def)
qed

text \<open>What creating an empty file does to the pool.\<close>

definition file_added :: "file_id_t \<Rightarrow> PageBufferManager \<Rightarrow> PageBufferManager \<Rightarrow> bool" where
  "file_added f p p' \<longleftrightarrow> contents p' = contents p \<and> pool_sizes p' = (pool_sizes p)(f \<mapsto> 0) \<and> pool_sizes p f = None \<and>
     (\<forall>x. contents p (FilePageId f x) = None) \<and> page_frame p' = page_frame p \<and>
     (\<forall>j. is_frame p' j = is_frame p j \<and> frame p' j = frame p j \<and> idle p' j = idle p j)"

lemma new_file_pool:
  assumes inv: "disk_inv env p" and new: "fs (disk_manager_m p) (GetFilePath f) = None" and f: "f \<noteq> INVALID_FILE_ID"
  defines "p' \<equiv> p\<lparr>disk_manager_m := (disk_manager_m p)\<lparr>fs := (fs (disk_manager_m p))(GetFilePath f \<mapsto> [])\<rparr>\<rparr>"
  shows "disk_inv env p'" and "file_added f p p'"
proof -
  note ok = disk_invD(4) [OF inv]
  note d = new_file_disk [OF pool_okD(5) [OF ok] new]
  have views: "page_frame p' = page_frame p" "frame p' = frame p" "is_frame p' = is_frame p" "idle p' = idle p"
    "replacer_m p' = replacer_m p" "page_map_m p' = page_map_m p"
    by (simp_all add: p'_def pool_simps idle_def fun_eq_iff)
  have dp: "disk_pages (disk_manager_m p') = disk_pages (disk_manager_m p)" and dok: "disk_ok (disk_manager_m p')"
    using d(1,2) by (simp_all add: p'_def)
  from dp have cont: "contents p' = contents p" by (intro ext) (simp add: contents_def views split: option.split)
  have "entry_ok p' fp j" if "page_frame p fp = Some j" for fp j
    using pool_okD(2) [OF ok that] dp by (simp add: entry_ok_def views)
  moreover have "frame_ok p' j = frame_ok p j" for j by (simp add: frame_ok_def views)
  ultimately have "pool_ok p'" using ok dok by (simp add: pool_ok_def views)
  moreover have "pool_sizes p' INVALID_FILE_ID = pool_sizes p INVALID_FILE_ID" using f d(3) by (simp add: p'_def)
  ultimately show "disk_inv env p'" using inv by (simp add: disk_inv_def quiet_def views cont)
  have "contents p (FilePageId f x) = None" for x using contents_iff_disk [OF ok, of "FilePageId f x"] d(4) by simp
  moreover have "pool_sizes p' = (pool_sizes p)(f \<mapsto> 0)" "pool_sizes p f = None" using d(3) new by (simp_all add: p'_def sizes_def)
  ultimately show "file_added f p p'" by (simp add: file_added_def cont views)
qed

lemma file_added_rows:
  assumes "file_added f p p'"
  shows "disk_rows p' = disk_rows p" and "disk_rows p f = None"
proof -
  show "disk_rows p' = disk_rows p" using assms by (simp add: file_added_def)
  show "disk_rows p f = None" using assms by (auto simp: file_added_def file_rows_def heap_file_def)
qed

lemma file_added_room:
  assumes a: "file_added f p p'" and r: "disk_room p k"
  shows "disk_room p' k"
proof -
  have "file_room p' g k" if "disk_rows p g \<noteq> None" for g
  proof -
    have "file_room p g k" "g \<noteq> f" using that r file_added_rows(2) [OF a] by (auto simp: disk_room_def)
    then show ?thesis using a by (simp add: file_room_def file_added_def)
  qed
  then show ?thesis using file_added_rows(1) [OF a] by (simp add: disk_room_def)
qed

lemma InitTableRootPage_ok:
  assumes inv: "disk_inv env p" and sz: "pool_sizes p f = Some 0" and none: "\<And>x. contents p (FilePageId f x) = None"
    and idle: "\<forall>j. is_frame p j \<and> idle p j \<longrightarrow> fp_file_id (fr_fp_id (frame p j)) \<noteq> f"
  shows "\<exists>p'. InitTableRootPage env p f = Inr p' \<and> disk_inv env p' \<and> disk_rows p' = (disk_rows p)(f \<mapsto> []) \<and>
    grown f p p' \<and> file_room p' f (2 ^ 18 - 1)"
proof -
  note d = disk_invD [OF inv]
  have z: "(0 :: nat) \<le> 2 ^ 19 * 4096" by simp
  obtain pid p1 raw n' where pid: "pool_AllocatePage env p f = Inr (Inr pid, p1)"
    "contents p1 = (contents p)(FilePageId f pid \<mapsto> raw)" "(0 :: nat) = 0 \<longrightarrow> pid = 0"
    and a: "calm p1" "length raw = 4096" "replacer_m p1 = replacer_m p"
    "\<forall>j. is_frame p1 j = is_frame p j \<and> frame p1 j = frame p j \<and> idle p1 j = idle p j"
    "pool_sizes p1 = (pool_sizes p)(f \<mapsto> n')" "n' \<le> max 0 (8192 * used (contents p) f + 4096)"
    using pool_AllocatePage_ok [OF d(3,1) sz z idle] by (elim exE conjE) (rule that; assumption)
  have alloc: "pool_AllocatePage env p f = Inr (Inr 0, p1)" and cp1: "contents p1 = (contents p)(FilePageId f 0 \<mapsto> raw)"
    using pid by simp_all
  have ok1: "pool_ok p1" and un1: "all_unpinned p1" using a(1,4) d(5) by (simp_all add: calm_def all_unpinned_def)
  let ?root = "heap_InitPage raw"
  note root = heap_ok_InitPage [OF a(2)]
  have c1: "contents p1 (FilePageId f ROOT_PAGE_ID) = Some raw" by (simp add: cp1 ROOT_PAGE_ID_def)
  obtain p2 where s: "in_scope env p1 (FilePageId f ROOT_PAGE_ID) (\<lambda>i p. modify_page p i (\<lambda>page. Inr ((), heap_InitPage page))) = Inr ((), p2)"
    "tidy p1 p2" "contents p2 = (contents p1)(FilePageId f ROOT_PAGE_ID \<mapsto> ?root)"
    using scope_modify [OF a(1) c1 all_unpinnedD [OF ok1 un1] d(1), of "\<lambda>page. Inr ((), heap_InitPage page)" "()" ?root]
      heap_okD(2) [OF root(1)] by auto
  have run: "InitTableRootPage env p f = Inr p2" using alloc s(1) by (simp add: InitTableRootPage_def ROOT_PAGE_ID_def)
  have c2: "contents p2 = (contents p)(FilePageId f 0 \<mapsto> ?root)" using s(3) cp1 by (simp add: ROOT_PAGE_ID_def)
  have "pool_sizes p1 INVALID_FILE_ID = None" using a(5) sz inv by (auto simp: disk_inv_def)
  then have inv1: "disk_inv env p1"
    using inv a(1,3,4) un1 unfolding disk_inv_def quiet_def calm_def all_unpinned_def by metis
  then have inv2: "disk_inv env p2" using disk_inv_tidy [OF inv1 s(2)] s(3) c1 by (auto split: if_splits)
  have u: "used (contents p) f = 0" using none by (simp add: used_def)
  have gr1: "grown f p p1"
    using a(4,5,6) sz used_new_page [where c = "contents p" and f = f and n = 0 and pg = raw] none [of 0]
    by (auto simp: grown_def cp1)
  have gr2: "grown f p p2" by (rule grown_tidy [OF gr1 s(2)]) (use s(3) c1 in auto)
  have hf: "heap_file (contents p2) f []" using c2 root by (simp add: heap_file_def ROOT_PAGE_ID_def links_def)
  have "disk_rows p2 g = disk_rows p g" if "g \<noteq> f" for g by (rule file_rows_cong) (use that c2 in simp)
  then have rows: "disk_rows p2 = (disk_rows p)(f \<mapsto> [])" using file_rows_eq [OF hf] by auto
  have "used (contents p2) f \<le> 1" using gr2 u by (simp add: grown_def)
  moreover obtain n2 where "pool_sizes p2 f = Some n2" "n2 \<le> 4096" using gr2 sz u unfolding grown_def by fastforce
  ultimately have "file_room p2 f (2 ^ 18 - 1)" using gr2 idle by (auto simp: file_room_def grown_def)
  then show ?thesis using run inv2 rows gr2 by blast
qed

section \<open>Creating a table\<close>

definition disk_can_create :: "io_env \<Rightarrow> PageBufferManager \<Rightarrow> bool" where
  "disk_can_create env p \<longleftrightarrow>
     (case CreateFile env (disk_manager_m p) of
        (Inl _, _) \<Rightarrow> False
      | (Inr f, _) \<Rightarrow> f \<noteq> INVALID_FILE_ID \<and> (\<forall>j. is_frame p j \<and> idle p j \<longrightarrow> fp_file_id (fr_fp_id (frame p j)) \<noteq> f))"

text \<open>No frame outside the page map takes on the id of a file, and no file appears but \<open>f\<close>.\<close>

definition only_file :: "file_id_t \<Rightarrow> PageBufferManager \<Rightarrow> PageBufferManager \<Rightarrow> bool" where
  "only_file f p p' \<longleftrightarrow> (\<forall>j. is_frame p' j \<and> idle p' j \<longrightarrow> is_frame p j \<and> idle p j \<and> frame p' j = frame p j) \<and>
     (\<forall>g. g \<noteq> f \<and> pool_sizes p g = None \<longrightarrow> pool_sizes p' g = None)"

lemma only_file_intro:
  "file_added f p p' \<Longrightarrow> only_file f p p'" "grown f p p' \<Longrightarrow> only_file f p p'" "pool_sizes p g \<noteq> None \<Longrightarrow> grown g p p' \<Longrightarrow> only_file f p p'"
  "tidy p p' \<Longrightarrow> only_file f p p'"
proof -
  show "file_added f p p' \<Longrightarrow> only_file f p p'" by (simp add: only_file_def file_added_def)
  show "grown f p p' \<Longrightarrow> only_file f p p'" by (simp add: only_file_def grown_def)
  show "tidy p p' \<Longrightarrow> only_file f p p'" by (auto simp: only_file_def tidy_def)
  show "only_file f p p'" if "pool_sizes p g \<noteq> None" "grown g p p'" using that unfolding only_file_def grown_def by metis
qed

lemma only_file_trans: "only_file f p p' \<Longrightarrow> only_file f p' p'' \<Longrightarrow> only_file f p p''"
  unfolding only_file_def by metis

lemma disk_can_create_tidy:
  assumes t: "tidy p p'" and c: "disk_can_create env p"
  shows "disk_can_create env p'"
proof -
  have s: "pool_sizes p' = pool_sizes p" using t by (simp add: tidy_def)
  have "FileExists (disk_manager_m p') f = FileExists (disk_manager_m p) f" for f
    using fun_cong [OF s, of f] unfolding FileExists_def sizes_def by (metis option.map_disc_iff)
  then have "FileExists (disk_manager_m p') = FileExists (disk_manager_m p)" by (rule ext)
  then have "fst (CreateFile env (disk_manager_m p')) = fst (CreateFile env (disk_manager_m p))"
    unfolding CreateFile_def by (rule create_retry_cong)
  then show ?thesis using c t by (auto simp: disk_can_create_def tidy_def split: prod.splits sum.splits)
qed

lemma CreateFile_ok:
  assumes inv: "disk_inv env p" and can: "disk_can_create env p"
  shows "\<exists>f p'. pool_CreateFile env p = (Inr f, p') \<and> disk_inv env p' \<and> file_added f p p' \<and> \<not> IsReservedFileId f \<and>
    (\<forall>j. is_frame p j \<and> idle p j \<longrightarrow> fp_file_id (fr_fp_id (frame p j)) \<noteq> f)"
proof -
  obtain f d' where c: "CreateFile env (disk_manager_m p) = (Inr f, d')"
    and idle: "\<forall>j. is_frame p j \<and> idle p j \<longrightarrow> fp_file_id (fr_fp_id (frame p j)) \<noteq> f" and valid: "f \<noteq> INVALID_FILE_ID"
    using can by (auto simp: disk_can_create_def split: prod.splits sum.splits)
  have n: "\<not> IsReservedFileId f" "fs (disk_manager_m p) (GetFilePath f) = None"
    "d' = (disk_manager_m p)\<lparr>fs := (fs (disk_manager_m p))(GetFilePath f \<mapsto> [])\<rparr>"
    using create_retry_fresh c by (auto simp: CreateFile_def)
  then show ?thesis using c idle new_file_pool [OF inv n(2) valid] by (simp add: pool_CreateFile_def)
qed

lemma mapping_inv_added:
  assumes m: "mapping_inv p" and rows: "disk_rows p DISK_TABLE_MAPPING_FILE_ID = Some (pre @ post)"
    and new: "disk_rows p f = None" "disk_names p n = None" "length n \<le> 65535"
    and rows': "disk_rows p' = (disk_rows p)(DISK_TABLE_MAPPING_FILE_ID \<mapsto> pre @ (rid, mapping_row n f) # post, f \<mapsto> [])"
  shows "mapping_inv p'" and "disk_names p' = (disk_names p)(n \<mapsto> f)"
proof -
  let ?M = DISK_TABLE_MAPPING_FILE_ID and ?dec = "\<lambda>r. decode_mapping (snd r)"
  have fM: "f \<noteq> ?M" using new(1) rows by auto
  have r': "disk_rows p' ?M = Some (pre @ (rid, mapping_row n f) # post)" using rows' fM by simp
  have e: "mapping_entries p = map ?dec pre @ map ?dec post" using mapping_entries_eq [OF rows] by simp
  have e': "mapping_entries p' = map ?dec pre @ (n, f) # map ?dec post"
    using mapping_entries_eq [OF r'] new(3) by (simp del: list.map concat.simps add: list.map(2) [of ?dec])
  have nn: "n \<notin> fst ` set (mapping_entries p)" using new(2) by (simp add: disk_names_def map_of_eq_None_iff)
  have ff: "f \<notin> snd ` set (mapping_entries p)" using m new(1) by (auto simp: mapping_inv_def)
  show "disk_names p' = (disk_names p)(n \<mapsto> f)"
    unfolding disk_names_def e' e by (rule map_of_insert_middle) (use nn e in simp)
  have "\<forall>r \<in> set (pre @ post). mapping_data (snd r)" using m rows by (auto simp: mapping_inv_def)
  moreover have "mapping_data (mapping_row n f)" using new(3) unfolding mapping_data_def by blast
  ultimately have "\<forall>r \<in> set (pre @ (rid, mapping_row n f) # post). mapping_data (snd r)" by auto
  moreover have "distinct (map fst (mapping_entries p'))" "distinct (map snd (mapping_entries p'))"
    using m nn ff unfolding mapping_inv_def e e' by auto
  moreover have "g \<noteq> ?M \<and> disk_rows p' g \<noteq> None" if "g \<in> snd ` set (mapping_entries p')" for g
  proof (cases "g = f")
    case False
    then have "g \<in> snd ` set (mapping_entries p)" using that by (auto simp: e e')
    then have "g \<noteq> ?M \<and> disk_rows p g \<noteq> None" using m unfolding mapping_inv_def by blast
    then show ?thesis using False by (simp add: rows')
  qed (use fM rows' in simp)
  ultimately show "mapping_inv p'" using r' unfolding mapping_inv_def by blast
qed

lemma disk_CreateTable_ok:
  assumes inv: "disk_inv env p" and m: "mapping_inv p" and new: "disk_names p n = None" and len: "length n \<le> 4062"
    and room: "disk_room p (Suc (Suc k))" and can: "disk_can_create env p" and henv: "\<forall>n. env_ok henv n"
  shows "\<exists>p' f. disk_CreateTable henv env p n = Inr (True, p') \<and> disk_inv env p' \<and> mapping_inv p' \<and> disk_room p' k \<and>
    disk_names p' = (disk_names p)(n \<mapsto> f) \<and> disk_rows p f = None \<and> disk_rows p' f = Some [] \<and>
    (\<forall>g. g \<noteq> f \<and> g \<noteq> DISK_TABLE_MAPPING_FILE_ID \<longrightarrow> disk_rows p' g = disk_rows p g) \<and> only_file f p p'"
proof -
  let ?M = DISK_TABLE_MAPPING_FILE_ID
  obtain f p1 where c: "pool_CreateFile env p = (Inr f, p1)" "disk_inv env p1" "file_added f p p1" "\<not> IsReservedFileId f"
    and idle: "\<forall>j. is_frame p j \<and> idle p j \<longrightarrow> fp_file_id (fr_fp_id (frame p j)) \<noteq> f"
    using CreateFile_ok [OF inv can] by blast
  note fr = file_added_rows [OF c(3)]
  obtain rs where rs: "disk_rows p ?M = Some rs" using m by (auto simp: mapping_inv_def)
  have fM: "f \<noteq> ?M" using fr(2) rs by auto
  have room1: "disk_room p1 (Suc (Suc k))" using file_added_room [OF c(3) room] .
  have rs1: "disk_rows p1 ?M = Some rs" using rs fr(1) by simp
  have short: "length (mapping_row n f) \<le> 4068" using len by simp
  from disk_roomy.roomy_insert [OF c(2) rs1 room1 short]
  obtain rid p2 pre post where i: "tb_insert_row (DiskTable_ops env) p1 ?M (mapping_row n f) = Inr (rid, p2)" "disk_inv env p2"
    "disk_room p2 (Suc k)" "rs = pre @ post" "disk_rows p2 = (disk_rows p1)(?M \<mapsto> pre @ (rid, mapping_row n f) # post)"
    by blast
  have can1: "disk_can_insert p1 ?M (mapping_row n f)" using disk_roomy.room_insert [OF c(2) rs1 room1 short] .
  have "\<exists>ps. heap_file (contents p1) ?M ps" using file_rowsE [OF rs1] by blast
  then have g2: "grown ?M p1 p2" and other: "\<forall>g x. g \<noteq> ?M \<longrightarrow> contents p2 (FilePageId g x) = contents p1 (FilePageId g x)"
    using disk_insert_ok [OF c(2) _ can1] i(1) by (fastforce simp: disk_ops_defs)+
  have save: "SaveMapping henv env p1 n f = Inr (True, p2)"
    using i(1) insert_row_fits [OF henv mapping_fits, of n "DiskTable_ops env" p1 f] len by (simp add: SaveMapping_def)
  have sz2: "pool_sizes p2 f = Some 0" using g2 c(3) fM by (simp add: grown_def file_added_def)
  have none2: "contents p2 (FilePageId f x) = None" for x using other c(3) fM by (simp add: file_added_def)
  have idle2: "\<forall>j. is_frame p2 j \<and> idle p2 j \<longrightarrow> fp_file_id (fr_fp_id (frame p2 j)) \<noteq> f"
    using idle g2 c(3) by (auto simp: grown_def file_added_def)
  obtain p3 where r: "InitTableRootPage env p2 f = Inr p3" "disk_inv env p3" "disk_rows p3 = (disk_rows p2)(f \<mapsto> [])"
    "grown f p2 p3" "file_room p3 f (2 ^ 18 - 1)"
    using InitTableRootPage_ok [OF i(2) sz2 none2 idle2] by blast
  have run: "disk_CreateTable henv env p n = Inr (True, p3)"
    using c(1,4) save r(1) by (simp add: disk_CreateTable_def CreateTableFile_def)
  have rows3: "disk_rows p3 = (disk_rows p)(?M \<mapsto> pre @ (rid, mapping_row n f) # post, f \<mapsto> [])"
    using r(3) unfolding i(5) fr(1) .
  have "length n \<le> 65535" using len by simp
  note mi = mapping_inv_added [OF m rs [unfolded i(4)] fr(2) new this rows3]
  have "file_room p2 ?M (Suc k)" using i(3,5) by (simp add: disk_room_def)
  then have "k \<le> 2 ^ 18 - 1" by (simp add: file_room_def)
  then have "file_room p3 f k" using r(5) by (auto simp: file_room_def)
  moreover have "file_room p3 g k" if "disk_rows p3 g \<noteq> None" "g \<noteq> f" for g
    using that file_room_grown [OF r(4), of g k] i(3) r(3) by (simp add: disk_room_def)
  ultimately have "disk_room p3 k" by (auto simp: disk_room_def)
  moreover have "\<forall>g. g \<noteq> f \<and> g \<noteq> ?M \<longrightarrow> disk_rows p3 g = disk_rows p g" unfolding rows3 by simp
  moreover have "disk_rows p3 f = Some []" unfolding rows3 by simp
  moreover have "pool_sizes p1 ?M \<noteq> None" using room1 rs1 by (auto simp: disk_room_def file_room_def)
  then have "only_file f p p3"
    using only_file_trans [OF only_file_trans [OF only_file_intro(1) [OF c(3)] only_file_intro(3) [OF _ g2]] only_file_intro(2) [OF r(4)]] by blast
  ultimately show ?thesis using run r(2) mi fr(2) by blast
qed

section \<open>Deleting a table\<close>

text \<open>The evictable count goes up by the number of dropped pages, although their frames were evictable before.\<close>

definition disk_can_drop :: "PageBufferManager \<Rightarrow> bool" where
  "disk_can_drop p \<longleftrightarrow> unat (GetEvictableCount (replacer_m p)) + 2 ^ 32 < 2 ^ 64"

lemma page_map_length:
  assumes "pool_ok p"
  shows "length (page_map_m p) \<le> 2 ^ 32"
proof -
  have d: "distinct (map fst (page_map_m p))" using pool_okD(6) [OF assms] by simp
  then have m: "(fp, i) \<in> set (page_map_m p) \<longleftrightarrow> page_frame p fp = Some i" for fp i
    by (simp add: page_frame_def)
  have "inj_on snd (set (page_map_m p))"
    using page_frame_inj [OF assms] m by (auto simp: inj_on_def)
  moreover have "distinct (page_map_m p)" using d by (simp add: distinct_map)
  ultimately have "length (page_map_m p) = card (snd ` set (page_map_m p))"
    by (simp add: card_image distinct_card)
  also have "\<dots> \<le> card (UNIV :: frame_id_t set)" by (rule card_mono) simp_all
  finally show ?thesis by (simp add: card_word)
qed

lemma DeleteFile_pool:
  assumes inv: "disk_inv env p" and can: "disk_can_drop p"
  shows "\<exists>p'. pool_DeleteFile env p f = Inr (None, p') \<and> disk_inv env p' \<and>
    (\<forall>g. disk_rows p' g = (if g = f then None else disk_rows p g)) \<and> (\<forall>k. disk_room p k \<longrightarrow> disk_room p' k)"
proof -
  note d = disk_invD [OF inv]
  have "\<not> (\<exists>fp i. page_frame p fp = Some i \<and> fp_file_id fp = f \<and> fr_pin_count (frame p i) \<noteq> 0)"
    using all_unpinnedD [OF d(4,5)] by (auto simp: unpinned_def)
  from pool_DeleteFile_ok [OF d(4,1), of f, unfolded if_not_P [OF this]]
  obtain p' k where p': "pool_DeleteFile env p f = Inr (None, p')" "pool_ok p'" "same_frames p p'"
    "\<And>fp. contents p' fp = (if fp_file_id fp = f then None else contents p fp)"
    "\<And>j. is_frame p j \<Longrightarrow> idle p' j \<Longrightarrow> idle p j \<or> fp_file_id (fr_fp_id (frame p j)) = f"
    "pool_sizes p' = (pool_sizes p)(f := None)"
    "k \<le> length (page_map_m p)" "GetEvictableCount (replacer_m p') = GetEvictableCount (replacer_m p) + of_nat k"
    by (elim exE conjE bexE) blast
  have fr: "is_frame p' j = is_frame p j" "fr_pin_count (frame p' j) = fr_pin_count (frame p j)"
    "fr_fp_id (frame p' j) = fr_fp_id (frame p j)" for j
    using p'(3) by (simp_all add: same_frames_def)
  let ?c = "GetEvictableCount (replacer_m p)"
  have "unat (?c + of_nat k) = unat ?c + k"
    using p'(7) page_map_length [OF d(4)] can by (simp add: disk_can_drop_def unat_word_ariths unat_of_nat_64)
  moreover have "1 < unat ?c" "0 < unat ?c" using inv by (simp_all add: disk_inv_def word_less_nat_alt)
  ultimately have cnt: "1 < GetEvictableCount (replacer_m p')" "0 < GetEvictableCount (replacer_m p')"
    unfolding p'(8) by (simp_all add: word_less_nat_alt)
  have "contents p' (fr_fp_id (frame p j)) = None" if "is_frame p j" "idle p' j" for j
    using p'(5) [OF that] that(1) d(2) by (auto simp: p'(4) quiet_def)
  then have inv': "disk_inv env p'"
    using inv cnt p'(2) by (auto simp: disk_inv_def quiet_def fr p'(6))
  have "disk_rows p' g = disk_rows p g" if "g \<noteq> f" for g by (rule file_rows_cong) (use that in \<open>simp add: p'(4)\<close>)
  moreover have "disk_rows p' f = None" by (auto simp: file_rows_def heap_file_def p'(4))
  ultimately have rows: "disk_rows p' g = (if g = f then None else disk_rows p g)" for g by simp
  have "file_room p' g j" if "file_room p g j" "g \<noteq> f" for g j
  proof -
    have "used (contents p') g = used (contents p) g" using that(2) by (simp add: used_def p'(4))
    then show ?thesis using that p'(5,6) by (fastforce simp: file_room_def fr)
  qed
  then have "disk_room p' j" if "disk_room p j" for j using that by (simp add: disk_room_def rows)
  then show ?thesis using p'(1) inv' rows by blast
qed

lemma DeleteMapping_ok:
  assumes inv: "disk_inv env p" and rs: "disk_rows p DISK_TABLE_MAPPING_FILE_ID = Some rs" "\<forall>r \<in> set rs. mapping_data (snd r)"
    and d: "distinct (map fst (mapping_entries p))" and n: "disk_names p n \<noteq> None"
  shows "\<exists>p'. DeleteMapping env p n = Inr (True, p') \<and> disk_inv env p' \<and> (\<forall>k. disk_room p k \<longrightarrow> disk_room p' k) \<and>
    disk_rows p' = (disk_rows p)(DISK_TABLE_MAPPING_FILE_ID \<mapsto> filter (\<lambda>r. fst (decode_mapping (snd r)) \<noteq> n) rs)"
proof -
  let ?M = DISK_TABLE_MAPPING_FILE_ID and ?name = "\<lambda>r :: Row. fst (decode_mapping (snd r))"
  define body :: "Row \<Rightarrow> row_id_t option \<Rightarrow> (row_id_t option \<times> bool) outcome" where
    "body = (\<lambda>(row_id, data) found_rid. andthen (Get_String data MAPPING_SCHEMA 0) (\<lambda>name.
       if name = n then Inr (Some row_id, True) else Inr (found_rid, False)))"
  have loop: "row_loop body rs None = Inr (map_option fst (List.find (\<lambda>r. ?name r = n) rs))"
  proof (rule row_loop_find)
    fix row assume "row \<in> set rs"
    then have "mapping_data (snd row)" using rs(2) by blast
    from mapping_columns(1) [OF this]
    show "body row None = Inr (if ?name row = n then (Some (fst row), True) else (None, False))"
      by (cases row) (simp add: body_def)
  qed
  have "n \<in> fst ` set (map (\<lambda>r. decode_mapping (snd r)) rs)"
    using n map_of_eq_None_iff unfolding disk_names_def mapping_entries_eq [OF rs(1)] by metis
  then have "n \<in> ?name ` set rs" by (simp add: image_image)
  then have "List.find (\<lambda>r. ?name r = n) rs \<noteq> None" unfolding find_None_iff by blast
  then obtain r where find: "List.find (\<lambda>r. ?name r = n) rs = Some r" by blast
  then have r: "List.find (\<lambda>r. ?name r = n) rs = Some r" "r \<in> set rs" "?name r = n"
    by (auto simp: find_Some_iff in_set_conv_nth)
  obtain p1 where p1: "disk_same p p1" "disk_inv env p1" "disk_rows p1 = disk_rows p"
    "for_rows (DiskTable_ops env) body p ?M None = andthen (row_loop body rs None) (\<lambda>s. Inr (s, p1))"
    using disk_table.for_rows_ok [OF inv rs(1), of body None] by blast
  have rs1: "disk_rows p1 ?M = Some rs" and rid: "fst r \<in> fst ` set rs" using p1(3) rs(1) r(2) by simp_all
  obtain p2 where p2: "tb_delete_row (DiskTable_ops env) p1 ?M (fst r) = Inr p2" "disk_inv env p2"
    "disk_rows p2 = (disk_rows p1)(?M \<mapsto> filter (\<lambda>q. fst q \<noteq> fst r) rs)"
    using disk_table.delete_ok [OF p1(2) rs1 rid] by blast
  have "distinct (map ?name rs)" using d by (simp add: mapping_entries_eq [OF rs(1)] comp_def)
  then have "?name q = n \<longleftrightarrow> fst q = fst r" if "q \<in> set rs" for q
    using that r(2,3) disk_table.distinct_ids [OF inv rs(1)] by (auto simp: distinct_map inj_on_def)
  then have "filter (\<lambda>q. fst q \<noteq> fst r) rs = filter (\<lambda>q. ?name q \<noteq> n) rs" by (intro filter_cong) simp_all
  moreover have "disk_room p2 k" if "disk_room p k" for k
    using disk_roomy.delete_room [OF p1(2) rs1 rid _ p2(1)] disk_roomy.room_same [OF p1(1) inv that] by blast
  moreover have "DeleteMapping env p n = Inr (True, p2)"
    using p1(4) p2(1) loop r(1) by (simp add: DeleteMapping_def TableHandle_delete_row_def body_def)
  ultimately show ?thesis using p2(2,3) p1(3) by auto
qed

lemma mapping_inv_removed:
  assumes m: "mapping_inv p" and n: "disk_names p n = Some f" and rs: "disk_rows p DISK_TABLE_MAPPING_FILE_ID = Some rs"
    and rows': "\<And>g. disk_rows p' g = (if g = f then None else
      if g = DISK_TABLE_MAPPING_FILE_ID then Some (filter (\<lambda>r. fst (decode_mapping (snd r)) \<noteq> n) rs) else disk_rows p g)"
  shows "mapping_inv p'" and "disk_names p' = (disk_names p)(n := None)"
proof -
  let ?M = DISK_TABLE_MAPPING_FILE_ID and ?dec = "\<lambda>r. decode_mapping (snd r)"
  have e: "mapping_entries p = map ?dec rs" using mapping_entries_eq [OF rs] .
  have nf: "(n, f) \<in> set (mapping_entries p)" using n by (simp add: disk_names_def map_of_SomeD)
  then have fM: "f \<noteq> ?M" using m by (force simp: mapping_inv_def)
  then have r': "disk_rows p' ?M = Some (filter (\<lambda>r. fst (?dec r) \<noteq> n) rs)" by (simp add: rows')
  have e': "mapping_entries p' = filter (\<lambda>x. fst x \<noteq> n) (mapping_entries p)"
    using mapping_entries_eq [OF r'] by (simp add: e filter_map comp_def)
  have "map_of (filter (\<lambda>x. fst x \<noteq> n) xs) = (map_of xs)(n := None)" for xs :: "(string \<times> file_id_t) list"
    by (induction xs) (auto simp: fun_eq_iff)
  then show "disk_names p' = (disk_names p)(n := None)" by (simp add: disk_names_def e')
  have dist: "distinct (map fst (mapping_entries p))" "distinct (map snd (mapping_entries p))"
    using m by (simp_all add: mapping_inv_def)
  then have "snd x \<noteq> f" if "x \<in> set (mapping_entries p')" for x
    using that nf by (auto simp: e' distinct_map inj_on_def) force
  then have "g \<noteq> ?M \<and> disk_rows p' g \<noteq> None" if "g \<in> snd ` set (mapping_entries p')" for g
    using that m by (auto simp: rows' e' mapping_inv_def)
  moreover have "\<forall>r \<in> set (filter (\<lambda>r. fst (?dec r) \<noteq> n) rs). mapping_data (snd r)"
    using m rs by (auto simp: mapping_inv_def)
  moreover have "distinct (map fst (mapping_entries p'))" "distinct (map snd (mapping_entries p'))"
    using dist by (simp_all add: e' distinct_map_filter)
  ultimately show "mapping_inv p'" using r' unfolding mapping_inv_def by blast
qed

lemma disk_DeleteTable_ok:
  assumes inv: "disk_inv env p" and m: "mapping_inv p" and n: "disk_names p n = Some f" and can: "disk_can_drop p"
  shows "\<exists>p'. disk_DeleteTable env p n = Inr (True, p') \<and> disk_inv env p' \<and> mapping_inv p' \<and>
    (\<forall>k. disk_room p k \<longrightarrow> disk_room p' k) \<and> disk_names p' = (disk_names p)(n := None) \<and>
    (\<forall>g. g \<noteq> f \<and> g \<noteq> DISK_TABLE_MAPPING_FILE_ID \<longrightarrow> disk_rows p' g = disk_rows p g)"
proof -
  let ?M = DISK_TABLE_MAPPING_FILE_ID
  obtain p1 where g: "GetFileId env p n = Inr (Some f, p1)" "disk_same p p1" using GetFileId_ok [OF inv m, of n] n by auto
  have inv1: "disk_inv env p1" and rows1: "disk_rows p1 = disk_rows p" using disk_table.sameD [OF g(2) inv] by simp_all
  have "disk_can_drop p1" using can g(2) disk_invD(4) [OF inv] by (simp add: disk_can_drop_def disk_same_def tidy_def)
  then obtain p2 where p2: "pool_DeleteFile env p1 f = Inr (None, p2)" "disk_inv env p2"
    "\<And>g. disk_rows p2 g = (if g = f then None else disk_rows p g)" "\<And>k. disk_room p1 k \<Longrightarrow> disk_room p2 k"
    using DeleteFile_pool [OF inv1, of f] rows1 by auto
  obtain rs where rs: "disk_rows p ?M = Some rs" "\<forall>r \<in> set rs. mapping_data (snd r)" using m by (auto simp: mapping_inv_def)
  have "(n, f) \<in> set (mapping_entries p)" using n by (simp add: disk_names_def map_of_SomeD)
  then have fM: "f \<noteq> ?M" using m by (force simp: mapping_inv_def)
  then have rs2: "disk_rows p2 ?M = Some rs" using rs(1) p2(3) by simp
  then have e2: "mapping_entries p2 = mapping_entries p" using mapping_entries_eq [OF rs2] mapping_entries_eq [OF rs(1)] by simp
  obtain p3 where p3: "DeleteMapping env p2 n = Inr (True, p3)" "disk_inv env p3" "\<forall>k. disk_room p2 k \<longrightarrow> disk_room p3 k"
    "disk_rows p3 = (disk_rows p2)(?M \<mapsto> filter (\<lambda>r. fst (decode_mapping (snd r)) \<noteq> n) rs)"
    using DeleteMapping_ok [OF p2(2) rs2 rs(2), of n] m n e2 unfolding mapping_inv_def disk_names_def by auto
  have rows3: "disk_rows p3 g = (if g = f then None else
      if g = ?M then Some (filter (\<lambda>r. fst (decode_mapping (snd r)) \<noteq> n) rs) else disk_rows p g)" for g
    using fM p2(3) by (simp add: p3(4))
  have "disk_DeleteTable env p n = Inr (True, p3)" using g(1) p2(1) p3(1) by (simp add: disk_DeleteTable_def)
  moreover have "disk_room p3 k" if "disk_room p k" for k
    using p3(3) p2(4) disk_roomy.room_same [OF g(2) inv that] by blast
  ultimately show ?thesis using p3(2) mapping_inv_removed [OF m n rs(1) rows3] rows3 by auto
qed

end
