(* ===== verification/Catalog.thy ===== *)
theory Catalog
  imports Table_Factory
begin

text \<open>
  The catalog (\<open>catalog.h\<close>, \<open>catalog.cpp\<close>): which tables there are, of which kind and with which columns.
  It keeps this twice: as rows of two tables of the default storage engine, which outlive the process,
  and in memory as \<open>table_info_m\<close>, filled from those rows by the constructor. The \<open>unordered_map\<close> is
  never iterated, so it is a map. \<open>henv\<close> is the heap the rows are built in, \<open>ops\<close> are the virtual
  functions of the tables and \<open>fa\<close> those of the factory the catalog is constructed with.
\<close>

section \<open>State\<close>

record TableInfo =
  ti_type :: TableType
  ti_schema :: Schema

record 't Catalog =
  table_info_m :: "string \<rightharpoonup> TableInfo"
  table_catalog_table_m :: "'t TableHandle"
  column_catalog_table_m :: "'t TableHandle"

definition table_catalog_schema :: Schema where
  "table_catalog_schema =
     [\<lparr>ra_name = ''table_name'', ra_type = type_id String_type\<rparr>,
      \<lparr>ra_name = ''type'', ra_type = type_id I32_type\<rparr>,
      \<lparr>ra_name = ''num_attributes'', ra_type = type_id I32_type\<rparr>]"

definition column_catalog_schema :: Schema where
  "column_catalog_schema =
     [\<lparr>ra_name = ''attr_name'', ra_type = type_id String_type\<rparr>,
      \<lparr>ra_name = ''rel_name'', ra_type = type_id String_type\<rparr>,
      \<lparr>ra_name = ''type'', ra_type = type_id I32_type\<rparr>,
      \<lparr>ra_name = ''position'', ra_type = type_id I32_type\<rparr>]"

abbreviation TABLE_CATALOG_TABLE_NAME :: string where "TABLE_CATALOG_TABLE_NAME \<equiv> ''table_catalog''"
abbreviation COLUMN_CATALOG_TABLE_NAME :: string where "COLUMN_CATALOG_TABLE_NAME \<equiv> ''column_catalog''"

text \<open>The casts between \<open>TableType\<close>, whose enumerators are 0 and 1, and \<open>int32_t\<close>.\<close>

primrec TableType_int :: "TableType \<Rightarrow> 32 word" where
  "TableType_int InMemory = 0"
| "TableType_int Disk = 1"
| "TableType_int (OtherTableType i) = i"

definition int_TableType :: "32 word \<Rightarrow> TableType" where
  "int_TableType i = (if i = 0 then InMemory else if i = 1 then Disk else OtherTableType i)"

text \<open>
  \<open>std::vector<RelationAttribute>(n)\<close>, where \<open>n\<close> was cast to \<open>size_t\<close>: a negative number is larger than any
  vector and throws. That the memory suffices otherwise is taken for granted here.
\<close>

definition blank_schema :: "32 word \<Rightarrow> Schema outcome" where
  "blank_schema n = (if sint n < 0 then Inl LengthError else Inr (replicate (unat n) \<lparr>ra_name = [], ra_type = 0\<rparr>))"

section \<open>Loading\<close>

definition load_table_row :: "Row \<Rightarrow> (string \<rightharpoonup> TableInfo) \<Rightarrow> ((string \<rightharpoonup> TableInfo) \<times> bool) outcome" where
  "load_table_row row info =
     (let rr = snd row
      in andthen (Get_String rr table_catalog_schema 0) (\<lambda>table_name.
         andthen (Get_I32 rr table_catalog_schema 1) (\<lambda>table_type_int.
         andthen (Get_I32 rr table_catalog_schema 2) (\<lambda>num_attributes.
         andthen (blank_schema num_attributes) (\<lambda>schema.
         Inr (info(table_name \<mapsto> \<lparr>ti_type = int_TableType table_type_int, ti_schema = schema\<rparr>), False))))))"

definition LoadTableSchemas :: "('w, 't, 'i) Table \<Rightarrow> 'w \<Rightarrow> 't Catalog \<Rightarrow> ('t Catalog \<times> 'w) outcome" where
  "LoadTableSchemas ops w c =
     andthen (for_rows ops load_table_row w (storage_m (table_catalog_table_m c)) (table_info_m c)) (\<lambda>(info, w).
     Inr (c\<lparr>table_info_m := info\<rparr>, w))"

text \<open>\<open>operator[]\<close> of the map creates a missing entry with an empty schema; of the vector it is undefined out of range.\<close>

definition load_column_row :: "Row \<Rightarrow> (string \<rightharpoonup> TableInfo) \<Rightarrow> ((string \<rightharpoonup> TableInfo) \<times> bool) outcome" where
  "load_column_row row info =
     (let rr = snd row
      in andthen (Get_String rr column_catalog_schema 0) (\<lambda>attribute_name.
         andthen (Get_String rr column_catalog_schema 1) (\<lambda>relation_name.
         andthen (Get_I32 rr column_catalog_schema 2) (\<lambda>attribute_type.
         if \<not> IsValidTypeId (sint attribute_type) then Inl RuntimeError
         else
           andthen (Get_I32 rr column_catalog_schema 3) (\<lambda>position.
           let ti = (case info relation_name of None \<Rightarrow> \<lparr>ti_type = InMemory, ti_schema = []\<rparr> | Some ti \<Rightarrow> ti)
           in if sint position < 0 \<or> length (ti_schema ti) \<le> unat position then Inl Undefined
              else Inr (info(relation_name \<mapsto> ti\<lparr>ti_schema := (ti_schema ti)[unat position :=
                     \<lparr>ra_name = attribute_name, ra_type = ucast attribute_type\<rparr>]\<rparr>), False))))))"

definition LoadColumnSchemas :: "('w, 't, 'i) Table \<Rightarrow> 'w \<Rightarrow> 't Catalog \<Rightarrow> ('t Catalog \<times> 'w) outcome" where
  "LoadColumnSchemas ops w c =
     andthen (for_rows ops load_column_row w (storage_m (column_catalog_table_m c)) (table_info_m c)) (\<lambda>(info, w).
     Inr (c\<lparr>table_info_m := info\<rparr>, w))"

section \<open>Construction\<close>

definition table_values :: "string \<Rightarrow> TableType \<Rightarrow> Schema \<Rightarrow> Value list" where
  "table_values table_name table_type schema =
     [String table_name, I32 (TableType_int table_type), I32 (of_nat (length schema))]"

definition column_values :: "string \<Rightarrow> RelationAttribute \<Rightarrow> nat \<Rightarrow> Value list" where
  "column_values table_name attribute position =
     [String (ra_name attribute), String table_name, I32 (ucast (ra_type attribute)), I32 (of_nat position)]"

text \<open>The loops that insert one row per column, numbering them from \<open>position\<close>.\<close>

primrec insert_columns :: "heap_env \<Rightarrow> ('w, 't, 'i) Table \<Rightarrow> 't TableHandle \<Rightarrow> string \<Rightarrow> Schema \<Rightarrow> nat \<Rightarrow> 'w \<Rightarrow> 'w outcome" where
  "insert_columns henv ops h table_name [] position w = Inr w"
| "insert_columns henv ops h table_name (attribute # rest) position w =
     andthen (TableHandle_insert_row henv ops w h (column_values table_name attribute position)) (\<lambda>(_, w).
     insert_columns henv ops h table_name rest (position + 1) w)"

definition InitializeTableCatalogTable :: "heap_env \<Rightarrow> ('w, 't, 'i) Table \<Rightarrow> 'w \<Rightarrow> 't TableHandle \<Rightarrow> 'w outcome" where
  "InitializeTableCatalogTable henv ops w h =
     andthen (TableHandle_insert_row henv ops w h (table_values ''table_catalog'' InMemory table_catalog_schema)) (\<lambda>(_, w).
     andthen (TableHandle_insert_row henv ops w h (table_values ''column_catalog'' InMemory column_catalog_schema)) (\<lambda>(_, w).
     Inr w))"

definition InitializeColumnCatalogTable :: "heap_env \<Rightarrow> ('w, 't, 'i) Table \<Rightarrow> 'w \<Rightarrow> 't TableHandle \<Rightarrow> 'w outcome" where
  "InitializeColumnCatalogTable henv ops w h =
     andthen (insert_columns henv ops h ''table_catalog'' table_catalog_schema 0 w) (\<lambda>w.
     insert_columns henv ops h ''column_catalog'' column_catalog_schema 0 w)"

text \<open>A factory call that returns false or a null table makes the constructor throw.\<close>

definition ensure_table :: "('w, 't) TableFactory \<Rightarrow> 'w \<Rightarrow> string \<Rightarrow> (bool \<times> 'w) outcome" where
  "ensure_table fa w table_name =
     andthen (fa_TableExists fa w table_name) (\<lambda>(present, w).
     if present then Inr (False, w)
     else andthen (fa_CreateTable fa w table_name) (\<lambda>(created, w). if created then Inr (True, w) else Inl RuntimeError))"

definition must_get :: "('w, 't) TableFactory \<Rightarrow> 'w \<Rightarrow> string \<Rightarrow> Schema \<Rightarrow> ('t TableHandle \<times> 'w) outcome" where
  "must_get fa w table_name schema =
     andthen (fa_GetTable fa w table_name) (\<lambda>(t, w).
     case t of None \<Rightarrow> Inl RuntimeError | Some t \<Rightarrow> Inr (\<lparr>storage_m = t, schema_m = schema\<rparr>, w))"

definition CreateCatalogTables ::
    "heap_env \<Rightarrow> ('w, 't, 'i) Table \<Rightarrow> ('w, 't) TableFactory \<Rightarrow> 'w \<Rightarrow> ('t Catalog \<times> 'w) outcome" where
  "CreateCatalogTables henv ops fa w =
     andthen (ensure_table fa w TABLE_CATALOG_TABLE_NAME) (\<lambda>(table_catalog_new, w).
     andthen (ensure_table fa w COLUMN_CATALOG_TABLE_NAME) (\<lambda>(column_catalog_new, w).
     andthen (must_get fa w TABLE_CATALOG_TABLE_NAME table_catalog_schema) (\<lambda>(ht, w).
     andthen (must_get fa w COLUMN_CATALOG_TABLE_NAME column_catalog_schema) (\<lambda>(hc, w).
     andthen (if table_catalog_new then InitializeTableCatalogTable henv ops w ht else Inr w) (\<lambda>w.
     andthen (if column_catalog_new then InitializeColumnCatalogTable henv ops w hc else Inr w) (\<lambda>w.
     Inr (\<lparr>table_info_m = Map.empty, table_catalog_table_m = ht, column_catalog_table_m = hc\<rparr>, w)))))))"

definition Catalog_new ::
    "heap_env \<Rightarrow> ('w, 't, 'i) Table \<Rightarrow> ('w, 't) TableFactory \<Rightarrow> 'w \<Rightarrow> ('t Catalog \<times> 'w) outcome" where
  "Catalog_new henv ops fa w =
     andthen (CreateCatalogTables henv ops fa w) (\<lambda>(c, w).
     andthen (LoadTableSchemas ops w c) (\<lambda>(c, w).
     LoadColumnSchemas ops w c))"

section \<open>Operations\<close>

definition AddTable :: "heap_env \<Rightarrow> ('w, 't, 'i) Table \<Rightarrow> 'w \<Rightarrow> 't Catalog \<Rightarrow> string \<Rightarrow> TableType \<Rightarrow> Schema \<Rightarrow>
    (bool \<times> 't Catalog \<times> 'w) outcome" where
  "AddTable henv ops w c table_name table_type schema =
     (if table_info_m c table_name \<noteq> None then Inr (False, c, w)
      else
        andthen (TableHandle_insert_row henv ops w (table_catalog_table_m c) (table_values table_name table_type schema)) (\<lambda>(_, w).
        andthen (insert_columns henv ops (column_catalog_table_m c) table_name schema 0 w) (\<lambda>w.
        Inr (True, c\<lparr>table_info_m := (table_info_m c)(table_name \<mapsto> \<lparr>ti_type = table_type, ti_schema = schema\<rparr>)\<rparr>, w))))"

primrec delete_rows :: "('w, 't, 'i) Table \<Rightarrow> 't TableHandle \<Rightarrow> row_id_t list \<Rightarrow> 'w \<Rightarrow> 'w outcome" where
  "delete_rows ops h [] w = Inr w"
| "delete_rows ops h (rid # rids) w = andthen (TableHandle_delete_row ops w h rid) (delete_rows ops h rids)"

definition RemoveTable :: "('w, 't, 'i) Table \<Rightarrow> 'w \<Rightarrow> 't Catalog \<Rightarrow> string \<Rightarrow> (bool \<times> 't Catalog \<times> 'w) outcome" where
  "RemoveTable ops w c table_name =
     (if table_info_m c table_name = None then Inr (False, c, w)
      else
        andthen (for_rows ops (\<lambda>(row_id, row_data) to_delete.
          andthen (Get_String row_data column_catalog_schema 1) (\<lambda>name.
          Inr (if name = table_name then to_delete @ [row_id] else to_delete, False)))
          w (storage_m (column_catalog_table_m c)) []) (\<lambda>(to_delete, w).
        andthen (delete_rows ops (column_catalog_table_m c) to_delete w) (\<lambda>w.
        andthen (for_rows ops (\<lambda>(row_id, row_data) table_rid.
          andthen (Get_String row_data table_catalog_schema 0) (\<lambda>name.
          if name = table_name then Inr (Some row_id, True) else Inr (table_rid, False)))
          w (storage_m (table_catalog_table_m c)) None) (\<lambda>(table_rid, w).
        andthen (case table_rid of
            None \<Rightarrow> Inr w
          | Some rid \<Rightarrow> TableHandle_delete_row ops w (table_catalog_table_m c) rid) (\<lambda>w.
        Inr (True, c\<lparr>table_info_m := (table_info_m c)(table_name := None)\<rparr>, w))))))"

definition catalog_TableExists :: "'t Catalog \<Rightarrow> string \<Rightarrow> bool" where
  "catalog_TableExists c table_name \<longleftrightarrow> table_info_m c table_name \<noteq> None"

definition GetSchema :: "'t Catalog \<Rightarrow> string \<Rightarrow> Schema outcome" where
  "GetSchema c table_name =
     (case table_info_m c table_name of None \<Rightarrow> Inl AssertionFailed | Some ti \<Rightarrow> Inr (ti_schema ti))"

definition GetTableType :: "'t Catalog \<Rightarrow> string \<Rightarrow> TableType outcome" where
  "GetTableType c table_name =
     (case table_info_m c table_name of None \<Rightarrow> Inl AssertionFailed | Some ti \<Rightarrow> Inr (ti_type ti))"

end
