(* ===== verification/Catalog_Spec.thy ===== *)
theory Catalog_Spec
  imports Catalog
begin

text \<open>
  The catalog's promise: the rows of its two tables and the map in memory say the same. Adding and
  removing a table keeps it so, and constructing the catalog again from the rows gives the same map.
  Proved once for every factory that keeps the contract of \<open>Table_Factory\<close>.
\<close>

section \<open>Rows of the catalog tables\<close>

definition table_row :: "string \<Rightarrow> TableInfo \<Rightarrow> byte list" where
  "table_row n ti = row_bytes (table_values n (ti_type ti) (ti_schema ti))"

definition column_row :: "string \<Rightarrow> RelationAttribute \<Rightarrow> nat \<Rightarrow> byte list" where
  "column_row n a i = row_bytes (column_values n a i)"

text \<open>What a table may look like for its rows to have at most \<open>m\<close> bytes and to survive the casts.\<close>

definition table_ok :: "nat \<Rightarrow> string \<Rightarrow> TableInfo \<Rightarrow> bool" where
  "table_ok m n ti \<longleftrightarrow> length n \<le> 65535 \<and> length n + 10 \<le> m \<and> (ti_type ti = InMemory \<or> ti_type ti = Disk) \<and>
     length (ti_schema ti) < 2 ^ 31 \<and>
     (\<forall>a \<in> set (ti_schema ti). IsValidTypeId (uint (ra_type a)) \<and> length (ra_name a) \<le> 65535 \<and>
        length (ra_name a) + length n + 12 \<le> m)"

definition info_ok :: "nat \<Rightarrow> (string \<rightharpoonup> TableInfo) \<Rightarrow> bool" where
  "info_ok m info \<longleftrightarrow> (\<forall>n ti. info n = Some ti \<longrightarrow> table_ok m n ti)"

lemma table_fits:
  assumes "table_ok m n ti"
  shows "fits_schema table_catalog_schema (table_values n (ti_type ti) (ti_schema ti))" and "length (table_row n ti) \<le> m"
  using assms by (simp_all add: table_ok_def fits_schema_def table_catalog_schema_def table_values_def table_row_def)

lemma column_fits:
  assumes "table_ok m n ti" and "a \<in> set (ti_schema ti)"
  shows "fits_schema column_catalog_schema (column_values n a i)" and "length (column_row n a i) \<le> m"
  using assms by (auto simp: table_ok_def fits_schema_def column_catalog_schema_def column_values_def column_row_def)

lemma table_columns:
  assumes "table_ok m n ti"
  shows "Get_String (table_row n ti) table_catalog_schema 0 = Inr n"
    and "Get_I32 (table_row n ti) table_catalog_schema 1 = Inr (TableType_int (ti_type ti))"
    and "Get_I32 (table_row n ti) table_catalog_schema 2 = Inr (of_nat (length (ti_schema ti)))"
  using Get_typed_row [OF table_fits(1) [OF assms]] by (simp_all add: table_row_def table_values_def)

lemma column_columns:
  assumes "table_ok m n ti" and "a \<in> set (ti_schema ti)"
  shows "Get_String (column_row n a i) column_catalog_schema 0 = Inr (ra_name a)"
    and "Get_String (column_row n a i) column_catalog_schema 1 = Inr n"
    and "Get_I32 (column_row n a i) column_catalog_schema 2 = Inr (ucast (ra_type a))"
    and "Get_I32 (column_row n a i) column_catalog_schema 3 = Inr (of_nat i)"
  using Get_typed_row [OF column_fits(1) [OF assms]] by (simp_all add: column_row_def column_values_def)

definition row_table :: "byte list \<Rightarrow> string" where
  "row_table data = (case Get_String data table_catalog_schema 0 of Inr n \<Rightarrow> n | Inl _ \<Rightarrow> [])"

definition row_relation :: "byte list \<Rightarrow> string" where
  "row_relation data = (case Get_String data column_catalog_schema 1 of Inr n \<Rightarrow> n | Inl _ \<Rightarrow> [])"

lemma row_names:
  "table_ok m n ti \<Longrightarrow> row_table (table_row n ti) = n"
  "table_ok m n ti \<Longrightarrow> a \<in> set (ti_schema ti) \<Longrightarrow> row_relation (column_row n a i) = n"
  by (simp_all add: row_table_def row_relation_def table_columns column_columns del: One_nat_def)

text \<open>The rows that belong to a map.\<close>

definition all_table_rows :: "(string \<rightharpoonup> TableInfo) \<Rightarrow> byte list set" where
  "all_table_rows info = {table_row n ti | n ti. info n = Some ti}"

definition all_column_rows :: "(string \<rightharpoonup> TableInfo) \<Rightarrow> byte list set" where
  "all_column_rows info = {column_row n (ti_schema ti ! i) i | n ti i. info n = Some ti \<and> i < length (ti_schema ti)}"

definition table_rows_ok :: "(string \<rightharpoonup> TableInfo) \<Rightarrow> Row list \<Rightarrow> bool" where
  "table_rows_ok info rs \<longleftrightarrow> snd ` set rs = all_table_rows info \<and> distinct (map (\<lambda>r. row_table (snd r)) rs)"

definition column_rows_ok :: "(string \<rightharpoonup> TableInfo) \<Rightarrow> Row list \<Rightarrow> bool" where
  "column_rows_ok info rs \<longleftrightarrow> snd ` set rs = all_column_rows info"

lemma all_rows_upd:
  assumes "info n = None"
  shows "all_table_rows (info(n \<mapsto> ti)) = insert (table_row n ti) (all_table_rows info)"
    and "all_column_rows (info(n \<mapsto> ti)) =
      all_column_rows info \<union> {column_row n (ti_schema ti ! i) i | i. i < length (ti_schema ti)}"
proof -
  have e: "(info(n \<mapsto> ti)) k = Some tk \<longleftrightarrow> k = n \<and> tk = ti \<or> info k = Some tk" for k tk using assms by auto
  show "all_table_rows (info(n \<mapsto> ti)) = insert (table_row n ti) (all_table_rows info)"
    "all_column_rows (info(n \<mapsto> ti)) =
      all_column_rows info \<union> {column_row n (ti_schema ti ! i) i | i. i < length (ti_schema ti)}"
    unfolding all_table_rows_def all_column_rows_def e by blast+
qed

lemma all_table_rows_remove:
  assumes "info_ok m info"
  shows "all_table_rows (info(n := None)) = {d \<in> all_table_rows info. row_table d \<noteq> n}"
proof -
  have "row_table (table_row k ti) = k" if "info k = Some ti" for k ti
    using that assms row_names(1) unfolding info_ok_def by blast
  then show ?thesis by (auto simp: all_table_rows_def)
qed

lemma all_column_rows_remove:
  assumes "info_ok m info"
  shows "all_column_rows (info(n := None)) = {d \<in> all_column_rows info. row_relation d \<noteq> n}"
proof -
  have "row_relation (column_row k (ti_schema ti ! i) i) = k" if "info k = Some ti" "i < length (ti_schema ti)" for k ti i
    using that assms row_names(2) [of m k ti "ti_schema ti ! i" i] by (auto simp: info_ok_def)
  note name = this
  show ?thesis
  proof (intro set_eqI iffI)
    fix d assume "d \<in> all_column_rows (info(n := None))"
    then obtain k ti i where "info k = Some ti" "k \<noteq> n" "i < length (ti_schema ti)" "d = column_row k (ti_schema ti ! i) i"
      by (auto simp: all_column_rows_def split: if_splits)
    then show "d \<in> {d \<in> all_column_rows info. row_relation d \<noteq> n}" using name by (auto simp: all_column_rows_def)
  next
    fix d assume "d \<in> {d \<in> all_column_rows info. row_relation d \<noteq> n}"
    then obtain k ti i where "info k = Some ti" "i < length (ti_schema ti)" "d = column_row k (ti_schema ti ! i) i" "row_relation d \<noteq> n"
      by (auto simp: all_column_rows_def)
    then show "d \<in> all_column_rows (info(n := None))"
      using name unfolding all_column_rows_def by (intro CollectI exI [of _ k] exI [of _ ti] exI [of _ i]) auto
  qed
qed

section \<open>Loading\<close>

abbreviation blank :: "TableInfo \<Rightarrow> TableInfo" where
  "blank ti \<equiv> ti\<lparr>ti_schema := replicate (length (ti_schema ti)) \<lparr>ra_name = [], ra_type = 0\<rparr>\<rparr>"

lemma load_table_row_ok:
  assumes "table_ok m n ti"
  shows "load_table_row (rid, table_row n ti) info = Inr (info(n \<mapsto> blank ti), False)"
proof -
  have len: "length (ti_schema ti) < 2 ^ 31" and ty: "ti_type ti = InMemory \<or> ti_type ti = Disk"
    using assms by (simp_all add: table_ok_def)
  have u: "unat (of_nat (length (ti_schema ti)) :: 32 word) = length (ti_schema ti)"
    using len by (intro unat_of_nat_32) simp
  then have "\<not> sint (of_nat (length (ti_schema ti)) :: 32 word) < 0" using sint_unat [of "of_nat (length (ti_schema ti)) :: 32 word"] len by simp
  then show ?thesis
    using ty u table_columns [OF assms]
    by (auto simp: load_table_row_def blank_schema_def int_TableType_def Let_def)
qed

lemma load_tables:
  assumes "info_ok m info" and "\<forall>r \<in> set rs. snd r \<in> all_table_rows info"
  shows "row_loop load_table_row rs acc =
    Inr (\<lambda>n. if n \<in> row_table ` snd ` set rs then map_option blank (info n) else acc n)"
  using assms(2)
proof (induction rs arbitrary: acc)
  case (Cons r rs)
  then obtain n ti where r: "snd r = table_row n ti" "info n = Some ti" by (auto simp: all_table_rows_def)
  then have ok: "table_ok m n ti" using assms(1) by (simp add: info_ok_def)
  have "load_table_row r acc = Inr (acc(n \<mapsto> blank ti), False)"
    using load_table_row_ok [OF ok, of "fst r"] r(1) by (metis prod.collapse)
  then show ?case using Cons row_names(1) [OF ok] r by (auto simp: fun_eq_iff)
qed simp

text \<open>The map while the columns are being loaded: those in \<open>seen\<close> are filled in.\<close>

definition filled :: "(string \<rightharpoonup> TableInfo) \<Rightarrow> (string \<times> nat) set \<Rightarrow> (string \<rightharpoonup> TableInfo) \<Rightarrow> bool" where
  "filled info seen acc \<longleftrightarrow> dom acc = dom info \<and>
     (\<forall>n ti. info n = Some ti \<longrightarrow> (\<exists>s. acc n = Some (ti\<lparr>ti_schema := s\<rparr>) \<and> length s = length (ti_schema ti) \<and>
        (\<forall>i < length s. (n, i) \<in> seen \<longrightarrow> s ! i = ti_schema ti ! i)))"

lemma load_column_row_ok:
  assumes ok: "table_ok m n ti" and n: "info n = Some ti" and i: "i < length (ti_schema ti)" and f: "filled info seen acc"
  shows "\<exists>acc'. load_column_row (rid, column_row n (ti_schema ti ! i) i) acc = Inr (acc', False) \<and>
    filled info (insert (n, i) seen) acc'"
proof -
  let ?a = "ti_schema ti ! i"
  have a: "?a \<in> set (ti_schema ti)" using i by simp
  obtain s where s: "acc n = Some (ti\<lparr>ti_schema := s\<rparr>)" "length s = length (ti_schema ti)"
    "\<forall>i < length s. (n, i) \<in> seen \<longrightarrow> s ! i = ti_schema ti ! i"
    using f n unfolding filled_def by blast
  have small: "i < 2 ^ 31" using i ok by (simp add: table_ok_def)
  then have u: "unat (of_nat i :: 32 word) = i" by (intro unat_of_nat_32) simp
  then have si: "\<not> sint (of_nat i :: 32 word) < 0" using sint_unat [of "of_nat i :: 32 word"] small by simp
  have ut: "unat (ucast (ra_type ?a) :: 32 word) = unat (ra_type ?a)" by (simp add: unat_ucast_up)
  then have "sint (ucast (ra_type ?a) :: 32 word) = int (unat (ra_type ?a))"
    using sint_unat [of "ucast (ra_type ?a) :: 32 word"] unat_less_8 [of "ra_type ?a"] by simp
  then have vt: "IsValidTypeId (sint (ucast (ra_type ?a) :: 32 word))" using ok a by (simp add: table_ok_def)
  have bk: "(ucast (ucast (ra_type ?a) :: 32 word) :: 8 word) = ra_type ?a"
    by (rule bit_word_eqI) (simp add: bit_simps)
  let ?s = "s[i := ?a]"
  have eta: "\<lparr>ra_name = ra_name ?a, ra_type = ra_type ?a\<rparr> = ?a" by simp
  have "load_column_row (rid, column_row n ?a i) acc =
      Inr (acc(n \<mapsto> ti\<lparr>ti_schema := s[i := \<lparr>ra_name = ra_name ?a, ra_type = ra_type ?a\<rparr>]\<rparr>), False)"
    using column_columns [OF ok a, of i] vt si u s(1,2) i bk by (simp add: load_column_row_def Let_def)
  then have run: "load_column_row (rid, column_row n ?a i) acc = Inr (acc(n \<mapsto> ti\<lparr>ti_schema := ?s\<rparr>), False)" unfolding eta .
  have "filled info (insert (n, i) seen) (acc(n \<mapsto> ti\<lparr>ti_schema := ?s\<rparr>))"
    unfolding filled_def
  proof (intro conjI allI impI)
    show "dom (acc(n \<mapsto> ti\<lparr>ti_schema := ?s\<rparr>)) = dom info" using f n by (auto simp: filled_def)
  next
    fix k tk assume k: "info k = Some tk"
    show "\<exists>s'. (acc(n \<mapsto> ti\<lparr>ti_schema := ?s\<rparr>)) k = Some (tk\<lparr>ti_schema := s'\<rparr>) \<and> length s' = length (ti_schema tk) \<and>
        (\<forall>j < length s'. (k, j) \<in> insert (n, i) seen \<longrightarrow> s' ! j = ti_schema tk ! j)"
    proof (cases "k = n")
      case True
      then show ?thesis using k n s i by (intro exI [of _ ?s]) (auto simp: nth_list_update)
    next
      case False
      then show ?thesis using f k by (auto simp: filled_def)
    qed
  qed
  then show ?thesis using run by blast
qed

lemma load_columns:
  assumes ok: "info_ok m info" and "\<forall>r \<in> set rs. snd r \<in> all_column_rows info" and "filled info seen acc"
  shows "\<exists>acc'. row_loop load_column_row rs acc = Inr acc' \<and>
    (\<exists>seen'. filled info (seen \<union> seen') acc' \<and> (\<forall>n ti i. info n = Some ti \<and> i < length (ti_schema ti) \<and>
       column_row n (ti_schema ti ! i) i \<in> snd ` set rs \<longrightarrow> (n, i) \<in> seen \<union> seen'))"
  using assms(2,3)
proof (induction rs arbitrary: seen acc)
  case Nil
  then show ?case by (auto intro!: exI [of _ "{}"])
next
  case (Cons r rs)
  then obtain n ti i where r: "snd r = column_row n (ti_schema ti ! i) i" "info n = Some ti" "i < length (ti_schema ti)"
    by (auto simp: all_column_rows_def)
  have tok: "table_ok m n ti" using ok r(2) by (simp add: info_ok_def)
  obtain acc1 where a: "load_column_row r acc = Inr (acc1, False)" "filled info (insert (n, i) seen) acc1"
    using load_column_row_ok [OF tok r(2,3) Cons.prems(2), of "fst r"] r(1) by (metis prod.collapse)
  obtain acc' seen' where IH: "row_loop load_column_row rs acc1 = Inr acc'" "filled info (insert (n, i) seen \<union> seen') acc'"
    "\<forall>n' ti i'. info n' = Some ti \<and> i' < length (ti_schema ti) \<and> column_row n' (ti_schema ti ! i') i' \<in> snd ` set rs \<longrightarrow>
       (n', i') \<in> insert (n, i) seen \<union> seen'"
    using Cons.IH [OF _ a(2)] Cons.prems(1) by auto
  have same: "k = n \<and> j = i" if "info k = Some tk" "j < length (ti_schema tk)" "column_row k (ti_schema tk ! j) j = snd r" for k tk j
  proof -
    have kok: "table_ok m k tk" using ok that(1) by (simp add: info_ok_def)
    have "Get_String (snd r) column_catalog_schema 1 = Inr k" "Get_I32 (snd r) column_catalog_schema 3 = Inr (of_nat j)"
      using column_columns(2,4) [OF kok, of "ti_schema tk ! j" j] that(2,3) by simp_all
    moreover have "Get_String (snd r) column_catalog_schema 1 = Inr n" "Get_I32 (snd r) column_catalog_schema 3 = Inr (of_nat i)"
      using column_columns(2,4) [OF tok, of "ti_schema ti ! i" i] r(1,3) by simp_all
    ultimately have "k = n" "(of_nat j :: 32 word) = of_nat i" by simp_all
    moreover have "unat (of_nat j :: 32 word) = j" "unat (of_nat i :: 32 word) = i"
      using that(2) kok r(3) tok by (simp_all add: table_ok_def unat_of_nat_32)
    ultimately show ?thesis by metis
  qed
  have "filled info (seen \<union> insert (n, i) seen') acc'" using IH(2) by simp
  moreover have "(k, j) \<in> seen \<union> insert (n, i) seen'"
    if k: "info k = Some tk" "j < length (ti_schema tk)" "column_row k (ti_schema tk ! j) j \<in> snd ` set (r # rs)" for k tk j
  proof (cases "column_row k (ti_schema tk ! j) j = snd r")
    case True
    then show ?thesis using same k(1,2) by simp
  next
    case False
    then have "column_row k (ti_schema tk ! j) j \<in> snd ` set rs" using k(3) by simp
    then show ?thesis using IH(3) k(1,2) by blast
  qed
  ultimately show ?case using a(1) IH(1) by (intro exI [of _ acc'] conjI exI [of _ "insert (n, i) seen'"]) auto
qed

text \<open>Loading the rows of a map gives the map.\<close>

lemma load_catalog:
  assumes ok: "info_ok m info" and t: "table_rows_ok info ts" and c: "column_rows_ok info cs"
  shows "andthen (row_loop load_table_row ts Map.empty) (row_loop load_column_row cs) = Inr info"
proof -
  have names: "row_table ` snd ` set ts = dom info"
  proof -
    have "row_table (table_row n ti) = n" if "info n = Some ti" for n ti
      using that ok row_names(1) unfolding info_ok_def by blast
    then have "row_table ` all_table_rows info = dom info" unfolding all_table_rows_def by (auto simp: image_iff) metis
    then show ?thesis using t by (simp add: table_rows_ok_def)
  qed
  have "\<forall>r \<in> set ts. snd r \<in> all_table_rows info" using t by (auto simp: table_rows_ok_def)
  from load_tables [OF ok this, of Map.empty]
  have lt: "row_loop load_table_row ts Map.empty = Inr (\<lambda>n. map_option blank (info n))"
    unfolding names by (auto simp: fun_eq_iff domIff)
  have start: "filled info {} (\<lambda>n. map_option blank (info n))" by (auto simp: filled_def)
  have sub: "\<forall>r \<in> set cs. snd r \<in> all_column_rows info" using c by (auto simp: column_rows_ok_def)
  obtain acc' seen' where l: "row_loop load_column_row cs (\<lambda>n. map_option blank (info n)) = Inr acc'" "filled info ({} \<union> seen') acc'"
    and h: "\<forall>n ti i. info n = Some ti \<and> i < length (ti_schema ti) \<and> column_row n (ti_schema ti ! i) i \<in> snd ` set cs \<longrightarrow> (n, i) \<in> {} \<union> seen'"
    using load_columns [OF ok sub start] by (elim exE conjE) (rule that; assumption)
  have all: "(n, i) \<in> seen'" if "info n = Some ti" "i < length (ti_schema ti)" for n ti i
  proof -
    have "column_row n (ti_schema ti ! i) i \<in> snd ` set cs"
      using that c unfolding column_rows_ok_def all_column_rows_def by blast
    then show ?thesis using h that by blast
  qed
  have "acc' n = info n" for n
  proof (cases "info n")
    case None
    then show ?thesis using l(2) by (auto simp: filled_def)
  next
    case (Some ti)
    then obtain s where s: "acc' n = Some (ti\<lparr>ti_schema := s\<rparr>)" "length s = length (ti_schema ti)"
      "\<forall>i < length s. (n, i) \<in> seen' \<longrightarrow> s ! i = ti_schema ti ! i"
      using l(2) unfolding filled_def Un_empty_left by blast
    then have "s = ti_schema ti" using all Some by (intro nth_equalityI) auto
    then show ?thesis using s(1) Some by simp
  qed
  then have "acc' = info" by (rule ext)
  then show ?thesis using lt l(1) by simp
qed

section \<open>The catalog over a factory\<close>

text \<open>
  In world \<open>w\<close> the tables \<open>t1\<close> and \<open>t2\<close> are the factory's catalog tables and hold the rows of \<open>info\<close>.
\<close>

definition stored :: "('w \<Rightarrow> string \<rightharpoonup> 't) \<Rightarrow> ('w \<Rightarrow> 't \<rightharpoonup> Row list) \<Rightarrow> 'w \<Rightarrow> 't \<Rightarrow> 't \<Rightarrow> (string \<rightharpoonup> TableInfo) \<Rightarrow> bool" where
  "stored names rows w t1 t2 info \<longleftrightarrow> names w TABLE_CATALOG_TABLE_NAME = Some t1 \<and> names w COLUMN_CATALOG_TABLE_NAME = Some t2 \<and>
     (\<exists>ts. rows w t1 = Some ts \<and> table_rows_ok info ts) \<and> (\<exists>cs. rows w t2 = Some cs \<and> column_rows_ok info cs)"

definition catalog_ok :: "('w \<Rightarrow> string \<rightharpoonup> 't) \<Rightarrow> ('w \<Rightarrow> 't \<rightharpoonup> Row list) \<Rightarrow> nat \<Rightarrow> 'w \<Rightarrow> 't Catalog \<Rightarrow> bool" where
  "catalog_ok names rows m w c \<longleftrightarrow> schema_m (table_catalog_table_m c) = table_catalog_schema \<and>
     schema_m (column_catalog_table_m c) = column_catalog_schema \<and> info_ok m (table_info_m c) \<and>
     stored names rows w (storage_m (table_catalog_table_m c)) (storage_m (column_catalog_table_m c)) (table_info_m c)"

lemma map_snd_insert: "snd ` set (pre @ (rid, row) # post) = insert row (snd ` set (pre @ post))"
  by auto

context factory
begin

lemma load_ok:
  assumes inv: "finv w" and s: "stored names rows w t1 t2 info" and ok: "info_ok m info"
    and h: "storage_m ht = t1" "storage_m hc = t2"
  shows "\<exists>w'. andthen (LoadTableSchemas ops w \<lparr>table_info_m = Map.empty, table_catalog_table_m = ht, column_catalog_table_m = hc\<rparr>)
      (\<lambda>(c, w). LoadColumnSchemas ops w c) = Inr (\<lparr>table_info_m = info, table_catalog_table_m = ht, column_catalog_table_m = hc\<rparr>, w') \<and>
    same w w' \<and> finv w' \<and> (\<forall>k. room w k \<longrightarrow> room w' k) \<and> names w' = names w \<and> rows w' = rows w"
proof -
  obtain ts cs where r: "rows w t1 = Some ts" "table_rows_ok info ts" "rows w t2 = Some cs" "column_rows_ok info cs"
    using s by (auto simp: stored_def)
  obtain acc where l: "row_loop load_table_row ts Map.empty = Inr acc" "row_loop load_column_row cs acc = Inr info"
    using load_catalog [OF ok r(2,4)] by (auto simp: andthen_eq_Inr)
  obtain w1 where w1: "for_rows ops load_table_row w t1 Map.empty = Inr (acc, w1)" "same w w1" "finv w1" "\<forall>k. room w k \<longrightarrow> room w1 k"
    "names w1 = names w" "rows w1 = rows w"
    using factory_loop [OF inv r(1), of load_table_row Map.empty] l(1) by auto
  have r1: "rows w1 t2 = Some cs" using r(3) w1(6) by simp
  obtain w2 where w2: "for_rows ops load_column_row w1 t2 acc = Inr (info, w2)" "same w1 w2" "finv w2" "\<forall>k. room w1 k \<longrightarrow> room w2 k"
    "names w2 = names w1" "rows w2 = rows w1"
    using factory_loop [OF w1(3) r1, of load_column_row acc] l(2) by auto
  show ?thesis
    using w1 w2 h same_trans [OF w1(2) w2(2)] by (intro exI [of _ w2]) (simp add: LoadTableSchemas_def LoadColumnSchemas_def)
qed

text \<open>Constructing the catalog where it exists already loads what is stored and changes nothing.\<close>

lemma Catalog_reload:
  assumes inv: "finv w" and s: "stored names rows w t1 t2 info" and ok: "info_ok m info"
  shows "\<exists>c w'. Catalog_new henv ops fa w = Inr (c, w') \<and> same w w' \<and> finv w' \<and> (\<forall>k. room w k \<longrightarrow> room w' k) \<and> names w' = names w \<and> rows w' = rows w \<and>
    table_info_m c = info \<and> catalog_ok names rows m w' c"
proof -
  note n = s [unfolded stored_def, THEN conjunct1] s [unfolded stored_def, THEN conjunct2, THEN conjunct1]
  obtain w1 where w1: "fa_TableExists fa w TABLE_CATALOG_TABLE_NAME = Inr (True, w1)" "same w w1" "finv w1" "names w1 = names w"
    using exists_ok [OF inv, of TABLE_CATALOG_TABLE_NAME] factory_same [OF _ inv] n by auto
  obtain w2 where w2: "fa_TableExists fa w1 COLUMN_CATALOG_TABLE_NAME = Inr (True, w2)" "same w1 w2" "finv w2" "names w2 = names w"
    using exists_ok [OF w1(3), of COLUMN_CATALOG_TABLE_NAME] factory_same [OF _ w1(3)] w1(4) n by auto
  obtain w3 where w3: "fa_GetTable fa w2 TABLE_CATALOG_TABLE_NAME = Inr (Some t1, w3)" "same w2 w3" "finv w3" "names w3 = names w"
    using get_ok [OF w2(3), of TABLE_CATALOG_TABLE_NAME] factory_same [OF _ w2(3)] w2(4) n by auto
  obtain w4 where w4: "fa_GetTable fa w3 COLUMN_CATALOG_TABLE_NAME = Inr (Some t2, w4)" "same w3 w4" "finv w4" "names w4 = names w"
    using get_ok [OF w3(3), of COLUMN_CATALOG_TABLE_NAME] factory_same [OF _ w3(3)] w3(4) n by auto
  have sm: "same w w4" using same_trans [OF same_trans [OF w1(2) w2(2)] same_trans [OF w3(2) w4(2)]] .
  have rows4: "rows w4 = rows w" and room4: "room w k \<longrightarrow> room w4 k" for k
    using sameD [OF sm finvD [OF inv]] room_same [OF sm finvD [OF inv]] by simp_all
  have s4: "stored names rows w4 t1 t2 info" using s rows4 w4(4) by (simp add: stored_def)
  let ?ht = "\<lparr>storage_m = t1, schema_m = table_catalog_schema\<rparr>" and ?hc = "\<lparr>storage_m = t2, schema_m = column_catalog_schema\<rparr>"
  obtain w5 where w5: "andthen (LoadTableSchemas ops w4 \<lparr>table_info_m = Map.empty, table_catalog_table_m = ?ht, column_catalog_table_m = ?hc\<rparr>)
      (\<lambda>(c, w). LoadColumnSchemas ops w c) = Inr (\<lparr>table_info_m = info, table_catalog_table_m = ?ht, column_catalog_table_m = ?hc\<rparr>, w5)"
    "same w4 w5" "finv w5" "\<forall>k. room w4 k \<longrightarrow> room w5 k" "names w5 = names w4" "rows w5 = rows w4"
    using load_ok [OF w4(3) s4 ok, of ?ht ?hc] by auto
  have run: "CreateCatalogTables henv ops fa w = Inr (\<lparr>table_info_m = Map.empty, table_catalog_table_m = ?ht, column_catalog_table_m = ?hc\<rparr>, w4)"
    using w1(1) w2(1) w3(1) w4(1) by (simp add: CreateCatalogTables_def ensure_table_def must_get_def)
  have "Catalog_new henv ops fa w = Inr (\<lparr>table_info_m = info, table_catalog_table_m = ?ht, column_catalog_table_m = ?hc\<rparr>, w5)"
    using w5(1) unfolding Catalog_new_def run by simp
  moreover have "stored names rows w5 t1 t2 info" using s4 w5(5,6) by (simp add: stored_def)
  ultimately show ?thesis
    using w5(3-6) w4(4) rows4 room4 same_trans [OF sm w5(2)] ok
    by (intro exI [of _ "\<lparr>table_info_m = info, table_catalog_table_m = ?ht, column_catalog_table_m = ?hc\<rparr>"] exI [of _ w5])
      (simp add: catalog_ok_def)
qed

text \<open>One row into one of the catalog tables.\<close>

lemma catalog_insert:
  assumes "finv w" and "rows w t = Some rs" and "t \<notin> internal" and "room w (Suc k)" and "\<forall>n. env_ok henv n"
    and "fits_schema schema vals" and "length (row_bytes vals) \<le> max_row"
  shows "\<exists>rid w' rs'. TableHandle_insert_row henv ops w \<lparr>storage_m = t, schema_m = schema\<rparr> vals = Inr (rid, w') \<and> finv w' \<and> room w' k \<and>
    names w' = names w \<and> rows w' = (rows w)(t \<mapsto> rs') \<and> snd ` set rs' = insert (row_bytes vals) (snd ` set rs) \<and>
    (\<forall>f. f (row_bytes vals) \<notin> f ` snd ` set rs \<longrightarrow> distinct (map (\<lambda>r. f (snd r) :: string) rs) \<longrightarrow> distinct (map (\<lambda>r. f (snd r)) rs'))"
proof -
  obtain rid w' pre post where i: "tb_insert_row ops w t (row_bytes vals) = Inr (rid, w')" "finv w'" "room w' k" "names w' = names w"
    "rs = pre @ post" "rows w' = (rows w)(t \<mapsto> pre @ (rid, row_bytes vals) # post)"
    using factory_insert [OF assms(1-4,7)] by blast
  have "TableHandle_insert_row henv ops w \<lparr>storage_m = t, schema_m = schema\<rparr> vals = Inr (rid, w')"
    using i(1) insert_row_fits [OF assms(5), where ops = ops and w = w and h = "\<lparr>storage_m = t, schema_m = schema\<rparr>" and vals = vals] assms(6)
    by simp
  moreover have "snd ` set (pre @ (rid, row_bytes vals) # post) = insert (row_bytes vals) (snd ` set rs)"
    unfolding i(5) by (rule map_snd_insert)
  moreover have "distinct (map (\<lambda>r. f (snd r) :: string) (pre @ (rid, row_bytes vals) # post))"
    if "f (row_bytes vals) \<notin> f ` snd ` set rs" "distinct (map (\<lambda>r. f (snd r) :: string) rs)" for f
    using that unfolding i(5) by auto
  ultimately show ?thesis using i(2-4,6) by blast
qed

lemma insert_columns_ok:
  assumes "finv w" and "rows w t = Some rs" and t: "t \<notin> internal" and "room w (length rest + k)" and henv: "\<forall>n. env_ok henv n"
    and "table_ok max_row n ti" and "set rest \<subseteq> set (ti_schema ti)"
  shows "\<exists>w' rs'. insert_columns henv ops \<lparr>storage_m = t, schema_m = column_catalog_schema\<rparr> n rest pos w = Inr w' \<and> finv w' \<and>
    room w' k \<and> names w' = names w \<and> rows w' = (rows w)(t \<mapsto> rs') \<and>
    snd ` set rs' = snd ` set rs \<union> {column_row n (rest ! j) (pos + j) | j. j < length rest}"
  using assms(1,2,4,7)
proof (induction rest arbitrary: w rs pos)
  case Nil
  have "rows w = (rows w)(t \<mapsto> rs)" using fun_upd_idem [where f = "rows w" and x = t and y = "Some rs"] Nil.prems(2) by simp
  then show ?case using Nil by (intro exI [of _ w] exI [of _ rs]) simp
next
  case (Cons a rest)
  have a: "a \<in> set (ti_schema ti)" and sub: "set rest \<subseteq> set (ti_schema ti)" using Cons.prems(4) by auto
  have room: "room w (Suc (length rest + k))" using Cons.prems(3) by simp
  note fit = column_fits [OF assms(6) a, of pos]
  obtain rid w1 rs1 where i: "TableHandle_insert_row henv ops w \<lparr>storage_m = t, schema_m = column_catalog_schema\<rparr> (column_values n a pos) = Inr (rid, w1)"
    "finv w1" "room w1 (length rest + k)" "names w1 = names w" "rows w1 = (rows w)(t \<mapsto> rs1)"
    "snd ` set rs1 = insert (column_row n a pos) (snd ` set rs)"
    using catalog_insert [OF Cons.prems(1,2) t room henv fit(1) fit(2) [unfolded column_row_def]] unfolding column_row_def by blast
  have r1: "rows w1 t = Some rs1" using i(5) by simp
  obtain w2 rs2 where w2: "insert_columns henv ops \<lparr>storage_m = t, schema_m = column_catalog_schema\<rparr> n rest (pos + 1) w1 = Inr w2" "finv w2"
    "room w2 k" "names w2 = names w1" "rows w2 = (rows w1)(t \<mapsto> rs2)"
    "snd ` set rs2 = snd ` set rs1 \<union> {column_row n (rest ! j) (pos + 1 + j) | j. j < length rest}"
    using Cons.IH [OF i(2) r1 i(3) sub] by blast
  have "{column_row n ((a # rest) ! j) (pos + j) | j. j < length (a # rest)} =
      insert (column_row n a pos) {column_row n (rest ! j) (pos + 1 + j) | j. j < length rest}"
    (is "?L = ?R")
  proof (intro set_eqI iffI)
    fix d assume "d \<in> ?L"
    then obtain j where "d = column_row n ((a # rest) ! j) (pos + j)" "j < length (a # rest)" by blast
    then show "d \<in> ?R" by (cases j) auto
  next
    fix d assume "d \<in> ?R"
    then consider "d = column_row n a pos" | j where "d = column_row n (rest ! j) (pos + 1 + j)" "j < length rest" by blast
    then show "d \<in> ?L"
    proof cases
      case 1
      then show ?thesis by (intro CollectI exI [of _ 0]) simp
    next
      case (2 j)
      then show ?thesis by (intro CollectI exI [of _ "Suc j"]) simp
    qed
  qed
  then have "snd ` set rs2 = snd ` set rs \<union> {column_row n ((a # rest) ! j) (pos + j) | j. j < length (a # rest)}"
    using w2(6) i(6) by auto
  moreover have "rows w2 = (rows w)(t \<mapsto> rs2)" "names w2 = names w" using w2(4,5) i(4,5) by simp_all
  moreover have "insert_columns henv ops \<lparr>storage_m = t, schema_m = column_catalog_schema\<rparr> n (a # rest) pos w = Inr w2"
    using i(1) w2(1) by simp
  ultimately show ?case using w2(2,3) by blast
qed

lemma handle_eta: "schema_m h = s \<Longrightarrow> h = \<lparr>storage_m = storage_m h, schema_m = s\<rparr>" for h :: "'t TableHandle"
  by simp

lemma catalog_tables:
  assumes "finv w" and "stored names rows w t1 t2 info"
  shows "t1 \<noteq> t2" and "t1 \<notin> internal" and "t2 \<notin> internal"
proof -
  have n: "names w TABLE_CATALOG_TABLE_NAME = Some t1" "names w COLUMN_CATALOG_TABLE_NAME = Some t2"
    using assms(2) by (simp_all add: stored_def)
  show "t1 \<notin> internal" "t2 \<notin> internal" using names_rows [OF assms(1)] n by blast+
  show "t1 \<noteq> t2" using names_inj [OF assms(1) n(1), of COLUMN_CATALOG_TABLE_NAME] n(2) by auto
qed

lemma AddTable_ok:
  assumes inv: "finv w" and c: "catalog_ok names rows max_row w c" and new: "table_info_m c n = None"
    and ti: "table_ok max_row n \<lparr>ti_type = ty, ti_schema = schema\<rparr>" and room: "room w (Suc (length schema + k))" and henv: "\<forall>n. env_ok henv n"
  shows "\<exists>c' w'. AddTable henv ops w c n ty schema = Inr (True, c', w') \<and> finv w' \<and> room w' k \<and> names w' = names w \<and>
    catalog_ok names rows max_row w' c' \<and> table_info_m c' = (table_info_m c)(n \<mapsto> \<lparr>ti_type = ty, ti_schema = schema\<rparr>) \<and>
    (\<forall>t. names w TABLE_CATALOG_TABLE_NAME \<noteq> Some t \<and> names w COLUMN_CATALOG_TABLE_NAME \<noteq> Some t \<longrightarrow> rows w' t = rows w t)"
proof -
  let ?ti = "\<lparr>ti_type = ty, ti_schema = schema\<rparr>" and ?info = "table_info_m c"
  define t1 t2 where "t1 = storage_m (table_catalog_table_m c)" and "t2 = storage_m (column_catalog_table_m c)"
  have st: "stored names rows w t1 t2 ?info" and iok: "info_ok max_row ?info"
    and h1: "table_catalog_table_m c = \<lparr>storage_m = t1, schema_m = table_catalog_schema\<rparr>"
    and h2: "column_catalog_table_m c = \<lparr>storage_m = t2, schema_m = column_catalog_schema\<rparr>"
    using c handle_eta unfolding catalog_ok_def t1_def t2_def by auto
  note tt = catalog_tables [OF inv st]
  obtain ts cs where r: "rows w t1 = Some ts" "table_rows_ok ?info ts" "rows w t2 = Some cs" "column_rows_ok ?info cs"
    using st by (auto simp: stored_def)
  note fit = table_fits [OF ti, simplified]
  have row: "row_bytes (table_values n ty schema) = table_row n ?ti" by (simp add: table_row_def)
  obtain rid w1 ts1 where i: "TableHandle_insert_row henv ops w \<lparr>storage_m = t1, schema_m = table_catalog_schema\<rparr> (table_values n ty schema) = Inr (rid, w1)"
    "finv w1" "room w1 (length schema + k)" "names w1 = names w" "rows w1 = (rows w)(t1 \<mapsto> ts1)"
    "snd ` set ts1 = insert (table_row n ?ti) (snd ` set ts)"
    and d: "\<And>f :: byte list \<Rightarrow> string. f (table_row n ?ti) \<notin> f ` snd ` set ts \<Longrightarrow> distinct (map (\<lambda>r. f (snd r)) ts) \<Longrightarrow> distinct (map (\<lambda>r. f (snd r)) ts1)"
    using catalog_insert [OF inv r(1) tt(2) room henv fit(1), unfolded row, OF fit(2)] by (elim exE conjE) blast
  have r1: "rows w1 t2 = Some cs" using i(5) r(3) tt(1) by simp
  obtain w2 cs2 where w2: "insert_columns henv ops \<lparr>storage_m = t2, schema_m = column_catalog_schema\<rparr> n schema 0 w1 = Inr w2" "finv w2" "room w2 k"
    "names w2 = names w1" "rows w2 = (rows w1)(t2 \<mapsto> cs2)"
    "snd ` set cs2 = snd ` set cs \<union> {column_row n (schema ! j) (0 + j) | j. j < length schema}"
    using insert_columns_ok [OF i(2) r1 tt(3) i(3) henv ti, of 0] by auto
  let ?info' = "?info(n \<mapsto> ?ti)"
  have "row_table (table_row n ?ti) \<notin> row_table ` snd ` set ts"
  proof
    assume "row_table (table_row n ?ti) \<in> row_table ` snd ` set ts"
    then obtain k tk where "?info k = Some tk" "row_table (table_row k tk) = n"
      using r(2) row_names(1) [OF ti] by (auto simp: table_rows_ok_def all_table_rows_def)
    then show False using new iok row_names(1) unfolding info_ok_def by fastforce
  qed
  from d [OF this] have "table_rows_ok ?info' ts1"
    using r(2) i(6) all_rows_upd(1) [of ?info, OF new] by (simp add: table_rows_ok_def)
  moreover have "column_rows_ok ?info' cs2"
    using r(4) w2(6) all_rows_upd(2) [of ?info, OF new, of ?ti] by (simp add: column_rows_ok_def)
  moreover have "names w2 TABLE_CATALOG_TABLE_NAME = Some t1" "names w2 COLUMN_CATALOG_TABLE_NAME = Some t2"
    using st w2(4) i(4) by (simp_all add: stored_def)
  moreover have "rows w2 = (rows w)(t1 \<mapsto> ts1, t2 \<mapsto> cs2)" using w2(5) i(5) by simp
  ultimately have st': "stored names rows w2 t1 t2 ?info'" using tt(1) by (simp add: stored_def)
  have iok': "info_ok max_row ?info'" using iok ti by (simp add: info_ok_def)
  let ?c = "c\<lparr>table_info_m := ?info'\<rparr>"
  have "AddTable henv ops w c n ty schema = Inr (True, ?c, w2)"
    using new i(1) w2(1) by (simp add: AddTable_def h1 h2)
  moreover have "catalog_ok names rows max_row w2 ?c" using st' iok' by (simp add: catalog_ok_def h1 h2)
  moreover have "rows w2 t = rows w t" if "names w TABLE_CATALOG_TABLE_NAME \<noteq> Some t" "names w COLUMN_CATALOG_TABLE_NAME \<noteq> Some t" for t
    using that st w2(5) i(5) by (auto simp: stored_def)
  ultimately show ?thesis using w2(2,3,4) i(4) by (intro exI [of _ ?c] exI [of _ w2]) simp
qed

lemma delete_rows_ok:
  assumes "finv w" and "rows w t = Some rs" and t: "t \<notin> internal" and "room w k" and "set rids \<subseteq> fst ` set rs" and "distinct rids"
  shows "\<exists>w'. delete_rows ops \<lparr>storage_m = t, schema_m = schema\<rparr> rids w = Inr w' \<and> finv w' \<and> room w' k \<and> names w' = names w \<and>
    rows w' = (rows w)(t \<mapsto> filter (\<lambda>r. fst r \<notin> set rids) rs)"
  using assms(1,2,4-6)
proof (induction rids arbitrary: w rs)
  case Nil
  have "rows w = (rows w)(t \<mapsto> rs)" using fun_upd_idem [where f = "rows w" and x = t and y = "Some rs"] Nil.prems(2) by simp
  then show ?case using Nil by simp
next
  case (Cons rid rids)
  have rid: "rid \<in> fst ` set rs" using Cons.prems(4) by simp
  obtain w1 where d: "tb_delete_row ops w t rid = Inr w1" "finv w1" "room w1 k" "names w1 = names w"
    "rows w1 = (rows w)(t \<mapsto> filter (\<lambda>r. fst r \<noteq> rid) rs)"
    using factory_delete [OF Cons.prems(1,2) t rid Cons.prems(3)] by blast
  have r1: "rows w1 t = Some (filter (\<lambda>r. fst r \<noteq> rid) rs)" using d(5) by simp
  have sub: "set rids \<subseteq> fst ` set (filter (\<lambda>r. fst r \<noteq> rid) rs)" and dist: "distinct rids" using Cons.prems(4,5) by force+
  obtain w2 where w2: "delete_rows ops \<lparr>storage_m = t, schema_m = schema\<rparr> rids w1 = Inr w2" "finv w2" "room w2 k" "names w2 = names w1"
    "rows w2 = (rows w1)(t \<mapsto> filter (\<lambda>r. fst r \<notin> set rids) (filter (\<lambda>r. fst r \<noteq> rid) rs))"
    using Cons.IH [OF d(2) r1 d(3) sub dist] by blast
  have "filter (\<lambda>r. fst r \<notin> set rids) (filter (\<lambda>r. fst r \<noteq> rid) rs) = filter (\<lambda>r. fst r \<notin> set (rid # rids)) rs"
    by (auto intro: filter_cong)
  then have "rows w2 = (rows w)(t \<mapsto> filter (\<lambda>r. fst r \<notin> set (rid # rids)) rs)" unfolding w2(5) d(5) by (metis fun_upd_upd)
  moreover have "delete_rows ops \<lparr>storage_m = t, schema_m = schema\<rparr> (rid # rids) w = Inr w2"
    using d(1) w2(1) by (simp add: TableHandle_delete_row_def)
  ultimately show ?case using w2(2-4) d(4) by metis
qed

text \<open>The first loop of \<open>RemoveTable\<close> finds the columns of the table, the second the table.\<close>

lemma remove_columns:
  assumes inv: "finv w" and r: "rows w t = Some cs" "column_rows_ok info cs" and t: "t \<notin> internal" and room: "room w k" and ok: "info_ok m info"
  shows "\<exists>ids w' w'' cs'. for_rows ops (\<lambda>(row_id, row_data) to_delete.
      andthen (Get_String row_data column_catalog_schema 1) (\<lambda>name.
      Inr (if name = n then to_delete @ [row_id] else to_delete, False))) w t [] = Inr (ids, w') \<and>
    delete_rows ops \<lparr>storage_m = t, schema_m = schema\<rparr> ids w' = Inr w'' \<and> finv w'' \<and> room w'' k \<and> names w'' = names w \<and>
    rows w'' = (rows w)(t \<mapsto> cs') \<and> column_rows_ok (info(n := None)) cs'"
proof -
  define body :: "Row \<Rightarrow> row_id_t list \<Rightarrow> (row_id_t list \<times> bool) outcome" where
    "body = (\<lambda>(row_id, row_data) to_delete. andthen (Get_String row_data column_catalog_schema 1) (\<lambda>name.
       Inr (if name = n then to_delete @ [row_id] else to_delete, False)))"
  let ?hit = "\<lambda>r :: Row. row_relation (snd r) = n"
  let ?ids = "map fst (filter ?hit cs)"
  have rel: "Get_String (snd r) column_catalog_schema 1 = Inr (row_relation (snd r))" if "r \<in> set cs" for r
  proof -
    have "snd r \<in> all_column_rows info" using that r(2) by (auto simp: column_rows_ok_def)
    then obtain k ti i where "snd r = column_row k (ti_schema ti ! i) i" "info k = Some ti" "i < length (ti_schema ti)"
      by (auto simp: all_column_rows_def)
    then show ?thesis using column_columns(2) [of m k ti "ti_schema ti ! i" i] ok by (simp add: info_ok_def row_relation_def del: One_nat_def)
  qed
  have loop: "row_loop body rs acc = Inr (acc @ map fst (filter ?hit rs))" if "set rs \<subseteq> set cs" for rs acc
    using that
  proof (induction rs arbitrary: acc)
    case (Cons r rs)
    then have "body r acc = Inr (if ?hit r then acc @ [fst r] else acc, False)" using rel [of r] by (cases r) (simp add: body_def)
    then show ?case using Cons by simp
  qed simp
  obtain w1 where w1: "for_rows ops body w t [] = Inr (?ids, w1)" "finv w1" "room w1 k" "names w1 = names w" "rows w1 = rows w"
    using factory_loop [OF inv r(1), of body "[]"] room loop [of cs "[]"] by auto
  have r1: "rows w1 t = Some cs" using r(1) w1(5) by simp
  have dist: "distinct (map fst cs)" using distinct_ids [OF finvD [OF inv] r(1)] .
  obtain w2 where w2: "delete_rows ops \<lparr>storage_m = t, schema_m = schema\<rparr> ?ids w1 = Inr w2" "finv w2" "room w2 k" "names w2 = names w1"
    "rows w2 = (rows w1)(t \<mapsto> filter (\<lambda>r. fst r \<notin> set ?ids) cs)"
    using delete_rows_ok [OF w1(2) r1 t w1(3), of ?ids schema] dist by (auto simp: distinct_map_filter)
  have "fst r \<notin> set ?ids \<longleftrightarrow> \<not> ?hit r" if "r \<in> set cs" for r
    using that dist by (auto simp: distinct_map inj_on_def)
  then have "filter (\<lambda>r. fst r \<notin> set ?ids) cs = filter (\<lambda>r. \<not> ?hit r) cs" by (intro filter_cong) simp_all
  moreover have "snd ` set (filter (\<lambda>r. \<not> ?hit r) cs) = {d \<in> snd ` set cs. row_relation d \<noteq> n}" by auto
  then have "column_rows_ok (info(n := None)) (filter (\<lambda>r. \<not> ?hit r) cs)"
    using r(2) all_column_rows_remove [OF ok] by (simp add: column_rows_ok_def)
  ultimately show ?thesis using w1 w2 unfolding body_def by auto
qed

lemma remove_table_row:
  assumes inv: "finv w" and r: "rows w t = Some ts" "table_rows_ok info ts" and t: "t \<notin> internal" and room: "room w k"
    and ok: "info_ok m info" and n: "info n \<noteq> None"
  shows "\<exists>rid w' w'' ts'. for_rows ops (\<lambda>(row_id, row_data) table_rid.
      andthen (Get_String row_data table_catalog_schema 0) (\<lambda>name.
      if name = n then Inr (Some row_id, True) else Inr (table_rid, False))) w t None = Inr (Some rid, w') \<and>
    tb_delete_row ops w' t rid = Inr w'' \<and> finv w'' \<and> room w'' k \<and> names w'' = names w \<and>
    rows w'' = (rows w)(t \<mapsto> ts') \<and> table_rows_ok (info(n := None)) ts'"
proof -
  define body :: "Row \<Rightarrow> row_id_t option \<Rightarrow> (row_id_t option \<times> bool) outcome" where
    "body = (\<lambda>(row_id, row_data) table_rid. andthen (Get_String row_data table_catalog_schema 0) (\<lambda>name.
       if name = n then Inr (Some row_id, True) else Inr (table_rid, False)))"
  let ?hit = "\<lambda>r :: Row. row_table (snd r) = n"
  have names: "row_table (table_row k ti) = k" if "info k = Some ti" for k ti
    using that ok row_names(1) unfolding info_ok_def by blast
  have rel: "Get_String (snd r) table_catalog_schema 0 = Inr (row_table (snd r))" if "r \<in> set ts" for r
  proof -
    have "snd r \<in> all_table_rows info" using that r(2) by (auto simp: table_rows_ok_def)
    then obtain k ti where "snd r = table_row k ti" "info k = Some ti" by (auto simp: all_table_rows_def)
    then show ?thesis using table_columns(1) [of m k ti] ok by (simp add: info_ok_def row_table_def)
  qed
  have loop: "row_loop body ts None = Inr (map_option fst (List.find ?hit ts))"
    by (rule row_loop_find) (use rel in \<open>force simp: body_def\<close>)
  obtain ti where "info n = Some ti" using n by blast
  then have "table_row n ti \<in> snd ` set ts" "row_table (table_row n ti) = n"
    using r(2) names unfolding table_rows_ok_def all_table_rows_def by blast+
  then have "List.find ?hit ts \<noteq> None" unfolding find_None_iff by force
  then obtain r0 where find: "List.find ?hit ts = Some r0" by blast
  then have r0: "r0 \<in> set ts" "?hit r0" by (auto simp: find_Some_iff in_set_conv_nth)
  obtain w1 where w1: "for_rows ops body w t None = Inr (Some (fst r0), w1)" "finv w1" "room w1 k" "names w1 = names w" "rows w1 = rows w"
    using factory_loop [OF inv r(1), of body None] room loop find by auto
  have r1: "rows w1 t = Some ts" and rid: "fst r0 \<in> fst ` set ts" using r(1) w1(5) r0(1) by simp_all
  obtain w2 where w2: "tb_delete_row ops w1 t (fst r0) = Inr w2" "finv w2" "room w2 k" "names w2 = names w1"
    "rows w2 = (rows w1)(t \<mapsto> filter (\<lambda>r. fst r \<noteq> fst r0) ts)"
    using factory_delete [OF w1(2) r1 t rid w1(3)] by blast
  have dist: "distinct (map fst ts)" using distinct_ids [OF finvD [OF inv] r(1)] .
  have dn: "distinct (map (\<lambda>r. row_table (snd r)) ts)" using r(2) by (simp add: table_rows_ok_def)
  have "fst r \<noteq> fst r0 \<longleftrightarrow> \<not> ?hit r" if "r \<in> set ts" for r
    using that r0 dist dn by (auto simp: distinct_map inj_on_def)
  then have e: "filter (\<lambda>r. fst r \<noteq> fst r0) ts = filter (\<lambda>r. \<not> ?hit r) ts" by (intro filter_cong) simp_all
  have "snd ` set (filter (\<lambda>r. \<not> ?hit r) ts) = {d \<in> snd ` set ts. row_table d \<noteq> n}" by auto
  then have "table_rows_ok (info(n := None)) (filter (\<lambda>r. \<not> ?hit r) ts)"
    using r(2) dn all_table_rows_remove [OF ok] by (simp add: table_rows_ok_def distinct_map_filter)
  then show ?thesis using w1 w2 e unfolding body_def by auto
qed

lemma RemoveTable_ok:
  assumes inv: "finv w" and c: "catalog_ok names rows max_row w c" and n: "table_info_m c n \<noteq> None" and room: "room w k"
  shows "\<exists>c' w'. RemoveTable ops w c n = Inr (True, c', w') \<and> finv w' \<and> room w' k \<and> names w' = names w \<and>
    catalog_ok names rows max_row w' c' \<and> table_info_m c' = (table_info_m c)(n := None) \<and>
    (\<forall>t. names w TABLE_CATALOG_TABLE_NAME \<noteq> Some t \<and> names w COLUMN_CATALOG_TABLE_NAME \<noteq> Some t \<longrightarrow> rows w' t = rows w t)"
proof -
  let ?info = "table_info_m c"
  define t1 t2 where "t1 = storage_m (table_catalog_table_m c)" and "t2 = storage_m (column_catalog_table_m c)"
  have st: "stored names rows w t1 t2 ?info" and iok: "info_ok max_row ?info"
    and h1: "table_catalog_table_m c = \<lparr>storage_m = t1, schema_m = table_catalog_schema\<rparr>"
    and h2: "column_catalog_table_m c = \<lparr>storage_m = t2, schema_m = column_catalog_schema\<rparr>"
    using c handle_eta unfolding catalog_ok_def t1_def t2_def by auto
  note tt = catalog_tables [OF inv st]
  obtain ts cs where r: "rows w t1 = Some ts" "table_rows_ok ?info ts" "rows w t2 = Some cs" "column_rows_ok ?info cs"
    using st by (auto simp: stored_def)
  obtain ids w1 w2 cs' where c2: "for_rows ops (\<lambda>(row_id, row_data) to_delete.
      andthen (Get_String row_data column_catalog_schema 1) (\<lambda>name.
      Inr (if name = n then to_delete @ [row_id] else to_delete, False))) w t2 [] = Inr (ids, w1)"
    "delete_rows ops \<lparr>storage_m = t2, schema_m = column_catalog_schema\<rparr> ids w1 = Inr w2" "finv w2" "room w2 k" "names w2 = names w"
    "rows w2 = (rows w)(t2 \<mapsto> cs')" "column_rows_ok (?info(n := None)) cs'"
    using remove_columns [OF inv r(3,4) tt(3) room iok, of n column_catalog_schema] by (elim exE conjE) (rule that; assumption)
  have r2: "rows w2 t1 = Some ts" using r(1) c2(6) tt(1) by simp
  obtain rid w3 w4 ts' where c4: "for_rows ops (\<lambda>(row_id, row_data) table_rid.
      andthen (Get_String row_data table_catalog_schema 0) (\<lambda>name.
      if name = n then Inr (Some row_id, True) else Inr (table_rid, False))) w2 t1 None = Inr (Some rid, w3)"
    "tb_delete_row ops w3 t1 rid = Inr w4" "finv w4" "room w4 k" "names w4 = names w2"
    "rows w4 = (rows w2)(t1 \<mapsto> ts')" "table_rows_ok (?info(n := None)) ts'"
    using remove_table_row [OF c2(3) r2 r(2) tt(2) c2(4) iok n] by (elim exE conjE) (rule that; assumption)
  let ?c = "c\<lparr>table_info_m := ?info(n := None)\<rparr>"
  have "RemoveTable ops w c n = Inr (True, ?c, w4)"
    using n c2(1,2) c4(1,2) by (simp add: RemoveTable_def h1 h2 TableHandle_delete_row_def del: One_nat_def)
  moreover have rows4: "rows w4 = (rows w)(t2 \<mapsto> cs', t1 \<mapsto> ts')" using c4(6) c2(6) by simp
  then have "stored names rows w4 t1 t2 (?info(n := None))"
    using st c2(5,7) c4(5,7) tt(1) by (simp add: stored_def)
  moreover have "info_ok max_row (?info(n := None))" using iok by (simp add: info_ok_def)
  ultimately have "RemoveTable ops w c n = Inr (True, ?c, w4) \<and> catalog_ok names rows max_row w4 ?c"
    by (simp add: catalog_ok_def h1 h2)
  moreover have "rows w4 t = rows w t" if "names w TABLE_CATALOG_TABLE_NAME \<noteq> Some t" "names w COLUMN_CATALOG_TABLE_NAME \<noteq> Some t" for t
    using that st rows4 by (auto simp: stored_def)
  ultimately show ?thesis using c4(3,4,5) c2(5) by (intro exI [of _ ?c] exI [of _ w4]) simp
qed

text \<open>Constructing the catalog on a factory that has none yet.\<close>

lemma ensure_table_ok:
  assumes inv: "finv w" and n: "names w n = None" and len: "length n \<le> max_name" and room: "room w (Suc (Suc k))" and can: "can_create w"
  shows "\<exists>w' t. ensure_table fa w n = Inr (True, w') \<and> finv w' \<and> room w' k \<and> names w' = (names w)(n \<mapsto> t) \<and>
    rows w t = None \<and> rows w' t = Some [] \<and> (\<forall>t'. t' \<notin> insert t internal \<longrightarrow> rows w' t' = rows w t') \<and>
    (\<exists>w1. same w w1 \<and> fa_CreateTable fa w1 n = Inr (True, w'))"
proof -
  obtain w1 where w1: "fa_TableExists fa w n = Inr (False, w1)" "same w w1" using exists_ok [OF inv, of n] n by auto
  have f1: "finv w1" "names w1 = names w" "rows w1 = rows w" "room w1 (Suc (Suc k))" "can_create w1"
    using factory_same [OF w1(2) inv] sameD [OF w1(2) finvD [OF inv]] room_same [OF w1(2) finvD [OF inv] room]
      can_create_same [OF w1(2) inv can] by simp_all
  obtain w2 t where "fa_CreateTable fa w1 n = Inr (True, w2)" "finv w2" "room w2 k" "names w2 = (names w1)(n \<mapsto> t)"
    "rows w1 t = None" "rows w2 t = Some []" "\<forall>t'. t' \<notin> insert t internal \<longrightarrow> rows w2 t' = rows w1 t'"
    using create_ok [OF f1(1) _ len f1(4,5)] n f1(2) by auto
  then show ?thesis using w1 f1 by (intro exI [of _ w2] exI [of _ t]) (auto simp: ensure_table_def)
qed

lemma must_get_ok:
  assumes inv: "finv w" and n: "names w n = Some t" and room: "room w k"
  shows "\<exists>w'. must_get fa w n schema = Inr (\<lparr>storage_m = t, schema_m = schema\<rparr>, w') \<and> finv w' \<and> room w' k \<and> names w' = names w \<and> rows w' = rows w"
proof -
  obtain w1 where w1: "fa_GetTable fa w n = Inr (Some t, w1)" "same w w1" using get_ok [OF inv, of n] n by auto
  then show ?thesis
    using factory_same [OF w1(2) inv] sameD [OF w1(2) finvD [OF inv]] room_same [OF w1(2) finvD [OF inv] room]
    by (simp add: must_get_def)
qed

end

definition catalog_entry :: "Schema \<Rightarrow> TableInfo" where
  "catalog_entry schema = \<lparr>ti_type = InMemory, ti_schema = schema\<rparr>"

definition initial_info :: "string \<rightharpoonup> TableInfo" where
  "initial_info = [TABLE_CATALOG_TABLE_NAME \<mapsto> catalog_entry table_catalog_schema,
     COLUMN_CATALOG_TABLE_NAME \<mapsto> catalog_entry column_catalog_schema]"

lemma initial_ok:
  assumes "50 \<le> m"
  shows "table_ok m TABLE_CATALOG_TABLE_NAME (catalog_entry table_catalog_schema)"
    and "table_ok m COLUMN_CATALOG_TABLE_NAME (catalog_entry column_catalog_schema)" and "info_ok m initial_info"
proof -
  show a: "table_ok m TABLE_CATALOG_TABLE_NAME (catalog_entry table_catalog_schema)"
    and b: "table_ok m COLUMN_CATALOG_TABLE_NAME (catalog_entry column_catalog_schema)"
    using assms by (simp_all add: table_ok_def catalog_entry_def table_catalog_schema_def column_catalog_schema_def IsValidTypeId_def alternatives_def)
  show "info_ok m initial_info" using a b by (simp add: info_ok_def initial_info_def)
qed

lemma initial_rows:
  "all_table_rows initial_info = {table_row TABLE_CATALOG_TABLE_NAME (catalog_entry table_catalog_schema),
     table_row COLUMN_CATALOG_TABLE_NAME (catalog_entry column_catalog_schema)}"
  "all_column_rows initial_info =
     {column_row TABLE_CATALOG_TABLE_NAME (table_catalog_schema ! i) i | i. i < length table_catalog_schema} \<union>
     {column_row COLUMN_CATALOG_TABLE_NAME (column_catalog_schema ! i) i | i. i < length column_catalog_schema}"
proof -
  let ?one = "[TABLE_CATALOG_TABLE_NAME \<mapsto> catalog_entry table_catalog_schema]"
  have "all_table_rows Map.empty = {}" "all_column_rows Map.empty = {}" by (simp_all add: all_table_rows_def all_column_rows_def)
  moreover have "?one COLUMN_CATALOG_TABLE_NAME = None" by simp
  ultimately show "all_table_rows initial_info = {table_row TABLE_CATALOG_TABLE_NAME (catalog_entry table_catalog_schema),
     table_row COLUMN_CATALOG_TABLE_NAME (catalog_entry column_catalog_schema)}"
    "all_column_rows initial_info =
     {column_row TABLE_CATALOG_TABLE_NAME (table_catalog_schema ! i) i | i. i < length table_catalog_schema} \<union>
     {column_row COLUMN_CATALOG_TABLE_NAME (column_catalog_schema ! i) i | i. i < length column_catalog_schema}"
    unfolding initial_info_def all_rows_upd(1) [of ?one COLUMN_CATALOG_TABLE_NAME, OF \<open>?one COLUMN_CATALOG_TABLE_NAME = None\<close>]
      all_rows_upd(2) [of ?one COLUMN_CATALOG_TABLE_NAME, OF \<open>?one COLUMN_CATALOG_TABLE_NAME = None\<close>]
      all_rows_upd(1) [of Map.empty TABLE_CATALOG_TABLE_NAME, OF refl] all_rows_upd(2) [of Map.empty TABLE_CATALOG_TABLE_NAME, OF refl]
    by (auto simp: catalog_entry_def)
qed

context factory
begin

lemma init_table_catalog:
  assumes inv: "finv w" and r: "rows w t = Some []" and t: "t \<notin> internal" and room: "room w (Suc (Suc k))" and henv: "\<forall>n. env_ok henv n" and m: "50 \<le> max_row"
  shows "\<exists>w' ts. InitializeTableCatalogTable henv ops w \<lparr>storage_m = t, schema_m = table_catalog_schema\<rparr> = Inr w' \<and> finv w' \<and> room w' k \<and>
    names w' = names w \<and> rows w' = (rows w)(t \<mapsto> ts) \<and> table_rows_ok initial_info ts"
proof -
  let ?h = "\<lparr>storage_m = t, schema_m = table_catalog_schema\<rparr>"
  let ?r1 = "table_row TABLE_CATALOG_TABLE_NAME (catalog_entry table_catalog_schema)"
    and ?r2 = "table_row COLUMN_CATALOG_TABLE_NAME (catalog_entry column_catalog_schema)"
  note ok = initial_ok [OF m]
  note f1 = table_fits [OF ok(1), unfolded table_row_def catalog_entry_def TableInfo.select_convs]
    and f2 = table_fits [OF ok(2), unfolded table_row_def catalog_entry_def TableInfo.select_convs]
  have rb: "row_bytes (table_values TABLE_CATALOG_TABLE_NAME InMemory table_catalog_schema) = ?r1"
    "row_bytes (table_values COLUMN_CATALOG_TABLE_NAME InMemory column_catalog_schema) = ?r2"
    by (simp_all add: table_row_def catalog_entry_def)
  obtain i1 w1 ts1 where w1: "TableHandle_insert_row henv ops w ?h (table_values TABLE_CATALOG_TABLE_NAME InMemory table_catalog_schema) = Inr (i1, w1)"
    "finv w1" "room w1 (Suc k)" "names w1 = names w" "rows w1 = (rows w)(t \<mapsto> ts1)" "snd ` set ts1 = insert ?r1 (snd ` set ([] :: Row list))"
    and d1: "\<forall>f. f ?r1 \<notin> f ` snd ` set ([] :: Row list) \<longrightarrow> distinct (map (\<lambda>r. f (snd r) :: string) ([] :: Row list)) \<longrightarrow> distinct (map (\<lambda>r. f (snd r)) ts1)"
    using catalog_insert [OF inv r t room henv f1] unfolding rb by (elim exE conjE) (rule that; assumption)
  have r1: "rows w1 t = Some ts1" using w1(5) by simp
  obtain i2 w2 ts2 where w2: "TableHandle_insert_row henv ops w1 ?h (table_values COLUMN_CATALOG_TABLE_NAME InMemory column_catalog_schema) = Inr (i2, w2)"
    "finv w2" "room w2 k" "names w2 = names w1" "rows w2 = (rows w1)(t \<mapsto> ts2)" "snd ` set ts2 = insert ?r2 (snd ` set ts1)"
    and d2: "\<forall>f. f ?r2 \<notin> f ` snd ` set ts1 \<longrightarrow> distinct (map (\<lambda>r. f (snd r) :: string) ts1) \<longrightarrow> distinct (map (\<lambda>r. f (snd r)) ts2)"
    using catalog_insert [OF w1(2) r1 t w1(3) henv f2] unfolding rb by (elim exE conjE) (rule that; assumption)
  have "row_table ?r2 \<notin> row_table ` snd ` set ts1"
    unfolding w1(6) using row_names(1) [OF ok(1)] row_names(1) [OF ok(2)] by simp
  then have "table_rows_ok initial_info ts2"
    using d1 d2 w1(6) w2(6) by (simp add: table_rows_ok_def initial_rows(1) insert_commute)
  moreover have "InitializeTableCatalogTable henv ops w ?h = Inr w2" using w1(1) w2(1) by (simp add: InitializeTableCatalogTable_def)
  moreover have "rows w2 = (rows w)(t \<mapsto> ts2)" using w2(5) w1(5) by simp
  ultimately show ?thesis using w2(2-4) w1(4) by metis
qed

lemma init_column_catalog:
  assumes inv: "finv w" and r: "rows w t = Some []" and t: "t \<notin> internal" and room: "room w (7 + k)" and henv: "\<forall>n. env_ok henv n" and m: "50 \<le> max_row"
  shows "\<exists>w' cs. InitializeColumnCatalogTable henv ops w \<lparr>storage_m = t, schema_m = column_catalog_schema\<rparr> = Inr w' \<and> finv w' \<and> room w' k \<and>
    names w' = names w \<and> rows w' = (rows w)(t \<mapsto> cs) \<and> column_rows_ok initial_info cs"
proof -
  let ?h = "\<lparr>storage_m = t, schema_m = column_catalog_schema\<rparr>"
  note ok = initial_ok [OF m]
  have l: "length table_catalog_schema = 3" "length column_catalog_schema = 4"
    by (simp_all add: table_catalog_schema_def column_catalog_schema_def)
  have room1: "room w (length table_catalog_schema + (length column_catalog_schema + k))" using room l by (simp add: add.assoc)
  obtain w1 cs1 where w1: "insert_columns henv ops ?h TABLE_CATALOG_TABLE_NAME table_catalog_schema 0 w = Inr w1" "finv w1"
    "room w1 (length column_catalog_schema + k)" "names w1 = names w" "rows w1 = (rows w)(t \<mapsto> cs1)"
    "snd ` set cs1 = snd ` set ([] :: Row list) \<union> {column_row TABLE_CATALOG_TABLE_NAME (table_catalog_schema ! j) (0 + j) | j. j < length table_catalog_schema}"
    using insert_columns_ok [OF inv r t room1 henv ok(1), of 0] by (auto simp: catalog_entry_def)
  have r1: "rows w1 t = Some cs1" using w1(5) by simp
  obtain w2 cs2 where w2: "insert_columns henv ops ?h COLUMN_CATALOG_TABLE_NAME column_catalog_schema 0 w1 = Inr w2" "finv w2" "room w2 k"
    "names w2 = names w1" "rows w2 = (rows w1)(t \<mapsto> cs2)"
    "snd ` set cs2 = snd ` set cs1 \<union> {column_row COLUMN_CATALOG_TABLE_NAME (column_catalog_schema ! j) (0 + j) | j. j < length column_catalog_schema}"
    using insert_columns_ok [OF w1(2) r1 t w1(3) henv ok(2), of 0] by (auto simp: catalog_entry_def)
  have "column_rows_ok initial_info cs2" using w2(6) w1(6) by (simp add: column_rows_ok_def initial_rows(2))
  moreover have "InitializeColumnCatalogTable henv ops w ?h = Inr w2" using w1(1) w2(1) by (simp add: InitializeColumnCatalogTable_def)
  moreover have "rows w2 = (rows w)(t \<mapsto> cs2)" using w2(5) w1(5) by simp
  ultimately show ?thesis using w2(2-4) w1(4) by metis
qed

lemma Catalog_fresh:
  assumes inv: "finv w" and n: "names w TABLE_CATALOG_TABLE_NAME = None" "names w COLUMN_CATALOG_TABLE_NAME = None"
    and room: "room w (13 + k)" and henv: "\<forall>n. env_ok henv n" and m: "50 \<le> max_row" "14 \<le> max_name"
    and can: "can_create w" and can2: "\<forall>w1 w2. same w w1 \<and> fa_CreateTable fa w1 TABLE_CATALOG_TABLE_NAME = Inr (True, w2) \<longrightarrow> can_create w2"
  shows "\<exists>c w' t1 t2. Catalog_new henv ops fa w = Inr (c, w') \<and> finv w' \<and> room w' k \<and>
    names w' = (names w)(TABLE_CATALOG_TABLE_NAME \<mapsto> t1, COLUMN_CATALOG_TABLE_NAME \<mapsto> t2) \<and>
    table_info_m c = initial_info \<and> catalog_ok names rows max_row w' c \<and>
    (\<forall>t. rows w t \<noteq> None \<and> t \<notin> internal \<longrightarrow> rows w' t = rows w t)"
proof -
  let ?T = TABLE_CATALOG_TABLE_NAME and ?C = COLUMN_CATALOG_TABLE_NAME
  have room1: "room w (Suc (Suc (11 + k)))" using room by (simp add: numeral_eq_Suc)
  obtain w1 t1 where w1: "ensure_table fa w ?T = Inr (True, w1)" "finv w1" "room w1 (11 + k)" "names w1 = (names w)(?T \<mapsto> t1)"
    "rows w t1 = None" "rows w1 t1 = Some []" "\<forall>t'. t' \<notin> insert t1 internal \<longrightarrow> rows w1 t' = rows w t'" and can1: "can_create w1"
    using ensure_table_ok [OF inv n(1) _ room1 can] m(2) can2 by fastforce
  have n1: "names w1 ?C = None" using n(2) w1(4) by simp
  have room2: "room w1 (Suc (Suc (9 + k)))" using w1(3) by (simp add: numeral_eq_Suc)
  obtain w2 t2 where w2: "ensure_table fa w1 ?C = Inr (True, w2)" "finv w2" "room w2 (9 + k)" "names w2 = (names w1)(?C \<mapsto> t2)"
    "rows w1 t2 = None" "rows w2 t2 = Some []" "\<forall>t'. t' \<notin> insert t2 internal \<longrightarrow> rows w2 t' = rows w1 t'"
    using ensure_table_ok [OF w1(2) n1 _ room2 can1] m(2) by fastforce
  have n2: "names w2 ?T = Some t1" "names w2 ?C = Some t2" using w1(4) w2(4) by simp_all
  have t12: "t1 \<noteq> t2" "t1 \<notin> internal" "t2 \<notin> internal"
    using w1(6) w2(5) names_rows [OF w2(2)] n2 by fastforce+
  obtain w3 where w3: "must_get fa w2 ?T table_catalog_schema = Inr (\<lparr>storage_m = t1, schema_m = table_catalog_schema\<rparr>, w3)" "finv w3"
    "room w3 (9 + k)" "names w3 = names w2" "rows w3 = rows w2"
    using must_get_ok [OF w2(2) n2(1) w2(3)] by blast
  have n3: "names w3 ?C = Some t2" using n2(2) w3(4) by simp
  obtain w4 where w4: "must_get fa w3 ?C column_catalog_schema = Inr (\<lparr>storage_m = t2, schema_m = column_catalog_schema\<rparr>, w4)" "finv w4"
    "room w4 (9 + k)" "names w4 = names w3" "rows w4 = rows w3"
    using must_get_ok [OF w3(2) n3 w3(3)] by blast
  have r4: "rows w4 t1 = Some []" "rows w4 t2 = Some []" using w1(6) w2(6,7) w3(5) w4(5) t12 by simp_all
  have room4: "room w4 (Suc (Suc (7 + k)))" using w4(3) by (simp add: numeral_eq_Suc)
  obtain w5 ts where w5: "InitializeTableCatalogTable henv ops w4 \<lparr>storage_m = t1, schema_m = table_catalog_schema\<rparr> = Inr w5" "finv w5" "room w5 (7 + k)"
    "names w5 = names w4" "rows w5 = (rows w4)(t1 \<mapsto> ts)" "table_rows_ok initial_info ts"
    using init_table_catalog [OF w4(2) r4(1) t12(2) room4 henv m(1)] by blast
  have r5: "rows w5 t2 = Some []" using r4(2) w5(5) t12(1) by simp
  obtain w6 cs where w6: "InitializeColumnCatalogTable henv ops w5 \<lparr>storage_m = t2, schema_m = column_catalog_schema\<rparr> = Inr w6" "finv w6" "room w6 k"
    "names w6 = names w5" "rows w6 = (rows w5)(t2 \<mapsto> cs)" "column_rows_ok initial_info cs"
    using init_column_catalog [OF w5(2) r5 t12(3) w5(3) henv m(1)] by blast
  have names6: "names w6 = (names w)(?T \<mapsto> t1, ?C \<mapsto> t2)" using w1(4) w2(4) w3(4) w4(4) w5(4) w6(4) by simp
  then have st: "stored names rows w6 t1 t2 initial_info" using w5(5,6) w6(5,6) t12(1) by (simp add: stored_def)
  let ?ht = "\<lparr>storage_m = t1, schema_m = table_catalog_schema\<rparr>" and ?hc = "\<lparr>storage_m = t2, schema_m = column_catalog_schema\<rparr>"
  obtain w7 where w7: "andthen (LoadTableSchemas ops w6 \<lparr>table_info_m = Map.empty, table_catalog_table_m = ?ht, column_catalog_table_m = ?hc\<rparr>)
      (\<lambda>(c, w). LoadColumnSchemas ops w c) = Inr (\<lparr>table_info_m = initial_info, table_catalog_table_m = ?ht, column_catalog_table_m = ?hc\<rparr>, w7)"
    "finv w7" "room w7 k" "names w7 = names w6" "rows w7 = rows w6"
    using load_ok [OF w6(2) st initial_ok(3) [OF m(1)], of ?ht ?hc] w6(3) by auto
  have "CreateCatalogTables henv ops fa w = Inr (\<lparr>table_info_m = Map.empty, table_catalog_table_m = ?ht, column_catalog_table_m = ?hc\<rparr>, w6)"
    using w1(1) w2(1) w3(1) w4(1) w5(1) w6(1) by (simp add: CreateCatalogTables_def)
  then have run: "Catalog_new henv ops fa w = Inr (\<lparr>table_info_m = initial_info, table_catalog_table_m = ?ht, column_catalog_table_m = ?hc\<rparr>, w7)"
    using w7(1) by (simp add: Catalog_new_def)
  have keep: "rows w7 t = rows w t" if "rows w t \<noteq> None" "t \<notin> internal" for t
  proof -
    have "t \<noteq> t1" using that(1) w1(5) by auto
    then have "rows w1 t = rows w t" using that w1(7) by simp
    moreover from this have "t \<noteq> t2" using that(1) w2(5) by auto
    ultimately show ?thesis using \<open>t \<noteq> t1\<close> that(2) w2(7) w3(5) w4(5) w5(5) w6(5) w7(5) by simp
  qed
  have "stored names rows w7 t1 t2 initial_info" using st w7(4,5) by (simp add: stored_def)
  then have "catalog_ok names rows max_row w7 \<lparr>table_info_m = initial_info, table_catalog_table_m = ?ht, column_catalog_table_m = ?hc\<rparr>"
    using initial_ok(3) [OF m(1)] by (simp add: catalog_ok_def)
  then show ?thesis using run w7(2-4) names6 keep
    by (intro exI [of _ "\<lparr>table_info_m = initial_info, table_catalog_table_m = ?ht, column_catalog_table_m = ?hc\<rparr>"]
        exI [of _ w7] exI [of _ t1] exI [of _ t2]) simp
qed

end

end
