(* ===== verification/Storage_Factories.thy ===== *)
theory Storage_Factories
  imports Storage_Engine Disk_Factory_Spec Catalog_Spec
begin

text \<open>
  The two table factories behind the factory interface, in the world of \<open>Storage_Engine\<close>, and the
  proof that both keep its contract.
\<close>

section \<open>Virtual calls\<close>

text \<open>Calls on a factory that was not created are undefined. The heap keeps tables nobody refers to any more.\<close>

definition on_registry :: "Storage \<Rightarrow> (EphemeralTableFactory \<Rightarrow> ('a \<times> Storage)) \<Rightarrow> ('a \<times> Storage) outcome" where
  "on_registry w f = (case in_memory_m w of None \<Rightarrow> Inl Undefined | Some fac \<Rightarrow> Inr (f fac))"

definition EphemeralTableFactory_ops :: "(Storage, any_table) TableFactory" where
  "EphemeralTableFactory_ops =
     \<lparr>fa_TableExists = (\<lambda>w n. on_registry w (\<lambda>fac. (eph_TableExists fac n, w))),
      fa_CreateTable = (\<lambda>w n. on_registry w (\<lambda>fac.
        let (created, fac, h) = eph_CreateTable (next_address w) (heap w) fac n
        in (created, w\<lparr>in_memory_m := Some fac, heap := h,
              next_address := (if created then Suc (next_address w) else next_address w)\<rparr>))),
      fa_GetTable = (\<lambda>w n. on_registry w (\<lambda>fac. (map_option Inl (eph_GetTable fac n), w))),
      fa_DeleteTable = (\<lambda>w n. on_registry w (\<lambda>fac.
        let (deleted, fac) = eph_DeleteTable fac n in (deleted, w\<lparr>in_memory_m := Some fac\<rparr>)))\<rparr>"

definition DiskTableFactory_ops :: "heap_env \<Rightarrow> io_env \<Rightarrow> (Storage, any_table) TableFactory" where
  "DiskTableFactory_ops henv env =
     \<lparr>fa_TableExists = (\<lambda>w n. on_pool w (\<lambda>p. disk_TableExists env p n)),
      fa_CreateTable = (\<lambda>w n. on_pool w (\<lambda>p. disk_CreateTable henv env p n)),
      fa_GetTable = (\<lambda>w n. andthen (on_pool w (\<lambda>p. disk_GetTable env p n)) (\<lambda>(f, w). Inr (map_option Inr f, w))),
      fa_DeleteTable = (\<lambda>w n. on_pool w (\<lambda>p. disk_DeleteTable env p n))\<rparr>"

section \<open>In-memory tables\<close>

definition mem_names :: "Storage \<Rightarrow> string \<rightharpoonup> any_table" where
  "mem_names w n = (case in_memory_m w of None \<Rightarrow> None | Some fac \<Rightarrow> map_option Inl (map_of (tables_m fac) n))"

definition registry_ok :: "Storage \<Rightarrow> bool" where
  "registry_ok w \<longleftrightarrow> (\<forall>a \<ge> next_address w. heap w a = None) \<and>
     (\<forall>fac. in_memory_m w = Some fac \<longrightarrow> distinct (map fst (tables_m fac)) \<and> distinct (map snd (tables_m fac)) \<and>
        (\<forall>a \<in> snd ` set (tables_m fac). heap w a \<noteq> None))"

definition mem_finv :: "io_env \<Rightarrow> Storage \<Rightarrow> bool" where
  "mem_finv env w \<longleftrightarrow> any_inv env w \<and> registry_ok w \<and> in_memory_m w \<noteq> None"

lemma registry_ok_cong:
  assumes "in_memory_m w' = in_memory_m w" "next_address w' = next_address w" "\<And>a. heap w' a = None \<longleftrightarrow> heap w a = None"
  shows "registry_ok w' = registry_ok w" and "mem_names w' = mem_names w"
  using assms by (simp_all add: registry_ok_def mem_names_def fun_eq_iff)

text \<open>Rows come and go without touching the registry.\<close>

lemma row_change_registry:
  assumes "any_rows w t = Some rs"
  shows "tb_insert_row (AnyTable_ops env) w t row = Inr (rid, w') \<Longrightarrow> registry_ok w' = registry_ok w \<and> mem_names w' = mem_names w \<and> in_memory_m w' = in_memory_m w"
    and "tb_delete_row (AnyTable_ops env) w t rid = Inr w' \<Longrightarrow> registry_ok w' = registry_ok w \<and> mem_names w' = mem_names w \<and> in_memory_m w' = in_memory_m w"
proof -
  show "registry_ok w' = registry_ok w \<and> mem_names w' = mem_names w \<and> in_memory_m w' = in_memory_m w"
    if "tb_insert_row (AnyTable_ops env) w t row = Inr (rid, w')"
  proof -
    have "in_memory_m w' = in_memory_m w \<and> next_address w' = next_address w \<and> (\<forall>a. heap w' a = None \<longleftrightarrow> heap w a = None)"
      using that by (cases t) (auto simp: any_ops_defs EphemeralTable_ops_def at_address_def andthen_eq_Inr split: option.splits prod.splits if_splits)
    then show ?thesis using registry_ok_cong [of w' w] by simp
  qed
  show "registry_ok w' = registry_ok w \<and> mem_names w' = mem_names w \<and> in_memory_m w' = in_memory_m w"
    if "tb_delete_row (AnyTable_ops env) w t rid = Inr w'"
  proof -
    have "in_memory_m w' = in_memory_m w \<and> next_address w' = next_address w \<and> (\<forall>a. heap w' a = None \<longleftrightarrow> heap w a = None)"
      using that by (cases t) (auto simp: any_ops_defs EphemeralTable_ops_def at_address_def andthen_eq_Inr split: option.splits prod.splits if_splits)
    then show ?thesis using registry_ok_cong [of w' w] by simp
  qed
qed

lemma any_same_registry: "any_same w w' \<Longrightarrow> registry_ok w' = registry_ok w \<and> mem_names w' = mem_names w \<and> in_memory_m w' = in_memory_m w"
  using registry_ok_cong [of w' w] by (simp add: any_same_def)

lemma mem_create:
  assumes inv: "mem_finv env w" and new: "mem_names w n = None" and room: "any_room w k"
  shows "\<exists>w' t. fa_CreateTable EphemeralTableFactory_ops w n = Inr (True, w') \<and> mem_finv env w' \<and> any_room w' k \<and>
    mem_names w' = (mem_names w)(n \<mapsto> t) \<and> any_rows w t = None \<and> any_rows w' t = Some [] \<and> on_disk_m w' = on_disk_m w \<and>
    (\<forall>t'. t' \<noteq> t \<longrightarrow> any_rows w' t' = any_rows w t')"
proof -
  obtain fac where fac: "in_memory_m w = Some fac" using inv by (auto simp: mem_finv_def)
  let ?a = "next_address w"
  let ?w = "w\<lparr>in_memory_m := Some (fac\<lparr>tables_m := (n, ?a) # tables_m fac\<rparr>), heap := (heap w)(?a \<mapsto> EphemeralTable_new), next_address := Suc ?a\<rparr>"
  have free: "heap w ?a = None" and reg: "registry_ok w" using inv by (simp_all add: mem_finv_def registry_ok_def)
  have nn: "map_of (tables_m fac) n = None" using new fac by (simp add: mem_names_def)
  then have run: "fa_CreateTable EphemeralTableFactory_ops w n = Inr (True, ?w)"
    using fac by (simp add: EphemeralTableFactory_ops_def on_registry_def eph_CreateTable_def)
  have "?a \<notin> snd ` set (tables_m fac)" "n \<notin> fst ` set (tables_m fac)"
    using reg fac free nn by (auto simp: registry_ok_def map_of_eq_None_iff)
  then have "registry_ok ?w" using reg fac by (auto simp: registry_ok_def)
  moreover have "any_inv env ?w"
    using inv eph_ok_new by (auto simp: mem_finv_def any_inv_def eph_inv_def)
  moreover have "any_room ?w k"
    using room by (auto simp: any_room_def eph_room_def next_id_def EphemeralTable_new_def)
  moreover have "mem_names ?w = (mem_names w)(n \<mapsto> Inl ?a)" using fac by (auto simp: mem_names_def)
  moreover have "any_rows ?w t' = any_rows w t'" if "t' \<noteq> Inl ?a" for t'
    using that by (cases t') (auto simp: any_rows_def eph_rows_def)
  moreover have "any_rows ?w (Inl ?a) = Some []" "any_rows w (Inl ?a) = None"
    using free by (simp_all add: eph_rows_def EphemeralTable_new_def)
  ultimately show ?thesis using run by (intro exI [of _ ?w] exI [of _ "Inl ?a"]) (simp add: mem_finv_def)
qed

lemma mem_drop:
  assumes inv: "mem_finv env w"
  shows "\<exists>w'. fa_DeleteTable EphemeralTableFactory_ops w n = Inr (mem_names w n \<noteq> None, w') \<and> mem_finv env w' \<and>
    (\<forall>k. any_room w' k = any_room w k) \<and> mem_names w' = (mem_names w)(n := None) \<and> any_rows w' = any_rows w \<and>
    on_disk_m w' = on_disk_m w \<and> (mem_names w n = None \<longrightarrow> w' = w)"
proof -
  obtain fac where fac: "in_memory_m w = Some fac" using inv by (auto simp: mem_finv_def)
  have erase: "map_of (map_erase n xs) = (map_of xs)(n := None)" "set (map_erase n xs) \<subseteq> set xs"
    "distinct (map fst xs) \<Longrightarrow> distinct (map fst (map_erase n xs))" "distinct (map snd xs) \<Longrightarrow> distinct (map snd (map_erase n xs))"
    for xs :: "(string \<times> nat) list"
    by (induction xs) (auto simp: map_erase_def fun_eq_iff)
  show ?thesis
  proof (cases "map_of (tables_m fac) n")
    case None
    then have "fa_DeleteTable EphemeralTableFactory_ops w n = Inr (False, w\<lparr>in_memory_m := Some fac\<rparr>)"
      using fac by (simp add: EphemeralTableFactory_ops_def on_registry_def eph_DeleteTable_def)
    also have "w\<lparr>in_memory_m := Some fac\<rparr> = w" using fac by simp
    finally show ?thesis using None fac inv by (auto simp: mem_names_def fun_eq_iff)
  next
    case (Some a)
    let ?w = "w\<lparr>in_memory_m := Some (fac\<lparr>tables_m := map_erase n (tables_m fac)\<rparr>)\<rparr>"
    have "registry_ok ?w"
      using inv fac erase(2-4) [of "tables_m fac"] unfolding mem_finv_def registry_ok_def by auto
    moreover have "mem_names ?w = (mem_names w)(n := None)" using fac erase(1) by (auto simp: mem_names_def)
    ultimately show ?thesis
      using fac inv Some
      by (intro exI [of _ ?w])
        (auto simp: EphemeralTableFactory_ops_def on_registry_def eph_DeleteTable_def mem_names_def mem_finv_def any_inv_def any_room_def)
  qed
qed

interpretation mem_factory: factory "AnyTable_ops env" "any_ready env" any_same "any_inv env" any_rows any_can_insert any_room 4068
  EphemeralTableFactory_ops "mem_finv env" mem_names "{}" "\<lambda>_. True" "\<lambda>_. True" max_name for env max_name
proof unfold_locales
  show "any_rows w t \<noteq> None \<and> t \<notin> {}" if "mem_finv env w" "mem_names w n = Some t" for w n t
    using that by (fastforce simp: mem_finv_def registry_ok_def mem_names_def eph_rows_def dest: map_of_SomeD split: option.splits)
  show "n = m" if "mem_finv env w" "mem_names w n = Some t" "mem_names w m = Some t" for w n m t
    using that by (fastforce simp: mem_finv_def registry_ok_def mem_names_def distinct_map inj_on_def dest: map_of_SomeD split: option.splits)
  show "mem_finv env w' \<and> mem_names w' = mem_names w" if "any_same w w'" "mem_finv env w" for w w'
    using that any_sameD(1) any_same_registry by (simp add: mem_finv_def)
  show "\<exists>w'. fa_TableExists EphemeralTableFactory_ops w n = Inr (mem_names w n \<noteq> None, w') \<and> any_same w w'"
    if "mem_finv env w" for w n
    using that any.same_refl
    by (auto simp: mem_finv_def EphemeralTableFactory_ops_def on_registry_def eph_TableExists_def mem_names_def)
  show "\<exists>w'. fa_GetTable EphemeralTableFactory_ops w n = Inr (mem_names w n, w') \<and> any_same w w'"
    if "mem_finv env w" for w n
    using that any.same_refl
    by (auto simp: mem_finv_def EphemeralTableFactory_ops_def on_registry_def eph_GetTable_def mem_names_def)
  show "\<exists>w' t. fa_CreateTable EphemeralTableFactory_ops w n = Inr (True, w') \<and> mem_finv env w' \<and> any_room w' k \<and>
      mem_names w' = (mem_names w)(n \<mapsto> t) \<and> any_rows w t = None \<and> any_rows w' t = Some [] \<and>
      (\<forall>t'. t' \<notin> insert t {} \<longrightarrow> any_rows w' t' = any_rows w t')"
    if "mem_finv env w" "mem_names w n = None" "any_room w (Suc (Suc k))" for w n k
    using mem_create [OF that(1,2), of k] any.room_le [OF that(3), of k] by auto
  show "\<exists>w'. fa_DeleteTable EphemeralTableFactory_ops w n = Inr (True, w') \<and> mem_finv env w' \<and>
      (\<forall>k. any_room w k \<longrightarrow> any_room w' k) \<and> mem_names w' = (mem_names w)(n := None) \<and>
      (\<forall>t'. t' \<notin> insert t {} \<longrightarrow> any_rows w' t' = any_rows w t')" if "mem_finv env w" "mem_names w n = Some t" for w n t
    using mem_drop [OF that(1), of n] that(2) by auto
  show "\<exists>w'. fa_DeleteTable EphemeralTableFactory_ops w n = Inr (False, w') \<and> any_same w w'"
    if "mem_finv env w" "mem_names w n = None" for w n
    using mem_drop [OF that(1), of n] that(2) any.same_refl by auto
  show "mem_finv env w' \<and> mem_names w' = mem_names w"
    if "mem_finv env w" "any_rows w t = Some rs" "any_can_insert w t row" "tb_insert_row (AnyTable_ops env) w t row = Inr (rid, w')"
    for w t rs row rid w'
    using row_change_registry(1) [OF that(2,4)] any_insert [of env w t rs row] that by (auto simp: mem_finv_def)
  show "mem_finv env w' \<and> mem_names w' = mem_names w"
    if "mem_finv env w" "any_rows w t = Some rs" "rid \<in> fst ` set rs" "tb_delete_row (AnyTable_ops env) w t rid = Inr w'"
    for w t rs rid w'
    using row_change_registry(2) [OF that(2,4)] any_delete [of env w t rs rid] that by (auto simp: mem_finv_def)
qed (auto simp: mem_finv_def)

section \<open>Disk tables\<close>

definition disk_names_of :: "Storage \<Rightarrow> string \<rightharpoonup> any_table" where
  "disk_names_of w n = (case on_disk_m w of None \<Rightarrow> None | Some p \<Rightarrow> map_option Inr (disk_names p n))"

definition disk_finv :: "heap_env \<Rightarrow> io_env \<Rightarrow> Storage \<Rightarrow> bool" where
  "disk_finv henv env w \<longleftrightarrow> (\<forall>n. env_ok henv n) \<and> any_inv env w \<and> (\<exists>p. on_disk_m w = Some p \<and> mapping_inv p)"

definition pool_can_create :: "io_env \<Rightarrow> Storage \<Rightarrow> bool" where
  "pool_can_create env w \<longleftrightarrow> (\<exists>p. on_disk_m w = Some p \<and> disk_can_create env p)"

definition pool_can_drop :: "Storage \<Rightarrow> bool" where
  "pool_can_drop w \<longleftrightarrow> (\<exists>p. on_disk_m w = Some p \<and> disk_can_drop p)"

abbreviation mapping_tables :: "any_table set" where
  "mapping_tables \<equiv> {Inr DISK_TABLE_MAPPING_FILE_ID}"

lemma disk_finvE:
  assumes "disk_finv henv env w"
  obtains p where "on_disk_m w = Some p" "disk_inv env p" "mapping_inv p" "\<forall>n. env_ok henv n"
  using assms by (auto simp: disk_finv_def any_inv_def)

lemma disk_names_of_Some [simp]: "on_disk_m w = Some p \<Longrightarrow> disk_names_of w n = map_option Inr (disk_names p n)"
  by (simp add: disk_names_of_def)

lemma disk_names_file:
  assumes "mapping_inv p" and "disk_names p n = Some f"
  shows "f \<noteq> DISK_TABLE_MAPPING_FILE_ID" and "disk_rows p f \<noteq> None"
proof -
  have "f \<in> snd ` set (mapping_entries p)" using assms(2) by (force simp: disk_names_def dest: map_of_SomeD)
  then show "f \<noteq> DISK_TABLE_MAPPING_FILE_ID" "disk_rows p f \<noteq> None" using assms(1) unfolding mapping_inv_def by blast+
qed

lemma disk_names_inj:
  assumes "mapping_inv p" and "disk_names p n = Some f" and "disk_names p m = Some f"
  shows "n = m"
proof -
  have "(n, f) \<in> set (mapping_entries p)" "(m, f) \<in> set (mapping_entries p)"
    using assms(2,3) by (simp_all add: disk_names_def map_of_SomeD)
  then show ?thesis using assms(1) by (force simp: mapping_inv_def distinct_map inj_on_def)
qed

text \<open>Changing the rows of any table but the mapping table keeps the map, as long as no table appears or goes.\<close>

lemma mapping_inv_keep:
  assumes "mapping_inv p" and "disk_rows p' DISK_TABLE_MAPPING_FILE_ID = disk_rows p DISK_TABLE_MAPPING_FILE_ID"
    and "\<And>g. disk_rows p' g = None \<Longrightarrow> disk_rows p g = None"
  shows "mapping_inv p'" and "disk_names p' = disk_names p"
proof -
  have e: "mapping_entries p' = mapping_entries p" using assms(2) by (simp add: mapping_entries_def)
  then show "disk_names p' = disk_names p" by (simp add: disk_names_def)
  show "mapping_inv p'" using assms unfolding mapping_inv_def e by metis
qed

lemma row_change_mapping:
  assumes inv: "disk_finv henv env w" and rows: "any_rows w' = (any_rows w)(t \<mapsto> rs)" and t: "t \<notin> mapping_tables" "any_rows w t \<noteq> None"
    and inv': "any_inv env w'" and d: "on_disk_m w' = None \<longleftrightarrow> on_disk_m w = None"
  shows "disk_finv henv env w' \<and> disk_names_of w' = disk_names_of w"
proof -
  obtain p where p: "on_disk_m w = Some p" "mapping_inv p" using inv by (rule disk_finvE)
  then obtain p' where p': "on_disk_m w' = Some p'" using d by auto
  have r: "disk_rows p' g = (if t = Inr g then Some rs else disk_rows p g)" for g
    using fun_cong [OF rows, of "Inr g"] p(1) p' by simp
  have "disk_rows p' DISK_TABLE_MAPPING_FILE_ID = disk_rows p DISK_TABLE_MAPPING_FILE_ID" using t(1) by (simp add: r)
  moreover have "disk_rows p g = None" if "disk_rows p' g = None" for g using that r [of g] by (simp split: if_splits)
  ultimately have "mapping_inv p'" "disk_names p' = disk_names p" using mapping_inv_keep [OF p(2)] by blast+
  then show ?thesis using inv inv' p' p(1) by (auto simp: disk_finv_def fun_eq_iff)
qed

lemma row_change_pool:
  "tb_insert_row (AnyTable_ops env) w t row = Inr (rid, w') \<Longrightarrow> on_disk_m w' = None \<longleftrightarrow> on_disk_m w = None"
  "tb_delete_row (AnyTable_ops env) w t rid = Inr w' \<Longrightarrow> on_disk_m w' = None \<longleftrightarrow> on_disk_m w = None"
  by (cases t; auto simp: any_ops_defs andthen_eq_Inr split: option.splits)+

lemma pool_inv_update: "any_inv env w \<Longrightarrow> disk_inv env p \<Longrightarrow> any_inv env (w\<lparr>on_disk_m := Some p\<rparr>)"
  by (simp add: any_inv_def)

lemma disk_create:
  assumes inv: "disk_finv henv env w" and new: "disk_names_of w n = None" and len: "length n \<le> 4062"
    and room: "any_room w (Suc (Suc k))" and can: "pool_can_create env w"
  shows "\<exists>w' t. fa_CreateTable (DiskTableFactory_ops henv env) w n = Inr (True, w') \<and> disk_finv henv env w' \<and> any_room w' k \<and>
    disk_names_of w' = (disk_names_of w)(n \<mapsto> t) \<and> any_rows w t = None \<and> any_rows w' t = Some [] \<and>
    (\<forall>t'. t' \<notin> insert t mapping_tables \<longrightarrow> any_rows w' t' = any_rows w t')"
proof -
  obtain p where p: "on_disk_m w = Some p" "disk_inv env p" "mapping_inv p" and henv: "\<forall>n. env_ok henv n" using inv by (rule disk_finvE)
  have "disk_names p n = None" "disk_room p (Suc (Suc k))" "disk_can_create env p"
    using p(1) new room can by (simp_all add: any_room_def pool_can_create_def)
  from disk_CreateTable_ok [OF p(2,3) this(1) len this(2,3) henv]
  obtain p' f where c: "disk_CreateTable henv env p n = Inr (True, p')" "disk_inv env p'" "mapping_inv p'" "disk_room p' k"
    "disk_names p' = (disk_names p)(n \<mapsto> f)" "disk_rows p f = None" "disk_rows p' f = Some []"
    "\<forall>g. g \<noteq> f \<and> g \<noteq> DISK_TABLE_MAPPING_FILE_ID \<longrightarrow> disk_rows p' g = disk_rows p g"
    by blast
  let ?w = "w\<lparr>on_disk_m := Some p'\<rparr>"
  have "fa_CreateTable (DiskTableFactory_ops henv env) w n = Inr (True, ?w)"
    using c(1) p(1) by (simp add: DiskTableFactory_ops_def on_pool_def)
  moreover have "disk_finv henv env ?w" using inv c(2,3) pool_inv_update by (simp add: disk_finv_def)
  moreover have "any_room ?w k" using room c(4) eph_roomy.room_le [of "heap w" "Suc (Suc k)" k] by (simp add: any_room_def)
  moreover have "disk_names_of ?w = (disk_names_of w)(n \<mapsto> Inr f)" using p(1) c(5) by (auto simp: fun_eq_iff)
  moreover have "any_rows ?w t' = any_rows w t'" if "t' \<notin> insert (Inr f) mapping_tables" for t'
    using that c(8) p(1) by (cases t') (auto simp: any_rows_def)
  moreover have "any_rows ?w (Inr f) = Some []" "any_rows w (Inr f) = None" using p(1) c(6,7) by (simp_all add: any_rows_def)
  ultimately show ?thesis by blast
qed

lemma disk_drop:
  assumes inv: "disk_finv henv env w" and n: "disk_names_of w n = Some t" and can: "pool_can_drop w"
  shows "\<exists>w'. fa_DeleteTable (DiskTableFactory_ops henv env) w n = Inr (True, w') \<and> disk_finv henv env w' \<and>
    (\<forall>k. any_room w k \<longrightarrow> any_room w' k) \<and> disk_names_of w' = (disk_names_of w)(n := None) \<and>
    (\<forall>t'. t' \<notin> insert t mapping_tables \<longrightarrow> any_rows w' t' = any_rows w t')"
proof -
  obtain p where p: "on_disk_m w = Some p" "disk_inv env p" "mapping_inv p" using inv by (rule disk_finvE)
  then obtain f where f: "disk_names p n = Some f" "t = Inr f" using n by auto
  have "disk_can_drop p" using p(1) can by (simp add: pool_can_drop_def)
  from disk_DeleteTable_ok [OF p(2,3) f(1) this]
  obtain p' where c: "disk_DeleteTable env p n = Inr (True, p')" "disk_inv env p'" "mapping_inv p'" "\<forall>k. disk_room p k \<longrightarrow> disk_room p' k"
    "disk_names p' = (disk_names p)(n := None)"
    "\<forall>g. g \<noteq> f \<and> g \<noteq> DISK_TABLE_MAPPING_FILE_ID \<longrightarrow> disk_rows p' g = disk_rows p g"
    by blast
  let ?w = "w\<lparr>on_disk_m := Some p'\<rparr>"
  have "fa_DeleteTable (DiskTableFactory_ops henv env) w n = Inr (True, ?w)"
    using c(1) p(1) by (simp add: DiskTableFactory_ops_def on_pool_def)
  moreover have "disk_finv henv env ?w" using inv c(2,3) pool_inv_update by (simp add: disk_finv_def)
  moreover have "\<forall>k. any_room w k \<longrightarrow> any_room ?w k" using p(1) c(4) by (simp add: any_room_def)
  moreover have "disk_names_of ?w = (disk_names_of w)(n := None)" using p(1) c(5) by (auto simp: fun_eq_iff)
  moreover have "any_rows ?w t' = any_rows w t'" if "t' \<notin> insert t mapping_tables" for t'
    using that c(6) p(1) f(2) by (cases t') (auto simp: any_rows_def)
  ultimately show ?thesis by blast
qed

lemma disk_lookup:
  assumes inv: "disk_finv henv env w"
  shows "\<exists>w'. fa_TableExists (DiskTableFactory_ops henv env) w n = Inr (disk_names_of w n \<noteq> None, w') \<and> any_same w w'"
    and "\<exists>w'. fa_GetTable (DiskTableFactory_ops henv env) w n = Inr (disk_names_of w n, w') \<and> any_same w w'"
    and "disk_names_of w n = None \<Longrightarrow> \<exists>w'. fa_DeleteTable (DiskTableFactory_ops henv env) w n = Inr (False, w') \<and> any_same w w'"
proof -
  obtain p where p: "on_disk_m w = Some p" "disk_inv env p" "mapping_inv p" using inv by (rule disk_finvE)
  obtain p' where g: "GetFileId env p n = Inr (disk_names p n, p')" "disk_same p p'" using GetFileId_ok [OF p(2,3)] by blast
  have s: "any_same w (w\<lparr>on_disk_m := Some p'\<rparr>)" using any_same_pool [OF p(1) g(2)] .
  show "\<exists>w'. fa_TableExists (DiskTableFactory_ops henv env) w n = Inr (disk_names_of w n \<noteq> None, w') \<and> any_same w w'"
    using g(1) p(1) s by (auto simp: DiskTableFactory_ops_def on_pool_def disk_TableExists_def)
  show "\<exists>w'. fa_GetTable (DiskTableFactory_ops henv env) w n = Inr (disk_names_of w n, w') \<and> any_same w w'"
    using g(1) p(1) s by (auto simp: DiskTableFactory_ops_def on_pool_def disk_GetTable_def split: option.split)
  show "\<exists>w'. fa_DeleteTable (DiskTableFactory_ops henv env) w n = Inr (False, w') \<and> any_same w w'" if "disk_names_of w n = None"
    using g(1) p(1) s that by (auto simp: DiskTableFactory_ops_def on_pool_def disk_DeleteTable_def)
qed

interpretation disk_factory: factory "AnyTable_ops env" "any_ready env" any_same "any_inv env" any_rows any_can_insert any_room 4068
  "DiskTableFactory_ops henv env" "disk_finv henv env" disk_names_of mapping_tables "pool_can_create env" pool_can_drop 4062 for henv env
proof unfold_locales
  show "any_rows w t \<noteq> None \<and> t \<notin> mapping_tables" if "disk_finv henv env w" "disk_names_of w n = Some t" for w n t
    using that(1)
  proof (rule disk_finvE)
    fix p assume p: "on_disk_m w = Some p" "mapping_inv p"
    then show ?thesis using that(2) disk_names_file [OF p(2), of n] by auto
  qed
  show "n = m" if "disk_finv henv env w" "disk_names_of w n = Some t" "disk_names_of w m = Some t" for w n m t
    using that(1) by (rule disk_finvE) (use that(2,3) disk_names_inj in auto)
  show "pool_can_create env w'" if s: "any_same w w'" and inv: "disk_finv henv env w" and can: "pool_can_create env w" for w w'
  proof -
    have "any_inv env w" using inv by (simp add: disk_finv_def)
    from s this show ?thesis
    proof (cases rule: any_same_cases)
      case (some p p')
      then show ?thesis using can disk_can_create_tidy [of p p' env] disk_invD(4) by (auto simp: pool_can_create_def disk_same_def)
    qed (use can in \<open>simp add: pool_can_create_def\<close>)
  qed
  show "disk_finv henv env w' \<and> disk_names_of w' = disk_names_of w" if s: "any_same w w'" and inv: "disk_finv henv env w" for w w'
  proof -
    have "any_inv env w" using inv by (simp add: disk_finv_def)
    from s this show ?thesis
    proof (cases rule: any_same_cases)
      case (some p p')
      then have "mapping_inv p' \<and> disk_names p' = disk_names p" using inv mapping_inv_same(1,2) [OF some(7)] by (auto simp: disk_finv_def)
      then show ?thesis using inv any_sameD(1) [OF s \<open>any_inv env w\<close>] some by (auto simp: disk_finv_def fun_eq_iff)
    qed (use inv in \<open>simp add: disk_finv_def\<close>)
  qed
  show "disk_finv henv env w' \<and> disk_names_of w' = disk_names_of w"
    if inv: "disk_finv henv env w" and rs: "any_rows w t = Some rs" and t: "t \<notin> mapping_tables" and can: "any_can_insert w t row"
      and ins: "tb_insert_row (AnyTable_ops env) w t row = Inr (rid, w')" for w t rs row rid w'
  proof -
    have "any_inv env w" using inv by (simp add: disk_finv_def)
    from any_insert [OF this rs can] ins obtain rs' where "any_inv env w'" "any_rows w' = (any_rows w)(t \<mapsto> rs')" by auto
    then show ?thesis using row_change_mapping [OF inv _ t] rs row_change_pool(1) [OF ins] by auto
  qed
  show "disk_finv henv env w' \<and> disk_names_of w' = disk_names_of w"
    if inv: "disk_finv henv env w" and rs: "any_rows w t = Some rs" and t: "t \<notin> mapping_tables" and rid: "rid \<in> fst ` set rs"
      and del: "tb_delete_row (AnyTable_ops env) w t rid = Inr w'" for w t rs rid w'
  proof -
    have "any_inv env w" using inv by (simp add: disk_finv_def)
    from any_delete [OF this rs rid] del obtain rs' where "any_inv env w'" "any_rows w' = (any_rows w)(t \<mapsto> rs')" by auto
    then show ?thesis using row_change_mapping [OF inv _ t] rs row_change_pool(2) [OF del] by auto
  qed
qed (use disk_create disk_drop disk_lookup in \<open>auto simp: disk_finv_def\<close>)

text \<open>
  The disk factory, and tables in general, leave the in-memory registry alone: the same contract holds
  with the registry pinned, which is what a client that uses both factories needs.
\<close>

definition registry_part :: "Storage \<Rightarrow> EphemeralTableFactory option \<times> nat \<times> nat set" where
  "registry_part w = (in_memory_m w, next_address w, {a. heap w a = None})"

lemma registry_part_cong:
  assumes "registry_part w' = registry_part w"
  shows "registry_ok w' = registry_ok w" and "mem_names w' = mem_names w"
proof -
  have e: "in_memory_m w' = in_memory_m w" "next_address w' = next_address w" "{a. heap w' a = None} = {a. heap w a = None}"
    using assms by (simp_all add: registry_part_def)
  have "heap w' a = None \<longleftrightarrow> heap w a = None" for a using e(3) by blast
  then show "registry_ok w' = registry_ok w" "mem_names w' = mem_names w" using registry_ok_cong [of w' w] e by blast+
qed

lemma disk_registry_part:
  "on_pool w f = Inr (x, w') \<Longrightarrow> registry_part w' = registry_part w"
  by (auto simp: on_pool_def registry_part_def andthen_eq_Inr split: option.splits)

lemma row_change_registry_part:
  "tb_insert_row (AnyTable_ops env) w t row = Inr (rid, w') \<Longrightarrow> registry_part w' = registry_part w"
  "tb_delete_row (AnyTable_ops env) w t rid = Inr w' \<Longrightarrow> registry_part w' = registry_part w"
  by (cases t; auto simp: registry_part_def any_ops_defs EphemeralTable_ops_def at_address_def andthen_eq_Inr
      split: option.splits prod.splits if_splits)+

interpretation pinned_factory: factory "AnyTable_ops env" "any_ready env" any_same "any_inv env" any_rows any_can_insert any_room 4068
  "DiskTableFactory_ops henv env" "\<lambda>w. disk_finv henv env w \<and> registry_part w = M" disk_names_of mapping_tables
  "pool_can_create env" pool_can_drop 4062 for henv env M
proof unfold_locales
  have same: "registry_part w' = registry_part w" if "any_same w w'" for w w' using that by (simp add: any_same_def registry_part_def)
  show "(disk_finv henv env w' \<and> registry_part w' = M) \<and> disk_names_of w' = disk_names_of w"
    if "any_same w w'" "disk_finv henv env w \<and> registry_part w = M" for w w'
    using that disk_factory.factory_same same by metis
  show "\<exists>w' t. fa_CreateTable (DiskTableFactory_ops henv env) w n = Inr (True, w') \<and> (disk_finv henv env w' \<and> registry_part w' = M) \<and>
      any_room w' k \<and> disk_names_of w' = (disk_names_of w)(n \<mapsto> t) \<and> any_rows w t = None \<and> any_rows w' t = Some [] \<and>
      (\<forall>t'. t' \<notin> insert t mapping_tables \<longrightarrow> any_rows w' t' = any_rows w t')"
    if "disk_finv henv env w \<and> registry_part w = M" "disk_names_of w n = None" "length n \<le> 4062" "any_room w (Suc (Suc k))"
      "pool_can_create env w" for w n k
    using disk_create [of henv env w n k] that disk_registry_part [of w "\<lambda>p. disk_CreateTable henv env p n"]
    by (fastforce simp: DiskTableFactory_ops_def)
  show "\<exists>w'. fa_DeleteTable (DiskTableFactory_ops henv env) w n = Inr (True, w') \<and> (disk_finv henv env w' \<and> registry_part w' = M) \<and>
      (\<forall>k. any_room w k \<longrightarrow> any_room w' k) \<and> disk_names_of w' = (disk_names_of w)(n := None) \<and>
      (\<forall>t'. t' \<notin> insert t mapping_tables \<longrightarrow> any_rows w' t' = any_rows w t')"
    if "disk_finv henv env w \<and> registry_part w = M" "disk_names_of w n = Some t" "pool_can_drop w" for w n t
    using disk_drop [of henv env w n t] that disk_registry_part [of w "\<lambda>p. disk_DeleteTable env p n"]
    by (fastforce simp: DiskTableFactory_ops_def)
  show "(disk_finv henv env w' \<and> registry_part w' = M) \<and> disk_names_of w' = disk_names_of w"
    if "disk_finv henv env w \<and> registry_part w = M" "any_rows w t = Some rs" "t \<notin> mapping_tables" "any_can_insert w t row"
      "tb_insert_row (AnyTable_ops env) w t row = Inr (rid, w')" for w t rs row rid w'
    using disk_factory.insert_names [of henv env w t rs row rid w'] row_change_registry_part(1) that by metis
  show "(disk_finv henv env w' \<and> registry_part w' = M) \<and> disk_names_of w' = disk_names_of w"
    if "disk_finv henv env w \<and> registry_part w = M" "any_rows w t = Some rs" "t \<notin> mapping_tables" "rid \<in> fst ` set rs"
      "tb_delete_row (AnyTable_ops env) w t rid = Inr w'" for w t rs rid w'
    using disk_factory.delete_names [of henv env w t rs rid w'] row_change_registry_part(2) that by metis
  show "pool_can_create env w'" if "any_same w w'" "disk_finv henv env w \<and> registry_part w = M" "pool_can_create env w" for w w'
    using that(2) disk_factory.can_create_same [OF that(1) _ that(3)] by blast
  show "\<exists>w'. fa_DeleteTable (DiskTableFactory_ops henv env) w n = Inr (False, w') \<and> any_same w w'"
    if "disk_finv henv env w \<and> registry_part w = M" "disk_names_of w n = None" for w n
    using disk_lookup(3) that by blast
  show "n = m" if "disk_finv henv env w \<and> registry_part w = M" "disk_names_of w n = Some t" "disk_names_of w m = Some t" for w n m t
    using disk_factory.names_inj [OF _ that(2,3)] that(1) by blast
  show "any_rows w t \<noteq> None \<and> t \<notin> mapping_tables" if "disk_finv henv env w \<and> registry_part w = M" "disk_names_of w n = Some t" for w n t
    using disk_factory.names_rows [OF _ that(2)] that(1) by blast
qed (use disk_lookup(1,2) in \<open>simp_all add: disk_finv_def\<close>)

end
