(* ===== verification/Table_Manager.thy ===== *)
theory Table_Manager
  imports Storage_Factories
begin

text \<open>
  The table manager (\<open>table_manager.h\<close>, \<open>table_manager.cpp\<close>): it owns the factories, creating each one
  when it is first needed, and the catalog, which lives in the default engine, and keeps the two in
  step. \<open>factories_m\<close> is the storage world: a factory is in the \<open>unordered_map\<close> when its component
  of the world is not \<open>None\<close>.
\<close>

section \<open>Model\<close>

text \<open>What the process runs on: its allocator, its disk, the initial contents of the page buffers and the working directory.\<close>

record Machine =
  mc_heap :: heap_env
  mc_io :: io_env
  mc_buffer :: "nat \<Rightarrow> FullPage"
  mc_files :: "string \<rightharpoonup> byte list"

record TableManager =
  factories_m :: Storage
  catalog_m :: "any_table Catalog"

abbreviation any_ops :: "Machine \<Rightarrow> (Storage, any_table, any_iterator) Table" where
  "any_ops mc \<equiv> AnyTable_ops (mc_io mc)"

definition no_factories :: Storage where
  "no_factories = \<lparr>heap = Map.empty, next_address = 0, in_memory_m = None, on_disk_m = None\<rparr>"

text \<open>The \<open>switch\<close> that constructs a factory, and the virtual functions of the result.\<close>

definition make_factory :: "Machine \<Rightarrow> TableType \<Rightarrow> Storage \<Rightarrow> Storage outcome" where
  "make_factory mc type w =
     (case type of
        InMemory \<Rightarrow> Inr (w\<lparr>in_memory_m := Some EphemeralTableFactory_new\<rparr>)
      | Disk \<Rightarrow> andthen (DiskTableFactory_new (mc_io mc) (mc_buffer mc) (mc_files mc)) (\<lambda>p. Inr (w\<lparr>on_disk_m := Some p\<rparr>))
      | OtherTableType _ \<Rightarrow> Inl RuntimeError)"

definition factory_ops :: "Machine \<Rightarrow> TableType \<Rightarrow> (Storage, any_table) TableFactory" where
  "factory_ops mc type =
     (if type = InMemory then EphemeralTableFactory_ops else DiskTableFactory_ops (mc_heap mc) (mc_io mc))"

definition has_factory :: "Storage \<Rightarrow> TableType \<Rightarrow> bool" where
  "has_factory w type =
     (case type of InMemory \<Rightarrow> in_memory_m w \<noteq> None | Disk \<Rightarrow> on_disk_m w \<noteq> None | OtherTableType _ \<Rightarrow> False)"

definition GetFactory :: "Machine \<Rightarrow> Storage \<Rightarrow> TableType \<Rightarrow> ((Storage, any_table) TableFactory \<times> Storage) outcome" where
  "GetFactory mc w type =
     andthen (if has_factory w type then Inr w else make_factory mc type w) (\<lambda>w. Inr (factory_ops mc type, w))"

definition TableManager_new :: "Machine \<Rightarrow> TableType \<Rightarrow> TableManager outcome" where
  "TableManager_new mc default_storage_engine =
     andthen (make_factory mc default_storage_engine no_factories) (\<lambda>w.
     andthen (Catalog_new (mc_heap mc) (any_ops mc) (factory_ops mc default_storage_engine) w) (\<lambda>(c, w).
     Inr \<lparr>factories_m = w, catalog_m = c\<rparr>))"

definition tm_CreateTable :: "Machine \<Rightarrow> TableManager \<Rightarrow> string \<Rightarrow> TableType \<Rightarrow> Schema \<Rightarrow> (bool \<times> TableManager) outcome" where
  "tm_CreateTable mc m table_name type schema =
     (if catalog_TableExists (catalog_m m) table_name then Inr (False, m)
      else
        andthen (GetFactory mc (factories_m m) type) (\<lambda>(factory, w).
        andthen (fa_CreateTable factory w table_name) (\<lambda>(created_table, w).
        if \<not> created_table then Inr (False, m\<lparr>factories_m := w\<rparr>)
        else
          andthen (AddTable (mc_heap mc) (any_ops mc) w (catalog_m m) table_name type schema) (\<lambda>(added, c, w).
          Inr (added, \<lparr>factories_m = w, catalog_m = c\<rparr>)))))"

definition tm_DeleteTable :: "Machine \<Rightarrow> TableManager \<Rightarrow> string \<Rightarrow> (bool \<times> TableManager) outcome" where
  "tm_DeleteTable mc m table_name =
     (if \<not> catalog_TableExists (catalog_m m) table_name then Inr (False, m)
      else
        andthen (GetTableType (catalog_m m) table_name) (\<lambda>type.
        andthen (RemoveTable (any_ops mc) (factories_m m) (catalog_m m) table_name) (\<lambda>(removed, c, w).
        if \<not> removed then Inr (False, \<lparr>factories_m = w, catalog_m = c\<rparr>)
        else
          andthen (GetFactory mc w type) (\<lambda>(factory, w).
          andthen (fa_DeleteTable factory w table_name) (\<lambda>(deleted, w).
          Inr (deleted, \<lparr>factories_m = w, catalog_m = c\<rparr>))))))"

definition tm_TableExists :: "TableManager \<Rightarrow> string \<Rightarrow> bool" where
  "tm_TableExists m table_name = catalog_TableExists (catalog_m m) table_name"

definition tm_GetTable :: "Machine \<Rightarrow> TableManager \<Rightarrow> string \<Rightarrow> (any_table TableHandle option \<times> TableManager) outcome" where
  "tm_GetTable mc m table_name =
     (if \<not> tm_TableExists m table_name then Inr (None, m)
      else
        andthen (GetTableType (catalog_m m) table_name) (\<lambda>table_type.
        andthen (GetSchema (catalog_m m) table_name) (\<lambda>schema.
        andthen (GetFactory mc (factories_m m) table_type) (\<lambda>(factory, w).
        andthen (fa_GetTable factory w table_name) (\<lambda>(storage, w).
        Inr (map_option (\<lambda>t. \<lparr>storage_m = t, schema_m = schema\<rparr>) storage, m\<lparr>factories_m := w\<rparr>))))))"

end
