(* ===== verification/Table_Manager_Spec.thy ===== *)
theory Table_Manager_Spec
  imports Table_Manager
begin

text \<open>
  What the table manager promises when its catalog is on disk: which tables a user can reach and with
  which rows, and how the operations change that.
\<close>

section \<open>Both engines\<close>

definition engine_names :: "Storage \<Rightarrow> TableType \<Rightarrow> string \<rightharpoonup> any_table" where
  "engine_names w type =
     (case type of InMemory \<Rightarrow> mem_names w | Disk \<Rightarrow> disk_names_of w | OtherTableType _ \<Rightarrow> Map.empty)"

definition engines_ok :: "Machine \<Rightarrow> Storage \<Rightarrow> bool" where
  "engines_ok mc w \<longleftrightarrow> disk_finv (mc_heap mc) (mc_io mc) w \<and> registry_ok w"

abbreviation known :: "TableType \<Rightarrow> bool" where
  "known type \<equiv> type = InMemory \<or> type = Disk"

lemma engines_okD:
  assumes "engines_ok mc w"
  shows "disk_finv (mc_heap mc) (mc_io mc) w" "registry_ok w" "any_inv (mc_io mc) w" "\<forall>n. env_ok (mc_heap mc) n"
    "in_memory_m w \<noteq> None \<Longrightarrow> mem_finv (mc_io mc) w" "on_disk_m w \<noteq> None"
  using assms by (auto simp: engines_ok_def disk_finv_def mem_finv_def)

lemma engine_names_simps [simp]:
  "engine_names w InMemory = mem_names w" "engine_names w Disk = disk_names_of w"
  by (simp_all add: engine_names_def)

lemma engine_names_eq: "mem_names w' = mem_names w \<Longrightarrow> disk_names_of w' = disk_names_of w \<Longrightarrow> engine_names w' = engine_names w"
  by (auto simp: fun_eq_iff engine_names_def split: TableType.split)

lemma engine_names_known: "engine_names w type n = Some t \<Longrightarrow> known type"
  by (cases type) (simp_all add: engine_names_def)

lemma mem_names_rows: "registry_ok w \<Longrightarrow> mem_names w n = Some t \<Longrightarrow> any_rows w t \<noteq> None"
  by (fastforce simp: registry_ok_def mem_names_def eph_rows_def dest: map_of_SomeD split: option.splits)

lemma engine_names_tag:
  "mem_names w n = Some t \<Longrightarrow> \<exists>a. t = Inl a" "disk_names_of w n = Some t \<Longrightarrow> \<exists>f. t = Inr f"
  by (auto simp: mem_names_def disk_names_of_def split: option.splits)

lemma engine_names_inj:
  assumes ok: "engines_ok mc w" and n: "engine_names w ty n = Some t" and m: "engine_names w ty' m = Some t"
  shows "ty' = ty \<and> n = m"
proof -
  note d = engines_okD [OF ok]
  have mem: "in_memory_m w \<noteq> None" if "mem_names w k = Some t" for k using that by (auto simp: mem_names_def split: option.splits)
  show ?thesis
    using n m engine_names_known [OF n] engine_names_known [OF m] engine_names_tag [of w]
      mem_factory.names_inj [OF d(5), of n t m] disk_factory.names_inj [OF d(1), of n t m] mem by fastforce
qed

lemma engine_names_rows:
  assumes "engines_ok mc w" and "engine_names w ty n = Some t"
  shows "any_rows w t \<noteq> None \<and> t \<notin> mapping_tables"
  using engine_names_known [OF assms(2)] assms(2) mem_names_rows [OF engines_okD(2) [OF assms(1)]]
    disk_factory.names_rows [OF engines_okD(1) [OF assms(1)]] engine_names_tag [of w n t] by fastforce

text \<open>Getting a factory creates it at most; no table appears or goes.\<close>

lemma GetFactory_ok:
  assumes ok: "engines_ok mc w" and ty: "known type"
  shows "\<exists>w'. GetFactory mc w type = Inr (factory_ops mc type, w') \<and> has_factory w' type \<and> engines_ok mc w' \<and>
    any_rows w' = any_rows w \<and> engine_names w' = engine_names w \<and> on_disk_m w' = on_disk_m w \<and> (\<forall>k. any_room w' k = any_room w k)"
proof (cases "has_factory w type")
  case True
  then show ?thesis using ok by (simp add: GetFactory_def)
next
  case False
  then have "type = InMemory" "in_memory_m w = None" using ty engines_okD(6) [OF ok] by (auto simp: has_factory_def)
  moreover let ?w = "w\<lparr>in_memory_m := Some EphemeralTableFactory_new\<rparr>"
  have "engines_ok mc ?w"
    using ok by (simp add: engines_ok_def disk_finv_def any_inv_def registry_ok_def EphemeralTableFactory_new_def)
  moreover have "engine_names ?w = engine_names w"
    using \<open>in_memory_m w = None\<close>
    by (intro engine_names_eq) (simp_all add: mem_names_def disk_names_of_def EphemeralTableFactory_new_def fun_eq_iff)
  ultimately show ?thesis
    by (intro exI [of _ ?w]) (simp add: GetFactory_def make_factory_def has_factory_def any_room_def)
qed

lemma engine_get:
  assumes ok: "engines_ok mc w" and ty: "known type" and has: "has_factory w type"
  shows "\<exists>w'. fa_GetTable (factory_ops mc type) w n = Inr (engine_names w type n, w') \<and> any_same w w'"
proof -
  have "in_memory_m w \<noteq> None" if "type = InMemory" using has that by (simp add: has_factory_def)
  then show ?thesis
    using ty mem_factory.get_ok [OF engines_okD(5) [OF ok], of n] disk_factory.get_ok [OF engines_okD(1) [OF ok], of n]
    by (auto simp: factory_ops_def)
qed

lemma any_same_engines:
  assumes s: "any_same w w'" and ok: "engines_ok mc w"
  shows "engines_ok mc w'" and "any_rows w' = any_rows w" and "engine_names w' = engine_names w" and "any_room w k \<Longrightarrow> any_room w' k"
proof -
  note d = engines_okD [OF ok]
  have r: "registry_ok w' = registry_ok w" "mem_names w' = mem_names w" using any_same_registry [OF s] by simp_all
  have f: "disk_finv (mc_heap mc) (mc_io mc) w'" "disk_names_of w' = disk_names_of w" using disk_factory.factory_same [OF s d(1)] by simp_all
  show "engines_ok mc w'" using r(1) f(1) d(2) by (simp add: engines_ok_def)
  show "engine_names w' = engine_names w" using r(2) f(2) by (rule engine_names_eq)
  show "any_rows w' = any_rows w" "any_room w k \<Longrightarrow> any_room w' k" using any_sameD [OF s d(3)] by blast+
qed

lemma engine_create:
  assumes ok: "engines_ok mc w" and ty: "known type" and has: "has_factory w type" and new: "engine_names w type n = None"
    and len: "length n \<le> 4062" and room: "any_room w (Suc (Suc k))" and can: "type = Disk \<Longrightarrow> pool_can_create (mc_io mc) w"
  shows "\<exists>w' t. fa_CreateTable (factory_ops mc type) w n = Inr (True, w') \<and> engines_ok mc w' \<and> any_room w' k \<and>
    engine_names w' = (engine_names w)(type := (engine_names w type)(n \<mapsto> t)) \<and> any_rows w t = None \<and> any_rows w' t = Some [] \<and>
    (\<forall>t'. t' \<notin> insert t mapping_tables \<longrightarrow> any_rows w' t' = any_rows w t')"
proof -
  note d = engines_okD [OF ok]
  have upd: "engine_names w' = (engine_names w)(type := f)" if "engine_names w' type = f" "mem_names w' = mem_names w \<or> type = InMemory"
    "disk_names_of w' = disk_names_of w \<or> type = Disk" for w' f
    using that ty by (auto simp: fun_eq_iff engine_names_def split: TableType.splits)
  show ?thesis
  proof (cases "type = Disk")
    case True
    then obtain w' t where c: "fa_CreateTable (DiskTableFactory_ops (mc_heap mc) (mc_io mc)) w n = Inr (True, w')"
      "disk_finv (mc_heap mc) (mc_io mc) w'" "registry_part w' = registry_part w" "any_room w' k"
      "disk_names_of w' = (disk_names_of w)(n \<mapsto> t)" "any_rows w t = None" "any_rows w' t = Some []"
      "\<forall>t'. t' \<notin> insert t mapping_tables \<longrightarrow> any_rows w' t' = any_rows w t'"
      using pinned_factory.create_ok [where M = "registry_part w", OF conjI [OF d(1) refl] _ len room can [OF True]] new
      unfolding True engine_names_simps by blast
    have r: "registry_ok w'" "mem_names w' = mem_names w" using registry_part_cong [OF c(3)] d(2) by simp_all
    have "engine_names w' = (engine_names w)(type := (engine_names w type)(n \<mapsto> t))" using True r(2) c(5) by (intro upd) simp_all
    moreover have "engines_ok mc w'" using c(2) r(1) by (simp add: engines_ok_def)
    moreover have "fa_CreateTable (factory_ops mc type) w n = Inr (True, w')" using c(1) True by (simp add: factory_ops_def)
    ultimately show ?thesis using c(4,6-8) by blast
  next
    case False
    then have ty: "type = InMemory" "in_memory_m w \<noteq> None" using ty has by (auto simp: has_factory_def)
    have "mem_names w n = None" using new ty by simp
    from mem_create [OF d(5) [OF ty(2)] this any.room_le [OF room, of k]]
    obtain w' t where c: "fa_CreateTable EphemeralTableFactory_ops w n = Inr (True, w')" "mem_finv (mc_io mc) w'" "any_room w' k"
      "mem_names w' = (mem_names w)(n \<mapsto> t)" "any_rows w t = None" "any_rows w' t = Some []" "on_disk_m w' = on_disk_m w"
      "\<forall>t'. t' \<noteq> t \<longrightarrow> any_rows w' t' = any_rows w t'"
      by auto
    have "disk_names_of w' = disk_names_of w" using c(7) by (simp add: disk_names_of_def fun_eq_iff)
    then have "engine_names w' = (engine_names w)(type := (engine_names w type)(n \<mapsto> t))" using ty(1) c(4) by (intro upd) simp_all
    moreover have "engines_ok mc w'" using c(2,7) d(1) by (simp add: engines_ok_def disk_finv_def mem_finv_def)
    moreover have "fa_CreateTable (factory_ops mc type) w n = Inr (True, w')" using c(1) ty(1) by (simp add: factory_ops_def)
    ultimately show ?thesis using c(3,5,6,8) by blast
  qed
qed

lemma engine_drop:
  assumes ok: "engines_ok mc w" and ty: "known type" and has: "has_factory w type"
    and can: "type = Disk \<Longrightarrow> pool_can_drop w" and room: "any_room w k"
  shows "\<exists>w'. fa_DeleteTable (factory_ops mc type) w n = Inr (engine_names w type n \<noteq> None, w') \<and> engines_ok mc w' \<and> any_room w' k \<and>
    engine_names w' = (engine_names w)(type := (engine_names w type)(n := None)) \<and>
    (\<forall>t'. engine_names w type n \<noteq> Some t' \<and> t' \<notin> mapping_tables \<longrightarrow> any_rows w' t' = any_rows w t')"
proof -
  note d = engines_okD [OF ok]
  have upd: "engine_names w' = (engine_names w)(type := f)" if "engine_names w' type = f" "mem_names w' = mem_names w \<or> type = InMemory"
    "disk_names_of w' = disk_names_of w \<or> type = Disk" for w' f
    using that ty by (auto simp: fun_eq_iff engine_names_def split: TableType.splits)
  show ?thesis
  proof (cases "type = Disk")
    case disk: True
    show ?thesis
    proof (cases "disk_names_of w n")
      case None
      then obtain w' where c: "fa_DeleteTable (DiskTableFactory_ops (mc_heap mc) (mc_io mc)) w n = Inr (False, w')" "any_same w w'"
        using disk_factory.drop_missing [OF d(1)] by blast
      then show ?thesis
        using None disk any_same_engines [OF c(2) ok] room by (intro exI [of _ w']) (auto simp: factory_ops_def fun_upd_idem)
    next
      case (Some t)
      then obtain w' where c: "fa_DeleteTable (DiskTableFactory_ops (mc_heap mc) (mc_io mc)) w n = Inr (True, w')"
        "disk_finv (mc_heap mc) (mc_io mc) w'" "registry_part w' = registry_part w" "\<forall>k. any_room w k \<longrightarrow> any_room w' k"
        "disk_names_of w' = (disk_names_of w)(n := None)" "\<forall>t'. t' \<notin> insert t mapping_tables \<longrightarrow> any_rows w' t' = any_rows w t'"
        using pinned_factory.drop_ok [where M = "registry_part w", OF conjI [OF d(1) refl] Some can [OF disk]] by blast
      have r: "registry_ok w'" "mem_names w' = mem_names w" using registry_part_cong [OF c(3)] d(2) by simp_all
      have "engine_names w' = (engine_names w)(type := (engine_names w type)(n := None))" using disk r(2) c(5) by (intro upd) simp_all
      moreover have "engines_ok mc w'" using c(2) r(1) by (simp add: engines_ok_def)
      moreover have "fa_DeleteTable (factory_ops mc type) w n = Inr (engine_names w type n \<noteq> None, w')"
        using c(1) disk Some by (simp add: factory_ops_def)
      ultimately show ?thesis using c(4,6) room disk Some by (intro exI [of _ w']) auto
    qed
  next
    case False
    then have ty: "type = InMemory" "in_memory_m w \<noteq> None" using ty has by (auto simp: has_factory_def)
    from mem_drop [OF d(5) [OF ty(2)], of n]
    obtain w' where c: "fa_DeleteTable EphemeralTableFactory_ops w n = Inr (mem_names w n \<noteq> None, w')" "mem_finv (mc_io mc) w'"
      "\<forall>k. any_room w' k = any_room w k" "mem_names w' = (mem_names w)(n := None)" "any_rows w' = any_rows w" "on_disk_m w' = on_disk_m w"
      by auto
    have "disk_names_of w' = disk_names_of w" using c(6) by (simp add: disk_names_of_def fun_eq_iff)
    then have "engine_names w' = (engine_names w)(type := (engine_names w type)(n := None))" using ty(1) c(4) by (intro upd) simp_all
    moreover have "engines_ok mc w'" using c(2,6) d(1) by (simp add: engines_ok_def disk_finv_def mem_finv_def)
    moreover have "fa_DeleteTable (factory_ops mc type) w n = Inr (engine_names w type n \<noteq> None, w')"
      using c(1) ty(1) by (simp add: factory_ops_def)
    ultimately show ?thesis using c(3,5) room by (intro exI [of _ w']) simp
  qed
qed

section \<open>What a user sees\<close>

abbreviation catalog_names :: "string set" where
  "catalog_names \<equiv> {TABLE_CATALOG_TABLE_NAME, COLUMN_CATALOG_TABLE_NAME}"

abbreviation listed :: "TableManager \<Rightarrow> string \<rightharpoonup> TableInfo" where
  "listed m \<equiv> table_info_m (catalog_m m)"

text \<open>Where the table of a name is, if it can be reached at all, and its rows.\<close>

definition table_of :: "TableManager \<Rightarrow> string \<rightharpoonup> any_table" where
  "table_of m n = Option.bind (listed m n) (\<lambda>ti. engine_names (factories_m m) (ti_type ti) n)"

definition table_contents :: "TableManager \<Rightarrow> string \<rightharpoonup> Row list" where
  "table_contents m n = Option.bind (table_of m n) (any_rows (factories_m m))"

text \<open>
  The invariant of a table manager whose catalog is on disk: both engines are well formed, the
  catalog's memory agrees with its rows, and no engine has a table the catalog does not list for it,
  the catalog's own tables aside.
\<close>

definition names_listed :: "(TableType \<Rightarrow> string \<rightharpoonup> any_table) \<Rightarrow> (string \<rightharpoonup> TableInfo) \<Rightarrow> bool" where
  "names_listed E info \<longleftrightarrow>
     (\<forall>type n. E type n \<noteq> None \<and> \<not> (type = Disk \<and> n \<in> catalog_names) \<longrightarrow> map_option ti_type (info n) = Some type) \<and>
     (\<forall>n \<in> catalog_names. map_option ti_type (info n) \<noteq> Some Disk)"

lemma names_listedD:
  "names_listed E info \<Longrightarrow> E type n \<noteq> None \<Longrightarrow> \<not> (type = Disk \<and> n \<in> catalog_names) \<Longrightarrow> map_option ti_type (info n) = Some type"
  "names_listed E info \<Longrightarrow> n \<in> catalog_names \<Longrightarrow> map_option ti_type (info n) \<noteq> Some Disk"
  unfolding names_listed_def by blast+

lemma names_listedI:
  assumes "\<And>type n. E type n \<noteq> None \<Longrightarrow> \<not> (type = Disk \<and> n \<in> catalog_names) \<Longrightarrow> map_option ti_type (info n) = Some type"
    and "\<And>n. n \<in> catalog_names \<Longrightarrow> map_option ti_type (info n) \<noteq> Some Disk"
  shows "names_listed E info"
  unfolding names_listed_def using assms by blast

lemma names_listed_None: "names_listed E info \<Longrightarrow> info n = None \<Longrightarrow> n \<notin> catalog_names \<Longrightarrow> E type n = None"
  using names_listedD(1) [of E info type n] by force

lemma names_listed_add:
  assumes nl: "names_listed E info" and n: "n \<notin> catalog_names" "info n = None"
  shows "names_listed (E(ti_type ti := (E (ti_type ti))(n \<mapsto> t))) (info(n \<mapsto> ti))"
proof (rule names_listedI)
  fix ty n' assume a: "(E(ti_type ti := (E (ti_type ti))(n \<mapsto> t))) ty n' \<noteq> None" "\<not> (ty = Disk \<and> n' \<in> catalog_names)"
  show "map_option ti_type ((info(n \<mapsto> ti)) n') = Some ty"
  proof (cases "n' = n")
    case True
    then show ?thesis using a(1) names_listed_None [OF nl n(2,1), of ty] by (auto split: if_splits)
  next
    case False
    then show ?thesis using a names_listedD(1) [OF nl, of ty n'] by (auto split: if_splits)
  qed
next
  show "map_option ti_type ((info(n \<mapsto> ti)) c) \<noteq> Some Disk" if "c \<in> catalog_names" for c
    using names_listedD(2) [OF nl that] that n(1) by auto
qed

lemma names_listed_remove:
  assumes nl: "names_listed E info" and n: "n \<notin> catalog_names" "info n = Some ti"
  shows "names_listed (E(ti_type ti := (E (ti_type ti))(n := None))) (info(n := None))"
proof (rule names_listedI)
  fix ty n' assume a: "(E(ti_type ti := (E (ti_type ti))(n := None))) ty n' \<noteq> None" "\<not> (ty = Disk \<and> n' \<in> catalog_names)"
  then have "E ty n' \<noteq> None" by (auto split: if_splits)
  with a(2) have "map_option ti_type (info n') = Some ty" using names_listedD(1) [OF nl] by blast
  then show "map_option ti_type ((info(n := None)) n') = Some ty" using a(1) n(2) by (auto split: if_splits)
next
  show "map_option ti_type ((info(n := None)) c) \<noteq> Some Disk" if "c \<in> catalog_names" for c
    using names_listedD(2) [OF nl that] that n(1) by auto
qed

definition tm_inv :: "Machine \<Rightarrow> TableManager \<Rightarrow> bool" where
  "tm_inv mc m \<longleftrightarrow> engines_ok mc (factories_m m) \<and>
     catalog_ok disk_names_of any_rows 4068 (factories_m m) (catalog_m m) \<and>
     names_listed (engine_names (factories_m m)) (listed m)"

lemma tm_invD:
  assumes "tm_inv mc m"
  shows "engines_ok mc (factories_m m)" "catalog_ok disk_names_of any_rows 4068 (factories_m m) (catalog_m m)"
    "\<And>ti. listed m n = Some ti \<Longrightarrow> known (ti_type ti)" "names_listed (engine_names (factories_m m)) (listed m)"
proof -
  show "engines_ok mc (factories_m m)" "names_listed (engine_names (factories_m m)) (listed m)" and c: "catalog_ok disk_names_of any_rows 4068 (factories_m m) (catalog_m m)"
    using assms by (simp_all add: tm_inv_def)
  show "known (ti_type ti)" if "listed m n = Some ti" for ti
    using c that by (fastforce simp: catalog_ok_def info_ok_def table_ok_def)
qed

lemma table_of_eq:
  "table_of m n = Some t \<longleftrightarrow> (\<exists>ti. listed m n = Some ti \<and> engine_names (factories_m m) (ti_type ti) n = Some t)"
  by (cases "listed m n") (simp_all add: table_of_def)

lemma table_of_inj:
  assumes "tm_inv mc m" and "table_of m n = Some t" and "table_of m n' = Some t"
  shows "n = n'"
  using assms engine_names_inj [OF tm_invD(1) [OF assms(1)]] unfolding table_of_eq by blast

text \<open>A table a user reaches is not one of the catalog's or of the factory's.\<close>

lemma table_of_user:
  assumes inv: "tm_inv mc m" and t: "table_of m n = Some t"
  shows "any_rows (factories_m m) t \<noteq> None" and "t \<notin> mapping_tables" and "c \<in> catalog_names \<Longrightarrow> disk_names_of (factories_m m) c \<noteq> Some t"
proof -
  obtain ti where ti: "listed m n = Some ti" "engine_names (factories_m m) (ti_type ti) n = Some t" using t by (auto simp: table_of_eq)
  show "any_rows (factories_m m) t \<noteq> None" "t \<notin> mapping_tables"
    using engine_names_rows [OF tm_invD(1) [OF inv] ti(2)] by blast+
  show "disk_names_of (factories_m m) c \<noteq> Some t" if "c \<in> catalog_names"
  proof
    assume "disk_names_of (factories_m m) c = Some t"
    then have e: "engine_names (factories_m m) Disk c = Some t" by simp
    have "ti_type ti = Disk" "n = c" using engine_names_inj [OF tm_invD(1) [OF inv] ti(2) e] by auto
    then show False using names_listedD(2) [OF tm_invD(4) [OF inv] that] ti(1) by simp
  qed
qed

lemma contents_eq: "table_of m n = Some t \<Longrightarrow> table_contents m n = any_rows (factories_m m) t" "table_of m n = None \<Longrightarrow> table_contents m n = None"
  by (simp_all add: table_contents_def)

lemma contents_None: "tm_inv mc m \<Longrightarrow> table_contents m n = None \<longleftrightarrow> table_of m n = None"
  using table_of_user(1) by (cases "table_of m n") (auto simp: table_contents_def)

lemma catalog_ok_cong:
  assumes "catalog_ok disk_names_of any_rows k w c" and "\<And>n. n \<in> catalog_names \<Longrightarrow> disk_names_of w' n = disk_names_of w n"
    and "\<And>n t. n \<in> catalog_names \<Longrightarrow> disk_names_of w n = Some t \<Longrightarrow> any_rows w' t = any_rows w t"
  shows "catalog_ok disk_names_of any_rows k w' c"
  using assms(1) assms(2,3) [of TABLE_CATALOG_TABLE_NAME] assms(2,3) [of COLUMN_CATALOG_TABLE_NAME]
  by (simp add: catalog_ok_def stored_def)

text \<open>Steps that change no table and keep the catalog.\<close>

lemma tm_same:
  assumes inv: "tm_inv mc m" and ok: "engines_ok mc w'" and n: "engine_names w' = engine_names (factories_m m)"
    and r: "any_rows w' = any_rows (factories_m m)"
  shows "tm_inv mc (m\<lparr>factories_m := w'\<rparr>)" and "table_contents (m\<lparr>factories_m := w'\<rparr>) = table_contents m"
    and "table_of (m\<lparr>factories_m := w'\<rparr>) = table_of m"
proof -
  have d: "disk_names_of w' = disk_names_of (factories_m m)" using fun_cong [OF n, of Disk] by simp
  have "catalog_ok disk_names_of any_rows 4068 w' (catalog_m m)" using r d by (intro catalog_ok_cong [OF tm_invD(2) [OF inv]]) simp_all
  then show "tm_inv mc (m\<lparr>factories_m := w'\<rparr>)" using inv ok n by (simp add: tm_inv_def)
  show "table_of (m\<lparr>factories_m := w'\<rparr>) = table_of m" using n by (simp add: table_of_def fun_eq_iff)
  then show "table_contents (m\<lparr>factories_m := w'\<rparr>) = table_contents m" by (simp add: table_contents_def [abs_def] r)
qed

lemma tm_GetTable_ok:
  assumes inv: "tm_inv mc m" and room: "any_room (factories_m m) k"
  shows "\<exists>m'. tm_GetTable mc m n = Inr (map_option (\<lambda>t. \<lparr>storage_m = t, schema_m = ti_schema (the (listed m n))\<rparr>) (table_of m n), m') \<and>
    tm_inv mc m' \<and> catalog_m m' = catalog_m m \<and> table_of m' = table_of m \<and> table_contents m' = table_contents m \<and> any_room (factories_m m') k"
proof (cases "listed m n")
  case None
  then show ?thesis using inv room by (simp add: tm_GetTable_def tm_TableExists_def catalog_TableExists_def table_of_def)
next
  case (Some ti)
  obtain w1 where w1: "GetFactory mc (factories_m m) (ti_type ti) = Inr (factory_ops mc (ti_type ti), w1)" "has_factory w1 (ti_type ti)"
    "engines_ok mc w1" "any_rows w1 = any_rows (factories_m m)" "engine_names w1 = engine_names (factories_m m)" "any_room w1 k"
    using GetFactory_ok [OF tm_invD(1,3) [OF inv], OF Some] room by blast
  obtain w2 where w2: "fa_GetTable (factory_ops mc (ti_type ti)) w1 n = Inr (engine_names w1 (ti_type ti) n, w2)" "any_same w1 w2"
    using engine_get [OF w1(3) tm_invD(3) [OF inv Some] w1(2)] by blast
  note s = any_same_engines [OF w2(2) w1(3)]
  have "tm_GetTable mc m n = Inr (map_option (\<lambda>t. \<lparr>storage_m = t, schema_m = ti_schema ti\<rparr>) (table_of m n), m\<lparr>factories_m := w2\<rparr>)"
    using Some w1(1,5) w2(1)
    by (simp add: tm_GetTable_def tm_TableExists_def catalog_TableExists_def GetTableType_def GetSchema_def table_of_def)
  moreover have "engine_names w2 = engine_names (factories_m m)" "any_rows w2 = any_rows (factories_m m)" using s w1 by simp_all
  note t = tm_same [OF inv s(1) this]
  ultimately show ?thesis using Some t s(4) [OF w1(6)] by (intro exI [of _ "m\<lparr>factories_m := w2\<rparr>"]) simp
qed

section \<open>Creating and deleting tables\<close>

lemma contents_step:
  assumes "\<And>n'. n' \<noteq> n \<Longrightarrow> table_of m' n' = table_of m n'"
    and "\<And>n' t. n' \<noteq> n \<Longrightarrow> table_of m n' = Some t \<Longrightarrow> any_rows (factories_m m') t = any_rows (factories_m m) t"
  shows "table_contents m' = (table_contents m)(n := table_contents m' n)"
proof
  fix n'
  show "table_contents m' n' = ((table_contents m)(n := table_contents m' n)) n'"
  proof (cases "n' = n")
    case False
    then show ?thesis using assms(1) [OF False] assms(2) [OF False] by (cases "table_of m n'") (simp_all add: table_contents_def)
  qed simp
qed

text \<open>The catalog's own rows are on disk, so adding or removing its entries does not move any other table.\<close>

lemma catalog_step_engines:
  assumes ok: "engines_ok mc w" and f: "disk_finv (mc_heap mc) (mc_io mc) w' \<and> registry_part w' = registry_part w"
    and n: "disk_names_of w' = disk_names_of w"
  shows "engines_ok mc w'" and "engine_names w' = engine_names w"
  using f n registry_part_cong [of w' w] engines_okD(2) [OF ok] engine_names_eq [of w' w] by (simp_all add: engines_ok_def)

lemma catalog_tables_kept:
  assumes ok: "engines_ok mc w" and c: "c \<in> catalog_names" "disk_names_of w c = Some t'"
  shows "t' \<notin> mapping_tables" and "any_rows w t' \<noteq> None"
  using engine_names_rows [OF ok, of Disk c t'] c(2) by simp_all

lemma tm_CreateTable_ok:
  fixes m defines "w \<equiv> factories_m m"
  assumes inv: "tm_inv mc m" and new: "listed m n = None" "n \<notin> catalog_names"
    and ti: "table_ok 4068 n \<lparr>ti_type = type, ti_schema = schema\<rparr>" and room: "any_room w (3 + (length schema + k))"
    and can: "type = Disk \<Longrightarrow> pool_can_create (mc_io mc) w"
  shows "\<exists>m'. tm_CreateTable mc m n type schema = Inr (True, m') \<and> tm_inv mc m' \<and> any_room (factories_m m') k \<and>
    listed m' = (listed m)(n \<mapsto> \<lparr>ti_type = type, ti_schema = schema\<rparr>) \<and> table_contents m' = (table_contents m)(n \<mapsto> [])"
proof -
  note ok = tm_invD(1) [OF inv, folded w_def]
  have ty: "known type" and len: "length n \<le> 4062" using ti by (simp_all add: table_ok_def)
  obtain w1 where w1: "GetFactory mc w type = Inr (factory_ops mc type, w1)" "has_factory w1 type" "engines_ok mc w1"
    "any_rows w1 = any_rows w" "engine_names w1 = engine_names w" "on_disk_m w1 = on_disk_m w" "\<forall>k. any_room w1 k = any_room w k"
    using GetFactory_ok [OF ok ty] by blast
  have none: "engine_names w1 ty' n = None" for ty'
    using names_listed_None [OF tm_invD(4) [OF inv] new] w1(5) by (simp add: w_def)
  have room1: "any_room w1 (Suc (Suc (Suc (length schema + k))))" using room w1(7) by (simp add: numeral_eq_Suc)
  have "pool_can_create (mc_io mc) w1" if "type = Disk" using can [OF that] w1(6) by (simp add: pool_can_create_def)
  from engine_create [OF w1(3) ty w1(2) none len room1 this]
  obtain w2 t where w2: "fa_CreateTable (factory_ops mc type) w1 n = Inr (True, w2)" "engines_ok mc w2" "any_room w2 (Suc (length schema + k))"
    "engine_names w2 = (engine_names w)(type := (engine_names w type)(n \<mapsto> t))" "any_rows w t = None" "any_rows w2 t = Some []"
    "\<forall>t'. t' \<notin> insert t mapping_tables \<longrightarrow> any_rows w2 t' = any_rows w t'"
    unfolding w1(4,5) by blast
  have d2: "disk_names_of w2 c = disk_names_of w c" if "c \<in> catalog_names" for c
    using fun_cong [OF fun_cong [OF w2(4), of Disk], of c] that new(2) by (auto split: if_splits)
  have keep: "any_rows w2 t' = any_rows w t'" if "any_rows w t' \<noteq> None" "t' \<notin> mapping_tables" for t'
  proof -
    have "t' \<noteq> t" using that(1) w2(5) by auto
    then show ?thesis using w2(7) that(2) by simp
  qed
  have "catalog_ok disk_names_of any_rows 4068 w2 (catalog_m m)"
    using catalog_tables_kept [OF ok] keep by (intro catalog_ok_cong [OF tm_invD(2) [OF inv, folded w_def] d2]) auto
  from pinned_factory.AddTable_ok [OF conjI [OF engines_okD(1) [OF w2(2)] refl] this new(1) ti w2(3) engines_okD(4) [OF ok]]
  obtain c' w3 where w3: "AddTable (mc_heap mc) (any_ops mc) w2 (catalog_m m) n type schema = Inr (True, c', w3)"
    "disk_finv (mc_heap mc) (mc_io mc) w3 \<and> registry_part w3 = registry_part w2" "any_room w3 k" "disk_names_of w3 = disk_names_of w2"
    "catalog_ok disk_names_of any_rows 4068 w3 c'" "table_info_m c' = (listed m)(n \<mapsto> \<lparr>ti_type = type, ti_schema = schema\<rparr>)"
    "\<forall>t. disk_names_of w2 TABLE_CATALOG_TABLE_NAME \<noteq> Some t \<and> disk_names_of w2 COLUMN_CATALOG_TABLE_NAME \<noteq> Some t \<longrightarrow> any_rows w3 t = any_rows w2 t"
    by (elim exE conjE) (rule that; (intro conjI)?; assumption)
  note e3 = catalog_step_engines [OF w2(2) w3(2,4)]
  let ?m = "\<lparr>factories_m = w3, catalog_m = c'\<rparr>"
  have "tm_CreateTable mc m n type schema = Inr (True, ?m)"
    using new(1) w1(1) w2(1) w3(1) by (simp add: tm_CreateTable_def catalog_TableExists_def w_def)
  moreover have "tm_inv mc ?m"
    using names_listed_add [OF tm_invD(4) [OF inv] new(2,1), of "\<lparr>ti_type = type, ti_schema = schema\<rparr>" t] e3 w2(4) w3(5,6)
    by (simp add: tm_inv_def w_def)
  moreover have tab: "table_of ?m n = Some t" using e3(2) w2(4) w3(6) by (simp add: table_of_def)
  have tab': "table_of ?m n' = table_of m n'" if "n' \<noteq> n" for n'
    using that e3(2) w2(4) w3(6) by (cases "listed m n'") (simp_all add: table_of_def w_def)
  have "any_rows w3 t' = any_rows w t'" if "table_of m n' = Some t'" for n' t'
    using table_of_user [OF inv that, folded w_def] keep [of t'] w3(7) d2 by auto
  then have "table_contents ?m = (table_contents m)(n := table_contents ?m n)" using tab' by (intro contents_step) (simp_all add: w_def)
  moreover have "disk_names_of w2 c \<noteq> Some t" if "c \<in> catalog_names" for c
    using catalog_tables_kept(2) [OF ok that] d2 [OF that] w2(5) by auto
  then have "any_rows w3 t = Some []" using w3(7) w2(6) by simp
  then have "table_contents ?m n = Some []" using tab by (simp add: table_contents_def)
  ultimately show ?thesis using w3(3,6) by (intro exI [of _ ?m]) simp
qed

lemma tm_DeleteTable_ok:
  fixes m defines "w \<equiv> factories_m m"
  assumes inv: "tm_inv mc m" and n: "listed m n = Some ti" "n \<notin> catalog_names" and room: "any_room w k"
    and can: "ti_type ti = Disk \<Longrightarrow> (\<And>c' w'. RemoveTable (any_ops mc) w (catalog_m m) n = Inr (True, c', w') \<Longrightarrow> pool_can_drop w')"
  shows "\<exists>m'. tm_DeleteTable mc m n = Inr (table_contents m n \<noteq> None, m') \<and> tm_inv mc m' \<and> any_room (factories_m m') k \<and>
    listed m' = (listed m)(n := None) \<and> table_contents m' = (table_contents m)(n := None)"
proof -
  let ?ty = "ti_type ti"
  note ok = tm_invD(1) [OF inv, folded w_def] and ty = tm_invD(3) [OF inv n(1)]
  have "listed m n \<noteq> None" using n(1) by simp
  from pinned_factory.RemoveTable_ok [OF conjI [OF engines_okD(1) [OF ok] refl] tm_invD(2) [OF inv, folded w_def] this room]
  obtain c' w1 where w1: "RemoveTable (any_ops mc) w (catalog_m m) n = Inr (True, c', w1)"
    "disk_finv (mc_heap mc) (mc_io mc) w1 \<and> registry_part w1 = registry_part w" "any_room w1 k" "disk_names_of w1 = disk_names_of w"
    "catalog_ok disk_names_of any_rows 4068 w1 c'" "table_info_m c' = (listed m)(n := None)"
    "\<forall>t. disk_names_of w TABLE_CATALOG_TABLE_NAME \<noteq> Some t \<and> disk_names_of w COLUMN_CATALOG_TABLE_NAME \<noteq> Some t \<longrightarrow> any_rows w1 t = any_rows w t"
    by (elim exE conjE) (rule that; (intro conjI)?; assumption)
  note e1 = catalog_step_engines [OF ok w1(2,4)]
  obtain w2 where w2: "GetFactory mc w1 ?ty = Inr (factory_ops mc ?ty, w2)" "has_factory w2 ?ty" "engines_ok mc w2"
    "any_rows w2 = any_rows w1" "engine_names w2 = engine_names w" "on_disk_m w2 = on_disk_m w1" "any_room w2 k"
    using GetFactory_ok [OF e1(1) ty] w1(3) unfolding e1(2) by blast
  have "pool_can_drop w2" if "?ty = Disk" using can [OF that w1(1)] w2(6) by (simp add: pool_can_drop_def)
  from engine_drop [OF w2(3) ty w2(2) this w2(7), of n]
  obtain w3 where w3: "fa_DeleteTable (factory_ops mc ?ty) w2 n = Inr (engine_names w ?ty n \<noteq> None, w3)" "engines_ok mc w3" "any_room w3 k"
    "engine_names w3 = (engine_names w)(?ty := (engine_names w ?ty)(n := None))"
    "\<forall>t'. engine_names w ?ty n \<noteq> Some t' \<and> t' \<notin> mapping_tables \<longrightarrow> any_rows w3 t' = any_rows w1 t'"
    unfolding w2(4,5) by blast
  have tn: "table_of m n = engine_names w ?ty n" using n(1) by (simp add: table_of_def w_def)
  let ?m = "\<lparr>factories_m = w3, catalog_m = c'\<rparr>"
  have "tm_DeleteTable mc m n = Inr (table_of m n \<noteq> None, ?m)"
    using n(1) w1(1) w2(1) w3(1) tn
    by (simp add: tm_DeleteTable_def catalog_TableExists_def GetTableType_def w_def)
  then have "tm_DeleteTable mc m n = Inr (table_contents m n \<noteq> None, ?m)" using contents_None [OF inv, of n] by simp
  moreover have d3: "disk_names_of w3 c = disk_names_of w c" if "c \<in> catalog_names" for c
    using fun_cong [OF fun_cong [OF w3(4), of Disk], of c] that n(2) by (auto split: if_splits)
  have ct: "any_rows w3 t = any_rows w1 t" if "c \<in> catalog_names" "disk_names_of w c = Some t" for c t
    using that n(2) engine_names_inj [OF ok, of Disk c t ?ty n] catalog_tables_kept(1) [OF ok that] w3(5) by auto
  have "catalog_ok disk_names_of any_rows 4068 w3 c'"
    using d3 ct w1(4) by (intro catalog_ok_cong [OF w1(5)]) simp_all
  then have "tm_inv mc ?m"
    using names_listed_remove [OF tm_invD(4) [OF inv] n(2,1)] w3(2,4) w1(6) by (simp add: tm_inv_def w_def)
  moreover have tab: "table_of ?m n = None" using w1(6) by (simp add: table_of_def)
  have tab': "table_of ?m n' = table_of m n'" if "n' \<noteq> n" for n'
    using that w3(4) w1(6) by (cases "listed m n'") (simp_all add: table_of_def w_def)
  have "any_rows w3 t' = any_rows w t'" if "n' \<noteq> n" "table_of m n' = Some t'" for n' t'
  proof -
    have "engine_names w ?ty n \<noteq> Some t'" using table_of_inj [OF inv that(2), of n] that(1) tn by auto
    then have "any_rows w3 t' = any_rows w1 t'" using w3(5) table_of_user(2) [OF inv that(2)] by simp
    also have "any_rows w1 t' = any_rows w t'" using w1(7) table_of_user(3) [OF inv that(2)] by (simp add: w_def)
    finally show ?thesis .
  qed
  then have "table_contents ?m = (table_contents m)(n := table_contents ?m n)" using tab' by (intro contents_step) (simp_all add: w_def)
  moreover have "table_contents ?m n = None" using tab by (simp add: table_contents_def)
  ultimately show ?thesis using w3(3) w1(6) by (intro exI [of _ ?m]) simp
qed

end
