(* ===== verification/Engine_Start.thy ===== *)
theory Engine_Start
  imports Table_Manager_Spec
begin

text \<open>
  Starting the engine: the buffer pool over a directory, the disk table factory on a directory without
  and with a mapping table, and the table manager on top, which either sets up the catalog or loads the
  one an earlier process left behind.
\<close>

section \<open>A pool over a directory\<close>

text \<open>No file is larger than four gigabytes, beyond which offsets wrap around, and none has the invalid id.\<close>

definition files_ok :: "(string \<rightharpoonup> byte list) \<Rightarrow> bool" where
  "files_ok files \<longleftrightarrow> files (GetFilePath INVALID_FILE_ID) = None \<and>
     (\<forall>i content. files (GetFilePath i) = Some content \<longrightarrow> length content \<le> 2 ^ 20 * 4096)"

text \<open>Files of at most half a gigabyte leave room for many rows.\<close>

definition roomy_files :: "(string \<rightharpoonup> byte list) \<Rightarrow> bool" where
  "roomy_files files \<longleftrightarrow> (\<forall>i content. files (GetFilePath i) = Some content \<longrightarrow> length content \<le> 2 ^ 17 * 4096)"

definition untouched :: "PageBufferManager \<Rightarrow> bool" where
  "untouched p \<longleftrightarrow> (\<forall>j. is_frame p j \<and> idle p j \<longrightarrow> fp_file_id (fr_fp_id (frame p j)) = INVALID_FILE_ID)"

abbreviation start_pool :: "(nat \<Rightarrow> FullPage) \<Rightarrow> (string \<rightharpoonup> byte list) \<Rightarrow> PageBufferManager" where
  "start_pool buffer files \<equiv> PageBufferManager_init buffer files 128"

lemma used_bound:
  assumes "\<And>x. c (FilePageId f x) \<noteq> None \<Longrightarrow> unat x < n" and "n \<le> 2 ^ 32"
  shows "used c f \<le> n"
proof -
  have "{x. c (FilePageId f x) \<noteq> None} \<subseteq> {x. unat x < n}" using assms(1) by blast
  then have "card {x. c (FilePageId f x) \<noteq> None} \<le> card {x :: page_id_t. unat x < n}" by (intro card_mono) simp_all
  then show ?thesis using card_page_ids [OF assms(2)] by (simp add: used_def)
qed

lemma file_rows_root: "file_rows c f = Some rs \<Longrightarrow> c (FilePageId f ROOT_PAGE_ID) \<noteq> None"
  by (erule file_rowsE) (auto simp: heap_file_def)

lemma start_pool_ok:
  assumes buf: "\<And>i. length (buffer i) = 4096" and dir: "files_ok files" and env: "no_fault env"
  shows "disk_inv env (start_pool buffer files)" and "contents (start_pool buffer files) = disk_pages (DiskManager_init files)"
    and "pool_sizes (start_pool buffer files) f = map_option length (files (GetFilePath f))"
    and "untouched (start_pool buffer files)" and "roomy_files files \<Longrightarrow> disk_room (start_pool buffer files) (2 ^ 17)"
proof -
  let ?p = "start_pool buffer files"
  have f: "files (GetFilePath INVALID_FILE_ID) = None" and f2: "files (GetFilePath i) = Some content \<Longrightarrow> length content \<le> 2 ^ 20 * 4096" for i content
    using dir by (auto simp: files_ok_def)
  have n: "0 < (128 :: nat)" "(128 :: nat) < 2 ^ 32" by simp_all
  note i = pool_init [where buffer = buffer and files = files and n = 128, OF n buf f2 f]
  have "is_frame ?p 0" "is_frame ?p 1" by (simp_all add: i(4))
  then have "\<exists>i j. i \<noteq> j \<and> is_frame ?p i \<and> is_frame ?p j" by (intro exI [of _ 0] exI [of _ 1]) simp
  moreover have "1 < GetEvictableCount (replacer_m ?p)" using i(3) by simp
  ultimately show "disk_inv env ?p" using i(1) env f unfolding disk_inv_def by (intro conjI) (simp_all add: sizes_def PageBufferManager_init_def DiskManager_init_def)
  show c: "contents ?p = disk_pages (DiskManager_init files)" by (rule i(2))
  have sizes: "pool_sizes ?p f = map_option length (files (GetFilePath f))" for f
    by (simp add: PageBufferManager_init_def DiskManager_init_def sizes_def)
  then show "pool_sizes ?p f = map_option length (files (GetFilePath f))" .
  have "frame ?p j = new_Frame j (buffer (unat j))" if "is_frame ?p j" for j
    using that i(4) by (simp add: frame_def PageBufferManager_init_def)
  then show u: "untouched ?p" by (simp add: untouched_def new_Frame_def)
  have "file_room ?p f (2 ^ 17)" if small: "roomy_files files" and rows: "disk_rows ?p f \<noteq> None" for f
  proof -
    have "contents ?p (FilePageId f ROOT_PAGE_ID) \<noteq> None" using rows file_rows_root by blast
    then obtain content where content: "files (GetFilePath f) = Some content"
      unfolding c by (auto simp: disk_pages_def DiskManager_init_def split: option.splits)
    have len: "length content \<le> 2 ^ 17 * 4096" using small content by (auto simp: roomy_files_def)
    have "used (contents ?p) f \<le> length content div 4096"
      using len content unfolding c by (intro used_bound) (auto simp: disk_pages_def DiskManager_init_def split: if_splits)
    also have "\<dots> \<le> 2 ^ 17" using len by simp
    finally have "used (contents ?p) f + 2 ^ 17 \<le> 2 ^ 18" by simp
    moreover have "INVALID_FILE_ID \<noteq> f" using content f by auto
    ultimately show ?thesis using len content sizes [of f] u by (auto simp: file_room_def untouched_def)
  qed
  then show "roomy_files files \<Longrightarrow> disk_room ?p (2 ^ 17)" by (simp add: disk_room_def)
qed

section \<open>Files in a larger store\<close>

text \<open>The lists of free pages are lost when a file is closed, so more pages are readable afterwards.\<close>

lemma chain_mono:
  assumes "chain c f h xs" and "c \<subseteq>\<^sub>m c'"
  shows "chain c' f h xs" and "chain_rows c' f xs = chain_rows c f xs"
proof -
  have "chain c' f h xs \<and> chain_rows c' f xs = chain_rows c f xs"
    using assms(1)
  proof (induction xs arbitrary: h)
    case (Cons x xs)
    then obtain pg where pg: "c (FilePageId f x) = Some pg" "heap_ok pg" "chain c f (GetNextPage pg) xs" "h = x" "x \<noteq> NULL_PAGE_ID"
      by (auto split: option.splits)
    moreover have "c' (FilePageId f x) = Some pg" using pg(1) assms(2) by (metis domI map_le_def)
    ultimately show ?case using Cons.IH [OF pg(3)] by simp
  qed simp
  then show "chain c' f h xs" "chain_rows c' f xs = chain_rows c f xs" by simp_all
qed

lemma file_rows_mono:
  assumes rows: "file_rows c f = Some rs" and le: "c \<subseteq>\<^sub>m c'"
  shows "file_rows c' f = Some rs"
proof -
  obtain ps where ps: "heap_file c f ps" "rs = chain_rows c f ps" using rows by (rule file_rowsE)
  then obtain root where root: "c (FilePageId f ROOT_PAGE_ID) = Some root" "heap_ok root" "GetNextPage root = NULL_PAGE_ID"
    "chain c f (GetPrevPage root) ps" "distinct ps" "ROOT_PAGE_ID \<notin> set ps"
    by (auto simp: heap_file_def)
  have "c' (FilePageId f ROOT_PAGE_ID) = Some root" using root(1) le by (metis domI map_le_def)
  then have "heap_file c' f ps" using root chain_mono(1) [OF root(4) le] by (simp add: heap_file_def)
  then show ?thesis using file_rows_eq ps(2) chain_mono(2) [OF root(4) le] by simp
qed

lemma reopened_pages: "disk_pages d \<subseteq>\<^sub>m disk_pages (DiskManager_init (fs d))"
  by (auto simp: map_le_def disk_pages_def free_of_def DiskManager_init_def split: option.splits if_splits)

section \<open>The disk table factory\<close>

lemma DiskTableFactory_fresh:
  assumes buf: "\<And>i. length (buffer i) = 4096" and dir: "files_ok files" and env: "no_fault env" and small: "roomy_files files"
    and new: "files (GetFilePath DISK_TABLE_MAPPING_FILE_ID) = None"
  shows "\<exists>p. DiskTableFactory_new env buffer files = Inr p \<and> disk_inv env p \<and> mapping_inv p \<and> disk_names p = Map.empty \<and>
    disk_room p (2 ^ 17 - 1) \<and> untouched p \<and>
    (\<forall>g. g \<noteq> DISK_TABLE_MAPPING_FILE_ID \<and> files (GetFilePath g) = None \<longrightarrow> pool_sizes p g = None)"
proof -
  let ?p = "start_pool buffer files" and ?M = DISK_TABLE_MAPPING_FILE_ID
  note s = start_pool_ok [OF buf dir env]
  define p1 where "p1 = ?p\<lparr>disk_manager_m := (disk_manager_m ?p)\<lparr>fs := (fs (disk_manager_m ?p))(GetFilePath ?M \<mapsto> [])\<rparr>\<rparr>"
  have fs0: "fs (disk_manager_m ?p) (GetFilePath ?M) = None" using new by (simp add: PageBufferManager_init_def DiskManager_init_def)
  have "?M \<noteq> INVALID_FILE_ID" by (simp add: INVALID_FILE_ID_def DISK_TABLE_MAPPING_FILE_ID_def)
  note a = new_file_pool [OF s(1) fs0 this, folded p1_def]
  have create: "pool_CreateFileWithId env ?p ?M = (None, p1)"
    using fs0 env by (simp add: pool_CreateFileWithId_def CreateFileWithId_def p1_def no_fault_def)
  have u1: "untouched p1" using a(2) s(4) by (simp add: untouched_def file_added_def)
  have "INVALID_FILE_ID \<noteq> ?M" by (simp add: INVALID_FILE_ID_def DISK_TABLE_MAPPING_FILE_ID_def)
  then have idle: "\<forall>j. is_frame p1 j \<and> idle p1 j \<longrightarrow> fp_file_id (fr_fp_id (frame p1 j)) \<noteq> ?M" using u1 by (auto simp: untouched_def)
  have "pool_sizes p1 ?M = Some 0" "\<And>x. contents p1 (FilePageId ?M x) = None" using a(2) by (simp_all add: file_added_def)
  from InitTableRootPage_ok [OF a(1) this idle]
  obtain p2 where p2: "InitTableRootPage env p1 ?M = Inr p2" "disk_inv env p2" "disk_rows p2 = (disk_rows p1)(?M \<mapsto> [])"
    "grown ?M p1 p2" "file_room p2 ?M (2 ^ 18 - 1)" by blast
  have run: "DiskTableFactory_new env buffer files = Inr p2"
    using fs0 create p2(1) by (simp add: DiskTableFactory_new_def OpenOrCreateMappingTable_def pool_FileExists_def FileExists_def)
  have e: "mapping_entries p2 = []" using p2(3) by (simp add: mapping_entries_def)
  have "file_room p2 g (2 ^ 17 - 1)" if "disk_rows p2 g \<noteq> None" for g
  proof (cases "g = ?M")
    case True
    then show ?thesis using p2(5) by (auto simp: file_room_def)
  next
    case False
    then have "file_room p1 g (Suc (2 ^ 17 - 1))" using that p2(3) file_added_room [OF a(2) s(5) [OF small]] by (simp add: disk_room_def)
    then show ?thesis using file_room_grown [OF p2(4)] by blast
  qed
  then have "disk_room p2 (2 ^ 17 - 1)" by (simp add: disk_room_def)
  moreover have "only_file ?M ?p p2" using only_file_trans [OF only_file_intro(1) [OF a(2)] only_file_intro(2) [OF p2(4)]] .
  then have "untouched p2" "\<forall>g. g \<noteq> ?M \<and> files (GetFilePath g) = None \<longrightarrow> pool_sizes p2 g = None"
    using s(3,4) unfolding only_file_def untouched_def by auto
  moreover have "mapping_inv p2" using p2(3) e by (simp add: mapping_inv_def)
  moreover have "disk_names p2 = Map.empty" using e by (simp add: disk_names_def)
  ultimately show ?thesis using run p2(2) by blast
qed

text \<open>Reopening the directory a pool was written back to.\<close>

lemma DiskTableFactory_reopen:
  assumes inv: "disk_inv env p" and m: "mapping_inv p" and pages: "disk_pages d = contents p" and dir: "files_ok (fs d)"
    and buf: "\<And>i. length (buffer i) = 4096"
  shows "\<exists>p'. DiskTableFactory_new env buffer (fs d) = Inr p' \<and> disk_inv env p' \<and> mapping_inv p' \<and> disk_names p' = disk_names p \<and>
    (roomy_files (fs d) \<longrightarrow> disk_room p' (2 ^ 17)) \<and> (\<forall>f rs. disk_rows p f = Some rs \<longrightarrow> disk_rows p' f = Some rs)"
proof -
  let ?p = "start_pool buffer (fs d)" and ?M = DISK_TABLE_MAPPING_FILE_ID
  note s = start_pool_ok [OF buf dir disk_invD(1) [OF inv]]
  have "contents p \<subseteq>\<^sub>m contents ?p" using reopened_pages [of d] pages s(2) by simp
  then have keep: "disk_rows p f = Some rs \<Longrightarrow> disk_rows ?p f = Some rs" for f rs by (rule file_rows_mono [rotated])
  obtain rs where rs: "disk_rows p ?M = Some rs" using m by (auto simp: mapping_inv_def)
  then have e: "mapping_entries ?p = mapping_entries p" using keep [OF rs] by (simp add: mapping_entries_def)
  have "disk_rows ?p f \<noteq> None" if "disk_rows p f \<noteq> None" for f using that keep by auto
  then have "mapping_inv ?p" using m keep [OF rs] rs unfolding mapping_inv_def e by auto
  moreover have "disk_names ?p = disk_names p" by (simp add: disk_names_def e)
  moreover have "contents p (FilePageId ?M ROOT_PAGE_ID) \<noteq> None" using rs by (rule file_rows_root)
  then have "fs d (GetFilePath ?M) \<noteq> None" by (auto simp: pages [symmetric] disk_pages_def split: option.splits)
  then have "DiskTableFactory_new env buffer (fs d) = Inr ?p"
    by (simp add: DiskTableFactory_new_def OpenOrCreateMappingTable_def pool_FileExists_def FileExists_def PageBufferManager_init_def DiskManager_init_def)
  ultimately show ?thesis using s(1,5) keep by (intro exI [of _ ?p]) simp
qed

section \<open>Drawing file ids\<close>

text \<open>The random ids a process draws hit a free one within the allowed number of attempts whenever there is one.\<close>

definition finds_ids :: "io_env \<Rightarrow> bool" where
  "finds_ids env \<longleftrightarrow> (\<forall>d f. \<not> IsReservedFileId f \<and> f \<noteq> INVALID_FILE_ID \<and> \<not> FileExists d f \<longrightarrow>
     (\<exists>g. fst (CreateFile env d) = Inr g \<and> g \<noteq> INVALID_FILE_ID))"

lemma untouched_can_create:
  assumes u: "untouched p" and ids: "finds_ids env" and f: "\<not> IsReservedFileId f" "f \<noteq> INVALID_FILE_ID" "pool_sizes p f = None"
  shows "disk_can_create env p"
proof -
  have "\<not> FileExists (disk_manager_m p) f" using f(3) by (simp add: FileExists_def sizes_def)
  then obtain g where "fst (CreateFile env (disk_manager_m p)) = Inr g" "g \<noteq> INVALID_FILE_ID" using ids f(1,2) unfolding finds_ids_def by blast
  then show ?thesis using u by (auto simp: disk_can_create_def untouched_def split: prod.split sum.split)
qed

section \<open>The table manager\<close>

text \<open>A process that can start: its buffers are pages, its directory is sane and nothing fails.\<close>

definition machine_ok :: "Machine \<Rightarrow> bool" where
  "machine_ok mc \<longleftrightarrow> (\<forall>i. length (mc_buffer mc i) = 4096) \<and> files_ok (mc_files mc) \<and> no_fault (mc_io mc) \<and>
     (\<forall>n. env_ok (mc_heap mc) n)"

abbreviation disk_only :: "PageBufferManager \<Rightarrow> Storage" where
  "disk_only p \<equiv> no_factories\<lparr>on_disk_m := Some p\<rparr>"

lemma disk_only_ok:
  assumes "disk_inv (mc_io mc) p" and "mapping_inv p" and "machine_ok mc"
  shows "engines_ok mc (disk_only p)" and "mem_names (disk_only p) = Map.empty" and "disk_names_of (disk_only p) n = map_option Inr (disk_names p n)"
    and "any_rows (disk_only p) (Inr f) = disk_rows p f" and "disk_room p k \<Longrightarrow> k < 2 ^ 48 \<Longrightarrow> any_room (disk_only p) k"
proof -
  have "eph_inv Map.empty" by (simp add: eph_inv_def)
  then show "engines_ok mc (disk_only p)"
    using assms by (simp add: engines_ok_def disk_finv_def any_inv_def registry_ok_def no_factories_def machine_ok_def)
  show "any_room (disk_only p) k" if "disk_room p k" "k < 2 ^ 48"
    using that by (simp add: any_room_def eph_room_def no_factories_def)
qed (simp_all add: mem_names_def no_factories_def fun_eq_iff)

lemma started_inv:
  assumes ok: "engines_ok mc w" and f: "disk_finv (mc_heap mc) (mc_io mc) w' \<and> registry_part w' = registry_part w" and mem: "mem_names w = Map.empty"
    and c: "catalog_ok disk_names_of any_rows 4068 w' c"
    and nl: "\<And>n. n \<notin> catalog_names \<Longrightarrow> disk_names_of w' n \<noteq> None \<Longrightarrow> map_option ti_type (table_info_m c n) = Some Disk"
    and cn: "\<And>n. n \<in> catalog_names \<Longrightarrow> map_option ti_type (table_info_m c n) \<noteq> Some Disk"
  shows "tm_inv mc \<lparr>factories_m = w', catalog_m = c\<rparr>" and "mem_names w' = Map.empty"
proof -
  show mem': "mem_names w' = Map.empty" using registry_part_cong(2) [of w' w] f mem by simp
  have "engines_ok mc w'" using f registry_part_cong(1) [of w' w] engines_okD(2) [OF ok] by (simp add: engines_ok_def)
  moreover have "map_option ti_type (table_info_m c n) = Some ty" if "engine_names w' ty n \<noteq> None" "\<not> (ty = Disk \<and> n \<in> catalog_names)" for ty n
    using that mem' nl [of n] by (cases ty) (auto simp: engine_names_def)
  then have "names_listed (engine_names w') (table_info_m c)" using cn by (rule names_listedI)
  ultimately show "tm_inv mc \<lparr>factories_m = w', catalog_m = c\<rparr>" using c by (simp add: tm_inv_def)
qed

lemma TableManager_fresh:
  assumes mc: "machine_ok mc" and ids: "finds_ids (mc_io mc)" and small: "roomy_files (mc_files mc)" and new: "mc_files mc (GetFilePath DISK_TABLE_MAPPING_FILE_ID) = None"
    and free: "f \<noteq> g" "\<And>h. h \<in> {f, g} \<Longrightarrow> \<not> IsReservedFileId h \<and> h \<noteq> INVALID_FILE_ID \<and> mc_files mc (GetFilePath h) = None"
  shows "\<exists>m. TableManager_new mc Disk = Inr m \<and> tm_inv mc m \<and> listed m = initial_info \<and> table_contents m = Map.empty \<and>
    any_room (factories_m m) 100000"
proof -
  let ?env = "mc_io mc"
  have mcD: "\<And>i. length (mc_buffer mc i) = 4096" "files_ok (mc_files mc)" "no_fault ?env" "\<forall>n. env_ok (mc_heap mc) n"
    using mc by (simp_all add: machine_ok_def)
  obtain p where p: "DiskTableFactory_new ?env (mc_buffer mc) (mc_files mc) = Inr p" "disk_inv ?env p" "mapping_inv p" "disk_names p = Map.empty"
    "disk_room p (2 ^ 17 - 1)" "untouched p" and gone: "\<forall>g. g \<noteq> DISK_TABLE_MAPPING_FILE_ID \<and> mc_files mc (GetFilePath g) = None \<longrightarrow> pool_sizes p g = None"
    using DiskTableFactory_fresh [where buffer = "mc_buffer mc", OF mcD(1-3) small new] by blast
  have free_p: "pool_sizes p h = None" if "h \<in> {f, g}" for h using free(2) [OF that] gone by (auto simp: IsReservedFileId_def)
  let ?w = "disk_only p"
  note w = disk_only_ok [OF p(2,3) mc]
  have names: "disk_names_of ?w n = None" for n using w(3) p(4) by simp
  have room: "any_room ?w (13 + 100000)" using any.room_le [OF w(5) [OF p(5)]] by simp
  have can: "pool_can_create ?env ?w"
    using untouched_can_create [OF p(6) ids, of f] free(2) [of f] free_p [of f] by (auto simp: pool_can_create_def no_factories_def)
  have can2: "pool_can_create ?env w2"
    if same: "any_same ?w w1" and cr: "fa_CreateTable (DiskTableFactory_ops (mc_heap mc) ?env) w1 TABLE_CATALOG_TABLE_NAME = Inr (True, w2)" for w1 w2
  proof -
    obtain p1 where p1: "on_disk_m w1 = Some p1" "disk_same p p1" using same by (auto simp: any_same_def option_rel_Some1)
    have t: "tidy p p1" using p1(2) disk_invD(4) [OF p(2)] by (simp add: disk_same_def)
    note s = disk_table.sameD [OF p1(2) p(2)]
    note mi = mapping_inv_same [of p1 p]
    have "disk_names p1 TABLE_CATALOG_TABLE_NAME = None" "mapping_inv p1" using s p(3,4) mi by simp_all
    moreover have "disk_room p1 (Suc (Suc 0))" using disk_roomy.room_same [OF p1(2) p(2) disk_roomy.room_le [OF p(5)]] by simp
    moreover have "disk_can_create ?env p1"
      using disk_can_create_tidy [OF t] can by (auto simp: pool_can_create_def no_factories_def)
    ultimately obtain p2 h where c: "disk_CreateTable (mc_heap mc) ?env p1 TABLE_CATALOG_TABLE_NAME = Inr (True, p2)" "only_file h p1 p2"
      using disk_CreateTable_ok [of ?env p1 TABLE_CATALOG_TABLE_NAME 0 "mc_heap mc"] s mcD(4) by auto
    then have w2: "on_disk_m w2 = Some p2" using cr p1(1) by (auto simp: DiskTableFactory_ops_def on_pool_def)
    have only: "only_file h p p2" using only_file_trans [OF only_file_intro(4) [OF t] c(2)] .
    obtain k where k: "k \<in> {f, g}" "k \<noteq> h" using free(1) by blast
    have "untouched p2" "pool_sizes p2 k = None" using only p(6) free_p [OF k(1)] k(2) unfolding only_file_def untouched_def by auto
    then show ?thesis using untouched_can_create [OF _ ids, of p2 k] free(2) [OF k(1)] w2 by (auto simp: pool_can_create_def)
  qed
  have fin: "disk_finv (mc_heap mc) ?env ?w \<and> registry_part ?w = registry_part ?w" using engines_okD(1) [OF w(1)] by blast
  have "\<forall>w1 w2. any_same ?w w1 \<and> fa_CreateTable (DiskTableFactory_ops (mc_heap mc) ?env) w1 TABLE_CATALOG_TABLE_NAME = Inr (True, w2) \<longrightarrow>
      pool_can_create ?env w2"
    using can2 by blast
  from pinned_factory.Catalog_fresh [OF fin names names room mcD(4) _ _ can this]
  obtain c w' t1 t2 where c: "Catalog_new (mc_heap mc) (any_ops mc) (DiskTableFactory_ops (mc_heap mc) ?env) ?w = Inr (c, w')"
    "disk_finv (mc_heap mc) ?env w' \<and> registry_part w' = registry_part ?w" "any_room w' 100000"
    "disk_names_of w' = (disk_names_of ?w)(TABLE_CATALOG_TABLE_NAME \<mapsto> t1, COLUMN_CATALOG_TABLE_NAME \<mapsto> t2)"
    "table_info_m c = initial_info" "catalog_ok disk_names_of any_rows 4068 w' c"
    by auto
  have "tm_inv mc \<lparr>factories_m = w', catalog_m = c\<rparr>" and mem: "mem_names w' = Map.empty"
    using started_inv [OF w(1) c(2) w(2) c(6)] c(4,5) names by (auto simp: initial_info_def catalog_entry_def)
  moreover have "table_contents \<lparr>factories_m = w', catalog_m = c\<rparr> = Map.empty"
    using mem c(5) by (auto simp: table_contents_def table_of_def fun_eq_iff initial_info_def catalog_entry_def)
  moreover have "TableManager_new mc Disk = Inr \<lparr>factories_m = w', catalog_m = c\<rparr>"
    using p(1) c(1) by (simp add: TableManager_new_def make_factory_def factory_ops_def)
  ultimately show ?thesis using c(3,5) by (intro exI [of _ "\<lparr>factories_m = w', catalog_m = c\<rparr>"]) simp
qed

text \<open>
  The next process on the same directory finds the same catalog and all disk tables with their rows.
  In-memory tables stay listed, but they cannot be reached any more.
\<close>

lemma TableManager_restart:
  assumes inv: "tm_inv mc m" and p: "on_disk_m (factories_m m) = Some p" and d: "PageBufferManager_destroy (mc_io mc) p = Inr d"
    and pages: "disk_pages d = contents p"
    and mc': "machine_ok mc'" "mc_io mc' = mc_io mc" "mc_files mc' = fs d"
  shows "\<exists>m'. TableManager_new mc' Disk = Inr m' \<and> tm_inv mc' m' \<and> listed m' = listed m \<and> (roomy_files (fs d) \<longrightarrow> any_room (factories_m m') 100000) \<and>
    (\<forall>n. table_contents m' n = (if map_option ti_type (listed m n) = Some Disk then table_contents m n else None))"
proof -
  let ?w = "factories_m m" and ?c = "catalog_m m"
  note ok = tm_invD(1) [OF inv]
  have pinv: "disk_inv (mc_io mc) p" "mapping_inv p" using engines_okD(1) [OF ok] p by (auto simp: disk_finv_def any_inv_def)
  have mcD: "\<And>i. length (mc_buffer mc' i) = 4096" "files_ok (fs d)" using mc' by (simp_all add: machine_ok_def)
  obtain p' where p': "DiskTableFactory_new (mc_io mc) (mc_buffer mc') (fs d) = Inr p'" "disk_inv (mc_io mc) p'" "mapping_inv p'"
    "disk_names p' = disk_names p" "roomy_files (fs d) \<longrightarrow> disk_room p' (2 ^ 17)" and keep: "\<forall>f rs. disk_rows p f = Some rs \<longrightarrow> disk_rows p' f = Some rs"
    using DiskTableFactory_reopen [where buffer = "mc_buffer mc'", OF pinv pages mcD(2,1)] by blast
  let ?w' = "disk_only p'"
  note w = disk_only_ok [OF p'(2) [folded mc'(2)] p'(3) mc'(1)]
  have names: "disk_names_of ?w' = disk_names_of ?w" using w(3) p p'(4) by (simp add: fun_eq_iff)
  have rows: "any_rows ?w' t = any_rows ?w t" if n: "disk_names_of ?w n = Some t" for n t
  proof -
    obtain f where f: "t = Inr f" "disk_names p n = Some f" using n p by auto
    then obtain rs where "disk_rows p f = Some rs" using disk_names_file(2) [OF pinv(2)] by blast
    then show ?thesis using f(1) p keep w(4) by simp
  qed
  have room: "any_room ?w' 100000" if "roomy_files (fs d)" using any.room_le [OF w(5) [OF p'(5) [rule_format, OF that]]] by simp
  have co: "catalog_ok disk_names_of any_rows 4068 ?w' ?c" using catalog_ok_cong [OF tm_invD(2) [OF inv], of ?w'] names rows by simp
  then have st: "stored disk_names_of any_rows ?w' (storage_m (table_catalog_table_m ?c)) (storage_m (column_catalog_table_m ?c)) (listed m)"
    and io: "info_ok 4068 (listed m)"
    by (simp_all add: catalog_ok_def)
  have fin: "disk_finv (mc_heap mc') (mc_io mc') ?w' \<and> registry_part ?w' = registry_part ?w'" using engines_okD(1) [OF w(1)] by blast
  from pinned_factory.Catalog_reload [OF fin st io]
  obtain c w1 where c: "Catalog_new (mc_heap mc') (any_ops mc') (DiskTableFactory_ops (mc_heap mc') (mc_io mc')) ?w' = Inr (c, w1)"
    "disk_finv (mc_heap mc') (mc_io mc') w1 \<and> registry_part w1 = registry_part ?w'" "\<forall>k. any_room ?w' k \<longrightarrow> any_room w1 k" "disk_names_of w1 = disk_names_of ?w'"
    "any_rows w1 = any_rows ?w'" "table_info_m c = listed m" "catalog_ok disk_names_of any_rows 4068 w1 c"
    by blast
  let ?m = "\<lparr>factories_m = w1, catalog_m = c\<rparr>"
  have inv': "tm_inv mc' ?m" and mem: "mem_names w1 = Map.empty"
    using started_inv [OF w(1) c(2) w(2) c(7)] c(4,6) names names_listedD [OF tm_invD(4) [OF inv]] by fastforce+
  have "table_contents ?m n = (if map_option ti_type (listed m n) = Some Disk then table_contents m n else None)" for n
  proof (cases "listed m n")
    case (Some ti)
    then have "known (ti_type ti)" using tm_invD(3) [OF inv] by blast
    then show ?thesis
      using Some mem c(4-6) names rows [of n] by (cases "disk_names_of ?w n") (auto simp: table_contents_def table_of_def)
  qed (use c(6) in \<open>simp add: table_contents_def table_of_def\<close>)
  moreover have "TableManager_new mc' Disk = Inr ?m"
    using p'(1) c(1) mc'(2,3) by (simp add: TableManager_new_def make_factory_def factory_ops_def)
  ultimately show ?thesis using inv' c(3,6) room by (intro exI [of _ ?m]) simp
qed

end
