(* ===== verification/Result_Printer.thy ===== *)
theory Result_Printer
  imports Row_Format
begin

text \<open>
  Results of statements and how the shell prints them (\<open>result_printer.cpp\<close>): a table with a header,
  drawn with box characters. The output is the list of bytes written to the stream; a box character
  is its three UTF-8 bytes. \<open>setw\<close> pads on the right, counting bytes.
\<close>

section \<open>Results\<close>

record ExecutionResult =
  er_success :: bool
  er_rows :: "byte list list option"
  er_schema :: "Schema option"

section \<open>Printing\<close>

definition box :: "nat \<Rightarrow> string" where
  "box b = [char_of (0xE2 :: nat), char_of (0x94 :: nat), char_of b]"

abbreviation "bar_h \<equiv> box 0x80"
abbreviation "bar_v \<equiv> box 0x82"

definition newline :: string where "newline = [char_of (10 :: nat)]"

text \<open>The loop the three separators share; \<open>i < widths.size() - 1\<close> holds for all but the last column.\<close>

definition print_separator :: "string \<Rightarrow> string \<Rightarrow> string \<Rightarrow> nat list \<Rightarrow> string" where
  "print_separator left cross right widths =
     left @ concat (map (\<lambda>i. concat (replicate (widths ! i + 2) bar_h) @ (if i < length widths - 1 then cross else [])) [0..<length widths])
     @ right @ newline"

definition print_header_separator :: "nat list \<Rightarrow> string" where
  "print_header_separator widths = print_separator (box 0x8C) (box 0xAC) (box 0x90) widths"

definition print_row_separator :: "nat list \<Rightarrow> string" where
  "print_row_separator widths = print_separator (box 0x9C) (box 0xBC) (box 0xA4) widths"

definition print_footer_separator :: "nat list \<Rightarrow> string" where
  "print_footer_separator widths = print_separator (box 0x94) (box 0xB4) (box 0x98) widths"

definition setw :: "nat \<Rightarrow> string \<Rightarrow> string" where
  "setw n s = s @ replicate (n - length s) CHR '' ''"

definition print_row :: "string list \<Rightarrow> nat list \<Rightarrow> string" where
  "print_row row widths =
     bar_v @ concat (map (\<lambda>i. '' '' @ setw (widths ! i) (row ! i) @ '' '' @ bar_v) [0..<length row]) @ newline"

definition value_to_string :: "f64_text \<Rightarrow> byte list \<Rightarrow> Schema \<Rightarrow> nat \<Rightarrow> string outcome" where
  "value_to_string fmt row_bytes schema col_idx =
     andthen (GetValue row_bytes schema col_idx) (\<lambda>v. Inr (ToString fmt v))"

definition deserialize_rows :: "f64_text \<Rightarrow> byte list list \<Rightarrow> Schema \<Rightarrow> string list list outcome" where
  "deserialize_rows fmt rows schema =
     for_each (\<lambda>row_bytes result.
       andthen (for_each (\<lambda>i string_row. andthen (value_to_string fmt row_bytes schema i) (\<lambda>s. Inr (string_row @ [s])))
         [0..<length schema] []) (\<lambda>string_row.
       Inr (result @ [string_row]))) rows []"

definition calculate_column_widths :: "string list list \<Rightarrow> Schema \<Rightarrow> nat list" where
  "calculate_column_widths string_rows schema =
     fold (\<lambda>row widths. fold (\<lambda>i widths. widths[i := max (widths ! i) (length (row ! i))]) [0..<length row] widths)
       string_rows (map (\<lambda>attr. length (ra_name attr)) schema)"

definition ResultPrinter_print :: "f64_text \<Rightarrow> ExecutionResult \<Rightarrow> string outcome" where
  "ResultPrinter_print fmt result =
     (if \<not> er_success result then Inr (''Error: Query failed'' @ newline)
      else case (er_rows result, er_schema result) of
        (Some rows, Some schema) \<Rightarrow>
          if rows = [] then Inr (''Empty set (0 rows)'' @ newline)
          else
            andthen (deserialize_rows fmt rows schema) (\<lambda>string_rows.
            let widths = calculate_column_widths string_rows schema
            in Inr (print_header_separator widths @ print_row (map ra_name schema) widths @ print_row_separator widths @
                 concat (map (\<lambda>row. print_row row widths) string_rows) @ print_footer_separator widths @
                 nat_to_string (length rows) @ '' row'' @ (if length rows = 1 then [] else ''s'') @ '' in set'' @ newline))
      | _ \<Rightarrow> Inr (''Query OK'' @ newline))"

section \<open>Column widths\<close>

text \<open>The width of a column is the length of its longest cell, its name included.\<close>

definition column_width :: "Schema \<Rightarrow> string list list \<Rightarrow> nat \<Rightarrow> nat" where
  "column_width schema rows i = Max (insert (length (ra_name (schema ! i))) ((\<lambda>row. length (row ! i)) ` set rows))"

lemma widen_row:
  assumes "length row \<le> length widths"
  shows "fold (\<lambda>i widths. widths[i := max (widths ! i) (length (row ! i))]) [0..<length row] widths =
    map (\<lambda>i. if i < length row then max (widths ! i) (length (row ! i)) else widths ! i) [0..<length widths]"
proof -
  have "fold (\<lambda>i widths. widths[i := max (widths ! i) (length (row ! i))]) [0..<n] widths =
    map (\<lambda>i. if i < n then max (widths ! i) (length (row ! i)) else widths ! i) [0..<length widths]" if "n \<le> length row" for n
    using that
  proof (induction n)
    case 0
    then show ?case by (simp add: map_nth)
  next
    case (Suc n)
    then show ?case using assms by (auto intro!: nth_equalityI simp: nth_list_update less_Suc_eq)
  qed
  then show ?thesis by simp
qed

lemma calculate_column_widths_eq:
  assumes "\<forall>row \<in> set rows. length row = length schema"
  shows "calculate_column_widths rows schema = map (column_width schema rows) [0..<length schema]"
proof -
  have "fold (\<lambda>row widths. fold (\<lambda>i widths. widths[i := max (widths ! i) (length (row ! i))]) [0..<length row] widths) rows widths =
      map (\<lambda>i. Max (insert (widths ! i) ((\<lambda>row. length (row ! i)) ` set rows))) [0..<length schema]"
    if "length widths = length schema" for widths
    using assms that
  proof (induction rows arbitrary: widths)
    case Nil
    then show ?case using map_nth [of widths] by simp
  next
    case (Cons row rows)
    let ?w = "map (\<lambda>i. max (widths ! i) (length (row ! i))) [0..<length schema]"
    have w: "fold (\<lambda>i widths. widths[i := max (widths ! i) (length (row ! i))]) [0..<length row] widths = ?w"
      using Cons.prems widen_row [of row widths] by (auto intro!: map_cong)
    have "Max (insert (max (widths ! i) (length (row ! i))) S) = Max (insert (widths ! i) (insert (length (row ! i)) S))"
      if "finite S" for i and S :: "nat set"
      using that by (cases "S = {}") (auto simp: max.assoc)
    then show ?case using Cons.IH [of ?w] Cons.prems w by simp
  qed
  then show ?thesis by (simp add: calculate_column_widths_def column_width_def)
qed

lemma deserialize_rows_eq:
  assumes "\<forall>vals \<in> set valss. fits_schema schema vals"
  shows "deserialize_rows fmt (map (\<lambda>vals. concat (map encode vals)) valss) schema = Inr (map (map (ToString fmt)) valss)"
proof -
  have cells: "for_each (\<lambda>i string_row. andthen (value_to_string fmt (concat (map encode vals)) schema i) (\<lambda>s. Inr (string_row @ [s])))
      [n..<length schema] acc = Inr (acc @ map (ToString fmt) (drop n vals))"
    if fit: "fits_schema schema vals" and "n \<le> length schema" for vals acc n
    using that(2)
  proof (induction "length schema - n" arbitrary: n acc)
    case 0
    then show ?case using fit by (auto simp: fits_schema_def dest: map_eq_imp_length_eq)
  next
    case (Suc k)
    then have n: "n < length schema" "n < length vals" using fit by (auto simp: fits_schema_def dest: map_eq_imp_length_eq)
    have "value_to_string fmt (concat (map encode vals)) schema n = Inr (ToString fmt (vals ! n))"
      using GetValue_row(1) [OF fit n(2)] by (simp add: value_to_string_def)
    then show ?case using Suc.hyps(1) [of "Suc n"] Suc.hyps(2) n by (simp add: upt_conv_Cons Cons_nth_drop_Suc [symmetric])
  qed
  have "for_each (\<lambda>row_bytes result.
       andthen (for_each (\<lambda>i string_row. andthen (value_to_string fmt row_bytes schema i) (\<lambda>s. Inr (string_row @ [s])))
         [0..<length schema] []) (\<lambda>string_row. Inr (result @ [string_row]))) (map (\<lambda>vals. concat (map encode vals)) valss) acc =
    Inr (acc @ map (map (ToString fmt)) valss)" for acc
    using assms cells [of _ 0] by (induction valss arbitrary: acc) simp_all
  then show ?thesis by (simp add: deserialize_rows_def)
qed

section \<open>Claims\<close>

text \<open>
  C40: a non-empty result whose rows are encodings of values that fit the schema is printed without
  failure as a table with one line per row. Every column is as wide as its longest cell and no wider,
  every cell holds the whole text of its value padded to exactly that width, so that all rows and the
  header have their bars at the same places, and the separators draw the same widths.
\<close>

theorem result_table_layout:
  assumes "valss \<noteq> []" and "\<forall>vals \<in> set valss. fits_schema schema vals"
  shows "let texts = map (map (ToString fmt)) valss;
             widths = map (column_width schema texts) [0..<length schema];
             line = (\<lambda>cells. bar_v @ concat (map (\<lambda>(w, cell). '' '' @ cell @ replicate (w - length cell) CHR '' '' @ '' '' @ bar_v) (zip widths cells)) @ newline)
         in ResultPrinter_print fmt \<lparr>er_success = True, er_rows = Some (map (\<lambda>vals. concat (map encode vals)) valss), er_schema = Some schema\<rparr> =
            Inr (print_header_separator widths @ line (map ra_name schema) @ print_row_separator widths @ concat (map line texts) @
              print_footer_separator widths @ nat_to_string (length valss) @ '' row'' @ (if length valss = 1 then [] else ''s'') @ '' in set'' @ newline) \<and>
            (\<forall>cells \<in> set (map ra_name schema # texts). length cells = length widths \<and> (\<forall>(w, cell) \<in> set (zip widths cells). length cell \<le> w)) \<and>
            (\<forall>i < length schema. \<exists>cells \<in> set (map ra_name schema # texts). length (cells ! i) = widths ! i)"
proof -
  define texts where "texts = map (map (ToString fmt)) valss"
  define widths where "widths = map (column_width schema texts) [0..<length schema]"
  have len: "length row = length schema" if "row \<in> set texts" for row
    using that assms(2) by (auto simp: texts_def fits_schema_def dest!: map_eq_imp_length_eq)
  have w: "calculate_column_widths texts schema = widths" using calculate_column_widths_eq [of texts schema] len by (simp add: widths_def)
  have row: "print_row cells widths = bar_v @ concat (map (\<lambda>(w, cell). '' '' @ cell @ replicate (w - length cell) CHR '' '' @ '' '' @ bar_v)
      (zip widths cells)) @ newline" if "length cells = length schema" for cells
  proof -
    have "zip widths cells = map (\<lambda>i. (widths ! i, cells ! i)) [0..<length cells]"
      using that by (intro nth_equalityI) (auto simp: widths_def)
    then show ?thesis by (simp add: print_row_def setw_def comp_def)
  qed
  have le: "length (cells ! i) \<le> column_width schema texts i" if "cells \<in> set (map ra_name schema # texts)" "i < length schema" for cells i
    unfolding column_width_def using that by (intro Max_ge) auto
  have "\<forall>cells \<in> set (map ra_name schema # texts). length cells = length widths \<and> (\<forall>(w, cell) \<in> set (zip widths cells). length cell \<le> w)"
    using len le by (fastforce simp: set_zip widths_def)
  moreover have "\<exists>cells \<in> set (map ra_name schema # texts). length (cells ! i) = widths ! i" if "i < length schema" for i
  proof -
    have "column_width schema texts i \<in> insert (length (ra_name (schema ! i))) ((\<lambda>row. length (row ! i)) ` set texts)"
      unfolding column_width_def by (intro Max_in) auto
    then show ?thesis using that by (auto simp: widths_def)
  qed
  moreover have "ResultPrinter_print fmt \<lparr>er_success = True, er_rows = Some (map (\<lambda>vals. concat (map encode vals)) valss), er_schema = Some schema\<rparr> =
      Inr (print_header_separator widths @ print_row (map ra_name schema) widths @ print_row_separator widths @
        concat (map (\<lambda>row. print_row row widths) texts) @ print_footer_separator widths @
        nat_to_string (length valss) @ '' row'' @ (if length valss = 1 then [] else ''s'') @ '' in set'' @ newline)"
    using assms(1) deserialize_rows_eq [OF assms(2), of fmt] w by (simp add: ResultPrinter_print_def texts_def [symmetric])
  moreover have "map (\<lambda>row. print_row row widths) texts = map (\<lambda>cells. bar_v @ concat (map (\<lambda>(w, cell). '' '' @ cell @ replicate (w - length cell) CHR '' '' @ '' '' @ bar_v)
      (zip widths cells)) @ newline) texts"
    using row len by (intro map_cong) auto
  ultimately show ?thesis
    unfolding Let_def texts_def [symmetric] widths_def [symmetric] using row [of "map ra_name schema"] by simp
qed

theorem result_table_layout_witness:
  "ResultPrinter_print \<lparr>f64_from_chars = (\<lambda>s. (Inl invalid_argument, s)), f64_format = (\<lambda>_. [])\<rparr>
     \<lparr>er_success = True, er_rows = Some [concat (map encode [I32 42])], er_schema = Some [\<lparr>ra_name = ''n'', ra_type = 0\<rparr>]\<rparr> =
   Inr (print_header_separator [2] @ bar_v @ '' n  '' @ bar_v @ newline @ print_row_separator [2] @
     bar_v @ '' 42 '' @ bar_v @ newline @ print_footer_separator [2] @ ''1 row in set'' @ newline)"
proof -
  let ?fmt = "\<lparr>f64_from_chars = (\<lambda>s. (Inl invalid_argument, s)), f64_format = (\<lambda>_. [])\<rparr> :: f64_text"
  let ?schema = "[\<lparr>ra_name = ''n'', ra_type = 0\<rparr>]"
  have t: "ToString ?fmt (I32 42) = ''42''" "nat_to_string (Suc 0) = ''1''"
    by (simp_all add: int_to_string_def nat_to_string.simps digit_char_def char_of_def bit_Suc_0_iff)
  have w: "column_width ?schema [[''42'']] 0 = 2" by (simp add: column_width_def)
  have "\<forall>vals \<in> set [[I32 42]]. fits_schema ?schema vals" by (simp add: fits_schema_def)
  from result_table_layout [OF _ this, of ?fmt] show ?thesis by (simp add: t w Let_def del: ToString.simps)
qed

end
