(* ===== verification/Executor.thy ===== *)
theory Executor
  imports Engine_Start Query_Plans Result_Printer
begin

text \<open>
  The executor (\<open>executor.h\<close>, \<open>executor.cpp\<close>), the part of the optimizer that looks the table up
  (\<open>optimizer.cpp\<close>) and the shell's \<open>-c\<close> mode (\<open>main.cpp\<close>). A \<open>try\<close> block around a statement turns the
  exceptions of the standard library into a failed result; assertion failures and undefined behaviour
  are not exceptions. The state after a caught exception is the one before the calls that threw, which
  leaves out which pages of disk tables are cached by then.
\<close>

section \<open>Statements\<close>

text \<open>The syntax trees of \<open>Parser.y\<close>; a literal is its text.\<close>

record InsertStmt =
  ins_table_name :: string
  ins_columns :: "string list"
  ins_values :: "string list"

record CreateTableStmt =
  cre_table_name :: string
  cre_columns :: Schema

record DropTableStmt =
  drp_table_name :: string

record DeleteStmt =
  del_table_name :: string
  del_has_where :: bool
  del_where_clause :: "Condition option"

record UpdateStmt =
  upd_table_name :: string
  upd_set_columns :: "string list"
  upd_has_where :: bool
  upd_where_clause :: "Condition option"

datatype SqlStmt = Select SelectStmt | Insert InsertStmt | CreateTable CreateTableStmt | DropTable DropTableStmt
  | Delete DeleteStmt | Update UpdateStmt

section \<open>Results\<close>

abbreviation failed :: ExecutionResult where
  "failed \<equiv> \<lparr>er_success = False, er_rows = None, er_schema = None\<rparr>"

abbreviation finished :: "bool \<Rightarrow> ExecutionResult" where
  "finished success \<equiv> \<lparr>er_success = success, er_rows = None, er_schema = None\<rparr>"

text \<open>What \<open>catch (const std::exception&)\<close> catches.\<close>

definition std_exception :: "failure \<Rightarrow> bool" where
  "std_exception e \<longleftrightarrow> e = RuntimeError \<or> e = InvalidArgument \<or> e = LengthError \<or> e = BadAlloc"

definition catching :: "TableManager \<Rightarrow> (ExecutionResult \<times> TableManager) outcome \<Rightarrow> (ExecutionResult \<times> TableManager) outcome" where
  "catching m r = (case r of Inl e \<Rightarrow> if std_exception e then Inr (failed, m) else Inl e | Inr x \<Rightarrow> Inr x)"

section \<open>SELECT\<close>

text \<open>\<open>get_execution_iterator\<close> up to the point where it has the table; \<open>Inl\<close> is a \<open>throw\<close>, with the state at that point.\<close>

definition lookup_table :: "Machine \<Rightarrow> TableManager \<Rightarrow> SelectStmt \<Rightarrow> ((failure + any_table TableHandle) \<times> TableManager) outcome" where
  "lookup_table mc m stmt =
     (if \<not> tm_TableExists m (sel_table_name stmt) then Inr (Inl RuntimeError, m)
      else
        andthen (tm_GetTable mc m (sel_table_name stmt)) (\<lambda>(table, m).
        Inr (case table of None \<Rightarrow> Inl RuntimeError | Some h \<Rightarrow> Inr h, m)))"

definition result_schema :: "Schema \<Rightarrow> SelectStmt \<Rightarrow> Schema" where
  "result_schema full_schema stmt =
     (if sel_select_all stmt then full_schema
      else concat (map (\<lambda>col_name. case List.find (\<lambda>attr. ra_name attr = col_name) full_schema of
             None \<Rightarrow> [] | Some attr \<Rightarrow> [attr]) (sel_columns stmt)))"

definition execute_Select :: "f64_text \<Rightarrow> Machine \<Rightarrow> TableManager \<Rightarrow> SelectStmt \<Rightarrow> (ExecutionResult \<times> TableManager) outcome" where
  "execute_Select fmt mc m stmt =
     catching m
       (andthen (lookup_table mc m stmt) (\<lambda>(found, m).
        case found of
          Inl e \<Rightarrow> catching m (Inl e)
        | Inr h \<Rightarrow>
            catching m
              (andthen (run_plan fmt (any_ops mc) (factories_m m) h stmt) (\<lambda>(result_rows, w).
               andthen (tm_GetTable mc (m\<lparr>factories_m := w\<rparr>) (sel_table_name stmt)) (\<lambda>(table, m).
               case table of
                 None \<Rightarrow> Inr (failed, m)
               | Some h \<Rightarrow> Inr (\<lparr>er_success = True, er_rows = Some result_rows,
                                 er_schema = Some (result_schema (schema_m h) stmt)\<rparr>, m))))))"

section \<open>INSERT\<close>

fun values_from_text :: "f64_text \<Rightarrow> Schema \<Rightarrow> string list \<Rightarrow> Value list option" where
  "values_from_text fmt (attr # schema) (s # ss) =
     (case ValueFromString fmt (ra_type attr) s of
        Inl _ \<Rightarrow> None
      | Inr value \<Rightarrow> map_option (\<lambda>vals. value # vals) (values_from_text fmt schema ss))"
| "values_from_text fmt _ _ = Some []"

definition execute_Insert :: "f64_text \<Rightarrow> Machine \<Rightarrow> TableManager \<Rightarrow> InsertStmt \<Rightarrow> (ExecutionResult \<times> TableManager) outcome" where
  "execute_Insert fmt mc m stmt =
     andthen (tm_GetTable mc m (ins_table_name stmt)) (\<lambda>(table, m).
     case table of
       None \<Rightarrow> Inr (failed, m)
     | Some h \<Rightarrow>
         if length (ins_values stmt) \<noteq> length (schema_m h) then Inr (failed, m)
         else
           (case values_from_text fmt (schema_m h) (ins_values stmt) of
              None \<Rightarrow> Inr (failed, m)
            | Some vals \<Rightarrow>
                catching m
                  (andthen (TableHandle_insert_row (mc_heap mc) (any_ops mc) (factories_m m) h vals) (\<lambda>(_, w).
                   Inr (finished True, m\<lparr>factories_m := w\<rparr>)))))"

section \<open>The other statements\<close>

definition execute_CreateTable :: "Machine \<Rightarrow> TableManager \<Rightarrow> CreateTableStmt \<Rightarrow> (ExecutionResult \<times> TableManager) outcome" where
  "execute_CreateTable mc m stmt =
     andthen (tm_CreateTable mc m (cre_table_name stmt) InMemory (cre_columns stmt)) (\<lambda>(success, m).
     Inr (finished success, m))"

definition execute_DropTable :: "Machine \<Rightarrow> TableManager \<Rightarrow> DropTableStmt \<Rightarrow> (ExecutionResult \<times> TableManager) outcome" where
  "execute_DropTable mc m stmt =
     andthen (tm_DeleteTable mc m (drp_table_name stmt)) (\<lambda>(success, m). Inr (finished success, m))"

definition execute_Delete :: "TableManager \<Rightarrow> DeleteStmt \<Rightarrow> (ExecutionResult \<times> TableManager) outcome" where
  "execute_Delete m stmt = Inr (failed, m)"

definition execute_Update :: "TableManager \<Rightarrow> UpdateStmt \<Rightarrow> (ExecutionResult \<times> TableManager) outcome" where
  "execute_Update m stmt = Inr (failed, m)"

primrec execute :: "f64_text \<Rightarrow> Machine \<Rightarrow> TableManager \<Rightarrow> SqlStmt \<Rightarrow> (ExecutionResult \<times> TableManager) outcome" where
  "execute fmt mc m (Select s) = execute_Select fmt mc m s"
| "execute fmt mc m (Insert s) = execute_Insert fmt mc m s"
| "execute fmt mc m (CreateTable s) = execute_CreateTable mc m s"
| "execute fmt mc m (DropTable s) = execute_DropTable mc m s"
| "execute fmt mc m (Delete s) = execute_Delete m s"
| "execute fmt mc m (Update s) = execute_Update m s"

definition Executor_new :: "Machine \<Rightarrow> TableManager outcome" where
  "Executor_new mc = TableManager_new mc Disk"

section \<open>The shell\<close>

text \<open>
  The loop over the statements of one input, which prints every result, and \<open>main\<close> with \<open>-c\<close>. The parser
  is generated at build time and is a parameter. When \<open>main\<close> returns, the executor is destroyed and the
  buffer pool with it, which writes the cached pages back; the result is the exit code, the two output
  streams and the files left behind.
\<close>

primrec run_statements :: "f64_text \<Rightarrow> Machine \<Rightarrow> SqlStmt list \<Rightarrow> string \<Rightarrow> TableManager \<Rightarrow> (string \<times> TableManager) outcome" where
  "run_statements fmt mc [] out m = Inr (out, m)"
| "run_statements fmt mc (stmt # stmts) out m =
     andthen (execute fmt mc m stmt) (\<lambda>(exec_res, m).
     andthen (ResultPrinter_print fmt exec_res) (\<lambda>printed. run_statements fmt mc stmts (out @ printed) m))"

definition shutdown :: "Machine \<Rightarrow> TableManager \<Rightarrow> (string \<rightharpoonup> byte list) outcome" where
  "shutdown mc m =
     (case on_disk_m (factories_m m) of
        None \<Rightarrow> Inr (mc_files mc)
      | Some p \<Rightarrow> andthen (PageBufferManager_destroy (mc_io mc) p) (\<lambda>d. Inr (fs d)))"

definition main_command :: "f64_text \<Rightarrow> Machine \<Rightarrow> (string \<Rightarrow> SqlStmt list option) \<Rightarrow> string \<Rightarrow>
    (nat \<times> string \<times> string \<times> (string \<rightharpoonup> byte list)) outcome" where
  "main_command fmt mc parse_sql_string sql =
     andthen (Executor_new mc) (\<lambda>m.
     case parse_sql_string sql of
       None \<Rightarrow> andthen (shutdown mc m) (\<lambda>files. Inr (1, [], ''Invalid SQL'' @ newline, files))
     | Some stmts \<Rightarrow>
         andthen (run_statements fmt mc stmts [] m) (\<lambda>(out, m).
         andthen (shutdown mc m) (\<lambda>files. Inr (0, out, [], files))))"

text \<open>
  The interactive mode. The lines the terminal library returns are a list, which ends when there is no
  more input; its prompt and its history are left out.
\<close>

primrec repl :: "f64_text \<Rightarrow> Machine \<Rightarrow> (string \<Rightarrow> SqlStmt list option) \<Rightarrow> string list \<Rightarrow> string \<Rightarrow> TableManager \<Rightarrow>
    (string \<times> TableManager) outcome" where
  "repl fmt mc parse_sql_string [] out m = Inr (out, m)"
| "repl fmt mc parse_sql_string (input # inputs) out m =
     (if input = [] then repl fmt mc parse_sql_string inputs out m
      else if input = ''quit'' \<or> input = ''exit'' then Inr (out, m)
      else
        (case parse_sql_string input of
           None \<Rightarrow> repl fmt mc parse_sql_string inputs (out @ ''Unknown command or invalid SQL'' @ newline) m
         | Some stmts \<Rightarrow>
             andthen (run_statements fmt mc stmts
               (out @ ''Recieved '' @ nat_to_string (length stmts) @ '' queries'' @ newline) m) (\<lambda>(out, m).
             repl fmt mc parse_sql_string inputs out m)))"

definition main_interactive :: "f64_text \<Rightarrow> Machine \<Rightarrow> (string \<Rightarrow> SqlStmt list option) \<Rightarrow> string list \<Rightarrow>
    (nat \<times> string \<times> (string \<rightharpoonup> byte list)) outcome" where
  "main_interactive fmt mc parse_sql_string inputs =
     andthen (Executor_new mc) (\<lambda>m.
     andthen (repl fmt mc parse_sql_string inputs
       (''Weclome to Yet Another Database 1.0'' @ newline @ ''Type \"help\" for help'' @ newline) m) (\<lambda>(out, m).
     andthen (shutdown mc m) (\<lambda>files. Inr (0, out, files))))"

end
