(* ===== verification/Executor_Spec.thy ===== *)
theory Executor_Spec
  imports Executor "HOL-Library.Multiset"
begin

text \<open>
  What the statements mean, on a database of multisets of value lists, and that the executor on its
  storage engines implements it.
\<close>

section \<open>The abstract database\<close>

record sql_db =
  db_listed :: "string \<rightharpoonup> TableInfo"
  db_rows :: "string \<rightharpoonup> Value list multiset"

text \<open>A result is whether the statement succeeded and, for a query, the columns and rows.\<close>

type_synonym sql_result = "bool \<times> (Schema \<times> Value list multiset) option"

abbreviation db_schema :: "sql_db \<Rightarrow> string \<Rightarrow> Schema" where
  "db_schema db n \<equiv> ti_schema (the (db_listed db n))"

primrec sql_step :: "f64_text \<Rightarrow> SqlStmt \<Rightarrow> sql_db \<Rightarrow> sql_result \<times> sql_db" where
  "sql_step fmt (Select s) db =
     (case db_rows db (sel_table_name s) of
        None \<Rightarrow> ((False, None), db)
      | Some V \<Rightarrow>
          let schema = db_schema db (sel_table_name s)
          in ((True, Some (result_schema schema s, image_mset (chosen schema s) (filter_mset (where_true fmt schema s) V))), db))"
| "sql_step fmt (Insert s) db =
     (case db_rows db (ins_table_name s) of
        None \<Rightarrow> ((False, None), db)
      | Some V \<Rightarrow>
          let schema = db_schema db (ins_table_name s); vals = values_from_text fmt schema (ins_values s)
          in if length (ins_values s) = length schema \<and> vals \<noteq> None \<and> fits_schema schema (the vals)
             then ((True, None), db\<lparr>db_rows := (db_rows db)(ins_table_name s \<mapsto> add_mset (the vals) V)\<rparr>)
             else ((False, None), db))"
| "sql_step fmt (CreateTable s) db =
     (if db_listed db (cre_table_name s) \<noteq> None then ((False, None), db)
      else ((True, None), db\<lparr>db_listed := (db_listed db)(cre_table_name s \<mapsto> \<lparr>ti_type = InMemory, ti_schema = cre_columns s\<rparr>),
                             db_rows := (db_rows db)(cre_table_name s \<mapsto> {#})\<rparr>))"
| "sql_step fmt (DropTable s) db =
     (if db_listed db (drp_table_name s) = None then ((False, None), db)
      else ((db_rows db (drp_table_name s) \<noteq> None, None),
            db\<lparr>db_listed := (db_listed db)(drp_table_name s := None), db_rows := (db_rows db)(drp_table_name s := None)\<rparr>))"
| "sql_step fmt (Delete s) db = ((False, None), db)"
| "sql_step fmt (Update s) db = ((False, None), db)"

text \<open>
  The statements the meaning covers: queries are well typed, rows fit a page, the catalog's own tables
  are neither created nor dropped, and their names and columns fit the catalog's rows.
\<close>

primrec sql_ok :: "f64_text \<Rightarrow> SqlStmt \<Rightarrow> sql_db \<Rightarrow> bool" where
  "sql_ok fmt (Select s) db \<longleftrightarrow> (db_rows db (sel_table_name s) \<noteq> None \<longrightarrow> query_typed fmt (db_schema db (sel_table_name s)) s)"
| "sql_ok fmt (Insert s) db \<longleftrightarrow> (\<forall>vals. values_from_text fmt (db_schema db (ins_table_name s)) (ins_values s) = Some vals \<longrightarrow>
     length (row_bytes vals) \<le> 4068)"
| "sql_ok fmt (CreateTable s) db \<longleftrightarrow> cre_table_name s \<notin> catalog_names \<and>
     table_ok 4068 (cre_table_name s) \<lparr>ti_type = InMemory, ti_schema = cre_columns s\<rparr>"
| "sql_ok fmt (DropTable s) db \<longleftrightarrow> drp_table_name s \<notin> catalog_names \<and>
     (\<forall>ti. db_listed db (drp_table_name s) = Some ti \<longrightarrow> ti_type ti = InMemory)"
| "sql_ok fmt (Delete s) db \<longleftrightarrow> True"
| "sql_ok fmt (Update s) db \<longleftrightarrow> True"

text \<open>How many rows a statement may add to a table, the engine's own tables included.\<close>

primrec sql_cost :: "SqlStmt \<Rightarrow> nat" where
  "sql_cost (Select s) = 0"
| "sql_cost (Insert s) = 1"
| "sql_cost (CreateTable s) = 3 + length (cre_columns s)"
| "sql_cost (DropTable s) = 0"
| "sql_cost (Delete s) = 0"
| "sql_cost (Update s) = 0"

section \<open>The representation\<close>

definition holds_rows :: "Schema \<Rightarrow> Row list \<Rightarrow> Value list multiset \<Rightarrow> bool" where
  "holds_rows schema rs V \<longleftrightarrow> (\<exists>vs. mset vs = V \<and> map snd rs = map row_bytes vs \<and> (\<forall>v \<in> set vs. fits_schema schema v))"

definition represents :: "TableManager \<Rightarrow> sql_db \<Rightarrow> bool" where
  "represents m db \<longleftrightarrow> db_listed db = listed m \<and>
     (\<forall>n. rel_option (holds_rows (ti_schema (the (listed m n)))) (table_contents m n) (db_rows db n))"

definition result_of :: "ExecutionResult \<Rightarrow> sql_result \<Rightarrow> bool" where
  "result_of res r \<longleftrightarrow> er_success res = fst r \<and>
     (case snd r of
        None \<Rightarrow> er_rows res = None \<and> er_schema res = None
      | Some (schema, V) \<Rightarrow> er_schema res = Some schema \<and>
          (\<exists>vs. mset vs = V \<and> er_rows res = Some (map row_bytes vs) \<and> (\<forall>v \<in> set vs. fits_schema schema v)))"

lemma result_of_simps [simp]: "result_of failed (False, None)" "result_of (finished b) (b, None)"
  by (simp_all add: result_of_def)

lemma represents_eq: "represents m db \<Longrightarrow> listed m' = listed m \<Longrightarrow> table_contents m' = table_contents m \<Longrightarrow> represents m' db"
  by (simp add: represents_def)

lemma represents_upd:
  assumes "represents m db" and "listed m' = (listed m)(n := x)" and "table_contents m' = (table_contents m)(n := y)"
    and "rel_option (holds_rows (ti_schema (the x))) y V"
  shows "represents m' (db\<lparr>db_listed := (db_listed db)(n := x), db_rows := (db_rows db)(n := V)\<rparr>)"
  using assms by (simp add: represents_def)

lemma holds_rows_add:
  assumes "holds_rows schema (pre @ post) V" and "fits_schema schema v"
  shows "holds_rows schema (pre @ (rid, row_bytes v) # post) (add_mset v V)"
proof -
  obtain vs where vs: "mset vs = V" "map snd pre @ map snd post = map row_bytes vs" "\<forall>v \<in> set vs. fits_schema schema v"
    using assms(1) by (auto simp: holds_rows_def)
  then obtain us ws where "vs = us @ ws" "map snd pre = map row_bytes us" "map snd post = map row_bytes ws"
    by (auto simp: append_eq_map_conv)
  then show ?thesis using vs assms(2) unfolding holds_rows_def by (intro exI [of _ "us @ v # ws"]) auto
qed

text \<open>The rows of a query fit the columns it reports, so the result can be printed.\<close>

lemma result_schema_eq:
  assumes "\<forall>c \<in> set (sel_columns stmt). column_types schema c \<noteq> None"
  shows "result_schema schema stmt = (if sel_select_all stmt then schema else map (\<lambda>c. schema ! column_pos schema c) (sel_columns stmt))"
proof -
  have "List.find (\<lambda>attr. ra_name attr = c) schema = Some (schema ! column_pos schema c)" if "column_types schema c \<noteq> None" for c
    using that by (induction schema) (auto simp: column_types_def column_pos_def)
  then have "map (\<lambda>col_name. case List.find (\<lambda>attr. ra_name attr = col_name) schema of None \<Rightarrow> [] | Some attr \<Rightarrow> [attr]) (sel_columns stmt) =
      map (\<lambda>c. [schema ! column_pos schema c]) (sel_columns stmt)"
    using assms by (intro map_cong) simp_all
  then show ?thesis by (simp only: result_schema_def concat_map_singleton)
qed

lemma chosen_fits:
  assumes fit: "fits_schema schema vals" and ty: "query_typed fmt schema stmt"
  shows "fits_schema (result_schema schema stmt) (chosen schema stmt vals)"
proof (cases "sel_select_all stmt")
  case True
  then show ?thesis using fit by (simp add: result_schema_def chosen_def)
next
  case False
  then have cols: "\<forall>c \<in> set (sel_columns stmt). column_types schema c \<noteq> None" using ty by (simp add: query_typed_def)
  have t: "map TypeOf vals = map ra_type schema" and st: "list_all storable vals" using fit by (simp_all add: fits_schema_def)
  note len = map_eq_imp_length_eq [OF t]
  have col: "the (row_env schema vals c) = vals ! column_pos schema c" "column_pos schema c < length vals"
    "TypeOf (vals ! column_pos schema c) = ra_type (schema ! column_pos schema c)" if c: "c \<in> set (sel_columns stmt)" for c
  proof -
    obtain ty where ty: "column_types schema c = Some ty" using cols c by blast
    show lt: "column_pos schema c < length vals" using column_pos(1) [OF ty] len by simp
    show "the (row_env schema vals c) = vals ! column_pos schema c" using row_env_eq [OF ty len] by simp
    show "TypeOf (vals ! column_pos schema c) = ra_type (schema ! column_pos schema c)"
      using arg_cong [OF t, of "\<lambda>xs. xs ! column_pos schema c"] lt len by simp
  qed
  then have "chosen schema stmt vals = map (\<lambda>c. vals ! column_pos schema c) (sel_columns stmt)" using False by (simp add: chosen_def)
  then show ?thesis using False col st result_schema_eq [OF cols] by (simp add: fits_schema_def list_all_length list_all_iff)
qed

lemma result_prints:
  assumes "result_of res r"
  shows "\<exists>printed. ResultPrinter_print fmt res = Inr printed"
proof (cases "er_rows res = None \<or> er_schema res = None")
  case True
  then show ?thesis by (auto simp: ResultPrinter_print_def split: option.split)
next
  case False
  then obtain schema V vs where "er_schema res = Some schema" "er_rows res = Some (map row_bytes vs)" "\<forall>v \<in> set vs. fits_schema schema v"
    using assms by (auto simp: result_of_def split: option.splits)
  then show ?thesis using deserialize_rows_eq [of vs schema fmt] by (simp add: ResultPrinter_print_def Let_def del: map_map)
qed

text \<open>Looking a table up gives its handle when it can be reached.\<close>

lemma GetTable_contents:
  assumes inv: "tm_inv mc m" and room: "any_room (factories_m m) k" and rs: "table_contents m n = Some rs"
  obtains t m' where "tm_GetTable mc m n = Inr (Some \<lparr>storage_m = t, schema_m = ti_schema (the (listed m n))\<rparr>, m')" "tm_inv mc m'"
    "catalog_m m' = catalog_m m" "table_contents m' = table_contents m" "table_of m' = table_of m" "table_of m n = Some t"
    "any_rows (factories_m m') t = Some rs" "any_room (factories_m m') k"
proof -
  obtain t where t: "table_of m n = Some t" using contents_None [OF inv, of n] rs by auto
  obtain m' where m': "tm_GetTable mc m n = Inr (Some \<lparr>storage_m = t, schema_m = ti_schema (the (listed m n))\<rparr>, m')"
    "tm_inv mc m'" "catalog_m m' = catalog_m m" "table_of m' = table_of m" "table_contents m' = table_contents m" "any_room (factories_m m') k"
    using tm_GetTable_ok [OF inv room, of n] t by auto
  have "table_contents m' n = any_rows (factories_m m') t" using m'(4) t by (intro contents_eq) simp
  then show thesis using that [of t m'] m' t rs by simp
qed

lemma GetTable_missing:
  assumes inv: "tm_inv mc m" and room: "any_room (factories_m m) k" and rs: "table_contents m n = None"
  obtains m' where "tm_GetTable mc m n = Inr (None, m')" "tm_inv mc m'" "catalog_m m' = catalog_m m"
    "table_contents m' = table_contents m" "any_room (factories_m m') k"
  using tm_GetTable_ok [OF inv room, of n] contents_None [OF inv, of n] rs that by auto

section \<open>SELECT\<close>

lemma execute_Select_missing:
  assumes inv: "tm_inv mc m" and room: "any_room (factories_m m) k" and rs: "table_contents m (sel_table_name stmt) = None"
  shows "\<exists>m'. execute_Select fmt mc m stmt = Inr (failed, m') \<and> tm_inv mc m' \<and> catalog_m m' = catalog_m m \<and>
    table_contents m' = table_contents m \<and> any_room (factories_m m') k"
proof (cases "tm_TableExists m (sel_table_name stmt)")
  case True
  from GetTable_missing [OF inv room rs] obtain m' where "tm_GetTable mc m (sel_table_name stmt) = Inr (None, m')" "tm_inv mc m'"
    "catalog_m m' = catalog_m m" "table_contents m' = table_contents m" "any_room (factories_m m') k" .
  then show ?thesis using True by (simp add: execute_Select_def lookup_table_def catching_def std_exception_def)
next
  case False
  then show ?thesis using inv room by (simp add: execute_Select_def lookup_table_def catching_def std_exception_def)
qed

lemma execute_Select_ok:
  assumes inv: "tm_inv mc m" and room: "any_room (factories_m m) k" and rs: "table_contents m (sel_table_name stmt) = Some rs"
    and vs: "map snd rs = map row_bytes vs" "\<forall>v \<in> set vs. fits_schema schema v"
    and schema: "schema = ti_schema (the (listed m (sel_table_name stmt)))" and ty: "query_typed fmt schema stmt"
  shows "\<exists>m'. execute_Select fmt mc m stmt = Inr (\<lparr>er_success = True, er_rows = Some (map row_bytes (query fmt schema stmt vs)),
      er_schema = Some (result_schema schema stmt)\<rparr>, m') \<and>
    tm_inv mc m' \<and> catalog_m m' = catalog_m m \<and> table_contents m' = table_contents m \<and> any_room (factories_m m') k"
proof -
  let ?n = "sel_table_name stmt"
  obtain t m1 where m1: "tm_GetTable mc m ?n = Inr (Some \<lparr>storage_m = t, schema_m = schema\<rparr>, m1)" "tm_inv mc m1" "catalog_m m1 = catalog_m m"
    "table_contents m1 = table_contents m" "table_of m1 = table_of m" "table_of m ?n = Some t" "any_rows (factories_m m1) t = Some rs"
    "any_room (factories_m m1) k"
    by (rule GetTable_contents [OF inv room rs, folded schema])
  have "tm_TableExists m ?n"
    using m1(6) by (auto simp: tm_TableExists_def catalog_TableExists_def table_of_eq)
  then have look: "lookup_table mc m stmt = Inr (Inr \<lparr>storage_m = t, schema_m = schema\<rparr>, m1)" using m1(1) by (simp add: lookup_table_def)
  note ok1 = tm_invD(1) [OF m1(2)]
  let ?h = "\<lparr>storage_m = t, schema_m = schema\<rparr>"
  have "any_rows (factories_m m1) (storage_m ?h) = Some rs" using m1(7) by simp
  from table.run_plan_ok [OF any.table_axioms engines_okD(3) [OF ok1] this, of fmt stmt]
  obtain w' where w': "any_same (factories_m m1) w'"
    "run_plan fmt (any_ops mc) (factories_m m1) ?h stmt = andthen (gather (query_stream fmt schema stmt (map snd rs))) (\<lambda>result. Inr (result, w'))"
    by auto
  have "query_stream fmt schema stmt (map snd rs) = map Inr (map row_bytes (query fmt schema stmt vs))"
    unfolding vs(1) using vs(2) by (intro query_stream_typed [OF _ ty]) blast
  then have plan: "run_plan fmt (any_ops mc) (factories_m m1) ?h stmt = Inr (map row_bytes (query fmt schema stmt vs), w')"
    using w'(2) by (simp del: map_map)
  note e = any_same_engines [OF w'(1) ok1]
  note s = tm_same [OF m1(2) e(1,3,2)]
  let ?m2 = "m1\<lparr>factories_m := w'\<rparr>"
  have room2: "any_room (factories_m ?m2) k" using e(4) [OF m1(8)] by simp
  have "table_contents ?m2 ?n = Some rs" using s(2) m1(4) rs by simp
  note r2 = this
  have schema2: "ti_schema (the (listed ?m2 ?n)) = schema" using schema m1(3) by simp
  obtain t' m3 where m3: "tm_GetTable mc ?m2 ?n = Inr (Some \<lparr>storage_m = t', schema_m = schema\<rparr>, m3)" "tm_inv mc m3"
    "catalog_m m3 = catalog_m ?m2" "table_contents m3 = table_contents ?m2" "table_of m3 = table_of ?m2" "table_of ?m2 ?n = Some t'"
    "any_rows (factories_m m3) t' = Some rs" "any_room (factories_m m3) k"
    by (rule GetTable_contents [OF s(1) room2 r2, unfolded schema2])
  have "execute_Select fmt mc m stmt = Inr (\<lparr>er_success = True, er_rows = Some (map row_bytes (query fmt schema stmt vs)),
      er_schema = Some (result_schema schema stmt)\<rparr>, m3)"
    using look plan m3(1) by (simp add: execute_Select_def catching_def del: map_map)
  then show ?thesis using m3(2-4,8) m1(3,4) s(2) by simp
qed

section \<open>INSERT\<close>

text \<open>A row put into a table a user reaches changes that table only.\<close>

lemma user_insert:
  assumes inv: "tm_inv mc m" and t: "table_of m n = Some t" and rs: "any_rows (factories_m m) t = Some rs"
    and room: "any_room (factories_m m) (Suc k)" and len: "length row \<le> 4068"
  shows "\<exists>rid w' pre post. tb_insert_row (any_ops mc) (factories_m m) t row = Inr (rid, w') \<and> rs = pre @ post \<and>
    (let m' = m\<lparr>factories_m := w'\<rparr> in tm_inv mc m' \<and> any_room (factories_m m') k \<and>
       table_contents m' = (table_contents m)(n \<mapsto> pre @ (rid, row) # post))"
proof -
  let ?w = "factories_m m"
  note ok = tm_invD(1) [OF inv] and u = table_of_user [OF inv t]
  have fin: "disk_finv (mc_heap mc) (mc_io mc) ?w \<and> registry_part ?w = registry_part ?w" using engines_okD(1) [OF ok] by blast
  obtain rid w' pre post where i: "tb_insert_row (any_ops mc) ?w t row = Inr (rid, w')"
    "disk_finv (mc_heap mc) (mc_io mc) w' \<and> registry_part w' = registry_part ?w" "any_room w' k" "disk_names_of w' = disk_names_of ?w"
    "rs = pre @ post" "any_rows w' = (any_rows ?w)(t \<mapsto> pre @ (rid, row) # post)"
    using pinned_factory.factory_insert [OF fin rs u(2) room len] by (elim exE conjE) (rule that; (intro conjI)?; assumption)
  note e = catalog_step_engines [OF ok i(2,4)]
  let ?m = "m\<lparr>factories_m := w'\<rparr>"
  have "catalog_ok disk_names_of any_rows 4068 w' (catalog_m m)"
    using i(4,6) u(3) by (intro catalog_ok_cong [OF tm_invD(2) [OF inv]]) auto
  then have "tm_inv mc ?m" using e tm_invD(4) [OF inv] by (simp add: tm_inv_def)
  moreover have tab: "table_of ?m = table_of m" using e(2) by (simp add: table_of_def fun_eq_iff)
  have "table_contents ?m = (table_contents m)(n := table_contents ?m n)"
  proof (rule contents_step)
    show "any_rows (factories_m ?m) t' = any_rows ?w t'" if "n' \<noteq> n" "table_of m n' = Some t'" for n' t'
      using that table_of_inj [OF inv that(2), of n] t i(6) by auto
  qed (simp add: tab)
  then have "table_contents ?m = (table_contents m)(n \<mapsto> pre @ (rid, row) # post)"
    using contents_eq(1) [of ?m n t] tab t i(6) by simp
  ultimately show ?thesis using i(1,3,5) by (auto simp: Let_def)
qed

lemma execute_Insert_missing:
  assumes inv: "tm_inv mc m" and room: "any_room (factories_m m) k" and rs: "table_contents m (ins_table_name stmt) = None"
  shows "\<exists>m'. execute_Insert fmt mc m stmt = Inr (failed, m') \<and> tm_inv mc m' \<and> catalog_m m' = catalog_m m \<and>
    table_contents m' = table_contents m \<and> any_room (factories_m m') k"
proof -
  from GetTable_missing [OF inv room rs] obtain m' where "tm_GetTable mc m (ins_table_name stmt) = Inr (None, m')" "tm_inv mc m'"
    "catalog_m m' = catalog_m m" "table_contents m' = table_contents m" "any_room (factories_m m') k" .
  then show ?thesis by (simp add: execute_Insert_def)
qed

lemma execute_Insert_ok:
  assumes inv: "tm_inv mc m" and room: "any_room (factories_m m) (Suc k)" and rs: "table_contents m (ins_table_name stmt) = Some rs"
    and schema: "schema = ti_schema (the (listed m (ins_table_name stmt)))"
    and len: "\<forall>vals. values_from_text fmt schema (ins_values stmt) = Some vals \<longrightarrow> length (row_bytes vals) \<le> 4068"
  defines "vals \<equiv> values_from_text fmt schema (ins_values stmt)"
  shows "\<exists>res m'. execute_Insert fmt mc m stmt = Inr (res, m') \<and> tm_inv mc m' \<and> catalog_m m' = catalog_m m \<and> any_room (factories_m m') k \<and>
    (if length (ins_values stmt) = length schema \<and> vals \<noteq> None \<and> fits_schema schema (the vals)
     then res = finished True \<and> (\<exists>pre post rid. rs = pre @ post \<and>
       table_contents m' = (table_contents m)(ins_table_name stmt \<mapsto> pre @ (rid, row_bytes (the vals)) # post))
     else res = failed \<and> table_contents m' = table_contents m)"
proof -
  let ?n = "ins_table_name stmt"
  obtain t m1 where m1: "tm_GetTable mc m ?n = Inr (Some \<lparr>storage_m = t, schema_m = schema\<rparr>, m1)" "tm_inv mc m1" "catalog_m m1 = catalog_m m"
    "table_contents m1 = table_contents m" "table_of m1 = table_of m" "table_of m ?n = Some t" "any_rows (factories_m m1) t = Some rs"
    "any_room (factories_m m1) (Suc k)"
    by (rule GetTable_contents [OF inv room rs, folded schema])
  have henv: "\<forall>n. env_ok (mc_heap mc) n" using engines_okD(4) [OF tm_invD(1) [OF inv]] .
  have r1: "any_room (factories_m m1) k" using any.room_le [OF m1(8)] by simp
  show ?thesis
  proof (cases "length (ins_values stmt) = length schema \<and> vals \<noteq> None")
    case False
    then have "execute_Insert fmt mc m stmt = Inr (failed, m1)" using m1(1) by (auto simp: execute_Insert_def vals_def)
    then show ?thesis using False m1(2-4) r1 by auto
  next
    case True
    then obtain v where v: "values_from_text fmt schema (ins_values stmt) = Some v" "vals = Some v" by (auto simp: vals_def)
    have run: "execute_Insert fmt mc m stmt = catching m1 (andthen (TableHandle_insert_row (mc_heap mc) (any_ops mc) (factories_m m1)
        \<lparr>storage_m = t, schema_m = schema\<rparr> v) (\<lambda>(_, w). Inr (finished True, m1\<lparr>factories_m := w\<rparr>)))"
      using m1(1) True v(1) by (simp add: execute_Insert_def)
    show ?thesis
    proof (cases "fits_schema schema v")
      case False
      then have "TableHandle_insert_row (mc_heap mc) (any_ops mc) (factories_m m1) \<lparr>storage_m = t, schema_m = schema\<rparr> v = Inl RuntimeError"
        using BuildRow_result [OF henv, of schema v] by (simp add: TableHandle_insert_row_def)
      then have "execute_Insert fmt mc m stmt = Inr (failed, m1)" unfolding run by (simp add: catching_def std_exception_def)
      then show ?thesis using False v(2) m1(2-4) r1 by auto
    next
      case fits: True
      have "length (row_bytes v) \<le> 4068" "table_of m1 ?n = Some t" using len v(1) m1(5,6) by simp_all
      from user_insert [OF m1(2) this(2) m1(7,8) this(1)]
      obtain rid w' pre post where i: "tb_insert_row (any_ops mc) (factories_m m1) t (row_bytes v) = Inr (rid, w')" "rs = pre @ post"
        "tm_inv mc (m1\<lparr>factories_m := w'\<rparr>)" "any_room w' k"
        "table_contents (m1\<lparr>factories_m := w'\<rparr>) = (table_contents m1)(?n \<mapsto> pre @ (rid, row_bytes v) # post)"
        by (auto simp: Let_def)
      have "execute_Insert fmt mc m stmt = Inr (finished True, m1\<lparr>factories_m := w'\<rparr>)"
        unfolding run using insert_row_fits [OF henv, where h = "\<lparr>storage_m = t, schema_m = schema\<rparr>" and vals = v and ops = "any_ops mc" and w = "factories_m m1"] fits i(1) by (simp add: catching_def)
      then show ?thesis using True fits v(2) i(2-5) m1(3,4) by auto
    qed
  qed
qed

section \<open>Refinement\<close>

lemma rel_option_None: "rel_option R x y \<Longrightarrow> x = None \<longleftrightarrow> y = None"
  by (cases x; cases y) simp_all

lemma represents_rows:
  assumes "represents m db"
  shows "table_contents m n = None \<longleftrightarrow> db_rows db n = None"
    and "table_contents m n = Some rs \<Longrightarrow> \<exists>vs. db_rows db n = Some (mset vs) \<and> map snd rs = map row_bytes vs \<and>
      (\<forall>v \<in> set vs. fits_schema (db_schema db n) v)"
proof -
  have r: "rel_option (holds_rows (db_schema db n)) (table_contents m n) (db_rows db n)" using assms by (simp add: represents_def)
  show "table_contents m n = None \<longleftrightarrow> db_rows db n = None" using rel_option_None [OF r] .
  show "\<exists>vs. db_rows db n = Some (mset vs) \<and> map snd rs = map row_bytes vs \<and> (\<forall>v \<in> set vs. fits_schema (db_schema db n) v)"
    if "table_contents m n = Some rs"
    using r that by (auto simp: option_rel_Some1 holds_rows_def)
qed

definition implements :: "Machine \<Rightarrow> nat \<Rightarrow> (ExecutionResult \<times> TableManager) outcome \<Rightarrow> sql_result \<times> sql_db \<Rightarrow> bool" where
  "implements mc k r s \<longleftrightarrow> (\<exists>res m'. r = Inr (res, m') \<and> tm_inv mc m' \<and> any_room (factories_m m') k \<and> result_of res (fst s) \<and> represents m' (snd s))"

lemma select_refines:
  assumes inv: "tm_inv mc m" and rep: "represents m db" and ok: "sql_ok fmt (Select stmt) db" and room: "any_room (factories_m m) k"
  shows "implements mc k (execute_Select fmt mc m stmt) (sql_step fmt (Select stmt) db)"
proof (cases "table_contents m (sel_table_name stmt)")
  case None
  then show ?thesis
    using execute_Select_missing [OF inv room None, of fmt] represents_rows(1) [OF rep, of "sel_table_name stmt"] represents_eq [OF rep]
    by (auto simp: implements_def)
next
  case (Some rs)
  let ?schema = "db_schema db (sel_table_name stmt)"
  from represents_rows(2) [OF rep Some] obtain vs where vs: "db_rows db (sel_table_name stmt) = Some (mset vs)" "map snd rs = map row_bytes vs"
    "\<forall>v \<in> set vs. fits_schema ?schema v" by blast
  have "?schema = ti_schema (the (listed m (sel_table_name stmt)))" "query_typed fmt ?schema stmt" using rep ok vs(1) by (simp_all add: represents_def)
  from execute_Select_ok [OF inv room Some vs(2,3) this]
  obtain m' where m': "execute_Select fmt mc m stmt = Inr (\<lparr>er_success = True, er_rows = Some (map row_bytes (query fmt ?schema stmt vs)),
      er_schema = Some (result_schema ?schema stmt)\<rparr>, m')" "tm_inv mc m'" "catalog_m m' = catalog_m m" "table_contents m' = table_contents m"
    "any_room (factories_m m') k" by blast
  have "mset (query fmt ?schema stmt vs) = image_mset (chosen ?schema stmt) (filter_mset (where_true fmt ?schema stmt) (mset vs))"
    by (simp add: query_def)
  moreover have "\<forall>v \<in> set (query fmt ?schema stmt vs). fits_schema (result_schema ?schema stmt) v"
    using chosen_fits \<open>query_typed fmt ?schema stmt\<close> vs(3) by (auto simp: query_def)
  ultimately show ?thesis using m' vs(1) represents_eq [OF rep] by (auto simp: implements_def result_of_def Let_def simp del: map_map)
qed

lemma insert_refines:
  assumes inv: "tm_inv mc m" and rep: "represents m db" and ok: "sql_ok fmt (Insert stmt) db" and room: "any_room (factories_m m) (Suc k)"
  shows "implements mc k (execute_Insert fmt mc m stmt) (sql_step fmt (Insert stmt) db)"
proof (cases "table_contents m (ins_table_name stmt)")
  case None
  then show ?thesis
    using execute_Insert_missing [OF inv any.room_le [OF room, of k] None, of fmt] represents_rows(1) [OF rep, of "ins_table_name stmt"] represents_eq [OF rep]
    by (auto simp: implements_def)
next
  case (Some rs)
  let ?n = "ins_table_name stmt"
  let ?schema = "db_schema db ?n"
  let ?vals = "values_from_text fmt ?schema (ins_values stmt)"
  from represents_rows(2) [OF rep Some] obtain vs where vs: "db_rows db ?n = Some (mset vs)" "map snd rs = map row_bytes vs"
    "\<forall>v \<in> set vs. fits_schema ?schema v" by blast
  have s: "?schema = ti_schema (the (listed m ?n))" using rep by (simp add: represents_def)
  have "\<forall>vals. values_from_text fmt ?schema (ins_values stmt) = Some vals \<longrightarrow> length (row_bytes vals) \<le> 4068" using ok by simp
  from execute_Insert_ok [OF inv room Some s this]
  obtain res m' where m': "execute_Insert fmt mc m stmt = Inr (res, m')" "tm_inv mc m'" "catalog_m m' = catalog_m m" "any_room (factories_m m') k"
    and cs: "if length (ins_values stmt) = length ?schema \<and> ?vals \<noteq> None \<and> fits_schema ?schema (the ?vals)
     then res = finished True \<and> (\<exists>pre post rid. rs = pre @ post \<and>
       table_contents m' = (table_contents m)(?n \<mapsto> pre @ (rid, row_bytes (the ?vals)) # post))
     else res = failed \<and> table_contents m' = table_contents m"
    by (elim exE conjE) (rule that; assumption)
  show ?thesis
  proof (cases "length (ins_values stmt) = length ?schema \<and> ?vals \<noteq> None \<and> fits_schema ?schema (the ?vals)")
    case True
    then obtain pre post rid where p: "res = finished True" "rs = pre @ post"
      "table_contents m' = (table_contents m)(?n \<mapsto> pre @ (rid, row_bytes (the ?vals)) # post)" using cs by auto
    have "holds_rows ?schema (pre @ post) (mset vs)" using vs p(2) unfolding holds_rows_def by blast
    then have "holds_rows ?schema (pre @ (rid, row_bytes (the ?vals)) # post) (add_mset (the ?vals) (mset vs))" using holds_rows_add True by blast
    then have "represents m' (db\<lparr>db_rows := (db_rows db)(?n \<mapsto> add_mset (the ?vals) (mset vs))\<rparr>)"
      using rep m'(3) p(3) by (auto simp: represents_def)
    then show ?thesis using True m' p(1) vs(1) by (simp add: implements_def Let_def)
  next
    case False
    then have "res = failed" "table_contents m' = table_contents m" using cs by auto
    then show ?thesis using False m' vs(1) represents_eq [OF rep] by (auto simp: implements_def Let_def)
  qed
qed

lemma create_refines:
  assumes inv: "tm_inv mc m" and rep: "represents m db" and ok: "sql_ok fmt (CreateTable stmt) db"
    and room: "any_room (factories_m m) (3 + length (cre_columns stmt) + k)"
  shows "implements mc k (execute_CreateTable mc m stmt) (sql_step fmt (CreateTable stmt) db)"
proof (cases "listed m (cre_table_name stmt)")
  case None
  have c: "cre_table_name stmt \<notin> catalog_names" "table_ok 4068 (cre_table_name stmt) \<lparr>ti_type = InMemory, ti_schema = cre_columns stmt\<rparr>"
    using ok by simp_all
  from tm_CreateTable_ok [OF inv None c room [unfolded add.assoc]]
  obtain m' where m': "tm_CreateTable mc m (cre_table_name stmt) InMemory (cre_columns stmt) = Inr (True, m')" "tm_inv mc m'" "any_room (factories_m m') k"
    "listed m' = (listed m)(cre_table_name stmt \<mapsto> \<lparr>ti_type = InMemory, ti_schema = cre_columns stmt\<rparr>)"
    "table_contents m' = (table_contents m)(cre_table_name stmt \<mapsto> [])" by auto
  have "rel_option (holds_rows (cre_columns stmt)) (Some []) (Some {#})" by (rule option.rel_intros(2)) (simp add: holds_rows_def)
  then have "represents m' (db\<lparr>db_listed := (db_listed db)(cre_table_name stmt \<mapsto> \<lparr>ti_type = InMemory, ti_schema = cre_columns stmt\<rparr>),
      db_rows := (db_rows db)(cre_table_name stmt \<mapsto> {#})\<rparr>)"
    by (intro represents_upd [OF rep m'(4,5)]) simp
  then show ?thesis using None m' rep by (simp add: implements_def execute_CreateTable_def represents_def)
next
  case (Some ti)
  then show ?thesis
    using inv rep any.room_le [OF room, of k]
    by (auto simp: implements_def execute_CreateTable_def tm_CreateTable_def catalog_TableExists_def represents_def)
qed

lemma drop_refines:
  assumes inv: "tm_inv mc m" and rep: "represents m db" and ok: "sql_ok fmt (DropTable stmt) db" and room: "any_room (factories_m m) k"
  shows "implements mc k (execute_DropTable mc m stmt) (sql_step fmt (DropTable stmt) db)"
proof (cases "listed m (drp_table_name stmt)")
  case None
  then show ?thesis
    using inv rep room by (auto simp: implements_def execute_DropTable_def tm_DeleteTable_def catalog_TableExists_def represents_def)
next
  case (Some ti)
  have c: "drp_table_name stmt \<notin> catalog_names" "ti_type ti = InMemory" using ok rep Some by (auto simp: represents_def)
  from tm_DeleteTable_ok [OF inv Some c(1) room] c(2)
  obtain m' where m': "tm_DeleteTable mc m (drp_table_name stmt) = Inr (table_contents m (drp_table_name stmt) \<noteq> None, m')" "tm_inv mc m'"
    "any_room (factories_m m') k" "listed m' = (listed m)(drp_table_name stmt := None)"
    "table_contents m' = (table_contents m)(drp_table_name stmt := None)" by auto
  have "represents m' (db\<lparr>db_listed := (db_listed db)(drp_table_name stmt := None), db_rows := (db_rows db)(drp_table_name stmt := None)\<rparr>)"
    using rep m'(4,5) by (intro represents_upd) simp_all
  then show ?thesis
    using Some m' rep represents_rows(1) [OF rep, of "drp_table_name stmt"] by (auto simp: implements_def execute_DropTable_def represents_def)
qed

lemma execute_implements:
  assumes "tm_inv mc m" and "represents m db" and "sql_ok fmt stmt db" and "any_room (factories_m m) (sql_cost stmt + k)"
  shows "implements mc k (execute fmt mc m stmt) (sql_step fmt stmt db)"
proof (cases stmt)
  case (Select s)
  then show ?thesis using select_refines [OF assms(1,2)] assms(3,4) by simp
next
  case (Insert s)
  then show ?thesis using insert_refines [OF assms(1,2)] assms(3,4) by simp
next
  case (CreateTable s)
  then show ?thesis using create_refines [OF assms(1,2)] assms(3,4) by simp
next
  case (DropTable s)
  then show ?thesis using drop_refines [OF assms(1,2)] assms(3,4) by simp
next
  case (Delete s)
  then show ?thesis using assms by (simp add: implements_def execute_Delete_def)
next
  case (Update s)
  then show ?thesis using assms by (simp add: implements_def execute_Update_def)
qed

section \<open>Sequences of statements\<close>

primrec sql_run :: "f64_text \<Rightarrow> SqlStmt list \<Rightarrow> sql_db \<Rightarrow> sql_result list \<times> sql_db" where
  "sql_run fmt [] db = ([], db)"
| "sql_run fmt (stmt # stmts) db =
     (let (r, db) = sql_step fmt stmt db; (rs, db) = sql_run fmt stmts db in (r # rs, db))"

primrec sql_run_ok :: "f64_text \<Rightarrow> SqlStmt list \<Rightarrow> sql_db \<Rightarrow> bool" where
  "sql_run_ok fmt [] db \<longleftrightarrow> True"
| "sql_run_ok fmt (stmt # stmts) db \<longleftrightarrow> sql_ok fmt stmt db \<and> sql_run_ok fmt stmts (snd (sql_step fmt stmt db))"

definition printed :: "f64_text \<Rightarrow> ExecutionResult list \<Rightarrow> string" where
  "printed fmt ress = concat (map (\<lambda>res. projr (ResultPrinter_print fmt res)) ress)"

lemma run_statements_ok:
  assumes "tm_inv mc m" and "represents m db" and "sql_run_ok fmt stmts db" and "any_room (factories_m m) (sum_list (map sql_cost stmts) + k)"
  shows "\<exists>ress m'. run_statements fmt mc stmts out m = Inr (out @ printed fmt ress, m') \<and> list_all2 result_of ress (fst (sql_run fmt stmts db)) \<and>
    tm_inv mc m' \<and> any_room (factories_m m') k \<and> represents m' (snd (sql_run fmt stmts db))"
  using assms
proof (induction stmts arbitrary: m db out)
  case Nil
  then show ?case by (intro exI [of _ "[]"] exI [of _ m]) (simp add: printed_def)
next
  case (Cons stmt stmts)
  have "any_room (factories_m m) (sql_cost stmt + (sum_list (map sql_cost stmts) + k))" using Cons.prems(4) by (simp add: add.assoc)
  from execute_implements [OF Cons.prems(1,2) _ this, of fmt] Cons.prems(3)
  obtain res m1 where m1: "execute fmt mc m stmt = Inr (res, m1)" "tm_inv mc m1" "any_room (factories_m m1) (sum_list (map sql_cost stmts) + k)"
    "result_of res (fst (sql_step fmt stmt db))" "represents m1 (snd (sql_step fmt stmt db))" by (auto simp: implements_def)
  obtain p where p: "ResultPrinter_print fmt res = Inr p" using result_prints [OF m1(4)] by blast
  have "sql_run_ok fmt stmts (snd (sql_step fmt stmt db))" using Cons.prems(3) by simp
  from Cons.IH [OF m1(2,5) this m1(3), of "out @ p"]
  obtain ress m' where m': "run_statements fmt mc stmts (out @ p) m1 = Inr ((out @ p) @ printed fmt ress, m')"
    "list_all2 result_of ress (fst (sql_run fmt stmts (snd (sql_step fmt stmt db))))" "tm_inv mc m'" "any_room (factories_m m') k"
    "represents m' (snd (sql_run fmt stmts (snd (sql_step fmt stmt db))))" by blast
  have "run_statements fmt mc (stmt # stmts) out m = Inr (out @ printed fmt (res # ress), m')"
    using m1(1) p m'(1) by (simp add: printed_def)
  then show ?case using m1(4) m'(2-5) by (intro exI [of _ "res # ress"] exI [of _ m']) (simp add: case_prod_beta Let_def)
qed

text \<open>
  An interactive session runs the statements of its lines one line after the other, up to the line that
  ends it; lines that are empty or do not parse change nothing.
\<close>

fun session_stmts :: "(string \<Rightarrow> SqlStmt list option) \<Rightarrow> string list \<Rightarrow> SqlStmt list" where
  "session_stmts parse [] = []"
| "session_stmts parse (input # inputs) =
     (if input = [] then session_stmts parse inputs
      else if input = ''quit'' \<or> input = ''exit'' then []
      else (case parse input of None \<Rightarrow> [] | Some stmts \<Rightarrow> stmts) @ session_stmts parse inputs)"

lemma sql_run_append:
  "sql_run_ok fmt (ss @ ts) db \<longleftrightarrow> sql_run_ok fmt ss db \<and> sql_run_ok fmt ts (snd (sql_run fmt ss db))"
  "snd (sql_run fmt (ss @ ts) db) = snd (sql_run fmt ts (snd (sql_run fmt ss db)))"
  by (induction ss arbitrary: db) (auto simp: case_prod_beta Let_def)

lemma repl_ok:
  assumes "tm_inv mc m" and "represents m db" and "sql_run_ok fmt (session_stmts parse inputs) db"
    and "any_room (factories_m m) (sum_list (map sql_cost (session_stmts parse inputs)) + k)"
  shows "\<exists>out' m'. repl fmt mc parse inputs out m = Inr (out', m') \<and> tm_inv mc m' \<and> any_room (factories_m m') k \<and>
    represents m' (snd (sql_run fmt (session_stmts parse inputs) db))"
  using assms
proof (induction inputs arbitrary: m db out)
  case (Cons input inputs)
  let ?rest = "session_stmts parse inputs"
  consider (skip) "input = []" | (quit) "input = ''quit'' \<or> input = ''exit''" | (line) "input \<noteq> []" "input \<noteq> ''quit''" "input \<noteq> ''exit''"
    by blast
  then show ?case
  proof cases
    case skip
    then show ?thesis using Cons.IH [of m db out] Cons.prems by simp
  next
    case quit
    then show ?thesis using Cons.prems by (auto simp: case_prod_beta)
  next
    case line
    show ?thesis
    proof (cases "parse input")
      case None
      then show ?thesis using line Cons.IH [of m db "out @ ''Unknown command or invalid SQL'' @ newline"] Cons.prems by simp
    next
      case (Some stmts)
      have ss: "session_stmts parse (input # inputs) = stmts @ ?rest" using line Some by simp
      have ok: "sql_run_ok fmt stmts db" "sql_run_ok fmt ?rest (snd (sql_run fmt stmts db))"
        using Cons.prems(3) unfolding ss sql_run_append(1) by simp_all
      have room: "any_room (factories_m m) (sum_list (map sql_cost stmts) + (sum_list (map sql_cost ?rest) + k))"
        using Cons.prems(4) unfolding ss by (simp add: add.assoc)
      let ?out = "out @ ''Recieved '' @ nat_to_string (length stmts) @ '' queries'' @ newline"
      from run_statements_ok [OF Cons.prems(1,2) ok(1) room, of ?out]
      obtain ress m1 where m1: "run_statements fmt mc stmts ?out m = Inr (?out @ printed fmt ress, m1)" "tm_inv mc m1"
        "any_room (factories_m m1) (sum_list (map sql_cost ?rest) + k)" "represents m1 (snd (sql_run fmt stmts db))" by blast
      from Cons.IH [OF m1(2,4) ok(2) m1(3), of "?out @ printed fmt ress"]
      show ?thesis unfolding ss sql_run_append(2) using line Some m1(1) by simp
    qed
  qed
qed (auto simp: case_prod_beta)

section \<open>Shutting down and starting again\<close>

lemma shutdown_ok:
  assumes inv: "tm_inv mc m"
  obtains p d where "on_disk_m (factories_m m) = Some p" "PageBufferManager_destroy (mc_io mc) p = Inr d" "disk_pages d = contents p"
    "shutdown mc m = Inr (fs d)" "files_ok (fs d)"
proof -
  note ok = tm_invD(1) [OF inv]
  obtain p where p: "on_disk_m (factories_m m) = Some p" "disk_inv (mc_io mc) p"
    using engines_okD(1) [OF ok] by (auto simp: disk_finv_def any_inv_def)
  note i = disk_invD [OF p(2)]
  obtain d where d: "PageBufferManager_destroy (mc_io mc) p = Inr d" "disk_ok d" "disk_pages d = contents p" "sizes d = pool_sizes p"
    using pool_destroy_ok [OF i(4,1)] by blast
  have "sizes d INVALID_FILE_ID = None" using d(4) p(2) by (simp add: disk_inv_def)
  then have "files_ok (fs d)" using d(2) by (auto simp: files_ok_def disk_ok_def sizes_def)
  then show thesis using that [OF p(1) d(1,3)] p(1) d(1) by (simp add: shutdown_def)
qed

lemma restart_ok:
  assumes inv: "tm_inv mc m" and buf: "\<forall>i. length (buffer i) = 4096"
  shows "\<exists>files m'. shutdown mc m = Inr files \<and> Executor_new (mc\<lparr>mc_files := files, mc_buffer := buffer\<rparr>) = Inr m' \<and>
    tm_inv (mc\<lparr>mc_files := files, mc_buffer := buffer\<rparr>) m' \<and> listed m' = listed m \<and>
    (\<forall>n. table_contents m' n = (if map_option ti_type (listed m n) = Some Disk then table_contents m n else None))"
proof -
  obtain p d where d: "on_disk_m (factories_m m) = Some p" "PageBufferManager_destroy (mc_io mc) p = Inr d" "disk_pages d = contents p"
    "shutdown mc m = Inr (fs d)" "files_ok (fs d)" using shutdown_ok [OF inv] .
  let ?mc = "mc\<lparr>mc_files := fs d, mc_buffer := buffer\<rparr>"
  note e = engines_okD [OF tm_invD(1) [OF inv]]
  have "disk_inv (mc_io mc) p" using e(3) d(1) by (simp add: any_inv_def)
  then have "machine_ok ?mc" using d(5) buf e(4) disk_invD(1) by (simp add: machine_ok_def)
  from TableManager_restart [OF inv d(1-3) this] show ?thesis using d(4) by (intro exI [of _ "fs d"]) (auto simp: Executor_new_def)
qed

end
