(* ===== verification/Engine_Claims.thy ===== *)
theory Engine_Claims
  imports Executor_Spec
begin

text \<open>
  The claims about the table factories, the catalog, the table manager, the executor and whole runs of
  the shell, with a machine on an empty directory as the concrete input of the witnesses.
\<close>

section \<open>A machine on an empty directory\<close>

text \<open>A random source that draws the least free file id there is.\<close>

definition file_ids :: "nat \<Rightarrow> file_id_t list" where
  "file_ids n = map word_of_nat [0..<n]"

definition free_id :: "(file_id_t \<Rightarrow> bool) \<Rightarrow> file_id_t" where
  "free_id taken = (case List.find (\<lambda>f. \<not> taken f \<and> \<not> IsReservedFileId f \<and> f \<noteq> INVALID_FILE_ID) (file_ids (2 ^ LENGTH(32))) of
     Some f \<Rightarrow> f | None \<Rightarrow> 0)"

lemma file_ids_all: "unat f < n \<Longrightarrow> f \<in> set (file_ids n)"
  by (auto simp: file_ids_def image_iff intro!: bexI [of _ "unat f"])

lemma free_id_ok:
  assumes "\<not> taken f" and "\<not> IsReservedFileId f" and "f \<noteq> INVALID_FILE_ID"
  shows "\<not> taken (free_id taken) \<and> \<not> IsReservedFileId (free_id taken) \<and> free_id taken \<noteq> INVALID_FILE_ID"
proof -
  let ?ok = "\<lambda>f. \<not> taken f \<and> \<not> IsReservedFileId f \<and> f \<noteq> INVALID_FILE_ID"
  have "f \<in> set (file_ids (2 ^ LENGTH(32)))" by (rule file_ids_all) (rule unsigned_less)
  then have "List.find ?ok (file_ids (2 ^ LENGTH(32))) \<noteq> None" using assms unfolding find_None_iff by blast
  then obtain g where g: "List.find ?ok (file_ids (2 ^ LENGTH(32))) = Some g" by blast
  then have "?ok g" unfolding find_Some_iff by (elim exE conjE) (hypsubst, intro conjI)
  moreover have "free_id taken = g" unfolding free_id_def g by (simp only: option.case)
  ultimately show ?thesis by simp
qed

definition demo_machine :: Machine where
  "demo_machine = \<lparr>mc_heap = \<lparr>env_ok = (\<lambda>_. True), env_fresh = (\<lambda>_. 0)\<rparr>,
     mc_io = lucky_env\<lparr>io_random := (\<lambda>taken _. free_id taken)\<rparr>,
     mc_buffer = (\<lambda>_. replicate 4096 0), mc_files = Map.empty\<rparr>"

lemma demo_finds_ids: "finds_ids (mc_io demo_machine)"
  unfolding finds_ids_def
proof (intro allI impI, elim conjE)
  fix d and f :: file_id_t
  assume f: "\<not> IsReservedFileId f" "f \<noteq> INVALID_FILE_ID" "\<not> FileExists d f"
  let ?g = "free_id (FileExists d)"
  have g: "\<not> FileExists d ?g \<and> \<not> IsReservedFileId ?g \<and> ?g \<noteq> INVALID_FILE_ID"
    using free_id_ok [of "FileExists d" f] f by simp
  have "fst (CreateFile (mc_io demo_machine) d) = Inr ?g"
    unfolding CreateFile_def using g
    by (subst create_retry.simps) (simp add: demo_machine_def lucky_env_def MAX_FILE_ID_RETRIES_def FileExists_def Let_def)
  then show "\<exists>g. fst (CreateFile (mc_io demo_machine) d) = Inr g \<and> g \<noteq> INVALID_FILE_ID" using g by blast
qed

lemma demo_machine_ok:
  "machine_ok demo_machine" "roomy_files (mc_files demo_machine)" "mc_files demo_machine n = None"
  by (simp_all add: machine_ok_def demo_machine_def files_ok_def roomy_files_def no_fault_def lucky_env_def)

lemma demo_ids: "(1 :: file_id_t) \<noteq> 2"
  "h \<in> {1, 2} \<Longrightarrow> \<not> IsReservedFileId h \<and> h \<noteq> INVALID_FILE_ID \<and> mc_files demo_machine (GetFilePath h) = None"
  using demo_machine_ok(3) by (auto simp: IsReservedFileId_def DISK_TABLE_MAPPING_FILE_ID_def INVALID_FILE_ID_def)

lemma demo_start:
  obtains m where "Executor_new demo_machine = Inr m" "tm_inv demo_machine m" "listed m = initial_info" "table_contents m = Map.empty"
    "any_room (factories_m m) 100000"
  using TableManager_fresh [OF demo_machine_ok(1) demo_finds_ids demo_machine_ok(2,3) demo_ids] unfolding Executor_new_def by blast

lemma demo_factory:
  obtains p where "disk_inv (mc_io demo_machine) p" "mapping_inv p" "disk_names p = Map.empty" "disk_room p 2" "disk_can_create (mc_io demo_machine) p"
proof -
  have b: "\<And>i. length (mc_buffer demo_machine i) = 4096" "files_ok (mc_files demo_machine)" "no_fault (mc_io demo_machine)"
    using demo_machine_ok(1) by (simp_all add: machine_ok_def)
  obtain p where p: "disk_inv (mc_io demo_machine) p" "mapping_inv p" "disk_names p = Map.empty" "disk_room p (2 ^ 17 - 1)" "untouched p"
    "\<forall>g. g \<noteq> DISK_TABLE_MAPPING_FILE_ID \<and> mc_files demo_machine (GetFilePath g) = None \<longrightarrow> pool_sizes p g = None"
    using DiskTableFactory_fresh [where buffer = "mc_buffer demo_machine", OF b demo_machine_ok(2,3)] by blast
  have "disk_room p 2" using disk_roomy.room_le [OF p(4), of 2] by simp
  moreover have "disk_can_create (mc_io demo_machine) p"
    using untouched_can_create [OF p(5) demo_finds_ids, of 1] demo_ids(2) [of 1] p(6) by (simp add: IsReservedFileId_def)
  ultimately show thesis using that p(1-3) by blast
qed

definition demo_text :: f64_text where
  "demo_text = \<lparr>f64_from_chars = (\<lambda>s. (Inl invalid_argument, s)), f64_format = (\<lambda>_. [])\<rparr>"

definition demo_create :: SqlStmt where
  "demo_create = CreateTable \<lparr>cre_table_name = ''t'', cre_columns = [\<lparr>ra_name = ''id'', ra_type = 0\<rparr>]\<rparr>"

abbreviation initial_db :: sql_db where
  "initial_db \<equiv> \<lparr>db_listed = initial_info, db_rows = Map.empty\<rparr>"

lemma initial_represents: "listed m = initial_info \<Longrightarrow> table_contents m = Map.empty \<Longrightarrow> represents m initial_db"
  by (simp add: represents_def)

lemma demo_create_step:
  "sql_ok demo_text demo_create initial_db" "sql_cost demo_create = 4" "fst (sql_step demo_text demo_create initial_db) = (True, None)"
  "db_listed (snd (sql_step demo_text demo_create initial_db)) ''t'' = Some \<lparr>ti_type = InMemory, ti_schema = [\<lparr>ra_name = ''id'', ra_type = 0\<rparr>]\<rparr>"
  by (simp_all add: demo_create_def table_ok_def IsValidTypeId_def alternatives_def initial_info_def)

text \<open>A session: a table, a row, a row that is not a number, and a query.\<close>

abbreviation demo_schema :: Schema where
  "demo_schema \<equiv> [\<lparr>ra_name = ''id'', ra_type = 0\<rparr>]"

definition demo_insert :: "string \<Rightarrow> SqlStmt" where
  "demo_insert v = Insert \<lparr>ins_table_name = ''t'', ins_columns = [], ins_values = [v]\<rparr>"

definition demo_select :: SqlStmt where
  "demo_select = Select \<lparr>sel_table_name = ''t'', sel_columns = [], sel_select_all = True, sel_where_clause = None\<rparr>"

definition demo_stmts :: "SqlStmt list" where
  "demo_stmts = [demo_create, demo_insert ''5'', demo_insert ''x'', demo_select]"

definition demo_db :: "Value list multiset \<Rightarrow> sql_db" where
  "demo_db V = \<lparr>db_listed = initial_info(''t'' \<mapsto> \<lparr>ti_type = InMemory, ti_schema = demo_schema\<rparr>), db_rows = [''t'' \<mapsto> V]\<rparr>"

lemma demo_values:
  "values_from_text demo_text demo_schema [''5''] = Some [I32 5]"
  "values_from_text demo_text demo_schema [''x''] = None"
  by code_simp+

lemma demo_steps:
  "sql_step demo_text demo_create initial_db = ((True, None), demo_db {#})"
  "sql_step demo_text (demo_insert ''5'') (demo_db {#}) = ((True, None), demo_db {#[I32 5]#})"
  "sql_step demo_text (demo_insert ''x'') (demo_db V) = ((False, None), demo_db V)"
  "sql_step demo_text demo_select (demo_db V) = ((True, Some (demo_schema, V)), demo_db V)"
  "sql_ok demo_text (demo_insert ''5'') (demo_db V)" "sql_ok demo_text (demo_insert ''x'') (demo_db V)"
  "sql_ok demo_text demo_select (demo_db V)"
  subgoal by (simp add: demo_create_def demo_db_def initial_info_def)
  subgoal by (simp add: demo_insert_def demo_db_def demo_values fits_schema_def Let_def del: values_from_text.simps)
  subgoal by (simp add: demo_insert_def demo_db_def demo_values Let_def del: values_from_text.simps)
  subgoal by (simp add: demo_select_def demo_db_def where_true_def [abs_def] chosen_def [abs_def] result_schema_def Let_def)
  subgoal by (simp add: demo_insert_def demo_db_def demo_values Let_def del: values_from_text.simps)
  subgoal by (simp add: demo_insert_def demo_db_def demo_values Let_def del: values_from_text.simps)
  subgoal by (simp add: demo_select_def demo_db_def query_typed_def)
  done

lemma demo_cost: "sql_cost (demo_insert v) = 1" "sql_cost demo_select = 0"
  by (simp_all add: demo_insert_def demo_select_def)

lemma demo_session:
  "sql_run_ok demo_text demo_stmts initial_db" "sum_list (map sql_cost demo_stmts) \<le> 100000"
  "fst (sql_run demo_text demo_stmts initial_db) = [(True, None), (True, None), (False, None), (True, Some (demo_schema, {#[I32 5]#}))]"
  "snd (sql_run demo_text demo_stmts initial_db) = demo_db {#[I32 5]#}"
  using demo_create_step(1,2) demo_steps
  by (simp_all add: demo_stmts_def demo_cost del: sql_step.simps sql_ok.simps sql_cost.simps)

lemma sql_step_in_memory:
  assumes "\<forall>n ti. db_listed db n = Some ti \<longrightarrow> ti_type ti = InMemory"
  shows "\<forall>n ti. db_listed (snd (sql_run fmt stmts db)) n = Some ti \<longrightarrow> ti_type ti = InMemory"
  using assms
proof (induction stmts arbitrary: db)
  case (Cons stmt stmts)
  have "\<forall>n ti. db_listed (snd (sql_step fmt stmt db)) n = Some ti \<longrightarrow> ti_type ti = InMemory"
    using Cons.prems by (cases stmt) (auto simp: Let_def split: option.splits if_splits)
  from Cons.IH [OF this] show ?case by (simp add: case_prod_beta Let_def)
qed simp

section \<open>Claims\<close>





text \<open>
  C2: what survives a restart. Shutting the engine down writes every cached page back, and an executor
  started on the files left behind has the same catalog, with every disk table under its name with its
  columns and the same rows in the same order, although the lists of free pages are forgotten.
  In-memory tables stay in the catalog but are gone.
\<close>

theorem engine_restart:
  assumes "tm_inv mc m" and "\<forall>i. length (buffer i) = 4096"
  shows "\<exists>files m'. shutdown mc m = Inr files \<and> Executor_new (mc\<lparr>mc_files := files, mc_buffer := buffer\<rparr>) = Inr m' \<and>
    tm_inv (mc\<lparr>mc_files := files, mc_buffer := buffer\<rparr>) m' \<and> listed m' = listed m \<and>
    (\<forall>n. table_contents m' n = (if map_option ti_type (listed m n) = Some Disk then table_contents m n else None))"
  using restart_ok [OF assms] .

theorem engine_restart_witness:
  "\<exists>m files m'. Executor_new demo_machine = Inr m \<and> shutdown demo_machine m = Inr files \<and>
     Executor_new (demo_machine\<lparr>mc_files := files, mc_buffer := (\<lambda>_. replicate 4096 1)\<rparr>) = Inr m' \<and> listed m' = initial_info"
proof -
  obtain m where m: "Executor_new demo_machine = Inr m" "tm_inv demo_machine m" "listed m = initial_info" by (rule demo_start)
  have "\<forall>i :: nat. length (replicate 4096 (1 :: byte)) = 4096" by simp
  from engine_restart [OF m(2) this] show ?thesis using m(1,3) by auto
qed



text \<open>
  C6: the catalog's rows and its memory agree, and the rows are enough to rebuild it. Adding a table
  whose description fits a row records it, removing a listed table erases all its rows, neither touches
  the rows of any other table, and a catalog constructed afterwards on the same storage holds exactly
  the resulting table descriptions.
\<close>

theorem catalog_persistent:
  assumes "disk_finv henv env w" and "catalog_ok disk_names_of any_rows 4068 w c"
  shows "let ops = AnyTable_ops env; fa = DiskTableFactory_ops henv env; info = table_info_m c;
      untouched_rows = (\<lambda>w'. \<forall>t. disk_names_of w TABLE_CATALOG_TABLE_NAME \<noteq> Some t \<and> disk_names_of w COLUMN_CATALOG_TABLE_NAME \<noteq> Some t \<longrightarrow>
        any_rows w' t = any_rows w t)
    in (info n = None \<and> table_ok 4068 n \<lparr>ti_type = type, ti_schema = schema\<rparr> \<and> any_room w (Suc (length schema)) \<longrightarrow>
      (\<exists>c' w' c'' w''. AddTable henv ops w c n type schema = Inr (True, c', w') \<and>
         table_info_m c' = info(n \<mapsto> \<lparr>ti_type = type, ti_schema = schema\<rparr>) \<and> disk_names_of w' = disk_names_of w \<and> untouched_rows w' \<and>
         Catalog_new henv ops fa w' = Inr (c'', w'') \<and> table_info_m c'' = info(n \<mapsto> \<lparr>ti_type = type, ti_schema = schema\<rparr>))) \<and>
    (info n \<noteq> None \<and> any_room w 0 \<longrightarrow>
      (\<exists>c' w' c'' w''. RemoveTable ops w c n = Inr (True, c', w') \<and>
         table_info_m c' = info(n := None) \<and> disk_names_of w' = disk_names_of w \<and> untouched_rows w' \<and>
         Catalog_new henv ops fa w' = Inr (c'', w'') \<and> table_info_m c'' = info(n := None)))"
proof -
  have henv: "\<forall>n. env_ok henv n" using assms(1) by (simp add: disk_finv_def)
  have again: "\<exists>c'' w''. Catalog_new henv (AnyTable_ops env) (DiskTableFactory_ops henv env) w' = Inr (c'', w'') \<and> table_info_m c'' = table_info_m c'"
    if "disk_finv henv env w'" "catalog_ok disk_names_of any_rows 4068 w' c'" for w' c'
    using disk_factory.Catalog_reload [OF that(1), of "storage_m (table_catalog_table_m c')" "storage_m (column_catalog_table_m c')" "table_info_m c'"]
      that(2) unfolding catalog_ok_def by blast
  show ?thesis
    using disk_factory.AddTable_ok [OF assms(1,2), of n type schema 0] disk_factory.RemoveTable_ok [OF assms(1,2), of n 0] again henv
    unfolding Let_def by (intro conjI impI) (simp, metis)+
qed

lemma demo_catalog:
  assumes "tm_inv demo_machine m" and "any_room (factories_m m) 100000"
  shows "disk_finv (mc_heap demo_machine) (mc_io demo_machine) (factories_m m)"
    and "catalog_ok disk_names_of any_rows 4068 (factories_m m) (catalog_m m)" and "j \<le> 100000 \<Longrightarrow> any_room (factories_m m) j"
  using tm_invD(1,2) [OF assms(1)] any.room_le [OF assms(2)] by (simp_all add: engines_ok_def)

theorem catalog_persistent_witness:
  "\<exists>m c' w' c'' w''. Executor_new demo_machine = Inr m \<and>
     AddTable (mc_heap demo_machine) (any_ops demo_machine) (factories_m m) (catalog_m m) ''t'' Disk [] = Inr (True, c', w') \<and>
     Catalog_new (mc_heap demo_machine) (any_ops demo_machine) (DiskTableFactory_ops (mc_heap demo_machine) (mc_io demo_machine)) w' = Inr (c'', w'') \<and>
     table_info_m c'' ''t'' = Some \<lparr>ti_type = Disk, ti_schema = []\<rparr>"
proof -
  obtain m where m: "Executor_new demo_machine = Inr m" "tm_inv demo_machine m" "listed m = initial_info" "any_room (factories_m m) 100000"
    by (rule demo_start)
  note d = demo_catalog [OF m(2,4)]
  have "listed m ''t'' = None" "table_ok 4068 ''t'' \<lparr>ti_type = Disk, ti_schema = []\<rparr>" "any_room (factories_m m) (Suc (length ([] :: Schema)))"
    using m(3) d(3) [of 1] by (simp_all add: initial_info_def table_ok_def)
  then show ?thesis using m(1) catalog_persistent [OF d(1,2), of "''t''" Disk "[]"] by (auto simp: Let_def)
qed

text \<open>
  C7: the disk table factory is a map from names to disk tables. Looking a name up finds exactly the
  file created under it; creating a table under a new name draws a fresh file id and makes an empty
  table; deleting one removes its file and its mapping, and a name that is not there is refused. The
  rows of every other table, the mapping table aside, stay as they are.
\<close>

theorem disk_factory_correct:
  assumes "disk_inv env p" and "mapping_inv p" and "\<forall>n. env_ok henv n"
  shows "(\<exists>p'. disk_TableExists env p n = Inr (disk_names p n \<noteq> None, p') \<and> disk_rows p' = disk_rows p \<and> disk_names p' = disk_names p) \<and>
    (\<exists>p'. disk_GetTable env p n = Inr (disk_names p n, p') \<and> disk_rows p' = disk_rows p \<and> disk_names p' = disk_names p) \<and>
    (disk_names p n = None \<and> length n \<le> 4062 \<and> disk_room p 2 \<and> disk_can_create env p \<longrightarrow>
      (\<exists>p' f. disk_CreateTable henv env p n = Inr (True, p') \<and> disk_inv env p' \<and> mapping_inv p' \<and>
         disk_names p' = (disk_names p)(n \<mapsto> f) \<and> disk_rows p f = None \<and> disk_rows p' f = Some [] \<and>
         (\<forall>g. g \<noteq> f \<and> g \<noteq> DISK_TABLE_MAPPING_FILE_ID \<longrightarrow> disk_rows p' g = disk_rows p g))) \<and>
    (case disk_names p n of
       None \<Rightarrow> \<exists>p'. disk_DeleteTable env p n = Inr (False, p') \<and> disk_rows p' = disk_rows p
     | Some f \<Rightarrow> disk_can_drop p \<longrightarrow>
         (\<exists>p'. disk_DeleteTable env p n = Inr (True, p') \<and> disk_inv env p' \<and> mapping_inv p' \<and> disk_names p' = (disk_names p)(n := None) \<and>
            (\<forall>g. g \<noteq> f \<and> g \<noteq> DISK_TABLE_MAPPING_FILE_ID \<longrightarrow> disk_rows p' g = disk_rows p g)))"
proof -
  obtain p' where g: "GetFileId env p n = Inr (disk_names p n, p')" "disk_same p p'" using GetFileId_ok [OF assms(1,2)] by blast
  have rows: "disk_rows p' = disk_rows p" using disk_table.sameD [OF g(2) assms(1)] by simp
  note names = mapping_inv_same(2) [OF rows]
  have "\<exists>p'. disk_TableExists env p n = Inr (disk_names p n \<noteq> None, p') \<and> disk_rows p' = disk_rows p \<and> disk_names p' = disk_names p"
    "\<exists>p'. disk_GetTable env p n = Inr (disk_names p n, p') \<and> disk_rows p' = disk_rows p \<and> disk_names p' = disk_names p"
    using g(1) rows names by (auto simp: disk_TableExists_def disk_GetTable_def split: option.split)
  moreover have "disk_names p n = None \<and> length n \<le> 4062 \<and> disk_room p 2 \<and> disk_can_create env p \<longrightarrow>
      (\<exists>p' f. disk_CreateTable henv env p n = Inr (True, p') \<and> disk_inv env p' \<and> mapping_inv p' \<and>
         disk_names p' = (disk_names p)(n \<mapsto> f) \<and> disk_rows p f = None \<and> disk_rows p' f = Some [] \<and>
         (\<forall>g. g \<noteq> f \<and> g \<noteq> DISK_TABLE_MAPPING_FILE_ID \<longrightarrow> disk_rows p' g = disk_rows p g))"
    using disk_CreateTable_ok [OF assms(1,2), of n 0 henv] assms(3) by (auto simp: numeral_2_eq_2)
  moreover have "case disk_names p n of
       None \<Rightarrow> \<exists>p'. disk_DeleteTable env p n = Inr (False, p') \<and> disk_rows p' = disk_rows p
     | Some f \<Rightarrow> disk_can_drop p \<longrightarrow>
         (\<exists>p'. disk_DeleteTable env p n = Inr (True, p') \<and> disk_inv env p' \<and> mapping_inv p' \<and> disk_names p' = (disk_names p)(n := None) \<and>
            (\<forall>g. g \<noteq> f \<and> g \<noteq> DISK_TABLE_MAPPING_FILE_ID \<longrightarrow> disk_rows p' g = disk_rows p g))"
  proof (cases "disk_names p n")
    case None
    then show ?thesis using g(1) rows by (auto simp: disk_DeleteTable_def)
  next
    case (Some f)
    then show ?thesis using disk_DeleteTable_ok [OF assms(1,2) Some] by auto
  qed
  ultimately show ?thesis by blast
qed

theorem disk_factory_correct_witness:
  "\<exists>p p' p'' f. disk_inv (mc_io demo_machine) p \<and> disk_CreateTable (mc_heap demo_machine) (mc_io demo_machine) p ''t'' = Inr (True, p') \<and>
     disk_GetTable (mc_io demo_machine) p' ''t'' = Inr (Some f, p'') \<and> disk_rows p'' f = Some []"
proof -
  obtain p where p: "disk_inv (mc_io demo_machine) p" "mapping_inv p" "disk_names p = Map.empty" "disk_room p 2" "disk_can_create (mc_io demo_machine) p"
    by (rule demo_factory)
  have henv: "\<forall>n. env_ok (mc_heap demo_machine) n" using demo_machine_ok(1) by (simp add: machine_ok_def)
  obtain p' f where p': "disk_CreateTable (mc_heap demo_machine) (mc_io demo_machine) p ''t'' = Inr (True, p')" "disk_inv (mc_io demo_machine) p'"
    "mapping_inv p'" "disk_names p' = [''t'' \<mapsto> f]" "disk_rows p' f = Some []"
    using disk_factory_correct [OF p(1,2) henv, of "''t''"] p(3-5) by auto
  then show ?thesis using p(1) disk_factory_correct [OF p'(2,3) henv, of "''t''"] by auto
qed

end
