(* ===== verification/Spec2Isabelle.thy ===== *)
theory Spec2Isabelle
  imports Page_Checksum Page_Dump Pool_Threads External_Sort_Spec Query_Claims Engine_Claims
begin

text \<open>
  A verification library for yadb, a small SQL database in C++. The program is a stack: the shell
  (\<open>src/shell/main.cpp\<close>) hands the statements of an input to the executor (\<open>src/executor\<close>), which asks
  the table manager (\<open>src/table\<close>) for tables and the optimizer (\<open>src/optimizer\<close>) for a plan; the table
  manager keeps a catalog (\<open>src/catalog\<close>) in two tables of its own and makes tables through one factory
  per storage engine. The in-memory engine (\<open>src/storage/ephemeral\<close>) holds rows in a map. The disk
  engine (\<open>src/storage/on_disk\<close>) holds them in heap files: chains of slotted pages, cached by a pool of
  frames, which reads and writes the files of the disk manager.

  \<^bold>\<open>How the code is modelled.\<close> An operation is a function from the state before to the result and the
  state after; every loop is recursion. \<open>Prelude\<close> has the outcomes of a call: a value, or one of the
  ways in which C++ does not return one - a failed assertion (as in a debug build), an exception,
  undefined behaviour, a wait that nobody ends, a loop that does not end. Error returns of the code
  (\<open>std::expected\<close>, \<open>std::optional\<close>) are sums and options in the result. Integers are words of their
  width, pages are lists of bytes, \<open>std::unordered_map\<close> is an association list, virtual functions are
  records of operations over a world. What the program does not contain is a parameter: \<open>heap_env\<close>
  (whether an allocation succeeds and what fresh memory holds), \<open>io_env\<close> (faults of the file system and
  the random source of file ids), \<open>f64_text\<close> (the text form of doubles in the standard library), the
  generated parser, and \<open>Machine\<close>, which packs the first two with the working directory.

  \<^bold>\<open>Theories, bottom up\<close> (paths under \<open>src/include\<close> and \<open>src/src\<close>).

  \<^item> \<open>Prelude\<close>, \<open>Storage_Types\<close> (\<open>types.h\<close>, \<open>constants.h\<close>): outcomes, bytes and words; ids, row ids and
    reserved values.
  \<^item> \<open>Page_Format\<close> (\<open>page_format.h/.cpp\<close>, \<open>checksum.cpp\<close>): every operation on a slotted page at the byte
    level. \<open>Page_Layout\<close> has the invariant \<open>page_ok\<close> and the abstraction \<open>records\<close> and shows what
    allocation, reuse, reading, writing and deletion do to it; \<open>Page_Vacuum\<close> compaction; \<open>Page_Checksum\<close>
    that the checksum is right after an update and which corruption it finds; \<open>Heap_Page\<close>
    (\<open>heap_page.h/.cpp\<close>) the list links at the end of a page; \<open>Page_Dump\<close> the text of \<open>PrintPage\<close>.
  \<^item> \<open>External_Sort\<close>, \<open>External_Sort_Spec\<close> (\<open>external_sort.cpp\<close>): the in-place quicksort of a page's slots
    terminates, permutes the records and sorts them.
  \<^item> \<open>Codec\<close>, \<open>Datatypes\<close> (\<open>datatypes.h/.cpp\<close>), \<open>Row_Format\<close> (\<open>row_builder\<close>, \<open>row_reader\<close>): values, their bytes
    and text, rows; the interface \<open>tagged_codec\<close> carries the round trips from values to rows.
  \<^item> \<open>LRU_K_Replacer\<close>, \<open>Shared_Spinlock\<close>: the replacement policy as a function of the recorded history, and
    the reader-writer lock as a step relation with one step per atomic access.
  \<^item> \<open>Page_Store\<close>, \<open>Disk_Manager\<close> (\<open>disk_manager.cpp\<close>): the interface \<open>page_store\<close> of reading and writing
    pages, and the disk manager, which keeps it with the bytes of its files as the abstract state.
  \<^item> \<open>Buffer_Manager\<close> (\<open>page_buffer_manager.cpp\<close>, \<open>page.cpp\<close>, \<open>frame.cpp\<close>): the pool of frames. \<open>Buffer_Pool\<close>
    has its invariant \<open>pool_ok\<close> and the abstraction \<open>contents\<close>, the map from page ids to the bytes last
    written; \<open>Pool_Access\<close> the scopes in which clients fetch, change and release a page; \<open>Buffer_Claims\<close>
    that the pool is a \<open>page_store\<close> again, and the ways in which its bookkeeping goes wrong.
    \<open>Pool_Threads\<close> puts the pool, its condition variable and the frames' locks under threads that
    interleave as they like: a held page stays where it is and changes only under its exclusive lock,
    and a schedule in which a wake-up is lost.
  \<^item> \<open>Table_Interface\<close> (\<open>table.h\<close>, \<open>table_iterator.h\<close>, \<open>table_handle.cpp\<close>): the virtual functions of a table
    and the contracts \<open>cursor\<close>, \<open>table\<close> and \<open>roomy_table\<close> of an engine. \<open>Ephemeral_Table\<close> keeps them with a
    map; \<open>Disk_Table\<close> (\<open>disk_table.cpp\<close>, \<open>disk_table_iterator.cpp\<close>), \<open>Heap_File\<close> and \<open>Disk_Table_Spec\<close> keep
    them with heap files, whatever the pool evicts on the way; \<open>Disk_Table_Claims\<close> states the outcome.
  \<^item> \<open>Conditions\<close>, \<open>Query_Operators\<close> (\<open>optimizer/operators\<close>), \<open>Query_Plans\<close> (\<open>optimizer.cpp\<close>), \<open>Query_Claims\<close>:
    a well-typed condition evaluates without failure, and a plan yields the rows it should, on every
    table that keeps the contract.
  \<^item> \<open>Table_Factory\<close> (\<open>table_factory_interface.h\<close>): the interface \<open>factory\<close>. \<open>Storage_Engine\<close> puts both engines
    side by side in one world, \<open>Disk_Factory\<close>, \<open>Disk_Factory_Spec\<close> (\<open>disk_table_factory.cpp\<close>) show that the
    mapping table in file 0 is a finite map from names to files, and \<open>Storage_Factories\<close> that both
    factories keep the interface.
  \<^item> \<open>Catalog\<close>, \<open>Catalog_Spec\<close> (\<open>catalog.cpp\<close>): the catalog's rows and its memory agree, proved once for
    every factory.
  \<^item> \<open>Table_Manager\<close>, \<open>Table_Manager_Spec\<close> (\<open>table_manager.cpp\<close>), \<open>Engine_Start\<close>: the invariant \<open>tm_inv\<close> of the
    running engine, how the operations act on the listed tables and their rows, and that a start on an
    empty directory or on the files of an earlier run establishes it.
  \<^item> \<open>Result_Printer\<close> (\<open>result_printer.cpp\<close>), \<open>Executor\<close> (\<open>executor.cpp\<close>, \<open>main.cpp\<close>), \<open>Executor_Spec\<close>,
    \<open>Engine_Claims\<close>: statements, the abstract database \<open>sql_db\<close> of multisets of value lists with its
    step function \<open>sql_step\<close>, the refinement between the two, whole runs of the shell and restarts.

  \<^bold>\<open>Interfaces.\<close> The page store is provided by the disk manager and again by the buffer pool; the table
  contracts by in-memory tables, disk tables and the union of both; the factory contract by both
  factories, and by the disk factory beside in-memory tables that must not change. Clients are proved
  inside the interfaces: \<open>for_rows\<close> loops, table handles, queries and the catalog.

  \<^bold>\<open>Bounds.\<close> There is no fuel: loops that may not end (walking a chain of pages, skipping dead slots,
  pulling rows through a plan) are partial functions whose value \<open>None\<close> becomes the outcome \<open>NoReturn\<close>,
  and the theorems say that they return. The threads of
  the pool own at most \<open>k\<close> handles each with \<open>n * k < 2^31\<close>, so that no pin count leaves the range of
  \<open>int\<close>. Numbers that appear: 4096 bytes in a page, of which a row of a
  disk table can take 4068; 128 frames in the pool; 10 attempts to draw a file id; 2^20 pages in a file,
  where the code's offset computation wraps around; 2^19 pages for a file to grow in one step, since the
  growth doubles it; 2^18 pages in the chain of a table and 2^17 pages in a file at the start of a run,
  which leaves room for at least 100000 rows in every table. \<open>sql_cost\<close> counts the rows a statement may
  add to one table, catalog rows included.

  \<^bold>\<open>Not modelled, and why.\<close>

  \<^item> The SQL grammar: Flex and Bison generate the parser at build time; it is a function parameter.
  \<^item> Prompt, history and completion of the terminal library; only the lines it returns matter.
  \<^item> Concurrent use of tables and of the layers above: the code has no locking above pages. Concurrent
    use of the replacer and the disk manager is a sequence of operations, since each runs under its
    mutex. The threads of \<open>Pool_Threads\<close> do not create or grow files, and their files do not fault.
  \<^item> The messages of exceptions and of failed assertions. Error objects keep their ids and reasons.
  \<^item> \<open>RowBuilder::AllocateSpace()\<close> without a size, which nothing calls.
  \<^item> After an exception the executor catches, which pages are cached: the model goes on with the pool
    from before the calls that threw. The contents of tables are the same in both.
  \<^item> Release builds, in which a failed assertion lets the code run on.
\<close>

end
